(* ===== verification/Koffr_Prelude.thy ===== *)
theory Koffr_Prelude
  imports Main "HOL-Library.Word" "HOL-Library.Sublist" "HOL-Library.Signed_Division"
    "HOL-Library.AList"
begin

text \<open>
  What every component shares: the error values of the Go code, the result type its fallible
  functions return, and the lemma collections the component proofs use.

  A Go \<open>error\<close> is a message together with the sentinel errors it wraps: \<open>errors.Is\<close> looks at the
  second, an operator reads the first. \<open>fmt.Errorf("context: %w", err)\<close> extends the message and
  keeps what is wrapped.
\<close>

section \<open>Errors and results\<close>

datatype sentinel =
    ErrExist | ErrNotExist | ErrEOF
  | ErrLocked | ErrNotEnoughSpace | ErrNotVerified
  | ErrNoSuchBackup | ErrNoManifest | ErrNoSuchDestination
  | ErrNoCompatibleTool | ErrUnreachable | ErrDenied | ErrNoSuchDatabase | ErrUnsupportedEngine
  | ErrDirectoryInExec | ErrDirectoryNeedsStaging
  | ErrVerificationFailed | ErrNoNetwork | ErrFleetInTrouble

datatype gerr = Gerr (err_wraps: "sentinel list") (err_said: string)

type_synonym 'a result = "gerr + 'a"

definition errors_is :: "gerr \<Rightarrow> sentinel \<Rightarrow> bool" where
  "errors_is e s \<longleftrightarrow> s \<in> set (err_wraps e)"

definition errors_new :: "string \<Rightarrow> gerr" where
  "errors_new said = Gerr [] said"

definition errorf :: "string \<Rightarrow> gerr \<Rightarrow> gerr" where
  "errorf before e = Gerr (err_wraps e) (before @ '': '' @ err_said e)"

definition errorf_at :: "gerr \<Rightarrow> string \<Rightarrow> gerr" where
  "errorf_at e after = Gerr (err_wraps e) (err_said e @ after)"

text \<open>\<open>errors.Join\<close>: nothing when every part is nil, otherwise the messages on lines of their own.\<close>

fun errors_join :: "gerr option list \<Rightarrow> gerr option" where
  "errors_join [] = None"
| "errors_join (None # es) = errors_join es"
| "errors_join (Some e # es) =
     (case errors_join es of
        None \<Rightarrow> Some e
      | Some more \<Rightarrow>
          Some (Gerr (err_wraps e @ err_wraps more) (err_said e @ [CHR 0x0A] @ err_said more)))"

definition ok :: "'a result \<Rightarrow> bool" where
  "ok r \<longleftrightarrow> (\<exists>x. r = Inr x)"

lemma ok_simps [simp]: "ok (Inr x)" "\<not> ok (Inl e)"
  by (simp_all add: ok_def)

lemma ok_iff_not_Inl: "ok r \<longleftrightarrow> (\<forall>e. r \<noteq> Inl e)"
  by (cases r) simp_all

lemma errors_is_errorf [simp]: "errors_is (errorf before e) s = errors_is e s"
  by (simp add: errors_is_def errorf_def)

lemma errors_is_errorf_at [simp]: "errors_is (errorf_at e after) s = errors_is e s"
  by (simp add: errors_is_def errorf_at_def)

lemma errors_is_new [simp]: "\<not> errors_is (errors_new said) s"
  by (simp add: errors_is_def errors_new_def)

lemma errors_is_Gerr [simp]: "errors_is (Gerr ks said) s \<longleftrightarrow> s \<in> set ks"
  by (simp add: errors_is_def)

lemma errors_join_None_iff: "errors_join es = None \<longleftrightarrow> (\<forall>e \<in> set es. e = None)"
  by (induction es rule: errors_join.induct) (auto split: option.splits)

lemma errors_join_pair [simp]:
  "errors_join [None, None] = None"
  "errors_join [Some e, None] = Some e"
  "errors_join [None, Some e] = Some e"
  by simp_all

section \<open>Machine integers\<close>

text \<open>Go's \<open>int64\<close>: a 64-bit word read as two's complement; \<open>/\<close> truncates towards zero.\<close>

type_synonym int64 = "64 word"

definition int64_quot :: "int64 \<Rightarrow> int64 \<Rightarrow> int64" where
  "int64_quot a b = word_of_int (sint a sdiv sint b)"

lemma sint_small: "- (2 ^ 63) \<le> i \<Longrightarrow> i < 2 ^ 63 \<Longrightarrow> sint (word_of_int i :: int64) = i"
  by (simp add: sint_sbintrunc' signed_take_bit_int_eq_self)

section \<open>Lists\<close>

lemma takeWhile_neq_append [simp]:
  "c \<notin> set xs \<Longrightarrow> takeWhile ((\<noteq>) c) (xs @ c # ys) = xs"
  by (induction xs) auto

lemma dropWhile_neq_append [simp]:
  "c \<notin> set xs \<Longrightarrow> dropWhile ((\<noteq>) c) (xs @ c # ys) = c # ys"
  by (induction xs) auto

lemma in_set_split: "c \<in> set xs \<Longrightarrow> \<exists>ys zs. xs = ys @ c # zs \<and> c \<notin> set ys"
  by (rule split_list_first)

section \<open>Sorting\<close>

text \<open>
  \<open>slices.SortFunc\<close> and \<open>sort.SliceStable\<close>: insertion by a comparison. The theorems about a
  sorted list rest on the laws a sort promises (same elements, in order), never on the order of
  elements that compare equal.
\<close>

fun insert_by :: "('a \<Rightarrow> 'a \<Rightarrow> bool) \<Rightarrow> 'a \<Rightarrow> 'a list \<Rightarrow> 'a list" where
  "insert_by before x [] = [x]"
| "insert_by before x (y # ys) = (if before y x then y # insert_by before x ys else x # y # ys)"

fun sort_by :: "('a \<Rightarrow> 'a \<Rightarrow> bool) \<Rightarrow> 'a list \<Rightarrow> 'a list" where
  "sort_by before [] = []"
| "sort_by before (x # xs) = insert_by before x (sort_by before xs)"

lemma set_insert_by [simp]: "set (insert_by before x xs) = insert x (set xs)"
  by (induction xs) auto

lemma length_insert_by [simp]: "length (insert_by before x xs) = Suc (length xs)"
  by (induction xs) auto

lemma set_sort_by [simp]: "set (sort_by before xs) = set xs"
  by (induction xs) auto

lemma length_sort_by [simp]: "length (sort_by before xs) = length xs"
  by (induction xs) auto

lemma sort_by_Nil_iff [simp]: "sort_by before xs = [] \<longleftrightarrow> xs = []"
  by (metis length_0_conv length_sort_by)

lemma distinct_insert_by: "x \<notin> set xs \<Longrightarrow> distinct xs \<Longrightarrow> distinct (insert_by before x xs)"
  by (induction xs) auto

lemma distinct_sort_by: "distinct xs \<Longrightarrow> distinct (sort_by before xs)"
  by (induction xs) (auto intro: distinct_insert_by)

lemma map_insert_by:
  "(\<And>x y. before (f x) (f y) = before' x y) \<Longrightarrow> insert_by before (f x) (map f xs) = map f (insert_by before' x xs)"
  by (induction xs) auto

lemma map_sort_by:
  "(\<And>x y. before (f x) (f y) = before' x y) \<Longrightarrow> sort_by before (map f xs) = map f (sort_by before' xs)"
  by (induction xs) (auto simp: map_insert_by)

text \<open>What a strict weak order gives: nothing later comes before something earlier.\<close>

locale strict_order =
  fixes before :: "'a \<Rightarrow> 'a \<Rightarrow> bool"
  assumes irrefl: "\<not> before x x"
    and trans: "before x y \<Longrightarrow> before y z \<Longrightarrow> before x z"
    and incomparable: "before x z \<Longrightarrow> before x y \<or> before y z"
begin

lemma asym: "before x y \<Longrightarrow> \<not> before y x"
  using irrefl trans by blast

lemma sorted_insert_by:
  "sorted_wrt (\<lambda>a b. \<not> before b a) xs \<Longrightarrow> sorted_wrt (\<lambda>a b. \<not> before b a) (insert_by before x xs)"
proof (induction xs)
  case Nil
  then show ?case by simp
next
  case (Cons y ys)
  show ?case
  proof (cases "before y x")
    case True
    with Cons show ?thesis by (auto dest: asym)
  next
    case False
    with Cons.prems show ?thesis by (auto dest: incomparable)
  qed
qed

lemma sorted_sort_by: "sorted_wrt (\<lambda>a b. \<not> before b a) (sort_by before xs)"
  by (induction xs) (auto intro: sorted_insert_by)

lemma filter_insert_by:
  "sorted_wrt (\<lambda>a b. \<not> before b a) xs
    \<Longrightarrow> filter P (insert_by before x xs) = (if P x then insert_by before x (filter P xs) else filter P xs)"
proof (induction xs)
  case Nil
  then show ?case by simp
next
  case (Cons y ys)
  show ?case
  proof (cases "before y x")
    case True
    with Cons show ?thesis by auto
  next
    case False
    then have "\<not> before z x" if "z \<in> set ys" for z using that Cons.prems incomparable[of z x y] by auto
    then have "insert_by before x (filter P ys) = x # filter P ys" by (cases "filter P ys") (auto dest: filter_eq_ConsD)
    with False show ?thesis by auto
  qed
qed

lemma filter_sort_by: "filter P (sort_by before xs) = sort_by before (filter P xs)"
  by (induction xs) (simp_all add: filter_insert_by sorted_sort_by)

lemma by_key: "strict_order (\<lambda>a b. before (key a) (key b))"
  by unfold_locales (use irrefl trans incomparable in blast)+

lemma hd_sort_by_minimal: "x \<in> set xs \<Longrightarrow> \<not> before x (hd (sort_by before xs))"
proof -
  assume "x \<in> set xs"
  then obtain y ys where s: "sort_by before xs = y # ys" and x: "x \<in> set (y # ys)"
    by (metis list.exhaust list.set_cases set_sort_by sort_by_Nil_iff)
  from sorted_sort_by[of xs] s have "\<forall>z \<in> set ys. \<not> before z y" by simp
  with x s show ?thesis using irrefl by auto
qed

end

end
