(* ===== verification/Go_Strings.thy ===== *)
theory Go_Strings
  imports Koffr_Prelude
begin

text \<open>
  The part of Go's \<open>strings\<close>, \<open>strconv\<close> and \<open>fmt\<close> packages the program uses. A Go string is a
  sequence of bytes, so it is HOL's \<open>string\<close>: a list of 8-bit characters. The separators the
  program cuts at are single bytes. \<open>strings.TrimSpace\<close> and \<open>strings.ToLower\<close> are modelled on
  ASCII: they leave bytes above 127 alone.
\<close>

section \<open>Bytes\<close>

definition byte_in :: "nat \<Rightarrow> nat \<Rightarrow> char \<Rightarrow> bool" where
  "byte_in lo hi c \<longleftrightarrow> lo \<le> of_char c \<and> of_char c \<le> hi"

definition is_digit :: "char \<Rightarrow> bool" where
  "is_digit c = byte_in 48 57 c"

definition is_upper :: "char \<Rightarrow> bool" where
  "is_upper c = byte_in 65 90 c"

definition is_lower :: "char \<Rightarrow> bool" where
  "is_lower c = byte_in 97 122 c"

definition is_space :: "char \<Rightarrow> bool" where
  "is_space c \<longleftrightarrow> byte_in 9 13 c \<or> c = CHR '' ''"

definition newline :: char where
  "newline = CHR 0x0A"

section \<open>Searching\<close>

definition has_prefix :: "string \<Rightarrow> string \<Rightarrow> bool" where
  "has_prefix s p = prefix p s"

definition has_suffix :: "string \<Rightarrow> string \<Rightarrow> bool" where
  "has_suffix s p = suffix p s"

fun contains :: "string \<Rightarrow> string \<Rightarrow> bool" where
  "contains [] sub = (sub = [])"
| "contains (c # cs) sub = (prefix sub (c # cs) \<or> contains cs sub)"

lemma contains_iff: "contains s sub \<longleftrightarrow> (\<exists>a b. s = a @ sub @ b)"
proof (induction s)
  case Nil
  then show ?case by simp
next
  case (Cons c cs)
  have "(\<exists>a b. c # cs = a @ sub @ b) \<longleftrightarrow> prefix sub (c # cs) \<or> (\<exists>a b. cs = a @ sub @ b)"
    unfolding prefix_def by (metis append_Cons append_Nil list.sel(3) neq_Nil_conv)
  with Cons show ?case by simp
qed

text \<open>\<open>strings.Cut\<close> at a byte: what stands before it, what stands after it, and whether it was found.\<close>

definition cut :: "char \<Rightarrow> string \<Rightarrow> string \<times> string \<times> bool" where
  "cut c s = (if c \<in> set s then (takeWhile ((\<noteq>) c) s, tl (dropWhile ((\<noteq>) c) s), True)
              else (s, [], False))"

lemma cut_append [simp]: "c \<notin> set a \<Longrightarrow> cut c (a @ c # b) = (a, b, True)"
  by (simp add: cut_def)

lemma cut_none [simp]: "c \<notin> set a \<Longrightarrow> cut c a = (a, [], False)"
  by (simp add: cut_def)

lemma cut_found: "cut c s = (a, b, True) \<Longrightarrow> s = a @ c # b \<and> c \<notin> set a"
proof -
  assume h: "cut c s = (a, b, True)"
  then have "c \<in> set s" by (auto simp: cut_def split: if_splits)
  then obtain ys zs where s: "s = ys @ c # zs" "c \<notin> set ys" using in_set_split by metis
  with h show ?thesis by simp
qed

text \<open>\<open>strings.LastIndex\<close> of a byte, and \<open>-1\<close> when there is none.\<close>

fun last_index :: "char \<Rightarrow> string \<Rightarrow> int" where
  "last_index c [] = -1"
| "last_index c (x # xs) =
     (let i = last_index c xs in if 0 \<le> i then i + 1 else if x = c then 0 else -1)"

lemma last_index_none: "c \<notin> set s \<Longrightarrow> last_index c s = -1"
  by (induction s) auto

lemma last_index_append: "c \<notin> set b \<Longrightarrow> last_index c (a @ c # b) = int (length a)"
  by (induction a) (auto simp: last_index_none Let_def)

lemma last_index_neg_iff: "last_index c s < 0 \<longleftrightarrow> c \<notin> set s"
  by (induction s) (auto simp: Let_def)

section \<open>Trimming and rewriting\<close>

definition trim_prefix :: "string \<Rightarrow> string \<Rightarrow> string" where
  "trim_prefix s p = (if prefix p s then drop (length p) s else s)"

definition trim_left_by :: "(char \<Rightarrow> bool) \<Rightarrow> string \<Rightarrow> string" where
  "trim_left_by P s = dropWhile P s"

definition trim_right_by :: "(char \<Rightarrow> bool) \<Rightarrow> string \<Rightarrow> string" where
  "trim_right_by P s = rev (dropWhile P (rev s))"

definition trim_by :: "(char \<Rightarrow> bool) \<Rightarrow> string \<Rightarrow> string" where
  "trim_by P s = trim_right_by P (trim_left_by P s)"

definition trim_space :: "string \<Rightarrow> string" where
  "trim_space s = trim_by is_space s"

lemma set_trim_by_subset: "set (trim_by P s) \<subseteq> set s"
  unfolding trim_by_def trim_right_by_def trim_left_by_def
  by (metis set_dropWhileD set_rev subsetI)

lemma trim_right_by_split: "\<exists>b. s = trim_right_by P s @ b \<and> (\<forall>c \<in> set b. P c)"
proof -
  have "rev s = takeWhile P (rev s) @ dropWhile P (rev s)" by simp
  then have "s = rev (dropWhile P (rev s)) @ rev (takeWhile P (rev s))"
    by (metis rev_append rev_rev_ident)
  then show ?thesis unfolding trim_right_by_def
    by (metis set_rev set_takeWhileD)
qed

lemma trim_by_split: "\<exists>a b. s = a @ trim_by P s @ b \<and> (\<forall>c \<in> set a. P c) \<and> (\<forall>c \<in> set b. P c)"
proof -
  obtain b where "dropWhile P s = trim_by P s @ b" "\<forall>c \<in> set b. P c"
    using trim_right_by_split[of "dropWhile P s" P] by (auto simp: trim_by_def trim_left_by_def)
  moreover have "s = takeWhile P s @ dropWhile P s" by simp
  ultimately show ?thesis by (metis set_takeWhileD)
qed

lemma trim_by_last: "trim_by P s \<noteq> [] \<Longrightarrow> \<not> P (last (trim_by P s))"
proof -
  assume "trim_by P s \<noteq> []"
  then have "dropWhile P (rev (dropWhile P s)) \<noteq> []"
    by (simp add: trim_by_def trim_right_by_def trim_left_by_def)
  then show ?thesis
    by (simp add: trim_by_def trim_right_by_def trim_left_by_def last_rev hd_dropWhile)
qed

lemma trim_by_hd: "trim_by P s \<noteq> [] \<Longrightarrow> \<not> P (hd (trim_by P s))"
proof -
  assume ne: "trim_by P s \<noteq> []"
  obtain b where d: "dropWhile P s = trim_by P s @ b"
    using trim_right_by_split[of "dropWhile P s" P] by (auto simp: trim_by_def trim_left_by_def)
  with ne have "dropWhile P s \<noteq> []" and "hd (dropWhile P s) = hd (trim_by P s)"
    by (metis append_is_Nil_conv) (metis d hd_append2 ne)
  then show ?thesis by (metis hd_dropWhile)
qed

lemma trim_right_by_id: "s \<noteq> [] \<Longrightarrow> \<not> P (last s) \<Longrightarrow> trim_right_by P s = s"
  by (cases s rule: rev_cases) (auto simp: trim_right_by_def)

lemma trim_by_id: "s = [] \<or> (\<not> P (hd s) \<and> \<not> P (last s)) \<Longrightarrow> trim_by P s = s"
proof (cases "s = []")
  case False
  assume "s = [] \<or> (\<not> P (hd s) \<and> \<not> P (last s))"
  with False have h: "\<not> P (hd s)" and l: "\<not> P (hd (rev s))" by (simp_all add: hd_rev)
  from h False have "dropWhile P s = s" by (cases s) auto
  moreover from l False have "dropWhile P (rev s) = rev s" by (cases "rev s") auto
  ultimately show ?thesis by (simp add: trim_by_def trim_right_by_def trim_left_by_def)
qed (simp add: trim_by_def trim_right_by_def trim_left_by_def)

definition to_lower_byte :: "char \<Rightarrow> char" where
  "to_lower_byte c = (if is_upper c then char_of (of_char c + 32 :: nat) else c)"

definition to_lower :: "string \<Rightarrow> string" where
  "to_lower s = map to_lower_byte s"

section \<open>Splitting and joining\<close>

fun split_on :: "char \<Rightarrow> string \<Rightarrow> string list" where
  "split_on c [] = [[]]"
| "split_on c (x # xs) =
     (if x = c then [] # split_on c xs
      else (case split_on c xs of [] \<Rightarrow> [[x]] | p # ps \<Rightarrow> (x # p) # ps))"

fun join_with :: "string \<Rightarrow> string list \<Rightarrow> string" where
  "join_with sep [] = []"
| "join_with sep [s] = s"
| "join_with sep (s # t # ts) = s @ sep @ join_with sep (t # ts)"

lemma split_on_ne [simp]: "split_on c s \<noteq> []"
  by (induction s) (auto split: list.splits)

lemma split_on_join: "join_with [c] (split_on c s) = s"
proof (induction s)
  case Nil
  then show ?case by simp
next
  case (Cons x xs)
  then obtain p ps where "split_on c xs = p # ps" by (meson list.exhaust split_on_ne)
  with Cons show ?case by (cases ps) auto
qed

lemma split_on_append: "c \<notin> set a \<Longrightarrow> split_on c (a @ c # b) = a # split_on c b"
  by (induction a) auto

lemma split_on_whole: "c \<notin> set a \<Longrightarrow> split_on c a = [a]"
  by (induction a) auto

section \<open>Numbers\<close>

definition digit_char :: "nat \<Rightarrow> char" where
  "digit_char n = char_of (48 + n mod 10)"

definition digit_value :: "char \<Rightarrow> nat" where
  "digit_value c = of_char c - 48"

fun dec :: "nat \<Rightarrow> string" where
  "dec n = (if n < 10 then [digit_char n] else dec (n div 10) @ [digit_char n])"

declare dec.simps [simp del]

definition dec_int :: "int \<Rightarrow> string" where
  "dec_int i = (if i < 0 then CHR ''-'' # dec (nat (- i)) else dec (nat i))"

text \<open>\<open>%0wd\<close> for a number that is not negative.\<close>

definition pad :: "nat \<Rightarrow> nat \<Rightarrow> string" where
  "pad w n = replicate (w - length (dec n)) (CHR ''0'') @ dec n"

text \<open>The value of a run of digits, and \<open>strconv.Atoi\<close>, which refuses what does not fit an \<open>int\<close>.\<close>

definition digits_value :: "string \<Rightarrow> nat" where
  "digits_value s = foldl (\<lambda>v c. 10 * v + digit_value c) 0 s"

definition atoi :: "string \<Rightarrow> int option" where
  "atoi s =
     (let (neg, body) = (case s of [] \<Rightarrow> (False, [])
                         | c # cs \<Rightarrow> if c = CHR ''-'' then (True, cs)
                                    else if c = CHR ''+'' then (False, cs) else (False, s));
          v = int (digits_value body)
      in if body = [] \<or> \<not> list_all is_digit body then None
         else if neg then (if v \<le> 2 ^ 63 then Some (- v) else None)
         else if v < 2 ^ 63 then Some v else None)"

lemma digit_value_char [simp]: "digit_value (digit_char n) = n mod 10"
proof -
  have "48 + n mod 10 < (256 :: nat)" by (simp add: trans_less_add1)
  then have "of_char (digit_char n) = (48 + n mod 10 :: nat)"
    unfolding digit_char_def by (simp add: of_char_of take_bit_eq_mod)
  then show ?thesis by (simp add: digit_value_def)
qed

lemma is_digit_char [simp]: "is_digit (digit_char n)"
proof -
  have "48 + n mod 10 < (256 :: nat)" and b: "n mod 10 \<le> 9"
    by (simp add: trans_less_add1, presburger)
  then have "of_char (digit_char n) = (48 + n mod 10 :: nat)"
    unfolding digit_char_def by (simp add: of_char_of take_bit_eq_mod)
  with b show ?thesis by (simp add: is_digit_def byte_in_def)
qed

lemma dec_ne [simp]: "dec n \<noteq> []"
  by (subst dec.simps) simp

lemma dec_digits: "list_all is_digit (dec n)"
proof (induction n rule: dec.induct)
  case (1 n)
  then show ?case by (subst dec.simps) simp
qed

lemma digits_value_snoc: "digits_value (s @ [c]) = 10 * digits_value s + digit_value c"
  by (simp add: digits_value_def)

lemma digits_value_Nil [simp]: "digits_value [] = 0"
  by (simp add: digits_value_def)

lemma digits_value_dec [simp]: "digits_value (dec n) = n"
proof (induction n rule: dec.induct)
  case (1 n)
  show ?case
  proof (cases "n < 10")
    case True
    then show ?thesis
      by (subst dec.simps) (simp add: digits_value_def)
  next
    case False
    with 1 have "digits_value (dec (n div 10)) = n div 10" by simp
    with False show ?thesis by (subst dec.simps) (simp add: digits_value_snoc)
  qed
qed

lemma is_digit_not: "is_digit c \<Longrightarrow> c \<noteq> CHR ''-'' \<and> c \<noteq> CHR ''+'' \<and> c \<noteq> CHR ''.'' \<and> c \<noteq> CHR ''_'' \<and> c \<noteq> CHR ''/''"
  by (auto simp: is_digit_def byte_in_def)

lemma atoi_digits:
  "list_all is_digit s \<Longrightarrow> s \<noteq> [] \<Longrightarrow> int (digits_value s) < 2 ^ 63 \<Longrightarrow> atoi s = Some (int (digits_value s))"
  by (cases s) (auto simp: atoi_def dest: is_digit_not)

lemma atoi_dec [simp]: "int n < 2 ^ 63 \<Longrightarrow> atoi (dec n) = Some (int n)"
  using atoi_digits[of "dec n"] by (simp add: dec_digits)

lemma atoi_dec_int: "0 \<le> i \<Longrightarrow> i < 2 ^ 63 \<Longrightarrow> atoi (dec_int i) = Some i"
  by (simp add: dec_int_def)

subsection \<open>Fixed-width numbers\<close>

lemma digits_value_zeros [simp]: "digits_value (replicate k (CHR ''0'') @ s) = digits_value s"
  by (induction k) (simp_all add: digits_value_def digit_value_def)

lemma digits_value_pad [simp]: "digits_value (pad w n) = n"
  by (simp add: pad_def)

lemma pad_digits: "list_all is_digit (pad w n)"
proof -
  have "list_all is_digit (replicate k (CHR ''0''))" for k
    by (induction k) (simp_all add: is_digit_def byte_in_def)
  then show ?thesis by (simp add: pad_def dec_digits)
qed

lemma length_dec: "n < 10 ^ k \<Longrightarrow> 0 < k \<Longrightarrow> length (dec n) \<le> k"
proof (induction k arbitrary: n)
  case 0
  then show ?case by simp
next
  case (Suc k)
  show ?case
  proof (cases "n < 10")
    case True
    then show ?thesis by (subst dec.simps) simp
  next
    case False
    with Suc.prems have "0 < k" by (cases k) auto
    moreover have "n div 10 < 10 ^ k" using Suc.prems by (simp add: less_mult_imp_div_less mult.commute)
    ultimately have "length (dec (n div 10)) \<le> k" by (simp add: Suc.IH)
    with False show ?thesis by (subst dec.simps) simp
  qed
qed

lemma length_pad [simp]: "n < 10 ^ w \<Longrightarrow> 0 < w \<Longrightarrow> length (pad w n) = w"
  using length_dec[of n w] by (simp add: pad_def)

lemma digits_no_byte:
  "list_all is_digit s \<Longrightarrow> c = CHR ''-'' \<or> c = CHR ''.'' \<or> c = CHR ''_'' \<or> c = CHR ''/'' \<Longrightarrow> c \<notin> set s"
  using is_digit_not by (auto simp: list_all_iff)

end
