(* ===== verification/Go_Time.thy ===== *)
theory Go_Time
  imports Go_Strings "HOL-Library.Monad_Syntax"
begin

text \<open>
  The part of Go's \<open>time\<close> package the program uses. An instant counts nanoseconds since Go's zero
  time, 0001-01-01T00:00:00Z, so \<open>IsZero\<close> is \<open>t = 0\<close>. The calendar is the proleptic Gregorian one
  Go computes with. Two layouts are used: \<open>20060102T150405Z\<close> in the name of an archive, and
  RFC 3339 in the manifest, the catalogue and the lock. A \<open>time.Location\<close> is the function that
  gives the offset from UTC, in seconds, at an instant.
\<close>

type_synonym instant = int

type_synonym location = "instant \<Rightarrow> int"

definition second :: int where "second = 1000000000"

definition millisecond :: int where "millisecond = 1000000"

definition utc :: location where "utc t = 0"

definition is_zero_time :: "instant \<Rightarrow> bool" where
  "is_zero_time t \<longleftrightarrow> t = 0"

section \<open>The calendar\<close>

definition is_leap :: "int \<Rightarrow> bool" where
  "is_leap y \<longleftrightarrow> y mod 4 = 0 \<and> (y mod 100 \<noteq> 0 \<or> y mod 400 = 0)"

definition days_before_year :: "int \<Rightarrow> int" where
  "days_before_year y = 365 * (y - 1) + (y - 1) div 4 - (y - 1) div 100 + (y - 1) div 400"

text \<open>The year and the day of that year, from the number of days since the zero time.\<close>

definition year_yday :: "int \<Rightarrow> int \<times> int" where
  "year_yday d =
     (let n400 = d div 146097; d1 = d mod 146097;
          n100 = min 3 (d1 div 36524); d2 = d1 - 36524 * n100;
          n4 = d2 div 1461; d3 = d2 mod 1461;
          n1 = min 3 (d3 div 365)
      in (400 * n400 + 100 * n100 + 4 * n4 + n1 + 1, d3 - 365 * n1))"

definition month_lengths :: "bool \<Rightarrow> int list" where
  "month_lengths leap = [31, if leap then 29 else 28, 31, 30, 31, 30, 31, 31, 30, 31, 30, 31]"

fun month_day :: "int list \<Rightarrow> int \<Rightarrow> int \<Rightarrow> int \<times> int" where
  "month_day [] m yd = (m, yd + 1)"
| "month_day (l # ls) m yd = (if yd < l then (m, yd + 1) else month_day ls (m + 1) (yd - l))"

definition civil_of_days :: "int \<Rightarrow> int \<times> int \<times> int" where
  "civil_of_days d =
     (let (y, yd) = year_yday d; (m, dd) = month_day (month_lengths (is_leap y)) 1 yd in (y, m, dd))"

definition days_of_civil :: "int \<Rightarrow> int \<Rightarrow> int \<Rightarrow> int" where
  "days_of_civil y m d =
     days_before_year y + sum_list (take (nat (m - 1)) (month_lengths (is_leap y))) + d - 1"

definition days_in :: "int \<Rightarrow> int \<Rightarrow> int" where
  "days_in m y = (if 1 \<le> m \<and> m \<le> 12 then month_lengths (is_leap y) ! nat (m - 1) else 0)"

lemma clamped_quotient:
  fixes a n q :: int
  assumes "0 \<le> a" "0 < n" "q = min 3 (a div n)"
  shows "0 \<le> q" "q \<le> 3" "0 \<le> a - n * q" "q < 3 \<Longrightarrow> a - n * q < n"
proof -
  have k: "0 \<le> a div n" using assms by (simp add: pos_imp_zdiv_nonneg_iff)
  show "0 \<le> q" "q \<le> 3" using k assms by auto
  have "n * q \<le> n * (a div n)" using assms by (intro mult_left_mono) auto
  moreover have "n * (a div n) \<le> a" using assms mult_div_mod_eq[of n a] pos_mod_sign[of n a] by linarith
  ultimately show "0 \<le> a - n * q" by linarith
  assume "q < 3"
  with assms have q: "q = a div n" by auto
  have "a - n * (a div n) = a mod n" by (rule minus_mult_div_eq_mod)
  with q assms pos_mod_bound[of n a] show "a - n * q < n" by simp
qed

lemma full_period:
  fixes x n :: int
  shows "0 < x \<Longrightarrow> x \<le> n \<Longrightarrow> x mod n = 0 \<longleftrightarrow> x = n"
  by (cases "x = n") simp_all

lemma year_yday_parts:
  assumes "d = 146097 * n400 + d1" "0 \<le> d1" "d1 < 146097"
    and "n100 = min 3 (d1 div 36524)" "d2 = d1 - 36524 * n100"
    and "n4 = d2 div 1461" "d3 = d2 mod 1461"
    and "n1 = min 3 (d3 div 365)"
    and "y = 400 * n400 + 100 * n100 + 4 * n4 + n1 + 1" "yd = d3 - 365 * n1"
  shows "0 \<le> n100" "n100 \<le> 3" "0 \<le> n4" "n4 \<le> 24" "0 \<le> n1" "n1 \<le> 3" "0 \<le> yd"
    and "days_before_year y + yd = d"
    and "yd \<le> (if is_leap y then 365 else 364)"
proof -
  note c100 = clamped_quotient[OF assms(2) _ assms(4), simplified]
  show n100: "0 \<le> n100" "n100 \<le> 3" using c100 by simp_all
  have d2: "0 \<le> d2" "d2 \<le> 36524" "n100 < 3 \<Longrightarrow> d2 < 36524"
  proof -
    show "0 \<le> d2" "n100 < 3 \<Longrightarrow> d2 < 36524" using c100(3,4) assms(5) by simp_all
    then show "d2 \<le> 36524" using assms(3,5) n100 by (cases "n100 < 3") auto
  qed
  show n4: "0 \<le> n4" "n4 \<le> 24" using d2 assms(6) by auto
  have d3: "0 \<le> d3" "d3 < 1461" "d2 = 1461 * n4 + d3" using assms(6,7) by simp_all
  note c1 = clamped_quotient[OF d3(1) _ assms(8), simplified]
  show n1: "0 \<le> n1" "n1 \<le> 3" using c1 by simp_all
  show yd: "0 \<le> yd" using c1(3) assms(10) by simp
  have yd': "yd \<le> 365" "n1 < 3 \<Longrightarrow> yd < 365"
  proof -
    show "n1 < 3 \<Longrightarrow> yd < 365" using c1(4) assms(10) by simp
    then show "yd \<le> 365" using d3 assms(10) n1 by (cases "n1 < 3") auto
  qed
  have q4: "(y - 1) div 4 = 100 * n400 + 25 * n100 + n4"
    by (rule int_div_pos_eq[where r = n1]) (use assms(9) n1 in simp_all)
  have q100: "(y - 1) div 100 = 4 * n400 + n100"
    by (rule int_div_pos_eq[where r = "4 * n4 + n1"]) (use assms(9) n1 n4 in simp_all)
  have q400: "(y - 1) div 400 = n400"
    by (rule int_div_pos_eq[where r = "100 * n100 + 4 * n4 + n1"]) (use assms(9) n1 n4 n100 in simp_all)
  show "days_before_year y + yd = d"
    unfolding days_before_year_def q4 q100 q400 using assms(1,5,9,10) d3(3) by simp
  have leap: "is_leap y \<longleftrightarrow> n1 = 3 \<and> (n4 \<noteq> 24 \<or> n100 = 3)"
  proof -
    have "y = (n1 + 1) + 4 * (100 * n400 + 25 * n100 + n4)"
      "y = (4 * n4 + n1 + 1) + 100 * (4 * n400 + n100)"
      "y = (100 * n100 + 4 * n4 + n1 + 1) + 400 * n400"
      using assms(9) by simp_all
    then have "y mod 4 = (n1 + 1) mod 4" "y mod 100 = (4 * n4 + n1 + 1) mod 100"
      "y mod 400 = (100 * n100 + 4 * n4 + n1 + 1) mod 400"
      by (metis mod_mult_self2)+
    moreover have "(n1 + 1) mod 4 = 0 \<longleftrightarrow> n1 = 3"
      using full_period[of "n1 + 1" 4] n1 by auto
    moreover have "n1 = 3 \<Longrightarrow> (4 * n4 + n1 + 1) mod 100 = 0 \<longleftrightarrow> n4 = 24"
      using full_period[of "4 * n4 + n1 + 1" 100] n4 by auto
    moreover have "n1 = 3 \<Longrightarrow> n4 = 24 \<Longrightarrow> (100 * n100 + 4 * n4 + n1 + 1) mod 400 = 0 \<longleftrightarrow> n100 = 3"
      using full_period[of "100 * n100 + 4 * n4 + n1 + 1" 400] n100 by auto
    ultimately show ?thesis unfolding is_leap_def by metis
  qed
  show "yd \<le> (if is_leap y then 365 else 364)"
  proof (cases "is_leap y")
    case False
    with leap consider "n1 < 3" | "n1 = 3" "n4 = 24" "n100 < 3" using n1 n100 by linarith
    then show ?thesis
    proof cases
      case 1
      with yd' False show ?thesis by simp
    next
      case 2
      with d2(3) d3(3) have "d3 < 1460" by simp
      with 2(1) assms(10) False show ?thesis by simp
    qed
  qed (use yd' in simp)
qed

lemma year_yday_correct:
  assumes "year_yday d = (y, yd)"
  shows "days_before_year y + yd = d" "0 \<le> yd" "yd \<le> (if is_leap y then 365 else 364)"
proof -
  let ?d1 = "d mod 146097" let ?n100 = "min 3 (?d1 div 36524)" let ?d2 = "?d1 - 36524 * ?n100"
  let ?d3 = "?d2 mod 1461" let ?n1 = "min 3 (?d3 div 365)"
  have y: "y = 400 * (d div 146097) + 100 * ?n100 + 4 * (?d2 div 1461) + ?n1 + 1"
    and yd: "yd = ?d3 - 365 * ?n1"
    using assms unfolding year_yday_def Let_def prod.inject by blast+
  have d: "d = 146097 * (d div 146097) + ?d1" by simp
  have b: "0 \<le> ?d1" "?d1 < 146097" by simp_all
  note p = year_yday_parts[OF d b refl refl refl refl refl y yd]
  show "days_before_year y + yd = d" "0 \<le> yd" "yd \<le> (if is_leap y then 365 else 364)"
    using p(7,8,9) by simp_all
qed

lemma month_day_correct:
  assumes "month_day ls m yd = (m', d')" "0 \<le> yd" "\<forall>l \<in> set ls. 0 < l"
  shows "m \<le> m'" "sum_list (take (nat (m' - m)) ls) + d' - 1 = yd" "1 \<le> d'"
    "yd < sum_list ls \<Longrightarrow> m' < m + int (length ls) \<and> d' \<le> ls ! nat (m' - m)"
proof -
  have "m \<le> m' \<and> sum_list (take (nat (m' - m)) ls) + d' - 1 = yd \<and> 1 \<le> d' \<and>
    (yd < sum_list ls \<longrightarrow> m' < m + int (length ls) \<and> d' \<le> ls ! nat (m' - m))"
    using assms
  proof (induction ls m yd rule: month_day.induct)
    case (1 m yd)
    then show ?case by simp
  next
    case (2 l ls m yd)
    show ?case
    proof (cases "yd < l")
      case True
      with 2 show ?thesis by simp
    next
      case False
      with 2 have *: "m + 1 \<le> m'" "sum_list (take (nat (m' - (m + 1))) ls) + d' - 1 = yd - l" "1 \<le> d'"
        "yd - l < sum_list ls \<longrightarrow> m' < m + 1 + int (length ls) \<and> d' \<le> ls ! nat (m' - (m + 1))"
        by auto
      then have "nat (m' - m) = Suc (nat (m' - (m + 1)))" by linarith
      with * show ?thesis by auto
    qed
  qed
  then show "m \<le> m'" "sum_list (take (nat (m' - m)) ls) + d' - 1 = yd" "1 \<le> d'"
    "yd < sum_list ls \<Longrightarrow> m' < m + int (length ls) \<and> d' \<le> ls ! nat (m' - m)"
    by simp_all
qed

lemma month_lengths_facts:
  "length (month_lengths leap) = 12" "sum_list (month_lengths leap) = (if leap then 366 else 365)"
  "l \<in> set (month_lengths leap) \<Longrightarrow> 0 < l \<and> l \<le> 31"
  by (auto simp: month_lengths_def split: if_splits)

theorem civil_roundtrip:
  assumes "civil_of_days d = (y, m, dd)"
  shows "days_of_civil y m dd = d" "1 \<le> m" "m \<le> 12" "1 \<le> dd" "dd \<le> days_in m y" "dd \<le> 31"
proof -
  obtain yd where yy: "year_yday d = (y, yd)"
    and md: "month_day (month_lengths (is_leap y)) 1 yd = (m, dd)"
    using assms by (auto simp: civil_of_days_def split: prod.splits)
  note y = year_yday_correct[OF yy]
  have pos: "\<forall>l \<in> set (month_lengths (is_leap y)). 0 < l" using month_lengths_facts(3) by blast
  note c = month_day_correct[OF md y(2) pos]
  have lt: "yd < sum_list (month_lengths (is_leap y))"
    using y(3) by (simp add: month_lengths_facts split: if_splits)
  show m: "1 \<le> m" and d: "1 \<le> dd" using c by simp_all
  show m12: "m \<le> 12" using c(4)[OF lt] by (simp add: month_lengths_facts)
  show "days_of_civil y m dd = d" using c(2) y(1) by (simp add: days_of_civil_def)
  show din: "dd \<le> days_in m y" using c(4)[OF lt] m m12 by (simp add: days_in_def)
  have "nat (m - 1) < length (month_lengths (is_leap y))" using m m12 by (simp add: month_lengths_facts)
  then have "month_lengths (is_leap y) ! nat (m - 1) \<le> 31" using month_lengths_facts(3) nth_mem by blast
  with din m m12 show "dd \<le> 31" by (simp add: days_in_def)
qed

section \<open>Writing an instant\<close>

record civil =
  c_year :: int
  c_month :: int
  c_day :: int
  c_hour :: int
  c_min :: int
  c_sec :: int

definition civil_of :: "instant \<Rightarrow> civil" where
  "civil_of t =
     (let s = t div second; (y, m, d) = civil_of_days (s div 86400); r = s mod 86400
      in \<lparr>c_year = y, c_month = m, c_day = d,
          c_hour = r div 3600, c_min = r mod 3600 div 60, c_sec = r mod 60\<rparr>)"

definition instant_of :: "civil \<Rightarrow> int \<Rightarrow> instant" where
  "instant_of c ns =
     (((days_of_civil (c_year c) (c_month c) (c_day c) * 24 + c_hour c) * 60 + c_min c) * 60 + c_sec c)
       * second + ns"

definition civil_ok :: "civil \<Rightarrow> bool" where
  "civil_ok c \<longleftrightarrow> 1 \<le> c_month c \<and> c_month c \<le> 12 \<and> 1 \<le> c_day c \<and> c_day c \<le> days_in (c_month c) (c_year c)
     \<and> c_day c \<le> 31 \<and> 0 \<le> c_hour c \<and> c_hour c < 24 \<and> 0 \<le> c_min c \<and> c_min c < 60
     \<and> 0 \<le> c_sec c \<and> c_sec c < 60"

definition truncate_second :: "instant \<Rightarrow> instant" where
  "truncate_second t = t div second * second"

lemma hour_bounds:
  fixes r :: int
  assumes "0 \<le> r" "r < 86400"
  shows "0 \<le> r div 3600" "r div 3600 < 24"
  using assms by simp_all

lemma civil_of_ok: "civil_ok (civil_of t)"
proof -
  define s where "s = t div second"
  obtain y m d where c: "civil_of_days (s div 86400) = (y, m, d)" by (metis prod_cases3)
  then have t: "civil_of t = \<lparr>c_year = y, c_month = m, c_day = d, c_hour = s mod 86400 div 3600,
      c_min = s mod 86400 mod 3600 div 60, c_sec = s mod 86400 mod 60\<rparr>"
    by (simp only: civil_of_def Let_def s_def[symmetric] prod.case)
  define r where "r = s mod 86400"
  have r: "0 \<le> r" "r < 86400" by (simp_all add: r_def)
  have "0 \<le> r mod 3600 div 60" "r mod 3600 div 60 < 60" "0 \<le> r mod 60" "r mod 60 < 60"
    by simp_all
  with hour_bounds[OF r] civil_roundtrip(2-6)[OF c] show ?thesis
    unfolding t civil_ok_def civil.simps r_def by simp
qed

lemma hms_compose:
  fixes s :: int
  assumes "s = 86400 * k + r" "r = 3600 * h + q" "q = 60 * m + z"
  shows "((k * 24 + h) * 60 + m) * 60 + z = s"
  using assms by simp

lemma hms_split:
  fixes s :: int
  shows "((s div 86400 * 24 + s mod 86400 div 3600) * 60 + s mod 86400 mod 3600 div 60) * 60
     + s mod 86400 mod 60 = s"
proof -
  have e: "s mod 86400 mod 3600 mod 60 = s mod 86400 mod 60" by (rule mod_mod_cancel) simp
  have "s mod 86400 mod 3600 = 60 * (s mod 86400 mod 3600 div 60) + s mod 86400 mod 60"
    using mult_div_mod_eq[of 60 "s mod 86400 mod 3600"] unfolding e by (rule sym)
  from hms_compose[OF mult_div_mod_eq[symmetric] mult_div_mod_eq[symmetric] this] show ?thesis .
qed

lemma civil_eta:
  "\<lparr>c_year = c_year c, c_month = c_month c, c_day = c_day c,
    c_hour = c_hour c, c_min = c_min c, c_sec = c_sec c\<rparr> = c"
  by (cases c) simp

lemma instant_of_civil_of: "instant_of (civil_of t) 0 = truncate_second t"
proof -
  define s where "s = t div second"
  obtain y m d where c: "civil_of_days (s div 86400) = (y, m, d)" by (metis prod_cases3)
  then have "civil_of t = \<lparr>c_year = y, c_month = m, c_day = d, c_hour = s mod 86400 div 3600,
      c_min = s mod 86400 mod 3600 div 60, c_sec = s mod 86400 mod 60\<rparr>"
    by (simp only: civil_of_def Let_def s_def[symmetric] prod.case)
  moreover have "days_of_civil y m d = s div 86400" using civil_roundtrip(1)[OF c] .
  ultimately have "instant_of (civil_of t) 0 =
      (((s div 86400 * 24 + s mod 86400 div 3600) * 60 + s mod 86400 mod 3600 div 60) * 60
        + s mod 86400 mod 60) * second + 0"
    by (simp only: instant_of_def civil.simps)
  then show ?thesis unfolding hms_split by (simp only: truncate_second_def s_def add_0_right)
qed

definition pad_int :: "nat \<Rightarrow> int \<Rightarrow> string" where
  "pad_int w i = pad w (nat i)"

text \<open>The layout \<open>20060102T150405Z\<close> of an archive's name.\<close>

definition format_stamp :: "civil \<Rightarrow> string" where
  "format_stamp c =
     pad_int 4 (c_year c) @ pad_int 2 (c_month c) @ pad_int 2 (c_day c) @ ''T'' @
     pad_int 2 (c_hour c) @ pad_int 2 (c_min c) @ pad_int 2 (c_sec c) @ ''Z''"

definition format_offset :: "int \<Rightarrow> string" where
  "format_offset off =
     (if off = 0 then ''Z''
      else (let m = \<bar>off\<bar> div 60
            in (if off \<le> - 60 then ''-'' else ''+'') @ pad_int 2 (m div 60) @ '':'' @ pad_int 2 (m mod 60)))"

text \<open>\<open>at.In(in).Format(time.RFC3339)\<close>.\<close>

definition format_rfc3339 :: "location \<Rightarrow> instant \<Rightarrow> string" where
  "format_rfc3339 zone t =
     (let off = zone t; c = civil_of (t + off * second)
      in pad_int 4 (c_year c) @ ''-'' @ pad_int 2 (c_month c) @ ''-'' @ pad_int 2 (c_day c) @ ''T'' @
         pad_int 2 (c_hour c) @ '':'' @ pad_int 2 (c_min c) @ '':'' @ pad_int 2 (c_sec c) @
         format_offset off)"

section \<open>Reading an instant\<close>

text \<open>
  The readers of \<open>time.Parse\<close>, one per element of a layout. The hour may have a single digit, a
  fraction of a second may follow the seconds although the layout has none, and everything else
  has a fixed width.
\<close>

fun getnum :: "bool \<Rightarrow> string \<Rightarrow> (int \<times> string) option" where
  "getnum fixed [] = None"
| "getnum fixed (a # s) =
     (if \<not> is_digit a then None
      else (case s of
              b # r \<Rightarrow> if is_digit b then Some (int (10 * digit_value a + digit_value b), r)
                       else if fixed then None else Some (int (digit_value a), s)
            | [] \<Rightarrow> if fixed then None else Some (int (digit_value a), [])))"

definition get_year :: "string \<Rightarrow> (int \<times> string) option" where
  "get_year s = (if 4 \<le> length s \<and> list_all is_digit (take 4 s)
                 then Some (int (digits_value (take 4 s)), drop 4 s) else None)"

definition skip_byte :: "char \<Rightarrow> string \<Rightarrow> string option" where
  "skip_byte c s = (case s of x # r \<Rightarrow> if x = c then Some r else None | [] \<Rightarrow> None)"

definition in_range :: "int \<Rightarrow> int \<Rightarrow> int \<Rightarrow> unit option" where
  "in_range lo hi v = (if lo \<le> v \<and> v < hi then Some () else None)"

text \<open>A fraction keeps at most nine digits of what follows the comma or the period.\<close>

definition get_fraction :: "string \<Rightarrow> int \<times> string" where
  "get_fraction s =
     (case s of
        p # d # r \<Rightarrow>
          if (p = CHR ''.'' \<or> p = CHR '','') \<and> is_digit d
          then (let ds = take 9 (takeWhile is_digit (d # r))
                in (int (digits_value ds) * 10 ^ (9 - length ds), dropWhile is_digit (d # r)))
          else (0, s)
      | _ \<Rightarrow> (0, s))"

definition get_offset :: "string \<Rightarrow> (int \<times> string) option" where
  "get_offset s =
     (case s of
        CHR ''Z'' # r \<Rightarrow> Some (0, r)
      | sign # a # b # colon # c # d # r \<Rightarrow>
          do { (hr, _) \<leftarrow> getnum True [a, b]; (mm, _) \<leftarrow> getnum True [c, d];
               if colon = CHR '':'' \<and> hr \<le> 24 \<and> mm \<le> 60 \<and> (sign = CHR ''+'' \<or> sign = CHR ''-'')
               then Some ((if sign = CHR ''-'' then -1 else 1) * ((hr * 60 + mm) * 60), r)
               else None }
      | _ \<Rightarrow> None)"

definition finish_time :: "civil \<Rightarrow> int \<Rightarrow> int \<Rightarrow> instant option" where
  "finish_time c ns off =
     (if 1 \<le> c_day c \<and> c_day c \<le> days_in (c_month c) (c_year c)
      then Some (instant_of c ns - off * second) else None)"

definition parse_rfc3339 :: "string \<Rightarrow> instant option" where
  "parse_rfc3339 s = do {
     (y, s) \<leftarrow> get_year s; s \<leftarrow> skip_byte (CHR ''-'') s;
     (mo, s) \<leftarrow> getnum True s; _ \<leftarrow> in_range 1 13 mo; s \<leftarrow> skip_byte (CHR ''-'') s;
     (d, s) \<leftarrow> getnum True s; s \<leftarrow> skip_byte (CHR ''T'') s;
     (h, s) \<leftarrow> getnum False s; _ \<leftarrow> in_range 0 24 h; s \<leftarrow> skip_byte (CHR '':'') s;
     (mi, s) \<leftarrow> getnum True s; _ \<leftarrow> in_range 0 60 mi; s \<leftarrow> skip_byte (CHR '':'') s;
     (sec, s) \<leftarrow> getnum True s; _ \<leftarrow> in_range 0 60 sec;
     let (ns, s) = get_fraction s;
     (off, s) \<leftarrow> get_offset s;
     if s = [] then finish_time \<lparr>c_year = y, c_month = mo, c_day = d, c_hour = h, c_min = mi, c_sec = sec\<rparr> ns off
     else None }"

definition parse_stamp_layout :: "string \<Rightarrow> instant option" where
  "parse_stamp_layout s = do {
     (y, s) \<leftarrow> get_year s;
     (mo, s) \<leftarrow> getnum True s; _ \<leftarrow> in_range 1 13 mo;
     (d, s) \<leftarrow> getnum True s; s \<leftarrow> skip_byte (CHR ''T'') s;
     (h, s) \<leftarrow> getnum False s; _ \<leftarrow> in_range 0 24 h;
     (mi, s) \<leftarrow> getnum True s; _ \<leftarrow> in_range 0 60 mi;
     (sec, s) \<leftarrow> getnum True s; _ \<leftarrow> in_range 0 60 sec;
     let (ns, s) = get_fraction s;
     s \<leftarrow> skip_byte (CHR ''Z'') s;
     if s = [] then finish_time \<lparr>c_year = y, c_month = mo, c_day = d, c_hour = h, c_min = mi, c_sec = sec\<rparr> ns 0
     else None }"

subsection \<open>Reading back what was written\<close>

lemma two_digits:
  assumes "n < 100"
  obtains a b where "pad 2 n = [a, b]" "is_digit a" "is_digit b" "10 * digit_value a + digit_value b = n"
proof -
  from assms have "length (pad 2 n) = 2" by simp
  then obtain a b where p: "pad 2 n = [a, b]"
    by (metis One_nat_def Suc_1 length_0_conv length_Suc_conv)
  have "list_all is_digit [a, b]" using pad_digits[of 2 n] p by simp
  moreover have "digits_value [a, b] = n" using digits_value_pad[of 2 n] p by simp
  ultimately show thesis using that p by (simp add: digits_value_def)
qed

lemma getnum_pad [simp]: "0 \<le> i \<Longrightarrow> i < 100 \<Longrightarrow> getnum fixed (pad_int 2 i @ r) = Some (i, r)"
proof -
  assume "0 \<le> i" "i < 100"
  then have "nat i < 100" by simp
  then obtain a b where "pad 2 (nat i) = [a, b]" "is_digit a" "is_digit b"
    "10 * digit_value a + digit_value b = nat i" by (rule two_digits)
  with \<open>0 \<le> i\<close> show ?thesis by (simp add: pad_int_def)
qed

lemma get_year_pad [simp]: "0 \<le> y \<Longrightarrow> y < 10000 \<Longrightarrow> get_year (pad_int 4 y @ r) = Some (y, r)"
proof -
  assume "0 \<le> y" "y < 10000"
  then have "nat y < 10 ^ 4" by simp
  then have "length (pad 4 (nat y)) = 4" by (rule length_pad) simp
  with pad_digits[of 4 "nat y"] \<open>0 \<le> y\<close> show ?thesis by (simp add: get_year_def pad_int_def)
qed

lemma skip_byte_Cons [simp]: "skip_byte c (c # r) = Some r"
  by (simp add: skip_byte_def)

lemma in_range_Some [simp]: "lo \<le> v \<Longrightarrow> v < hi \<Longrightarrow> in_range lo hi v = Some ()"
  by (simp add: in_range_def)

lemma finish_time_ok: "civil_ok c \<Longrightarrow> finish_time c ns off = Some (instant_of c ns - off * second)"
  by (simp add: finish_time_def civil_ok_def)

lemma parse_format_stamp:
  assumes "0 \<le> c_year (civil_of t)" "c_year (civil_of t) < 10000"
  shows "parse_stamp_layout (format_stamp (civil_of t)) = Some (truncate_second t)"
proof -
  let ?c = "civil_of t"
  have ok: "civil_ok ?c" by (rule civil_of_ok)
  then have "finish_time \<lparr>c_year = c_year ?c, c_month = c_month ?c, c_day = c_day ?c,
     c_hour = c_hour ?c, c_min = c_min ?c, c_sec = c_sec ?c\<rparr> 0 0 = Some (truncate_second t)"
    unfolding civil_eta by (simp add: finish_time_ok instant_of_civil_of)
  then show ?thesis using ok assms
    by (simp add: parse_stamp_layout_def format_stamp_def civil_ok_def get_fraction_def)
qed

text \<open>An offset RFC 3339 can write: whole minutes, less than a day.\<close>

definition writable_offset :: "int \<Rightarrow> bool" where
  "writable_offset off \<longleftrightarrow> off mod 60 = 0 \<and> \<bar>off\<bar> < 86400"

lemma get_offset_format:
  assumes "writable_offset off"
  shows "get_offset (format_offset off) = Some (off, [])"
proof (cases "off = 0")
  case True
  then show ?thesis by (simp add: get_offset_def format_offset_def)
next
  case False
  define m where "m = \<bar>off\<bar> div 60"
  define h where "h = m div 60"
  define mi where "mi = m mod 60"
  have "\<bar>off\<bar> mod 60 = 0" using assms by (auto simp: writable_offset_def abs_if)
  then have m: "m * 60 = \<bar>off\<bar>" by (auto simp: m_def)
  with assms have "0 \<le> m" "m < 1440" by (auto simp: writable_offset_def)
  then have h: "0 \<le> h" "h < 24" and mi: "0 \<le> mi" "mi < 60" and hm: "h * 60 + mi = m"
    by (simp_all add: h_def mi_def)
  from h mi have "nat h < 100" "nat mi < 100" by simp_all
  then obtain a b c d where ab: "pad 2 (nat h) = [a, b]" "is_digit a" "is_digit b"
      "10 * digit_value a + digit_value b = nat h"
    and cd: "pad 2 (nat mi) = [c, d]" "is_digit c" "is_digit d"
      "10 * digit_value c + digit_value d = nat mi"
    by (metis two_digits)
  have g: "getnum True [a, b] = Some (h, [])" "getnum True [c, d] = Some (mi, [])"
    using ab cd h mi by simp_all
  have sign: "off \<le> - 60 \<longleftrightarrow> off < 0"
    using assms unfolding writable_offset_def by presburger
  have f: "format_offset off = (if off < 0 then CHR ''-'' else CHR ''+'') # a # b # CHR '':'' # [c, d]"
    unfolding format_offset_def Let_def pad_int_def m_def[symmetric] h_def[symmetric] mi_def[symmetric]
    using ab(1) cd(1) False sign by simp
  have "(if off < 0 then -1 else 1) * ((h * 60 + mi) * 60) = off"
    unfolding hm m by (cases "off < 0") simp_all
  with g h mi show ?thesis unfolding f by (auto simp: get_offset_def)
qed

lemma get_fraction_offset [simp]: "get_fraction (format_offset off) = (0, format_offset off)"
  by (auto simp: get_fraction_def format_offset_def Let_def split: list.splits)

theorem parse_format_rfc3339:
  assumes "writable_offset (zone t)"
    and "0 \<le> c_year (civil_of (t + zone t * second))" "c_year (civil_of (t + zone t * second)) < 10000"
  shows "parse_rfc3339 (format_rfc3339 zone t) = Some (truncate_second t)"
proof -
  let ?c = "civil_of (t + zone t * second)"
  have ok: "civil_ok ?c" by (rule civil_of_ok)
  have "truncate_second (t + zone t * second) = truncate_second t + zone t * second"
    by (simp add: truncate_second_def second_def algebra_simps)
  then have "finish_time \<lparr>c_year = c_year ?c, c_month = c_month ?c, c_day = c_day ?c,
     c_hour = c_hour ?c, c_min = c_min ?c, c_sec = c_sec ?c\<rparr> 0 (zone t) = Some (truncate_second t)"
    unfolding civil_eta using ok by (simp add: finish_time_ok instant_of_civil_of)
  then show ?thesis using ok assms
    by (simp add: parse_rfc3339_def format_rfc3339_def civil_ok_def Let_def get_offset_format)
qed

end
