(* ===== verification/Go_OS.thy ===== *)
theory Go_OS
  imports Go_Time
begin

text \<open>
  The part of Go's \<open>os\<close> and \<open>path/filepath\<close> packages the program uses, over an explicit file
  system. A path is kept cleaned, as \<open>filepath.Join\<close> returns it: whether it is absolute, and its
  elements. Every system call may fail: the state carries the failures to come, one entry for each
  call, \<open>None\<close> for a call that goes through. A failing write leaves as many bytes as its entry
  says. When the entries run out, no call fails.
\<close>

section \<open>Paths\<close>

type_synonym place = "bool \<times> string list"

definition clean_step :: "bool \<Rightarrow> string list \<Rightarrow> string \<Rightarrow> string list" where
  "clean_step rooted done c =
     (if c = [] \<or> c = ''.'' then done
      else if c \<noteq> ''..'' then done @ [c]
      else if done = [] then (if rooted then [] else [''..''])
      else if last done = ''..'' then done @ [''..''] else butlast done)"

definition place_join :: "place \<Rightarrow> string \<Rightarrow> place" where
  "place_join p s = (fst p, foldl (clean_step (fst p)) (snd p) (split_on (CHR ''/'') s))"

definition place_of :: "string \<Rightarrow> place" where
  "place_of s = place_join (has_prefix s ''/'', []) s"

definition place_string :: "place \<Rightarrow> string" where
  "place_string p =
     (let body = join_with ''/'' (snd p)
      in if fst p then CHR ''/'' # body else if body = [] then ''.'' else body)"

definition place_dir :: "place \<Rightarrow> place" where
  "place_dir p = (fst p, butlast (snd p))"

definition place_base :: "place \<Rightarrow> string" where
  "place_base p = (if snd p = [] then (if fst p then ''/'' else ''.'') else last (snd p))"

text \<open>\<open>filepath.Join\<close>, \<open>filepath.Dir\<close> and \<open>filepath.Base\<close> of paths as they are written.\<close>

definition filepath_join :: "string list \<Rightarrow> string" where
  "filepath_join parts =
     (let given = filter (\<lambda>p. p \<noteq> []) parts
      in if given = [] then [] else place_string (place_of (join_with ''/'' given)))"

definition filepath_dir :: "string \<Rightarrow> string" where
  "filepath_dir path = place_string (place_of (take (nat (last_index (CHR ''/'') path + 1)) path))"

definition filepath_base :: "string \<Rightarrow> string" where
  "filepath_base path =
     (let bare = trim_right_by ((=) (CHR ''/'')) path;
          last_part = drop (nat (last_index (CHR ''/'') bare + 1)) bare
      in if path = [] then ''.'' else if last_part = [] then ''/'' else last_part)"

definition simple_name :: "string \<Rightarrow> bool" where
  "simple_name s \<longleftrightarrow> s \<noteq> [] \<and> s \<noteq> ''.'' \<and> s \<noteq> ''..'' \<and> CHR ''/'' \<notin> set s"

lemma place_join_simple: "simple_name s \<Longrightarrow> place_join p s = (fst p, snd p @ [s])"
  by (simp add: simple_name_def place_join_def split_on_whole clean_step_def)

lemma place_join_cons:
  "simple_name a \<Longrightarrow> place_join p (a @ CHR ''/'' # s) = place_join (fst p, snd p @ [a]) s"
  by (simp add: simple_name_def place_join_def split_on_append clean_step_def)

lemma place_join_inj:
  "simple_name a \<Longrightarrow> simple_name b \<Longrightarrow> place_join p a = place_join p b \<longleftrightarrow> a = b"
  by (simp add: place_join_simple)

section \<open>The state of a machine\<close>

datatype node = Dir | File (file_bytes: string) (file_modified: instant)

record os =
  os_files :: "(place \<times> node) list"
  os_faults :: "(gerr \<times> nat) option list"
  os_now :: instant
  os_pid :: int
  os_signalled :: "int list"

text \<open>\<open>os_signalled\<close> are the processes that accept signal zero from this one.\<close>

definition node_at :: "os \<Rightarrow> place \<Rightarrow> node option" where
  "node_at s p = map_of (os_files s) p"

definition set_node :: "place \<Rightarrow> node \<Rightarrow> os \<Rightarrow> os" where
  "set_node p n s = s\<lparr>os_files := AList.update p n (os_files s)\<rparr>"

definition drop_node :: "place \<Rightarrow> os \<Rightarrow> os" where
  "drop_node p s = s\<lparr>os_files := AList.delete p (os_files s)\<rparr>"

definition os_call :: "os \<Rightarrow> (gerr \<times> nat) option \<times> os" where
  "os_call s = (case os_faults s of [] \<Rightarrow> (None, s) | f # fs \<Rightarrow> (f, s\<lparr>os_faults := fs\<rparr>))"

lemma node_at_set [simp]: "node_at (set_node p n s) q = (if q = p then Some n else node_at s q)"
  by (simp add: node_at_def set_node_def update_conv)

lemma node_at_drop [simp]: "node_at (drop_node p s) q = (if q = p then None else node_at s q)"
  by (simp add: node_at_def drop_node_def delete_conv)

lemma os_rest_set [simp]:
  "os_faults (set_node p n s) = os_faults s" "os_now (set_node p n s) = os_now s"
  "os_pid (set_node p n s) = os_pid s" "os_signalled (set_node p n s) = os_signalled s"
  by (simp_all add: set_node_def)

lemma os_rest_drop [simp]:
  "os_faults (drop_node p s) = os_faults s" "os_now (drop_node p s) = os_now s"
  "os_pid (drop_node p s) = os_pid s" "os_signalled (drop_node p s) = os_signalled s"
  by (simp_all add: drop_node_def)

definition path_error :: "sentinel list \<Rightarrow> string \<Rightarrow> place \<Rightarrow> string \<Rightarrow> gerr" where
  "path_error ks op p said = Gerr ks (op @ '' '' @ place_string p @ '': '' @ said)"

definition not_exist :: "string \<Rightarrow> place \<Rightarrow> gerr" where
  "not_exist op p = path_error [ErrNotExist] op p ''no such file or directory''"

definition parent_ok :: "os \<Rightarrow> place \<Rightarrow> bool" where
  "parent_ok s p \<longleftrightarrow> butlast (snd p) = [] \<or> node_at s (place_dir p) = Some Dir"

section \<open>Calls\<close>

fun ensure_dirs :: "bool \<Rightarrow> string list \<Rightarrow> string list \<Rightarrow> os \<Rightarrow> os option" where
  "ensure_dirs r done [] s = Some s"
| "ensure_dirs r done (c # cs) s =
     (case node_at s (r, done @ [c]) of
        Some (File _ _) \<Rightarrow> None
      | Some Dir \<Rightarrow> ensure_dirs r (done @ [c]) cs s
      | None \<Rightarrow> ensure_dirs r (done @ [c]) cs (set_node (r, done @ [c]) Dir s))"

definition os_mkdir_all :: "place \<Rightarrow> os \<Rightarrow> unit result \<times> os" where
  "os_mkdir_all p s0 =
     (case os_call s0 of
        (Some (e, _), s) \<Rightarrow> (Inl e, s)
      | (None, s) \<Rightarrow>
          (case ensure_dirs (fst p) [] (snd p) s of
             None \<Rightarrow> (Inl (path_error [] ''mkdir'' p ''not a directory''), s)
           | Some s' \<Rightarrow> (Inr (), s')))"

definition os_create_excl :: "place \<Rightarrow> os \<Rightarrow> unit result \<times> os" where
  "os_create_excl p s0 =
     (case os_call s0 of
        (Some (e, _), s) \<Rightarrow> (Inl e, s)
      | (None, s) \<Rightarrow>
          if node_at s p \<noteq> None then (Inl (path_error [ErrExist] ''open'' p ''file exists''), s)
          else if \<not> parent_ok s p then (Inl (not_exist ''open'' p), s)
          else (Inr (), set_node p (File [] (os_now s)) s))"

definition os_create_trunc :: "place \<Rightarrow> os \<Rightarrow> unit result \<times> os" where
  "os_create_trunc p s0 =
     (case os_call s0 of
        (Some (e, _), s) \<Rightarrow> (Inl e, s)
      | (None, s) \<Rightarrow>
          if node_at s p = Some Dir then (Inl (path_error [] ''open'' p ''is a directory''), s)
          else if \<not> parent_ok s p then (Inl (not_exist ''open'' p), s)
          else (Inr (), set_node p (File [] (os_now s)) s))"

definition append_node :: "place \<Rightarrow> string \<Rightarrow> os \<Rightarrow> os" where
  "append_node p bytes s =
     (case node_at s p of
        Some (File before _) \<Rightarrow> set_node p (File (before @ bytes) (os_now s)) s
      | _ \<Rightarrow> s)"

definition os_write :: "place \<Rightarrow> string \<Rightarrow> os \<Rightarrow> gerr option \<times> os" where
  "os_write p bytes s0 =
     (case os_call s0 of
        (Some (e, n), s) \<Rightarrow> (Some e, append_node p (take n bytes) s)
      | (None, s) \<Rightarrow> (None, append_node p bytes s))"

text \<open>Closing, flushing and seeking change no file.\<close>

definition os_touch :: "os \<Rightarrow> gerr option \<times> os" where
  "os_touch s0 = (case os_call s0 of (Some (e, _), s) \<Rightarrow> (Some e, s) | (None, s) \<Rightarrow> (None, s))"

definition has_children :: "os \<Rightarrow> place \<Rightarrow> bool" where
  "has_children s p \<longleftrightarrow> list_ex (\<lambda>(q, _). snd q \<noteq> [] \<and> place_dir q = p) (os_files s)"

definition os_remove :: "place \<Rightarrow> os \<Rightarrow> gerr option \<times> os" where
  "os_remove p s0 =
     (case os_call s0 of
        (Some (e, _), s) \<Rightarrow> (Some e, s)
      | (None, s) \<Rightarrow>
          (case node_at s p of
             None \<Rightarrow> (Some (not_exist ''remove'' p), s)
           | Some n \<Rightarrow>
               if n = Dir \<and> has_children s p
               then (Some (path_error [] ''remove'' p ''directory not empty''), s)
               else (None, drop_node p s)))"

definition os_read_file :: "place \<Rightarrow> os \<Rightarrow> string result \<times> os" where
  "os_read_file p s0 =
     (case os_call s0 of
        (Some (e, _), s) \<Rightarrow> (Inl e, s)
      | (None, s) \<Rightarrow>
          (case node_at s p of
             None \<Rightarrow> (Inl (not_exist ''open'' p), s)
           | Some Dir \<Rightarrow> (Inl (path_error [] ''read'' p ''is a directory''), s)
           | Some (File c _) \<Rightarrow> (Inr c, s)))"

fun bytes_less :: "string \<Rightarrow> string \<Rightarrow> bool" where
  "bytes_less _ [] = False"
| "bytes_less [] (_ # _) = True"
| "bytes_less (x # xs) (y # ys) =
     (of_char x < (of_char y :: nat) \<or> x = y \<and> bytes_less xs ys)"

lemma bytes_less_order:
  "\<not> bytes_less a a"
  "bytes_less a b \<Longrightarrow> bytes_less b c \<Longrightarrow> bytes_less a c"
  "bytes_less a c \<Longrightarrow> bytes_less a b \<or> bytes_less b c"
proof -
  show "\<not> bytes_less a a" by (induction a) simp_all
  show "bytes_less a b \<Longrightarrow> bytes_less b c \<Longrightarrow> bytes_less a c"
  proof (induction a b arbitrary: c rule: bytes_less.induct)
    case (3 x xs y ys)
    then show ?case by (cases c) auto
  qed (case_tac c; simp)+
  show "bytes_less a c \<Longrightarrow> bytes_less a b \<or> bytes_less b c"
  proof (induction a c arbitrary: b rule: bytes_less.induct)
    case (3 x xs y ys)
    show ?case
    proof (cases b)
      case (Cons z zs)
      then show ?thesis using "3.IH"[of zs] "3.prems" by (cases "of_char x = (of_char z :: nat)") auto
    qed (use "3.prems" in simp)
  qed (case_tac b; simp)+
qed

lemma bytes_less_total: "a \<noteq> b \<Longrightarrow> bytes_less a b \<or> bytes_less b a"
proof (induction a b rule: bytes_less.induct)
  case (3 x xs y ys)
  show ?case
  proof (cases "x = y")
    case True
    with 3 show ?thesis by auto
  next
    case False
    then have "of_char x \<noteq> (of_char y :: nat)" by simp
    then consider "of_char x < (of_char y :: nat)" | "of_char y < (of_char x :: nat)" by (rule linorder_neqE_nat)
    then show ?thesis by cases simp_all
  qed
qed (auto simp: neq_Nil_conv)

interpretation bytes: strict_order bytes_less
  by unfold_locales (use bytes_less_order in blast)+

definition children :: "os \<Rightarrow> place \<Rightarrow> string list" where
  "children s p =
     sort_by bytes_less
       (map (\<lambda>(q, _). last (snd q))
         (filter (\<lambda>(q, _). snd q \<noteq> [] \<and> place_dir q = p) (AList.clearjunk (os_files s))))"

definition os_read_dir :: "place \<Rightarrow> os \<Rightarrow> string list result \<times> os" where
  "os_read_dir p s0 =
     (case os_call s0 of
        (Some (e, _), s) \<Rightarrow> (Inl e, s)
      | (None, s) \<Rightarrow>
          (case node_at s p of
             None \<Rightarrow> if snd p = [] then (Inr (children s p), s) else (Inl (not_exist ''open'' p), s)
           | Some (File _ _) \<Rightarrow> (Inl (path_error [] ''readdirent'' p ''not a directory''), s)
           | Some Dir \<Rightarrow> (Inr (children s p), s)))"

definition os_rename :: "place \<Rightarrow> place \<Rightarrow> os \<Rightarrow> gerr option \<times> os" where
  "os_rename p q s0 =
     (case os_call s0 of
        (Some (e, _), s) \<Rightarrow> (Some e, s)
      | (None, s) \<Rightarrow>
          (case node_at s p of
             None \<Rightarrow> (Some (not_exist ''rename'' p), s)
           | Some n \<Rightarrow>
               if node_at s q = Some Dir then (Some (path_error [] ''rename'' q ''file exists''), s)
               else if \<not> parent_ok s q then (Some (not_exist ''rename'' q), s)
               else (None, set_node q n (drop_node p s))))"

text \<open>\<open>os.CreateTemp\<close>: the star of the pattern becomes a number no file has yet.\<close>

definition temp_place :: "place \<Rightarrow> string \<Rightarrow> string \<Rightarrow> nat \<Rightarrow> place" where
  "temp_place d before after n = place_join d (before @ dec n @ after)"

definition fresh_temp :: "place \<Rightarrow> string \<Rightarrow> string \<Rightarrow> os \<Rightarrow> place option" where
  "fresh_temp d before after s =
     find (\<lambda>p. node_at s p = None)
       (map (temp_place d before after) [0..<Suc (length (os_files s))])"

definition os_create_temp :: "place \<Rightarrow> string \<Rightarrow> string \<Rightarrow> os \<Rightarrow> place result \<times> os" where
  "os_create_temp d before after s0 =
     (case os_call s0 of
        (Some (e, _), s) \<Rightarrow> (Inl e, s)
      | (None, s) \<Rightarrow>
          (case fresh_temp d before after s of
             None \<Rightarrow> (Inl (path_error [ErrExist] ''createtemp'' d ''file exists''), s)
           | Some p \<Rightarrow>
               if \<not> parent_ok s p then (Inl (not_exist ''open'' p), s)
               else (Inr p, set_node p (File [] (os_now s)) s)))"

text \<open>\<open>process.Signal(syscall.Signal(0)) == nil\<close>\<close>

definition running :: "os \<Rightarrow> int \<Rightarrow> bool" where
  "running s pid \<longleftrightarrow> 0 < pid \<and> pid \<in> set (os_signalled s)"

section \<open>What a call changes\<close>

text \<open>Nothing but the files and the failures to come.\<close>

definition same_machine :: "os \<Rightarrow> os \<Rightarrow> bool" where
  "same_machine s t \<longleftrightarrow> os_now t = os_now s \<and> os_pid t = os_pid s \<and> os_signalled t = os_signalled s
     \<and> suffix (os_faults t) (os_faults s)"

lemma same_machine_refl [simp]: "same_machine s s"
  by (simp add: same_machine_def)

lemma same_machine_trans [trans]: "same_machine s t \<Longrightarrow> same_machine t u \<Longrightarrow> same_machine s u"
  unfolding same_machine_def using suffix_order.trans by auto

text \<open>A machine on which no call fails.\<close>

definition quiet :: "os \<Rightarrow> bool" where
  "quiet s \<longleftrightarrow> os_faults s = []"

lemma quiet_call [simp]: "quiet s \<Longrightarrow> os_call s = (None, s)"
  by (simp add: quiet_def os_call_def)

lemma quiet_set [simp]: "quiet (set_node p n s) = quiet s"
  by (simp add: quiet_def)

lemma quiet_drop [simp]: "quiet (drop_node p s) = quiet s"
  by (simp add: quiet_def)

lemma quiet_same: "same_machine s t \<Longrightarrow> quiet s \<Longrightarrow> quiet t"
  by (simp add: same_machine_def quiet_def)

lemma running_same: "same_machine s t \<Longrightarrow> running t pid = running s pid"
  by (simp add: same_machine_def running_def)

lemma same_machine_set [simp]: "same_machine s (set_node p n t) = same_machine s t"
  by (simp add: same_machine_def)

lemma same_machine_from_set [simp]: "same_machine (set_node p n s) t = same_machine s t"
  by (simp add: same_machine_def)

lemma same_machine_drop [simp]: "same_machine s (drop_node p t) = same_machine s t"
  by (simp add: same_machine_def)

lemma same_machine_append [simp]: "same_machine s (append_node p b t) = same_machine s t"
  by (simp add: append_node_def split: option.splits node.splits)

lemma node_at_append: "q \<noteq> p \<Longrightarrow> node_at (append_node p b s) q = node_at s q"
  by (simp add: append_node_def split: option.splits node.splits)

lemma os_call_frame:
  "os_call s = (f, t) \<Longrightarrow> same_machine s t"
  "os_call s = (f, t) \<Longrightarrow> os_files t = os_files s"
  "os_call s = (f, t) \<Longrightarrow> node_at t q = node_at s q"
  by (auto simp: os_call_def same_machine_def node_at_def suffix_ConsI split: list.splits)

lemma ensure_dirs_frame:
  "ensure_dirs r ds cs s = Some t
    \<Longrightarrow> same_machine s t \<and> (node_at t q = node_at s q \<or> node_at s q = None \<and> node_at t q = Some Dir)"
proof (induction r ds cs s rule: ensure_dirs.induct)
  case (1 r ds s)
  then show ?case by simp
next
  case (2 r ds c cs s)
  show ?case
  proof (cases "node_at s (r, ds @ [c])")
    case None
    with "2.IH"(1)[OF None] "2.prems" show ?thesis by (auto split: if_splits)
  next
    case (Some n)
    with "2.IH"(2)[OF Some] "2.prems" show ?thesis by (cases n) auto
  qed
qed

lemma ensure_dirs_below:
  "ensure_dirs r ds cs s = Some t \<Longrightarrow> length (ds @ cs) < length (snd q) \<Longrightarrow> node_at t q = node_at s q"
proof (induction r ds cs s rule: ensure_dirs.induct)
  case (1 r ds s)
  then show ?case by simp
next
  case (2 r ds c cs s)
  then show ?case by (cases "node_at s (r, ds @ [c])") (auto split: node.splits)
qed

lemma ensure_dirs_made:
  "ensure_dirs r ds cs s = Some t \<Longrightarrow> (ds \<noteq> [] \<Longrightarrow> node_at s (r, ds) = Some Dir)
    \<Longrightarrow> ds @ cs \<noteq> [] \<Longrightarrow> node_at t (r, ds @ cs) = Some Dir"
proof (induction r ds cs s rule: ensure_dirs.induct)
  case (1 r ds s)
  then show ?case by simp
next
  case (2 r ds c cs s)
  then show ?case by (auto split: option.splits node.splits)
qed

lemma ensure_dirs_ok:
  "(\<And>k. k < length cs \<Longrightarrow> \<not> (\<exists>c m. node_at s (r, ds @ take (Suc k) cs) = Some (File c m)))
    \<Longrightarrow> ensure_dirs r ds cs s \<noteq> None"
proof (induction r ds cs s rule: ensure_dirs.induct)
  case (1 r ds s)
  then show ?case by simp
next
  case (2 r ds c cs s)
  have hd: "\<not> (\<exists>x m. node_at s (r, ds @ [c]) = Some (File x m))" using "2.prems"[of 0] by simp
  have tl: "\<not> (\<exists>x m. node_at s (r, (ds @ [c]) @ take (Suc k) cs) = Some (File x m))" if "k < length cs" for k
    using "2.prems"[of "Suc k"] that by simp
  show ?case
  proof (cases "node_at s (r, ds @ [c])")
    case None
    have "ensure_dirs r (ds @ [c]) cs (set_node (r, ds @ [c]) Dir s) \<noteq> None"
      by (rule "2.IH"(1)[OF None]) (use tl in \<open>auto split: if_splits\<close>)
    with None show ?thesis by simp
  next
    case (Some n)
    then have n: "n = Dir" using hd by (cases n) auto
    have "ensure_dirs r (ds @ [c]) cs s \<noteq> None" by (rule "2.IH"(2)) (use Some n tl in auto)
    with Some n show ?thesis by simp
  qed
qed

lemma mkdir_frame:
  "os_mkdir_all p s = (r, t) \<Longrightarrow> same_machine s t"
  "os_mkdir_all p s = (r, t) \<Longrightarrow> node_at t q = node_at s q \<or> node_at s q = None \<and> node_at t q = Some Dir"
  "os_mkdir_all p s = (Inr u, t) \<Longrightarrow> snd p \<noteq> [] \<Longrightarrow> node_at t p = Some Dir"
proof -
  assume h: "os_mkdir_all p s = (r, t)"
  then show "same_machine s t"
    by (auto simp: os_mkdir_all_def dest: ensure_dirs_frame os_call_frame(1) intro: same_machine_trans
        split: prod.splits option.splits)
  from h show "node_at t q = node_at s q \<or> node_at s q = None \<and> node_at t q = Some Dir"
    by (auto simp: os_mkdir_all_def os_call_frame(3) dest!: ensure_dirs_frame[where q = q]
        split: prod.splits option.splits)
next
  assume h: "os_mkdir_all p s = (Inr u, t)" "snd p \<noteq> []"
  then show "node_at t p = Some Dir"
    by (cases p) (auto simp: os_mkdir_all_def dest!: ensure_dirs_made split: prod.splits option.splits)
qed

lemma mkdir_below:
  "os_mkdir_all p s = (r, t) \<Longrightarrow> length (snd p) < length (snd q) \<Longrightarrow> node_at t q = node_at s q"
  by (auto simp: os_mkdir_all_def os_call_frame(3) dest!: ensure_dirs_below[where q = q]
      split: prod.splits option.splits)

lemma mkdir_file: "os_mkdir_all p s = (r, t) \<Longrightarrow> node_at t q = Some (File c m) \<longleftrightarrow> node_at s q = Some (File c m)"
  by (metis mkdir_frame(2) node.distinct(1) option.distinct(1) option.inject)

lemma create_frame:
  "os_create_excl p s = (r, t) \<Longrightarrow> same_machine s t"
  "os_create_excl p s = (r, t) \<Longrightarrow> q \<noteq> p \<Longrightarrow> node_at t q = node_at s q"
  "os_create_excl p s = (Inl e, t) \<Longrightarrow> node_at t q = node_at s q"
  "os_create_excl p s = (Inr u, t) \<Longrightarrow> node_at s p = None \<and> node_at t p = Some (File [] (os_now s))"
  by (auto simp: os_create_excl_def os_call_frame dest: os_call_frame(1) split: prod.splits option.splits if_splits)
    (auto dest: os_call_frame(1) simp: same_machine_def)

lemma trunc_frame:
  "os_create_trunc p s = (r, t) \<Longrightarrow> same_machine s t"
  "os_create_trunc p s = (r, t) \<Longrightarrow> q \<noteq> p \<Longrightarrow> node_at t q = node_at s q"
  "os_create_trunc p s = (Inl e, t) \<Longrightarrow> node_at t q = node_at s q"
  "os_create_trunc p s = (Inr u, t) \<Longrightarrow> node_at t p = Some (File [] (os_now s))"
  by (auto simp: os_create_trunc_def os_call_frame dest: os_call_frame(1) split: prod.splits option.splits if_splits)
    (auto dest: os_call_frame(1) simp: same_machine_def)

lemma write_frame:
  "os_write p b s = (r, t) \<Longrightarrow> same_machine s t"
  "os_write p b s = (r, t) \<Longrightarrow> q \<noteq> p \<Longrightarrow> node_at t q = node_at s q"
  by (auto simp: os_write_def os_call_frame node_at_append dest: os_call_frame(1) split: prod.splits option.splits)

lemma touch_frame:
  "os_touch s = (r, t) \<Longrightarrow> same_machine s t" "os_touch s = (r, t) \<Longrightarrow> node_at t q = node_at s q"
  by (auto simp: os_touch_def os_call_frame dest: os_call_frame(1) split: prod.splits option.splits)

lemma remove_frame:
  "os_remove p s = (r, t) \<Longrightarrow> same_machine s t"
  "os_remove p s = (r, t) \<Longrightarrow> q \<noteq> p \<Longrightarrow> node_at t q = node_at s q"
  "os_remove p s = (None, t) \<Longrightarrow> node_at t p = None"
  "os_remove p s = (Some e, t) \<Longrightarrow> node_at t q = node_at s q"
  by (auto simp: os_remove_def os_call_frame dest: os_call_frame(1) split: prod.splits option.splits if_splits)

lemma read_frame:
  "os_read_file p s = (r, t) \<Longrightarrow> same_machine s t" "os_read_file p s = (r, t) \<Longrightarrow> node_at t q = node_at s q"
  "os_read_file p s = (Inr c, t) \<Longrightarrow> \<exists>m. node_at s p = Some (File c m)"
  by (auto simp: os_read_file_def os_call_frame dest: os_call_frame(1) split: prod.splits option.splits node.splits)

lemma read_dir_frame:
  "os_read_dir p s = (r, t) \<Longrightarrow> same_machine s t" "os_read_dir p s = (r, t) \<Longrightarrow> node_at t q = node_at s q"
  by (auto simp: os_read_dir_def os_call_frame dest: os_call_frame(1)
      split: prod.splits option.splits node.splits if_splits)

lemma rename_frame:
  "os_rename p q s = (r, t) \<Longrightarrow> same_machine s t"
  "os_rename p q s = (r, t) \<Longrightarrow> x \<noteq> p \<Longrightarrow> x \<noteq> q \<Longrightarrow> node_at t x = node_at s x"
  "os_rename p q s = (Some e, t) \<Longrightarrow> node_at t x = node_at s x"
  "os_rename p q s = (None, t) \<Longrightarrow> node_at t q = node_at s p \<and> (p \<noteq> q \<longrightarrow> node_at t p = None)"
  by (auto simp: os_rename_def os_call_frame dest: os_call_frame(1) split: prod.splits option.splits if_splits)

lemma find_found: "find P xs = Some x \<Longrightarrow> P x \<and> x \<in> set xs"
  by (induction xs) (auto split: if_splits)

lemma fresh_temp_free: "fresh_temp d b a s = Some p \<Longrightarrow> node_at s p = None \<and> (\<exists>n. p = temp_place d b a n)"
  unfolding fresh_temp_def by (drule find_found) auto

lemma create_temp_frame:
  "os_create_temp d b a s = (r, t) \<Longrightarrow> same_machine s t"
  "os_create_temp d b a s = (Inl e, t) \<Longrightarrow> node_at t q = node_at s q"
  "os_create_temp d b a s = (Inr p, t) \<Longrightarrow> node_at s p = None \<and> (\<exists>n. p = temp_place d b a n)"
  "os_create_temp d b a s = (Inr p, t) \<Longrightarrow> node_at t q = (if q = p then Some (File [] (os_now s)) else node_at s q)"
  by (auto simp: os_create_temp_def os_call_frame dest!: fresh_temp_free dest: os_call_frame(1)
      split: prod.splits option.splits if_splits)
    (auto dest: os_call_frame(1) simp: same_machine_def)

lemmas os_same = mkdir_frame(1) create_frame(1) trunc_frame(1) write_frame(1) touch_frame(1)
  remove_frame(1) read_frame(1) read_dir_frame(1) rename_frame(1) create_temp_frame(1)

lemma ensure_dirs_only:
  "ensure_dirs r ds cs s = Some t \<Longrightarrow> (\<And>k. k < length cs \<Longrightarrow> q \<noteq> (r, ds @ take (Suc k) cs)) \<Longrightarrow> node_at t q = node_at s q"
proof (induction r ds cs s rule: ensure_dirs.induct)
  case (1 r ds s)
  then show ?case by simp
next
  case (2 r ds c cs s)
  have "q \<noteq> (r, (ds @ [c]) @ take (Suc k) cs)" if "k < length cs" for k using "2.prems"(2)[of "Suc k"] that by simp
  moreover have "q \<noteq> (r, ds @ [c])" using "2.prems"(2)[of 0] by simp
  ultimately show ?case using 2 by (cases "node_at s (r, ds @ [c])") (auto split: node.splits)
qed

lemma mkdir_only:
  assumes "os_mkdir_all p s = (r, t)" "\<not> prefix (snd q) (snd p)"
  shows "node_at t q = node_at s q"
proof -
  have "q \<noteq> (fst p, [] @ take (Suc k) (snd p))" for k using assms(2) take_is_prefix[of "Suc k" "snd p"] by auto
  then show ?thesis using assms(1)
    by (auto simp: os_mkdir_all_def os_call_frame(3) dest!: ensure_dirs_only[where q = q] split: prod.splits option.splits)
qed

lemma fresh_temp_exists: "fresh_temp d b a s \<noteq> None" if sl: "\<And>n. simple_name (b @ dec n @ a)"
proof
  let ?ps = "map (temp_place d b a) [0..<Suc (length (os_files s))]"
  assume n: "fresh_temp d b a s = None"
  have inj: "inj (temp_place d b a)"
    by (rule injI) (auto simp: temp_place_def place_join_simple[OF sl] dest: arg_cong[where f = digits_value])
  from n have "\<forall>p \<in> set ?ps. node_at s p \<noteq> None"
    unfolding fresh_temp_def find_None_iff by (auto simp del: upt_Suc)
  then have "set ?ps \<subseteq> fst ` set (os_files s)"
    by (auto simp: node_at_def map_of_eq_None_iff)
  then have "card (set ?ps) \<le> card (fst ` set (os_files s))" by (intro card_mono) auto
  also have "\<dots> \<le> length (os_files s)" by (metis card_length length_map set_map)
  finally have "card (set ?ps) \<le> length (os_files s)" .
  moreover have "card (set ?ps) = Suc (length (os_files s))"
    using card_image[OF inj_on_subset[OF inj subset_UNIV]] by (simp del: upt_Suc)
  ultimately show False by simp
qed

text \<open>No file stands where a directory is to be made.\<close>

definition dirs_free :: "os \<Rightarrow> place \<Rightarrow> bool" where
  "dirs_free s p \<longleftrightarrow>
     (\<forall>k < length (snd p). \<not> (\<exists>c m. node_at s (fst p, take (Suc k) (snd p)) = Some (File c m)))"

lemma quiet_mkdir:
  assumes "quiet s" "dirs_free s p"
  obtains t where "os_mkdir_all p s = (Inr (), t)"
proof -
  have "ensure_dirs (fst p) [] (snd p) s \<noteq> None"
    by (rule ensure_dirs_ok) (use assms(2) in \<open>simp add: dirs_free_def\<close>)
  with assms(1) that show ?thesis by (auto simp: os_mkdir_all_def)
qed

lemma dirs_free_mono:
  "dirs_free s p \<Longrightarrow> (\<And>q c m. length (snd q) \<le> length (snd p) \<Longrightarrow> node_at t q = Some (File c m) \<Longrightarrow> \<exists>c m. node_at s q = Some (File c m))
    \<Longrightarrow> dirs_free t p"
  unfolding dirs_free_def by (metis length_take min.cobounded1 snd_conv)

text \<open>A quiet machine with one process and given files, for examples.\<close>

definition one_process :: "int \<Rightarrow> (place \<times> node) list \<Rightarrow> os" where
  "one_process pid files = \<lparr>os_files = files, os_faults = [], os_now = 0, os_pid = pid, os_signalled = [pid]\<rparr>"

lemma one_process_simps [simp]:
  "quiet (one_process pid files)" "os_pid (one_process pid files) = pid"
  "running (one_process pid files) q = (0 < q \<and> q = pid)" "node_at (one_process pid files) p = map_of files p"
  by (simp_all add: one_process_def quiet_def running_def node_at_def)

end
