(* ===== verification/Archive_Path.thy ===== *)
theory Archive_Path
  imports Go_Time
begin

text \<open>
  The name of an archive, written by \<open>internal/domain/backup/path.go\<close> and read back by
  \<open>identify\<close> of \<open>internal/domain/catalog/lister.go\<close>:
  \<open><database>/<YYYY>/<MM>/<database>_<timestamp>_<id>.<ext>\<close>.
\<close>

section \<open>Writing a path\<close>

definition path_safe :: "char \<Rightarrow> bool" where
  "path_safe c \<longleftrightarrow> is_lower c \<or> is_upper c \<or> is_digit c \<or> c = CHR ''.'' \<or> c = CHR ''_'' \<or> c = CHR ''-''"

text \<open>
  \<open>unsafeInPath.ReplaceAllString(of, "-")\<close>: every run of bytes outside the class becomes one dash.
  A byte of a multi-byte rune is outside the class, and so is its rune.
\<close>

function replace_unsafe :: "string \<Rightarrow> string" where
  "replace_unsafe [] = []"
| "replace_unsafe (c # cs) =
     (if path_safe c then c # replace_unsafe cs
      else CHR ''-'' # replace_unsafe (dropWhile (\<lambda>b. \<not> path_safe b) cs))"
  by pat_completeness auto
termination
  by (relation "measure length") (auto simp: length_dropWhile_le le_imp_less_Suc)

text \<open>\<open>strings.ReplaceAll(cleaned, "..", "-")\<close>\<close>

fun replace_dots :: "string \<Rightarrow> string" where
  "replace_dots [] = []"
| "replace_dots [c] = [c]"
| "replace_dots (c # d # cs) =
     (if c = CHR ''.'' \<and> d = CHR ''.'' then CHR ''-'' # replace_dots cs
      else c # replace_dots (d # cs))"

definition trim_edge :: "char \<Rightarrow> bool" where
  "trim_edge c \<longleftrightarrow> c = CHR ''-'' \<or> c = CHR ''.''"

definition safe_segment :: "string \<Rightarrow> string" where
  "safe_segment s =
     (let cleaned = trim_by trim_edge (replace_dots (replace_unsafe s))
      in if cleaned = [] then ''unnamed'' else cleaned)"

text \<open>The extension is named after what the pipeline applied; a step koffr does not know is ignored.\<close>

definition step_extensions :: "(string \<times> string) list" where
  "step_extensions = [(''zstd'', ''zst''), (''age'', ''age'')]"

fun extension_parts :: "string list \<Rightarrow> string list" where
  "extension_parts [] = []"
| "extension_parts (step # pipeline) =
     (case map_of step_extensions (fst (cut (CHR '':'') step)) of
        Some extension \<Rightarrow> extension # extension_parts pipeline
      | None \<Rightarrow> extension_parts pipeline)"

definition archive_extension :: "string \<Rightarrow> string list \<Rightarrow> string" where
  "archive_extension dump pipeline = join_with ''.'' (dump # extension_parts pipeline)"

definition archive_path :: "string \<Rightarrow> instant \<Rightarrow> string \<Rightarrow> string \<Rightarrow> string" where
  "archive_path database at ident extension =
     (let safe = safe_segment database; w = civil_of at
      in safe @ ''/'' @ pad_int 4 (c_year w) @ ''/'' @ pad_int 2 (c_month w) @ ''/'' @
         safe @ ''_'' @ format_stamp w @ ''_'' @ safe_segment ident @ ''.'' @ trim_prefix extension ''.'')"

section \<open>Reading a path\<close>

text \<open>\<open>path.Base\<close> of a path that ends in the name of a file.\<close>

definition path_base :: "string \<Rightarrow> string" where
  "path_base p =
     (let q = trim_right_by (\<lambda>c. c = CHR ''/'') p
      in if p = [] then ''.'' else if q = [] then ''/''
         else drop (nat (last_index (CHR ''/'') q + 1)) q)"

record archive_identity =
  ai_database :: string
  ai_id :: string
  ai_at :: instant

definition identify :: "string \<Rightarrow> archive_identity option" where
  "identify archive =
     (let name = path_base archive
      in if has_suffix name ''.json'' then None
         else let (stem, _, found) = cut (CHR ''.'') name
              in if \<not> found then None
                 else let i = last_index (CHR ''_'') stem
                      in if i < 0 then None
                         else let ident = drop (nat i + 1) stem; rest = take (nat i) stem;
                                  j = last_index (CHR ''_'') rest
                              in if j < 0 then None
                                 else let database = take (nat j) rest;
                                          at = (case parse_stamp_layout (drop (nat j + 1) rest) of
                                                  Some moment \<Rightarrow> moment | None \<Rightarrow> 0)
                                      in if ident = [] \<or> database = [] then None
                                         else Some \<lparr>ai_database = database, ai_id = ident, ai_at = at\<rparr>)"

definition prefix_of :: "string \<Rightarrow> string" where
  "prefix_of database = (if database = [] then [] else database @ ''/'')"

section \<open>What a segment may hold\<close>

lemma path_safe_facts [simp]:
  "path_safe (CHR ''-'')" "path_safe (CHR ''.'')" "path_safe (CHR ''_'')" "\<not> path_safe (CHR ''/'')"
  by (simp_all add: path_safe_def is_lower_def is_upper_def is_digit_def byte_in_def)

lemma replace_unsafe_safe: "list_all path_safe (replace_unsafe s)"
  by (induction s rule: replace_unsafe.induct) auto

lemma replace_unsafe_id: "list_all path_safe s \<Longrightarrow> replace_unsafe s = s"
  by (induction s) auto

lemma set_replace_dots: "set (replace_dots s) \<subseteq> insert (CHR ''-'') (set s)"
  by (induction s rule: replace_dots.induct) auto

lemma replace_dots_no_dots: "\<not> contains (replace_dots s) ''..''"
proof (induction s rule: replace_dots.induct)
  case (3 c d cs)
  show ?case
  proof (cases "c = CHR ''.'' \<and> d = CHR ''.''")
    case True
    with 3 show ?thesis by simp
  next
    case False
    have "\<exists>r. replace_dots (d # cs) = d # r \<or> replace_dots (d # cs) = CHR ''-'' # r \<and> d = CHR ''.''"
      by (cases cs) auto
    then obtain r where "replace_dots (d # cs) = d # r \<or> replace_dots (d # cs) = CHR ''-'' # r \<and> d = CHR ''.''"
      by blast
    with 3 False show ?thesis by (auto simp: prefix_def)
  qed
qed (simp_all add: prefix_def)

lemma contains_infix: "contains b sub \<Longrightarrow> contains (a @ b @ c) sub"
  unfolding contains_iff by (metis append.assoc)

lemma trim_by_contains: "contains (trim_by P s) sub \<Longrightarrow> contains s sub"
  using trim_by_split[of s P] contains_infix by metis

lemma replace_dots_id: "\<not> contains s ''..'' \<Longrightarrow> replace_dots s = s"
  by (induction s rule: replace_dots.induct) (auto simp: prefix_def)

text \<open>
  What \<open>safeSegment\<close> promises: a name that is not empty, made of safe bytes, that neither climbs out
  of its directory nor hides.
\<close>

definition segment_ok :: "string \<Rightarrow> bool" where
  "segment_ok s \<longleftrightarrow> s \<noteq> [] \<and> list_all path_safe s \<and> \<not> contains s ''..''
     \<and> \<not> trim_edge (hd s) \<and> \<not> trim_edge (last s)"

lemma unnamed_ok: "segment_ok ''unnamed''"
  by (simp add: segment_ok_def path_safe_def is_lower_def byte_in_def trim_edge_def prefix_def)

lemma segment_ok_safe_segment: "segment_ok (safe_segment s)"
proof -
  let ?r = "replace_dots (replace_unsafe s)" let ?t = "trim_by trim_edge ?r"
  have "set ?r \<subseteq> Collect path_safe"
    using set_replace_dots[of "replace_unsafe s"] replace_unsafe_safe[of s]
    by (auto simp: list_all_iff)
  then have "list_all path_safe ?t" using set_trim_by_subset[of trim_edge ?r]
    by (auto simp: list_all_iff)
  moreover have "\<not> contains ?t ''..''" using replace_dots_no_dots trim_by_contains by metis
  ultimately show ?thesis
    using trim_by_last[of trim_edge ?r] trim_by_hd[of trim_edge ?r] unnamed_ok
    by (simp add: safe_segment_def Let_def segment_ok_def)
qed

lemma safe_segment_id: "segment_ok s \<Longrightarrow> safe_segment s = s"
  by (simp add: segment_ok_def safe_segment_def Let_def replace_unsafe_id replace_dots_id trim_by_id)

lemma segment_no_slash: "CHR ''/'' \<notin> set (safe_segment s)"
  using segment_ok_safe_segment[of s] by (auto simp: segment_ok_def list_all_iff)

lemma segment_ne [simp]: "safe_segment s \<noteq> []"
  using segment_ok_safe_segment[of s] by (simp add: segment_ok_def)

section \<open>The parts of a path\<close>

lemma stamp_bytes:
  "c \<in> set (format_stamp w) \<Longrightarrow> is_digit c \<or> c = CHR ''T'' \<or> c = CHR ''Z''"
  using pad_digits by (auto simp: format_stamp_def pad_int_def list_all_iff)

lemma stamp_no_separator:
  "CHR ''_'' \<notin> set (format_stamp w)" "CHR ''.'' \<notin> set (format_stamp w)" "CHR ''/'' \<notin> set (format_stamp w)"
  using stamp_bytes is_digit_not by fastforce+

lemma last_index_snoc: "c \<notin> set b \<Longrightarrow> last_index c (a @ [c] @ b) = int (length a)"
  using last_index_append by simp

lemma path_base_file:
  assumes "CHR ''/'' \<notin> set name" "name \<noteq> []"
  shows "path_base (directory @ ''/'' @ name) = name"
proof -
  let ?p = "directory @ ''/'' @ name"
  have "last ?p \<noteq> CHR ''/''" using assms by (metis last_appendR last_in_set list.distinct(1) append_is_Nil_conv)
  then have "trim_right_by (\<lambda>c. c = CHR ''/'') ?p = ?p"
    by (intro trim_right_by_id) simp_all
  moreover have "last_index (CHR ''/'') ?p = int (length directory)"
    using last_index_append[OF assms(1)] by simp
  ultimately show ?thesis by (simp add: path_base_def Let_def nat_add_distrib)
qed

lemma contains_pair_Cons:
  "contains (c # b) [x, y] \<longleftrightarrow> (c = x \<and> b \<noteq> [] \<and> hd b = y) \<or> contains b [x, y]"
  by (cases b) (auto simp: prefix_def)

lemma contains_pair_append:
  "contains (a @ c # b) [x, y] \<longleftrightarrow>
     contains a [x, y] \<or> contains b [x, y] \<or> (a \<noteq> [] \<and> last a = x \<and> c = y) \<or> (c = x \<and> b \<noteq> [] \<and> hd b = y)"
proof (induction a)
  case Nil
  then show ?case by (simp add: contains_pair_Cons del: contains.simps)  auto
next
  case (Cons z a)
  then show ?case by (cases a) (auto simp: contains_pair_Cons simp del: contains.simps)
qed

lemma segment_ok_glue:
  assumes "segment_ok a" "segment_ok b" "path_safe c" "c \<noteq> CHR ''.''"
  shows "segment_ok (a @ c # b)"
  using assms by (auto simp: segment_ok_def contains_pair_append hd_append)

lemma segment_ok_dot:
  assumes "segment_ok a" "segment_ok b"
  shows "segment_ok (a @ CHR ''.'' # b)"
  using assms by (auto simp: segment_ok_def contains_pair_append hd_append trim_edge_def)

lemma digits_segment_ok:
  assumes "s \<noteq> []" "\<And>c. c \<in> set s \<Longrightarrow> is_digit c \<or> is_upper c"
  shows "segment_ok s"
proof -
  have c: "path_safe c \<and> \<not> trim_edge c \<and> c \<noteq> CHR ''.''" if "c \<in> set s" for c
    using assms(2)[OF that] is_digit_not[of c]
    by (auto simp: path_safe_def trim_edge_def is_upper_def byte_in_def)
  have "\<not> contains s ''..''"
  proof
    assume "contains s ''..''"
    then obtain a b where "s = a @ ''..'' @ b" by (auto simp: contains_iff)
    then have "CHR ''.'' \<in> set s" by simp
    from c[OF this] show False by simp
  qed
  with assms(1) c show ?thesis
    by (simp add: segment_ok_def list_all_iff)
qed

lemma pad_int_ne [simp]: "pad_int w i \<noteq> []"
  by (simp add: pad_int_def pad_def)

lemma segment_ok_pad: "segment_ok (pad_int w i)"
  using pad_digits[of w "nat i"]
  by (intro digits_segment_ok) (simp_all add: pad_int_def[symmetric] list_all_iff)

lemma segment_ok_stamp: "segment_ok (format_stamp w)"
proof (rule digits_segment_ok)
  show "format_stamp w \<noteq> []" by (simp add: format_stamp_def)
  show "is_digit c \<or> is_upper c" if "c \<in> set (format_stamp w)" for c
    using stamp_bytes[OF that] by (auto simp: is_upper_def byte_in_def)
qed

lemma segment_ok_no_slash: "segment_ok s \<Longrightarrow> CHR ''/'' \<notin> set s"
  by (auto simp: segment_ok_def list_all_iff)

lemma extension_parts_known: "x \<in> set (extension_parts pipeline) \<Longrightarrow> x = ''zst'' \<or> x = ''age''"
  by (induction pipeline rule: extension_parts.induct)
     (auto simp: step_extensions_def split: option.splits if_splits)

lemma segment_ok_known: "segment_ok ''zst''" "segment_ok ''age''" "segment_ok ''pgc''" "segment_ok ''sql''"
  by (simp_all add: segment_ok_def path_safe_def is_lower_def byte_in_def trim_edge_def prefix_def)

lemma segment_ok_join:
  "parts \<noteq> [] \<Longrightarrow> (\<And>x. x \<in> set parts \<Longrightarrow> segment_ok x) \<Longrightarrow> segment_ok (join_with ''.'' parts)"
  by (induction "''.''" parts rule: join_with.induct) (auto intro: segment_ok_dot)

lemma segment_ok_extension: "segment_ok dump \<Longrightarrow> segment_ok (archive_extension dump pipeline)"
  unfolding archive_extension_def
  by (rule segment_ok_join) (use extension_parts_known segment_ok_known in auto)

lemma trim_prefix_segment: "segment_ok s \<Longrightarrow> trim_prefix s ''.'' = s"
  by (cases s) (auto simp: trim_prefix_def segment_ok_def trim_edge_def)

text \<open>The name of the file, and the directory it lies in.\<close>

definition archive_name :: "string \<Rightarrow> instant \<Rightarrow> string \<Rightarrow> string \<Rightarrow> string" where
  "archive_name database at ident extension =
     safe_segment database @ ''_'' @ format_stamp (civil_of at) @ ''_'' @ safe_segment ident @ ''.'' @ extension"

definition archive_directory :: "string \<Rightarrow> instant \<Rightarrow> string" where
  "archive_directory database at =
     safe_segment database @ ''/'' @ pad_int 4 (c_year (civil_of at)) @ ''/'' @ pad_int 2 (c_month (civil_of at))"

lemma archive_path_split:
  "segment_ok extension \<Longrightarrow>
   archive_path database at ident extension =
     archive_directory database at @ ''/'' @ archive_name database at ident extension"
  by (simp add: archive_path_def archive_directory_def archive_name_def Let_def trim_prefix_segment)

lemma segment_ok_name: "segment_ok extension \<Longrightarrow> segment_ok (archive_name database at ident extension)"
  unfolding archive_name_def
  using segment_ok_glue segment_ok_dot segment_ok_safe_segment segment_ok_stamp
  by (simp add: segment_ok_glue segment_ok_dot)

section \<open>Confinement and identification\<close>

text \<open>
  Whatever the identifiers, the path of an archive has four segments under the destination: the
  database, the year, the month and a file name. None of them is empty, hides, climbs out of its
  directory or holds a byte outside \<open>[a-zA-Z0-9._-]\<close>, and the whole path never holds \<open>..\<close>.
\<close>

theorem archive_path_confined:
  assumes "segment_ok dump"
  shows "\<exists>d y m f. split_on (CHR ''/'') (archive_path database at ident (archive_extension dump pipeline)) = [d, y, m, f]
      \<and> d = safe_segment database \<and> list_all segment_ok [d, y, m, f]
      \<and> \<not> contains (archive_path database at ident (archive_extension dump pipeline)) ''..''"
proof -
  let ?e = "archive_extension dump pipeline"
  let ?d = "safe_segment database" and ?y = "pad_int 4 (c_year (civil_of at))"
    and ?m = "pad_int 2 (c_month (civil_of at))" and ?f = "archive_name database at ident ?e"
  have e: "segment_ok ?e" by (rule segment_ok_extension[OF assms])
  have p: "archive_path database at ident ?e = ?d @ CHR ''/'' # ?y @ CHR ''/'' # ?m @ CHR ''/'' # ?f"
    by (simp add: archive_path_split[OF e] archive_directory_def)
  have ok: "segment_ok ?d" "segment_ok ?y" "segment_ok ?m" "segment_ok ?f"
    by (simp_all add: segment_ok_safe_segment segment_ok_pad segment_ok_name[OF e])
  then have "split_on (CHR ''/'') (archive_path database at ident ?e) = [?d, ?y, ?m, ?f]"
    unfolding p by (simp add: split_on_append split_on_whole segment_ok_no_slash)
  moreover have "\<not> contains (archive_path database at ident ?e) ''..''"
    using ok unfolding p segment_ok_def by (simp add: contains_pair_append del: contains.simps)
  ultimately show ?thesis using ok by simp
qed

theorem archive_path_confined_witness:
  "\<not> contains (archive_path ''../../etc/passwd'' 63915703203000000000 ''x'' (archive_extension ''pgc'' [''zstd:3'', ''age:x25519''])) ''..''
     \<and> safe_segment ''../../etc/passwd'' = ''etc-passwd''"
proof -
  have "safe_segment ''../../etc/passwd'' = ''etc-passwd''" by code_simp
  then show ?thesis using archive_path_confined[OF segment_ok_known(3)] by blast
qed

lemma identify_name:
  assumes name: "path_base p = database @ ''_'' @ stamp @ ''_'' @ ident @ ''.'' @ extension"
    and "CHR ''.'' \<notin> set database" "CHR ''.'' \<notin> set stamp" "CHR ''.'' \<notin> set ident"
    and "CHR ''_'' \<notin> set stamp" "CHR ''_'' \<notin> set ident"
    and "database \<noteq> []" "ident \<noteq> []" "\<not> has_suffix (path_base p) ''.json''"
  shows "identify p = Some \<lparr>ai_database = database, ai_id = ident,
      ai_at = (case parse_stamp_layout stamp of Some moment \<Rightarrow> moment | None \<Rightarrow> 0)\<rparr>"
proof -
  let ?stem = "database @ ''_'' @ stamp @ ''_'' @ ident"
  have "path_base p = ?stem @ CHR ''.'' # extension" using name by simp
  moreover have "CHR ''.'' \<notin> set ?stem" using assms by simp
  ultimately have c: "cut (CHR ''.'') (path_base p) = (?stem, extension, True)"
    by (simp only: cut_append not_False_eq_True)
  have i: "last_index (CHR ''_'') ?stem = int (length (database @ ''_'' @ stamp))"
    using last_index_append[of "CHR ''_''" ident "database @ ''_'' @ stamp"] assms by simp
  have j: "last_index (CHR ''_'') (database @ ''_'' @ stamp) = int (length database)"
    using last_index_append[of "CHR ''_''" stamp database] assms by simp
  have t: "take (nat (int (length (database @ ''_'' @ stamp)))) ?stem = database @ ''_'' @ stamp"
    "drop (nat (int (length (database @ ''_'' @ stamp))) + 1) ?stem = ident"
    "take (nat (int (length database))) (database @ ''_'' @ stamp) = database"
    "drop (nat (int (length database)) + 1) (database @ ''_'' @ stamp) = stamp"
    unfolding nat_int by simp_all
  show ?thesis
    unfolding identify_def Let_def c prod.case i j t using assms by (simp split: option.split)
qed

lemma json_not_extension:
  "segment_ok dump \<Longrightarrow> pipeline = [''zstd:3'', ''age:x25519''] \<Longrightarrow>
   \<not> has_suffix (x @ archive_extension dump pipeline) ''.json''"
proof -
  assume "pipeline = [''zstd:3'', ''age:x25519'']"
  then have e: "archive_extension dump pipeline = dump @ ''.zst.age''"
    by (simp add: archive_extension_def step_extensions_def cut_def)
  show ?thesis unfolding e by (simp add: has_suffix_def suffix_to_prefix)
qed

lemma archive_path_identified:
  assumes "segment_ok dump" "CHR ''.'' \<notin> set (safe_segment database)"
    and "CHR ''.'' \<notin> set (safe_segment ident)" "CHR ''_'' \<notin> set (safe_segment ident)"
    and "0 \<le> c_year (civil_of at)" "c_year (civil_of at) < 10000"
  shows "identify (archive_path database at ident (archive_extension dump [''zstd:3'', ''age:x25519'']))
    = Some \<lparr>ai_database = safe_segment database, ai_id = safe_segment ident, ai_at = truncate_second at\<rparr>"
proof -
  let ?e = "archive_extension dump [''zstd:3'', ''age:x25519'']"
  let ?n = "archive_name database at ident ?e"
  let ?p = "archive_path database at ident ?e"
  have e: "segment_ok ?e" by (rule segment_ok_extension[OF assms(1)])
  have "segment_ok ?n" by (rule segment_ok_name[OF e])
  then have b: "path_base ?p = ?n"
    unfolding archive_path_split[OF e]
    by (intro path_base_file) (auto simp: segment_ok_no_slash segment_ok_def)
  have n: "?n = safe_segment database @ ''_'' @ format_stamp (civil_of at) @ ''_'' @ safe_segment ident @ ''.'' @ ?e"
    by (simp add: archive_name_def)
  have "\<not> has_suffix ((safe_segment database @ ''_'' @ format_stamp (civil_of at) @ ''_'' @
      safe_segment ident @ ''.'') @ ?e) ''.json''"
    by (rule json_not_extension[OF assms(1) refl])
  then have "\<not> has_suffix (path_base ?p) ''.json''" unfolding b n by simp
  then show ?thesis
    using identify_name[of ?p, unfolded b, OF n assms(2)] stamp_no_separator assms b
    by (simp add: parse_format_stamp)
qed

text \<open>
  C40. A repository is readable without koffr: for a database whose identifier holds no dot, the name
  koffr gives an archive is read back by \<open>identify\<close> as the database it was written for, its
  identifier and its second, in every year from 0 to 9999.
\<close>

theorem identify_archive_path:
  assumes "segment_ok dump" "CHR ''.'' \<notin> set (safe_segment database)"
    and "CHR ''.'' \<notin> set (safe_segment ident)" "CHR ''_'' \<notin> set (safe_segment ident)"
    and "0 \<le> c_year (civil_of at)" "c_year (civil_of at) < 10000"
  shows "identify (archive_path database at ident (archive_extension dump [''zstd:3'', ''age:x25519'']))
    = Some \<lparr>ai_database = safe_segment database, ai_id = safe_segment ident, ai_at = truncate_second at\<rparr>"
  by (rule archive_path_identified [OF assms])

theorem identify_archive_path_witness:
  "identify (archive_path ''boutique'' 63915703203000000000 ''01K5X8QJ4T7N2M9VWZ3RBGH6CD''
      (archive_extension ''pgc'' [''zstd:3'', ''age:x25519'']))
    = Some \<lparr>ai_database = ''boutique'', ai_id = ''01K5X8QJ4T7N2M9VWZ3RBGH6CD'', ai_at = 63915703203000000000\<rparr>"
proof -
  have s: "safe_segment ''boutique'' = ''boutique''"
    "safe_segment ''01K5X8QJ4T7N2M9VWZ3RBGH6CD'' = ''01K5X8QJ4T7N2M9VWZ3RBGH6CD''" by code_simp+
  have "c_year (civil_of 63915703203000000000) = 2026" by code_simp
  moreover have "truncate_second 63915703203000000000 = 63915703203000000000" by code_simp
  ultimately show ?thesis
    using identify_archive_path[OF segment_ok_known(3), of "''boutique''" "''01K5X8QJ4T7N2M9VWZ3RBGH6CD''"
        "63915703203000000000"] s by simp
qed

text \<open>
  A database identifier may hold a dot, and then the name koffr writes is one it cannot read: the
  stem is cut at the first dot, inside the identifier. For an identifier with no underscore before
  that dot, \<open>identify\<close> answers that the file is not an archive.
\<close>

lemma dotted_database_not_identified:
  assumes "segment_ok dump" "segment_ok (a @ ''.'' @ b)" "CHR ''.'' \<notin> set a" "CHR ''_'' \<notin> set a"
  shows "identify (archive_path (a @ ''.'' @ b) at ident (archive_extension dump pipeline)) = None"
proof -
  let ?e = "archive_extension dump pipeline" let ?db = "a @ ''.'' @ b"
  let ?p = "archive_path ?db at ident ?e"
  have e: "segment_ok ?e" by (rule segment_ok_extension[OF assms(1)])
  have "segment_ok (archive_name ?db at ident ?e)" by (rule segment_ok_name[OF e])
  then have "path_base ?p = archive_name ?db at ident ?e"
    unfolding archive_path_split[OF e]
    by (intro path_base_file) (auto simp: segment_ok_no_slash segment_ok_def)
  also have "\<dots> = a @ CHR ''.'' # (b @ ''_'' @ format_stamp (civil_of at) @ ''_'' @ safe_segment ident @ ''.'' @ ?e)"
    using safe_segment_id[OF assms(2)] by (simp add: archive_name_def)
  finally have "cut (CHR ''.'') (path_base ?p) =
      (a, b @ ''_'' @ format_stamp (civil_of at) @ ''_'' @ safe_segment ident @ ''.'' @ ?e, True)"
    using assms(3) by simp
  moreover have "last_index (CHR ''_'') a = -1" by (rule last_index_none[OF assms(4)])
  ultimately show ?thesis by (simp add: identify_def Let_def)
qed

theorem dotted_database_not_identified_witness:
  "identify (archive_path ''shop.eu'' 63915703203000000000 ''01K5X8QJ4T7N2M9VWZ3RBGH6CD''
      (archive_extension ''pgc'' [''zstd:3'', ''age:x25519''])) = None"
proof -
  have "segment_ok (''shop'' @ ''.'' @ ''eu'')" by code_simp
  from dotted_database_not_identified[OF segment_ok_known(3) this] show ?thesis by simp
qed

end
