(* ===== verification/Store.thy ===== *)
theory Store
  imports Go_OS Archive_Path
begin

text \<open>
  The destination interface of \<open>internal/domain/backup/ports.go\<close> and its implementation on a
  directory, \<open>internal/store/filesystem.go\<close>.

  A reader is what it yields: its bytes, then the end or an error. An operation of a store takes the
  state of the destination and returns the next one; a write also says how many bytes of the reader
  it took, because the other end of a pipe notices.
\<close>

type_synonym reader = "string \<times> gerr option"

section \<open>The interface\<close>

record entry =
  en_path :: string
  en_bytes :: int
  en_at :: instant

record 's store =
  so_write :: "string \<Rightarrow> reader \<Rightarrow> 's \<Rightarrow> (int result \<times> nat) \<times> 's"
  so_read :: "string \<Rightarrow> 's \<Rightarrow> reader result \<times> 's"
  so_list :: "string \<Rightarrow> 's \<Rightarrow> entry list result \<times> 's"
  so_delete :: "string \<Rightarrow> 's \<Rightarrow> gerr option \<times> 's"
  so_check :: "'s \<Rightarrow> gerr option \<times> 's"

text \<open>
  What a backup relies on. \<open>held\<close> is what lies under the name a path resolves to, \<open>own\<close> the names a
  store keeps for itself while it writes. A write is whole or absent (BKP-11), whichever calls fail;
  it touches no other archive; reading gives back what is held.
\<close>

locale archive_store =
  fixes ops :: "'s store" and place :: "string \<Rightarrow> 'n" and held :: "'s \<Rightarrow> 'n \<Rightarrow> string option"
    and own :: "'n \<Rightarrow> bool"
  assumes write_whole: "so_write ops p (b, e) s = ((Inr n, k), t) \<Longrightarrow> \<not> own (place p)
      \<Longrightarrow> e = None \<and> n = int (length b) \<and> k = length b \<and> held t (place p) = Some b"
    and write_absent: "so_write ops p src s = ((Inl err, k), t) \<Longrightarrow> \<not> own (place p)
      \<Longrightarrow> held t (place p) = held s (place p)"
    and write_frame: "so_write ops p src s = (answer, t) \<Longrightarrow> \<not> own (place p) \<Longrightarrow> q \<noteq> place p \<Longrightarrow> \<not> own q
      \<Longrightarrow> held t q = held s q"
    and write_takes: "so_write ops p (b, e) s = ((r, k), t) \<Longrightarrow> \<not> own (place p) \<Longrightarrow> k \<le> length b"
    and read_held: "so_read ops p s = (Inr (b, None), t) \<Longrightarrow> held s (place p) = Some b"
    and read_frame: "so_read ops p s = (got, t) \<Longrightarrow> held t q = held s q"
begin

lemma write_either:
  assumes "so_write ops p (b, e) s = ((r, k), t)" "\<not> own (place p)"
  shows "held t (place p) = (case r of Inr _ \<Rightarrow> Some b | Inl _ \<Rightarrow> held s (place p))"
  using assms write_whole[of p b e s _ k t] write_absent[of p "(b, e)" s _ k t] by (cases r) auto

lemma write_then_read:
  assumes "so_write ops p (b, e) s = ((Inr n, k), t)" "\<not> own (place p)" "so_read ops p t = (Inr (c, None), u)"
  shows "c = b"
  using write_whole[OF assms(1,2)] read_held[OF assms(3)] by simp

lemma write_keeps_other:
  assumes "so_write ops p (b, e) s = ((r, k), t)" "held s (place q) = Some c" "place q \<noteq> place p"
    "\<not> own (place p)" "\<not> own (place q)"
  shows "held t (place q) = Some c"
  using write_frame[OF assms(1,4,3,5)] assms(2) by simp

end

section \<open>A directory\<close>

definition resolve :: "place \<Rightarrow> string \<Rightarrow> place" where
  "resolve root path = place_join root path"

definition partial_before :: string where "partial_before = ''.koffr-''"

definition partial_after :: string where "partial_after = ''.partial''"

text \<open>\<open>io.Copy(partial, from)\<close>: every byte of the reader, then its error; or the error of a write.\<close>

definition io_copy :: "place \<Rightarrow> reader \<Rightarrow> os \<Rightarrow> (int result \<times> nat) \<times> os" where
  "io_copy into src s =
     (case src of (bytes, read_err) \<Rightarrow>
        (case os_call s of
           (Some (e, n), s1) \<Rightarrow> ((Inl e, min n (length bytes)), append_node into (take n bytes) s1)
         | (None, s1) \<Rightarrow>
             ((case read_err of Some e \<Rightarrow> Inl e | None \<Rightarrow> Inr (int (length bytes)), length bytes),
              append_node into bytes s1)))"

text \<open>The deferred \<open>os.Remove(partial.Name())\<close>, whose error is dropped.\<close>

definition fs_publish ::
  "string \<Rightarrow> place \<Rightarrow> place \<Rightarrow> reader \<Rightarrow> os \<Rightarrow> (int result \<times> nat) \<times> os" where
  "fs_publish path final temp src s =
     (case io_copy temp src s of
        ((Inl e, k), s1) \<Rightarrow>
          (case os_touch s1 of (_, s2) \<Rightarrow> ((Inl (errorf (''write '' @ path) e), k), s2))
      | ((Inr written, k), s1) \<Rightarrow>
          (case os_touch s1 of
             (Some e, s2) \<Rightarrow>
               (case os_touch s2 of (_, s3) \<Rightarrow> ((Inl (errorf (''flush '' @ path) e), k), s3))
           | (None, s2) \<Rightarrow>
               (case os_touch s2 of
                  (Some e, s3) \<Rightarrow> ((Inl (errorf (''close '' @ path) e), k), s3)
                | (None, s3) \<Rightarrow>
                    (case os_rename temp final s3 of
                       (Some e, s4) \<Rightarrow> ((Inl (errorf (''publish '' @ path) e), k), s4)
                     | (None, s4) \<Rightarrow> ((Inr written, k), s4)))))"

definition fs_write :: "place \<Rightarrow> string \<Rightarrow> reader \<Rightarrow> os \<Rightarrow> (int result \<times> nat) \<times> os" where
  "fs_write root path src s =
     (let final = resolve root path
      in case os_mkdir_all (place_dir final) s of
           (Inl e, s1) \<Rightarrow> ((Inl (errorf (''prepare '' @ place_string (place_dir (place_of path))) e), 0), s1)
         | (Inr _, s1) \<Rightarrow>
             (case os_create_temp (place_dir final) partial_before partial_after s1 of
                (Inl e, s2) \<Rightarrow> ((Inl (errorf (''start writing '' @ path) e), 0), s2)
              | (Inr temp, s2) \<Rightarrow>
                  (case fs_publish path final temp src s2 of
                     (answer, s3) \<Rightarrow> (case os_remove temp s3 of (_, s4) \<Rightarrow> (answer, s4)))))"

text \<open>A file that is opened yields its bytes; reading it may fail half way.\<close>

definition fs_read :: "place \<Rightarrow> string \<Rightarrow> os \<Rightarrow> reader result \<times> os" where
  "fs_read root path s =
     (case os_call s of
        (Some (e, _), s1) \<Rightarrow> (Inl (errorf (''read '' @ path) e), s1)
      | (None, s1) \<Rightarrow>
          (case node_at s1 (resolve root path) of
             None \<Rightarrow> (Inl (errorf (''read '' @ path) (not_exist ''open'' (resolve root path))), s1)
           | Some Dir \<Rightarrow>
               (Inr ([], Some (path_error [] ''read'' (resolve root path) ''is a directory'')), s1)
           | Some (File c _) \<Rightarrow>
               (case os_call s1 of
                  (Some (e, n), s2) \<Rightarrow> (Inr (take n c, Some e), s2)
                | (None, s2) \<Rightarrow> (Inr (c, None), s2))))"

definition under :: "place \<Rightarrow> place \<Rightarrow> bool" where
  "under root p \<longleftrightarrow> fst p = fst root \<and> prefix (snd root) (snd p)"

text \<open>\<open>filepath.Rel\<close> of two cleaned paths.\<close>

fun common_length :: "string list \<Rightarrow> string list \<Rightarrow> nat" where
  "common_length (x # xs) (y # ys) = (if x = y then Suc (common_length xs ys) else 0)"
| "common_length _ _ = 0"

definition relative :: "place \<Rightarrow> place \<Rightarrow> string" where
  "relative root p =
     (let n = common_length (snd root) (snd p);
          cs = replicate (length (snd root) - n) ''..'' @ drop n (snd p)
      in if cs = [] then ''.'' else join_with ''/'' cs)"

fun walk_entries :: "place \<Rightarrow> place \<Rightarrow> (place \<times> node) list \<Rightarrow> entry list" where
  "walk_entries root start [] = []"
| "walk_entries root start ((p, n) # files) =
     (case n of
        Dir \<Rightarrow> walk_entries root start files
      | File c m \<Rightarrow>
          if under start p \<and> \<not> has_suffix (place_base p) partial_after
          then \<lparr>en_path = relative root p, en_bytes = int (length c), en_at = m\<rparr> # walk_entries root start files
          else walk_entries root start files)"

text \<open>
  The walk is one call; a prefix nobody has written to holds nothing. What a walk answers when a directory goes
  away under it is not modelled: the code then stops and answers what it has found so far.
\<close>

definition fs_list :: "place \<Rightarrow> string \<Rightarrow> os \<Rightarrow> entry list result \<times> os" where
  "fs_list root pre s =
     (case os_call s of
        (Some (e, _), s1) \<Rightarrow>
          (if errors_is e ErrNotExist then Inr [] else Inl (errorf (''list '' @ pre) e), s1)
      | (None, s1) \<Rightarrow>
          (Inr (sort_by (\<lambda>a b. bytes_less (en_path a) (en_path b))
             (walk_entries root (resolve root pre) (AList.clearjunk (os_files s1)))), s1))"

definition fs_delete :: "place \<Rightarrow> string \<Rightarrow> os \<Rightarrow> gerr option \<times> os" where
  "fs_delete root path s =
     (case os_remove (resolve root path) s of
        (Some e, s1) \<Rightarrow>
          (if \<not> errors_is e ErrNotExist then Some (errorf (''delete '' @ path) e) else None, s1)
      | (None, s1) \<Rightarrow> (None, s1))"

definition cannot :: "place \<Rightarrow> string \<Rightarrow> gerr \<Rightarrow> gerr" where
  "cannot root what e = errorf (''the destination '' @ place_string root @ '' cannot be '' @ what) e"

definition fs_check :: "place \<Rightarrow> os \<Rightarrow> gerr option \<times> os" where
  "fs_check root s =
     (case os_mkdir_all root s of
        (Inl e, s1) \<Rightarrow> (Some (cannot root ''created'' e), s1)
      | (Inr _, s1) \<Rightarrow>
          (case os_create_temp root ''.koffr-check-'' [] s1 of
             (Inl e, s2) \<Rightarrow> (Some (cannot root ''written to'' e), s2)
           | (Inr marker, s2) \<Rightarrow>
               (case os_touch s2 of
                  (Some e, s3) \<Rightarrow>
                    (case os_remove marker s3 of (_, s4) \<Rightarrow> (Some (cannot root ''written to'' e), s4))
                | (None, s3) \<Rightarrow>
                    (case os_remove marker s3 of
                       (Some e, s4) \<Rightarrow> (Some (cannot root ''cleaned up'' e), s4)
                     | (None, s4) \<Rightarrow> (None, s4)))))"

definition filesystem :: "place \<Rightarrow> os store" where
  "filesystem root =
     \<lparr>so_write = fs_write root, so_read = fs_read root, so_list = fs_list root,
      so_delete = fs_delete root, so_check = fs_check root\<rparr>"

section \<open>The directory keeps the contract\<close>

definition held_file :: "os \<Rightarrow> place \<Rightarrow> string option" where
  "held_file s p = (case node_at s p of Some (File c _) \<Rightarrow> Some c | _ \<Rightarrow> None)"

definition own_name :: "place \<Rightarrow> bool" where
  "own_name p \<longleftrightarrow> snd p \<noteq> [] \<and> has_prefix (last (snd p)) partial_before \<and> has_suffix (last (snd p)) partial_after"

lemma held_file_cong: "node_at t p = node_at s p \<Longrightarrow> held_file t p = held_file s p"
  by (simp add: held_file_def)

lemma held_file_mkdir: "os_mkdir_all p s = (r, t) \<Longrightarrow> held_file t q = held_file s q"
  using mkdir_frame(2)[of p s r t q] by (auto simp: held_file_def)

lemma partial_simple: "simple_name (partial_before @ dec n @ partial_after)"
  using digits_no_byte[OF dec_digits, of "CHR ''/''" n]
  by (auto simp: simple_name_def partial_before_def partial_after_def)

lemma temp_own: "own_name (temp_place d partial_before partial_after n)"
  unfolding own_name_def temp_place_def place_join_simple[OF partial_simple]
  by (simp add: has_prefix_def has_suffix_def) (metis append.assoc suffixI)

lemma io_copy_result:
  assumes "io_copy into (b, e) s = ((r, k), t)" "node_at s into = Some (File c m)"
  shows "k \<le> length b" "\<And>n. r = Inr n \<Longrightarrow> e = None \<and> n = int (length b) \<and> k = length b"
    "\<And>n. r = Inr n \<Longrightarrow> \<exists>m'. node_at t into = Some (File (c @ b) m')"
    "q \<noteq> into \<Longrightarrow> node_at t q = node_at s q"
  using assms by (auto simp: io_copy_def os_call_frame(3) node_at_append append_node_def[of into]
      split: prod.splits option.splits)

lemma fs_publish_result:
  assumes p: "fs_publish path final temp (b, e) s = ((r, k), t)"
    and n: "node_at s temp = Some (File [] m)" and d: "temp \<noteq> final"
  shows "k \<le> length b"
    and "\<And>n. r = Inr n \<Longrightarrow> e = None \<and> n = int (length b) \<and> k = length b \<and> held_file t final = Some b"
    and "\<And>x. r = Inl x \<Longrightarrow> node_at t final = node_at s final"
    and "q \<noteq> temp \<Longrightarrow> q \<noteq> final \<Longrightarrow> node_at t q = node_at s q"
proof -
  obtain rc kc s1 where c: "io_copy temp (b, e) s = ((rc, kc), s1)" by (metis surj_pair)
  obtain e2 s2 where t2: "os_touch s1 = (e2, s2)" by fastforce
  obtain e3 s3 where t3: "os_touch s2 = (e3, s3)" by fastforce
  obtain e4 s4 where t4: "os_rename temp final s3 = (e4, s4)" by fastforce
  note ic = io_copy_result[OF c n]
  have k: "k = kc" using p c t2 t3 t4 by (auto simp: fs_publish_def split: sum.splits option.splits)
  then show "k \<le> length b" using ic(1) by simp
  have s3: "node_at s3 x = node_at s1 x" "node_at s2 x = node_at s1 x" for x
    using touch_frame(2)[OF t2, of x] touch_frame(2)[OF t3, of x] by simp_all
  have fin: "node_at s1 final = node_at s final" using ic(4)[of final] d by simp
  show "e = None \<and> n = int (length b) \<and> k = length b \<and> held_file t final = Some b" if r: "r = Inr n" for n
  proof -
    have ok: "rc = Inr n" "e2 = None" "e3 = None" "e4 = None" "t = s4"
      using p c t2 t3 t4 r by (auto simp: fs_publish_def split: sum.splits option.splits)
    then have "node_at t final = node_at s3 temp" using rename_frame(4)[of temp final s3 s4] t4 by simp
    then have "held_file t final = Some b" using ic(3)[OF ok(1)] s3(1)[of temp] by (auto simp: held_file_def)
    with ic(2)[OF ok(1)] k show ?thesis by simp
  qed
  show "node_at t final = node_at s final" if r: "r = Inl x" for x
  proof (cases "e4 = None \<and> t = s4")
    case True
    then show ?thesis using p c t2 t3 t4 r s3 fin
      by (auto simp: fs_publish_def split: sum.splits option.splits)
  next
    case False
    then show ?thesis using p c t2 t3 t4 r s3 fin rename_frame(3)[of temp final s3 _ s4 final]
      by (auto simp: fs_publish_def split: sum.splits option.splits)
  qed
  show "node_at t q = node_at s q" if "q \<noteq> temp" "q \<noteq> final"
    using p c t2 t3 t4 s3[of q] ic(4)[of q] rename_frame(2)[OF t4, of q] that
    by (auto simp: fs_publish_def split: sum.splits option.splits)
qed

lemma fs_write_result:
  assumes w: "fs_write root path (b, e) s = ((r, k), t)" and o: "\<not> own_name (resolve root path)"
  shows "k \<le> length b"
    and "\<And>n. r = Inr n \<Longrightarrow> e = None \<and> n = int (length b) \<and> k = length b \<and> held_file t (resolve root path) = Some b"
    and "\<And>x. r = Inl x \<Longrightarrow> held_file t (resolve root path) = held_file s (resolve root path)"
    and "q \<noteq> resolve root path \<Longrightarrow> \<not> own_name q \<Longrightarrow> held_file t q = held_file s q"
proof -
  let ?f = "resolve root path"
  obtain r1 s1 where mk: "os_mkdir_all (place_dir ?f) s = (r1, s1)" by fastforce
  note h1 = held_file_mkdir[OF mk]
  obtain r2 s2 where ct: "os_create_temp (place_dir ?f) partial_before partial_after s1 = (r2, s2)" by fastforce
  have "k \<le> length b \<and> (\<forall>n. r = Inr n \<longrightarrow> e = None \<and> n = int (length b) \<and> k = length b \<and> held_file t ?f = Some b)
    \<and> (\<forall>x. r = Inl x \<longrightarrow> held_file t ?f = held_file s ?f)
    \<and> (q \<noteq> ?f \<longrightarrow> \<not> own_name q \<longrightarrow> held_file t q = held_file s q)"
  proof (cases "\<exists>u temp. r1 = Inr u \<and> r2 = Inr temp")
    case False
    have s2: "node_at s2 x = node_at s1 x" if "r2 = Inl err" for err x
      using create_temp_frame(2) ct that by blast
    from False w mk ct have "k = 0 \<and> (\<exists>x. r = Inl x) \<and> (t = s1 \<or> t = s2 \<and> (\<exists>err. r2 = Inl err))"
      by (auto simp: fs_write_def Let_def split: sum.splits)
    then have "k = 0" "\<exists>x. r = Inl x" "\<And>x. held_file t x = held_file s x"
      using h1 s2 held_file_cong by metis+
    then show ?thesis by auto
  next
    case True
    then obtain u temp where r12: "r1 = Inr u" "r2 = Inr temp" by blast
    from create_temp_frame(3,4) ct r12(2) have
      tn: "\<exists>n. temp = temp_place (place_dir ?f) partial_before partial_after n" and
      s2: "\<And>q. node_at s2 q = (if q = temp then Some (File [] (os_now s1)) else node_at s1 q)" by blast+
    have own: "own_name temp" using tn temp_own by metis
    then have d: "temp \<noteq> ?f" using o by auto
    obtain s3 where pb: "fs_publish path ?f temp (b, e) s2 = ((r, k), s3)"
      and rm: "\<exists>x. os_remove temp s3 = (x, t)"
      using w mk ct r12 by (auto simp: fs_write_def Let_def split: prod.splits)
    have t: "node_at t x = node_at s3 x" if "x \<noteq> temp" for x using rm remove_frame(2) that by blast
    note pr = fs_publish_result[OF pb _ d]
    have n2: "node_at s2 temp = Some (File [] (os_now s1))" by (simp add: s2)
    have tf: "held_file t ?f = held_file s3 ?f" using t[of ?f] d held_file_cong by metis
    have s2f: "held_file s2 x = held_file s x" if "x \<noteq> temp" for x
      using s2[of x] that h1 held_file_cong by (metis (no_types))
    have "held_file t q = held_file s q" if "q \<noteq> ?f" "\<not> own_name q"
    proof -
      have "q \<noteq> temp" using that own by auto
      then show ?thesis using pr(4)[OF n2] that t[of q] s2f[of q] held_file_cong by metis
    qed
    moreover have "held_file t ?f = held_file s ?f" if "r = Inl x" for x
      using pr(3)[OF n2 that] tf s2f[of ?f] d held_file_cong by metis
    ultimately show ?thesis using pr(1,2)[OF n2] tf by auto
  qed
  then show "k \<le> length b" "\<And>n. r = Inr n \<Longrightarrow> e = None \<and> n = int (length b) \<and> k = length b \<and> held_file t ?f = Some b"
    "\<And>x. r = Inl x \<Longrightarrow> held_file t ?f = held_file s ?f" "q \<noteq> ?f \<Longrightarrow> \<not> own_name q \<Longrightarrow> held_file t q = held_file s q"
    by blast+
qed

lemma fs_read_result:
  assumes "fs_read root path s = (r, t)"
  shows "held_file t q = held_file s q" "r = Inr (b, None) \<Longrightarrow> held_file s (resolve root path) = Some b"
  using assms by (auto simp: fs_read_def held_file_def os_call_frame(3) split: prod.splits option.splits node.splits)

interpretation fs: archive_store "filesystem root" "resolve root" held_file own_name for root
proof
  fix p b e s n k t
  assume "so_write (filesystem root) p (b, e) s = ((Inr n, k), t)" and o: "\<not> own_name (resolve root p)"
  then have w: "fs_write root p (b, e) s = ((Inr n, k), t)" by (simp add: filesystem_def)
  from fs_write_result(2)[OF w o] show "e = None \<and> n = int (length b) \<and> k = length b \<and> held_file t (resolve root p) = Some b"
    by simp
next
  fix p src s err k t
  assume "so_write (filesystem root) p src s = ((Inl err, k), t)" and o: "\<not> own_name (resolve root p)"
  then have w: "fs_write root p (fst src, snd src) s = ((Inl err, k), t)" by (simp add: filesystem_def)
  from fs_write_result(3)[OF w o] show "held_file t (resolve root p) = held_file s (resolve root p)" by simp
next
  fix p src s answer t q
  assume "so_write (filesystem root) p src s = (answer, t)" and o: "\<not> own_name (resolve root p)"
    and q: "q \<noteq> resolve root p" "\<not> own_name q"
  then have w: "fs_write root p (fst src, snd src) s = ((fst answer, snd answer), t)" by (simp add: filesystem_def)
  from fs_write_result(4)[OF w o q] show "held_file t q = held_file s q" .
next
  fix p b e s r k t
  assume "so_write (filesystem root) p (b, e) s = ((r, k), t)" and o: "\<not> own_name (resolve root p)"
  then have w: "fs_write root p (b, e) s = ((r, k), t)" by (simp add: filesystem_def)
  from fs_write_result(1)[OF w o] show "k \<le> length b" .
next
  fix p s b t
  assume "so_read (filesystem root) p s = (Inr (b, None), t)"
  then have r: "fs_read root p s = (Inr (b, None), t)" by (simp add: filesystem_def)
  from fs_read_result(2)[OF r] show "held_file s (resolve root p) = Some b" by simp
next
  fix p s got t q
  assume "so_read (filesystem root) p s = (got, t)"
  then have r: "fs_read root p s = (got, t)" by (simp add: filesystem_def)
  from fs_read_result(1)[OF r] show "held_file t q = held_file s q" .
qed

lemma quiet_fs_write:
  assumes q: "quiet s" and f: "dirs_free s (place_dir (resolve root path))"
    and d: "node_at s (resolve root path) \<noteq> Some Dir" and n: "snd (resolve root path) \<noteq> []"
  obtains t where "fs_write root path (b, None) s = ((Inr (int (length b)), length b), t)" "quiet t"
    "\<And>x. x \<noteq> resolve root path \<Longrightarrow> length (snd x) = length (snd (resolve root path)) \<Longrightarrow> node_at s x \<noteq> Some Dir \<Longrightarrow> node_at t x \<noteq> Some Dir"
    "dirs_free t (place_dir (resolve root path))"
proof -
  let ?f = "resolve root path"
  let ?d = "place_dir ?f"
  from quiet_mkdir[OF q f] obtain s1 where mk: "os_mkdir_all ?d s = (Inr (), s1)" .
  have q1: "quiet s1" by (rule quiet_same[OF mkdir_frame(1)[OF mk] q])
  obtain temp where ft: "fresh_temp ?d partial_before partial_after s1 = Some temp"
    using fresh_temp_exists[OF partial_simple] by blast
  obtain k where k: "temp = temp_place ?d partial_before partial_after k" using fresh_temp_free[OF ft] by blast
  have t: "temp = (fst ?f, butlast (snd ?f) @ [partial_before @ dec k @ partial_after])"
    unfolding k temp_place_def place_join_simple[OF partial_simple] by (simp add: place_dir_def)
  have td: "place_dir temp = ?d" by (simp add: t place_dir_def)
  have dir: "butlast (snd ?f) = [] \<or> node_at s1 ?d = Some Dir"
    using mkdir_frame(3)[OF mk] by (auto simp: place_dir_def)
  have ct: "os_create_temp ?d partial_before partial_after s1 = (Inr temp, set_node temp (File [] (os_now s1)) s1)"
    using q1 ft dir by (simp add: os_create_temp_def parent_ok_def td) (simp add: t)
  have len: "length (snd temp) = length (snd ?f)" using n by (simp add: t)
  have "?d \<noteq> temp" "?d \<noteq> ?f" using n by (auto simp: t place_dir_def dest!: arg_cong[where f = "\<lambda>x. length (snd x)"])
  (use n in \<open>cases "snd ?f"; simp\<close>)
  moreover have fd: "node_at s1 ?f \<noteq> Some Dir" using mkdir_below[OF mk, of ?f] d n by (simp add: place_dir_def)
  ultimately have w: "\<exists>t. fs_write root path (b, None) s = ((Inr (int (length b)), length b), t) \<and> quiet t
    \<and> (\<forall>x. node_at t x = (if x = temp then None else if x = ?f then Some (File b (os_now s1)) else node_at s1 x))"
    using mk ct q1 dir
    by (cases "temp = ?f") (auto simp: fs_write_def Let_def fs_publish_def io_copy_def os_touch_def append_node_def os_rename_def
        os_remove_def parent_ok_def)
  then obtain t where t1: "fs_write root path (b, None) s = ((Inr (int (length b)), length b), t)" "quiet t"
    and t2: "\<And>x. node_at t x = (if x = temp then None else if x = ?f then Some (File b (os_now s1)) else node_at s1 x)" by blast
  have "dirs_free t ?d"
  proof (rule dirs_free_mono[OF f])
    fix q c m assume "length (snd q) \<le> length (snd ?d)" "node_at t q = Some (File c m)"
    moreover from this(1) n have "q \<noteq> ?f" by (cases "snd ?f" rule: rev_cases) (auto simp: place_dir_def)
    ultimately have "node_at s1 q = Some (File c m)" by (simp add: t2 split: if_splits)
    then show "\<exists>c m. node_at s q = Some (File c m)" using mkdir_file[OF mk] by blast
  qed
  moreover have "node_at t x \<noteq> Some Dir" if "length (snd x) = length (snd ?f)" "node_at s x \<noteq> Some Dir" for x
    using that mkdir_below[OF mk, of x] n by (auto simp: t2 place_dir_def)
  ultimately show thesis using that t1 by blast
qed

section \<open>What the directory promises\<close>

text \<open>
  C9. A path holds a whole archive or what it held before (BKP-11), whichever system calls fail and
  wherever the reader stops: a write that reports success leaves exactly the bytes of a reader that
  reached its end, a write that reports an error leaves what was there, and no other archive of the
  destination is touched.
\<close>

theorem filesystem_write_atomic:
  assumes "fs_write root path (b, e) s = ((r, k), t)" "\<not> own_name (resolve root path)"
  shows "held_file t (resolve root path) = (case r of Inr _ \<Rightarrow> Some b | Inl _ \<Rightarrow> held_file s (resolve root path))
    \<and> (ok r \<longrightarrow> e = None \<and> r = Inr (int (length b)))
    \<and> (\<forall>q. q \<noteq> resolve root path \<longrightarrow> \<not> own_name q \<longrightarrow> held_file t q = held_file s q)"
proof -
  have w: "so_write (filesystem root) path (b, e) s = ((r, k), t)" using assms(1) by (simp add: filesystem_def)
  show ?thesis
    using fs.write_either[OF w assms(2)] fs.write_frame[OF w assms(2)] fs.write_whole[of root path b e s _ k t] w assms(2)
    by (auto simp: ok_def)
qed

theorem filesystem_write_atomic_witness:
  "\<exists>r k t. fs_write (True, [''d'']) ''a'' (''hal'', Some (errors_new ''broken pipe''))
      (one_process 7 [((True, [''d'']), Dir), ((True, [''d'', ''a'']), File ''whole'' 0)]) = ((r, k), t)
    \<and> \<not> ok r \<and> held_file t (True, [''d'', ''a'']) = Some ''whole''"
proof -
  let ?s = "one_process 7 [((True, [''d'']), Dir), ((True, [''d'', ''a'']), File ''whole'' 0)]"
  have p: "resolve (True, [''d'']) ''a'' = (True, [''d'', ''a''])"
    by (simp add: resolve_def place_join_simple simple_name_def)
  obtain r k t where w: "fs_write (True, [''d'']) ''a'' (''hal'', Some (errors_new ''broken pipe'')) ?s = ((r, k), t)"
    by (metis surj_pair)
  have "\<not> own_name (resolve (True, [''d'']) ''a'')" by (simp add: p own_name_def has_prefix_def partial_before_def)
  from filesystem_write_atomic[OF w this] w show ?thesis by (cases r) (auto simp: p held_file_def)
qed

interpretation by_path: strict_order "\<lambda>a b. bytes_less (en_path a) (en_path b)"
  by (rule bytes.by_key)

definition entry_of :: "place \<Rightarrow> place \<Rightarrow> string \<Rightarrow> instant \<Rightarrow> entry" where
  "entry_of root p c m = \<lparr>en_path = relative root p, en_bytes = int (length c), en_at = m\<rparr>"

lemma walk_entries_iff:
  "x \<in> set (walk_entries root start files) \<longleftrightarrow>
    (\<exists>p c m. x = entry_of root p c m \<and> (p, File c m) \<in> set files \<and> under start p
      \<and> \<not> has_suffix (place_base p) partial_after)"
proof (induction files)
  case Nil
  then show ?case by simp
next
  case (Cons pn files)
  obtain p n where pn: "pn = (p, n)" by (cases pn)
  show ?case
  proof (cases n)
    case Dir
    then show ?thesis using Cons unfolding pn by (simp del: split_paired_Ex)
  next
    case (File c m)
    have "x \<in> set (walk_entries root start (pn # files)) \<longleftrightarrow>
        x = entry_of root p c m \<and> under start p \<and> \<not> has_suffix (place_base p) partial_after
        \<or> x \<in> set (walk_entries root start files)"
      unfolding pn File by (cases "under start p"; cases "has_suffix (place_base p) partial_after") (simp_all add: entry_of_def)
    then show ?thesis unfolding Cons unfolding pn File by (simp del: split_paired_Ex) blast
  qed
qed

lemma clearjunk_node: "(p, n) \<in> set (AList.clearjunk (os_files s)) \<longleftrightarrow> node_at s p = Some n"
  unfolding node_at_def by (metis distinct_clearjunk map_of_clearjunk map_of_eq_Some_iff)

lemma children_iff: "name \<in> set (children s p) \<longleftrightarrow> node_at s (fst p, snd p @ [name]) \<noteq> None"
proof
  assume "name \<in> set (children s p)"
  then obtain q n where q: "(q, n) \<in> set (AList.clearjunk (os_files s))" "snd q \<noteq> []" "place_dir q = p" "name = last (snd q)"
    by (auto simp: children_def)
  then have "q = (fst p, snd p @ [name])" by (cases q) (auto simp: place_dir_def)
  with q(1) show "node_at s (fst p, snd p @ [name]) \<noteq> None" by (simp add: clearjunk_node)
next
  assume "node_at s (fst p, snd p @ [name]) \<noteq> None"
  then obtain n where "((fst p, snd p @ [name]), n) \<in> set (AList.clearjunk (os_files s))"
    using clearjunk_node by blast
  then show "name \<in> set (children s p)" by (force simp: children_def place_dir_def)
qed

text \<open>
  A listing is complete and sorted: when the walk does not fail, it names every file under the
  prefix but the ones still being written, with its size and its time, in the order of the paths.
\<close>

lemma filesystem_list_exact:
  assumes "quiet s"
  shows "\<exists>es. fs_list root pre s = (Inr es, s)
    \<and> sorted_wrt (\<lambda>a b. \<not> bytes_less (en_path b) (en_path a)) es
    \<and> set es = {entry_of root p c m | p c m.
        node_at s p = Some (File c m) \<and> under (resolve root pre) p \<and> \<not> has_suffix (place_base p) partial_after}"
proof -
  let ?es = "sort_by (\<lambda>a b. bytes_less (en_path a) (en_path b))
    (walk_entries root (resolve root pre) (AList.clearjunk (os_files s)))"
  have "fs_list root pre s = (Inr ?es, s)" using assms by (simp add: fs_list_def)
  moreover have "sorted_wrt (\<lambda>a b. \<not> bytes_less (en_path b) (en_path a)) ?es" by (rule by_path.sorted_sort_by)
  moreover have "set ?es = {entry_of root p c m | p c m. node_at s p = Some (File c m)
      \<and> under (resolve root pre) p \<and> \<not> has_suffix (place_base p) partial_after}"
    unfolding set_sort_by using walk_entries_iff[of _ root "resolve root pre" "AList.clearjunk (os_files s)"]
    unfolding clearjunk_node by blast
  ultimately show ?thesis by blast
qed

theorem filesystem_list_exact_witness:
  "\<exists>es. fs_list (True, [''d'']) [] (one_process 7 [((True, [''d'', ''x'']), File ''ab'' 3)])
      = (Inr es, one_process 7 [((True, [''d'', ''x'']), File ''ab'' 3)])
    \<and> entry_of (True, [''d'']) (True, [''d'', ''x'']) ''ab'' 3 \<in> set es"
proof -
  have "resolve (True, [''d'']) [] = (True, [''d''])" by (simp add: resolve_def place_join_def clean_step_def)
  then have "under (resolve (True, [''d'']) []) (True, [''d'', ''x''])"
    "\<not> has_suffix (place_base (True, [''d'', ''x''])) partial_after"
    by (simp_all add: under_def place_base_def has_suffix_def partial_after_def suffix_def)
  with filesystem_list_exact[of "one_process 7 [((True, [''d'', ''x'']), File ''ab'' 3)]" "(True, [''d''])" "[]"]
  show ?thesis by (auto simp del: split_paired_Ex)
qed

text \<open>
  Checking a destination leaves nothing behind (BKP-12): when the check passes, every file of the
  machine is as it was, whatever was there before.
\<close>

theorem filesystem_check_leaves_nothing:
  assumes "fs_check root s = (None, t)"
  shows "held_file t q = held_file s q"
proof -
  obtain r1 s1 where mk: "os_mkdir_all root s = (r1, s1)" by fastforce
  obtain r2 s2 where ct: "os_create_temp root ''.koffr-check-'' [] s1 = (r2, s2)" by fastforce
  obtain e3 s3 where tc: "os_touch s2 = (e3, s3)" by fastforce
  from assms mk ct tc obtain u marker where r: "r1 = Inr u" "r2 = Inr marker" "e3 = None"
    and rm: "os_remove marker s3 = (None, t)"
    by (auto simp: fs_check_def split: sum.splits option.splits prod.splits)
  have s2: "node_at s2 x = (if x = marker then Some (File [] (os_now s1)) else node_at s1 x)"
    "node_at s1 marker = None" for x
    using create_temp_frame(3,4)[of root "''.koffr-check-''" "[]" s1 marker s2] ct r(2) by auto
  have "held_file t q = held_file s1 q"
    using remove_frame(2,3)[OF rm] touch_frame(2)[OF tc] s2 by (cases "q = marker") (auto simp: held_file_def)
  then show ?thesis using held_file_mkdir[OF mk, of q] by simp
qed

lemma fresh_temp_first: "node_at s (temp_place d b a 0) = None \<Longrightarrow> fresh_temp d b a s = Some (temp_place d b a 0)"
  unfolding fresh_temp_def by (simp add: upt_conv_Cons del: upt_Suc)

theorem filesystem_check_leaves_nothing_witness:
  "\<exists>t. fs_check (True, [''d'']) (one_process 7 [((True, [''d'']), Dir), ((True, [''d'', ''a'']), File ''x'' 0)]) = (None, t)
    \<and> held_file t (True, [''d'', ''a'']) = Some ''x''"
proof -
  let ?s = "one_process 7 [((True, [''d'']), Dir), ((True, [''d'', ''a'']), File ''x'' 0)]"
  let ?m = "(True, [''d'', ''.koffr-check-'' @ dec 0])"
  have "simple_name (''.koffr-check-'' @ dec 0)"
    using digits_no_byte[OF dec_digits, of "CHR ''/''" 0] by (auto simp: simple_name_def)
  from place_join_simple[OF this] have m: "temp_place (True, [''d'']) ''.koffr-check-'' [] 0 = ?m"
    by (simp add: temp_place_def)
  have "os_create_temp (True, [''d'']) ''.koffr-check-'' [] ?s = (Inr ?m, set_node ?m (File [] (os_now ?s)) ?s)"
    using fresh_temp_first[of ?s "(True, [''d''])" "''.koffr-check-''" "[]"]
    by (simp add: os_create_temp_def m parent_ok_def place_dir_def)
  then have "fst (fs_check (True, [''d'']) ?s) = None"
    by (simp add: fs_check_def os_mkdir_all_def os_touch_def os_remove_def)
  then obtain t where t: "fs_check (True, [''d'']) ?s = (None, t)" by (metis prod.collapse)
  have "held_file ?s (True, [''d'', ''a'']) = Some ''x''" by (simp add: held_file_def)
  with filesystem_check_leaves_nothing[OF t] t show ?thesis by simp
qed

section \<open>Where archives lie\<close>

text \<open>
  \<open>resolve\<close> does not keep a path under the root: \<open>filepath.Join\<close> follows the dots of the path it
  is given out of the directory.
\<close>

theorem resolve_leaves_the_root:
  "resolve (place_of ''/srv/koffr'') ''../etc/cron'' = place_of ''/srv/etc/cron''
   \<and> \<not> under (place_of ''/srv/koffr'') (resolve (place_of ''/srv/koffr'') ''../etc/cron'')"
  by (simp add: resolve_def place_of_def place_join_def clean_step_def has_prefix_def under_def)

lemma segment_simple: "segment_ok s \<Longrightarrow> simple_name s"
  using segment_ok_no_slash[of s] by (auto simp: segment_ok_def simple_name_def trim_edge_def)

lemma archive_segments:
  assumes "segment_ok e"
  shows "place_join root (archive_path database at ident e)
    = (fst root, snd root @ [safe_segment database, pad_int 4 (c_year (civil_of at)),
        pad_int 2 (c_month (civil_of at)), archive_name database at ident e])"
  using segment_simple[OF segment_ok_safe_segment] segment_simple[OF segment_ok_pad]
    segment_simple[OF segment_ok_name[OF assms]]
  by (simp add: archive_path_split[OF assms] archive_directory_def place_join_cons place_join_simple)

lemma archive_segments_json:
  assumes "segment_ok e"
  shows "place_join root (archive_path database at ident e @ ''.json'')
    = (fst root, snd root @ [safe_segment database, pad_int 4 (c_year (civil_of at)),
        pad_int 2 (c_month (civil_of at)), archive_name database at ident e @ ''.json''])"
proof -
  have "simple_name (archive_name database at ident e @ ''.json'')"
    using segment_simple[OF segment_ok_name[OF assms, of database at ident]] by (auto simp: simple_name_def)
  then show ?thesis using segment_simple[OF segment_ok_safe_segment] segment_simple[OF segment_ok_pad]
    by (simp add: archive_path_split[OF assms] archive_directory_def place_join_cons place_join_simple)
qed

lemma segment_not_own: "segment_ok s \<Longrightarrow> \<not> has_prefix (s @ r) partial_before"
  by (cases s) (auto simp: segment_ok_def has_prefix_def partial_before_def trim_edge_def)

lemma archive_under:
  assumes "segment_ok dump"
  shows "let path = archive_path database at ident (archive_extension dump pipeline) in
    under (resolve root (safe_segment database)) (resolve root path)
    \<and> under (resolve root (safe_segment database)) (resolve root (path @ ''.json''))
    \<and> \<not> own_name (resolve root path) \<and> \<not> own_name (resolve root (path @ ''.json''))
    \<and> resolve root path \<noteq> resolve root (path @ ''.json'')"
proof -
  let ?e = "archive_extension dump pipeline"
  have e: "segment_ok ?e" by (rule segment_ok_extension[OF assms])
  have "simple_name (safe_segment database)" by (rule segment_simple[OF segment_ok_safe_segment])
  then show ?thesis
    unfolding Let_def resolve_def archive_segments[OF e] archive_segments_json[OF e]
    using segment_not_own[OF segment_ok_name[OF e]] segment_not_own[OF segment_ok_name[OF e], where r = "[]"]
    by (simp add: under_def own_name_def place_join_simple)
qed

text \<open>
  An archive and its manifest stay in the directory of their database under the root of the
  destination, whatever the identifiers, and neither has the name of a file still being written; so
  the laws of the destination hold for every path a backup writes.
\<close>

lemma archive_stays_under_root:
  assumes "segment_ok dump"
  shows "let path = archive_path database at ident (archive_extension dump pipeline) in
    under (resolve root (safe_segment database)) (resolve root path)
    \<and> under (resolve root (safe_segment database)) (resolve root (path @ ''.json''))
    \<and> \<not> own_name (resolve root path) \<and> \<not> own_name (resolve root (path @ ''.json''))
    \<and> resolve root path \<noteq> resolve root (path @ ''.json'')"
  by (rule archive_under[OF assms])

theorem archive_stays_under_root_witness:
  "under (resolve (True, [''srv'']) (safe_segment ''../../x''))
    (resolve (True, [''srv'']) (archive_path ''../../x'' 0 ''..'' (archive_extension ''pgc'' [])))"
  using archive_stays_under_root[OF segment_ok_known(3)] by (simp add: Let_def)

end
