(* ===== verification/Staging.thy ===== *)
theory Staging
  imports Archive_Path
begin

text \<open>
  \<open>internal/domain/backup/staging.go\<close>: whether a backup is staged on disk before it is sent, and
  the free space that decides it; and the names of staging files of \<open>staging_file.go\<close>. Sizes are
  \<open>int64\<close>: the margin multiplies by three before it divides by two, so it wraps around.
\<close>

section \<open>Deciding the mode\<close>

datatype mode = Stage | Stream | Auto | UnsetMode | UnknownMode string

fun mode_name :: "mode \<Rightarrow> string" where
  "mode_name Stage = ''stage''"
| "mode_name Stream = ''stream''"
| "mode_name Auto = ''auto''"
| "mode_name UnsetMode = ''''"
| "mode_name (UnknownMode s) = s"

definition mode_of_name :: "string \<Rightarrow> mode" where
  "mode_of_name s =
     (if s = ''stage'' then Stage else if s = ''stream'' then Stream else if s = ''auto'' then Auto
      else if s = [] then UnsetMode else UnknownMode s)"

record staging_inputs =
  in_configured :: mode
  in_directory_dump :: bool
  in_destinations :: nat
  in_verify_without_egress :: bool
  in_free_bytes :: int64
  in_expected_bytes :: int64

record staging_decision =
  sd_mode :: mode
  sd_reason :: string
  sd_forced :: bool

definition margin_numerator :: int64 where "margin_numerator = 3"

definition margin_denominator :: int64 where "margin_denominator = 2"

definition blind_compression_divisor :: int64 where "blind_compression_divisor = 8"

definition needed :: "int64 \<Rightarrow> int64" where
  "needed expected = int64_quot (expected * margin_numerator) margin_denominator"

definition int64_string :: "int64 \<Rightarrow> string" where
  "int64_string w = dec_int (sint w)"

definition stage_imposed :: "staging_inputs \<Rightarrow> bool \<times> string" where
  "stage_imposed i =
     (if in_directory_dump i then (True, ''the directory format'')
      else if 1 < in_destinations i then (True, dec (in_destinations i) @ '' destinations'')
      else if in_verify_without_egress i then (True, ''structural verification without egress'')
      else (False, []))"

definition decide_staging :: "staging_inputs \<Rightarrow> staging_decision result" where
  "decide_staging i =
     (let room = needed (in_expected_bytes i) \<le>s in_free_bytes i; (imposed, why) = stage_imposed i
      in if imposed then
           (if \<not> room then
              Inl (Gerr [ErrNotEnoughSpace]
                (''not enough free space to stage this backup: '' @ why @
                 '' imposes staging, which needs '' @ int64_string (needed (in_expected_bytes i)) @
                 '' bytes with the margin of the specification, and '' @
                 int64_string (in_free_bytes i) @ '' are free''))
            else Inr \<lparr>sd_mode = Stage, sd_reason = why @ '' imposes staging'', sd_forced = True\<rparr>)
         else
           (let configured = (if in_configured i = UnsetMode then Auto else in_configured i)
            in if configured = Stream then
                 Inr \<lparr>sd_mode = Stream, sd_reason = ''the database asks for stream'', sd_forced = False\<rparr>
               else if \<not> room then
                 Inr \<lparr>sd_mode = Stream,
                      sd_reason = ''free space is '' @ int64_string (in_free_bytes i) @
                        '' bytes and staging needs '' @ int64_string (needed (in_expected_bytes i)) @
                        '', so this run streams'',
                      sd_forced = False\<rparr>
               else if configured = Stage then
                 Inr \<lparr>sd_mode = Stage, sd_reason = ''the database asks for stage'', sd_forced = False\<rparr>
               else
                 Inr \<lparr>sd_mode = Stage,
                      sd_reason = ''free space is '' @ int64_string (in_free_bytes i) @
                        '' bytes, enough for the '' @ int64_string (needed (in_expected_bytes i)) @
                        '' staging needs'',
                      sd_forced = False\<rparr>))"

text \<open>\<open>*PreviousBackup\<close> is nil when there is no history.\<close>

definition estimate_stored :: "int64 option \<Rightarrow> int64 \<Rightarrow> int64" where
  "estimate_stored previous database_bytes =
     (let blind = (if database_bytes \<le>s 0 then 0
                   else int64_quot database_bytes blind_compression_divisor)
      in case previous of
           Some stored_bytes \<Rightarrow> if 0 <s stored_bytes then stored_bytes else blind
         | None \<Rightarrow> blind)"

section \<open>The name of a staging file\<close>

definition staging_prefix :: string where "staging_prefix = ''staging-''"

definition staging_suffix :: string where "staging_suffix = ''.koffr''"

definition staging_file_name :: "int \<Rightarrow> string \<Rightarrow> string" where
  "staging_file_name pid job = staging_prefix @ dec_int pid @ ''-'' @ safe_segment job @ staging_suffix"

definition owner_of_staging_file :: "string \<Rightarrow> int option" where
  "owner_of_staging_file name =
     (if \<not> has_prefix name staging_prefix \<or> \<not> has_suffix name staging_suffix then None
      else let (owner, _, found) = cut (CHR ''-'') (trim_prefix name staging_prefix)
           in if \<not> found then None
              else case atoi owner of
                     None \<Rightarrow> None
                   | Some pid \<Rightarrow> if pid \<le> 0 then None else Some pid)"

section \<open>Lemmas on 64-bit sizes\<close>

lemma sint_bounds: "- (2 ^ 63) \<le> sint (w :: int64)" "sint (w :: int64) < 2 ^ 63"
  using sint_ge[of w] sint_lt[of w] by simp_all

lemma sint_times3: "0 \<le> sint (w :: int64) \<Longrightarrow> 3 * sint w < 2 ^ 63 \<Longrightarrow> sint (w * 3) = sint w * 3"
proof -
  assume h: "0 \<le> sint w" "3 * sint w < 2 ^ 63"
  have "w * 3 = word_of_int (sint w * 3)" by simp
  moreover have "sint (word_of_int (sint w * 3) :: int64) = sint w * 3"
    by (rule sint_small) (use h in simp_all)
  ultimately show ?thesis by simp
qed

lemma sdiv_nonneg: "0 \<le> a \<Longrightarrow> 0 < b \<Longrightarrow> (a :: int) sdiv b = a div b"
  by (cases "a = 0") (simp_all add: signed_divide_int_def)

lemma needed_exact:
  assumes "0 \<le> sint e" "3 * sint e < 2 ^ 63"
  shows "sint (needed e) = 3 * sint e div 2"
proof -
  have q: "sint e * 3 div 2 \<le> sint e * 3" "0 \<le> sint e * 3 div 2" using assms by simp_all
  have "sint (needed e) = sint (word_of_int (sint e * 3 div 2) :: int64)"
    using assms by (simp add: needed_def int64_quot_def margin_numerator_def margin_denominator_def
        sint_times3 sdiv_nonneg)
  also have "\<dots> = sint e * 3 div 2" by (rule sint_small) (use assms q in linarith)+
  finally show ?thesis by (simp add: mult.commute)
qed

section \<open>What a decision promises\<close>

text \<open>
  A decision is never \<open>auto\<close>: it is to stage or to stream, and it says why. With more than one
  destination, a directory dump or a structural check without egress, it is to stage and forced;
  streaming is only ever decided for at most one destination.
\<close>

theorem decide_staging_answers:
  assumes "decide_staging i = Inr d"
  shows "(sd_mode d = Stage \<or> sd_mode d = Stream) \<and> sd_reason d \<noteq> []
    \<and> (sd_forced d \<longleftrightarrow> in_directory_dump i \<or> 1 < in_destinations i \<or> in_verify_without_egress i)
    \<and> (sd_forced d \<longrightarrow> sd_mode d = Stage)
    \<and> (sd_mode d = Stream \<longrightarrow> in_destinations i \<le> 1 \<and> \<not> in_directory_dump i)"
  using assms by (auto simp: decide_staging_def stage_imposed_def Let_def split: if_splits)

theorem decide_staging_answers_witness:
  "\<exists>d. decide_staging \<lparr>in_configured = Stream, in_directory_dump = False, in_destinations = 2,
       in_verify_without_egress = False, in_free_bytes = 1000, in_expected_bytes = 100\<rparr> = Inr d
     \<and> sd_mode d = Stage \<and> sd_forced d"
proof -
  let ?i = "\<lparr>in_configured = Stream, in_directory_dump = False, in_destinations = 2,
       in_verify_without_egress = False, in_free_bytes = 1000, in_expected_bytes = 100\<rparr>"
  obtain d where d: "decide_staging ?i = Inr d"
    by (simp add: decide_staging_def stage_imposed_def Let_def needed_def int64_quot_def
        margin_numerator_def margin_denominator_def word_sle_eq)
  from decide_staging_answers[OF d] d show ?thesis by auto
qed

text \<open>
  C39. koffr never stages what it expects not to fit: when it decides to stage, half as much again as
  the expected size is free; when staging is imposed and there is no such room, the job is refused
  with the error of E-061. This holds for every expected size below a third of \<open>int64\<close>'s range.
\<close>

theorem staging_fits_the_disk:
  assumes "0 \<le> sint (in_expected_bytes i)" "3 * sint (in_expected_bytes i) < 2 ^ 63"
  shows "(case decide_staging i of
       Inr d \<Rightarrow> sd_mode d = Stage \<longrightarrow> 3 * sint (in_expected_bytes i) div 2 \<le> sint (in_free_bytes i)
     | Inl e \<Rightarrow> errors_is e ErrNotEnoughSpace \<and> sint (in_free_bytes i) < 3 * sint (in_expected_bytes i) div 2)"
  using needed_exact[OF assms]
  by (auto simp: decide_staging_def stage_imposed_def Let_def word_sle_eq)

theorem staging_fits_the_disk_witness:
  "\<exists>e. decide_staging \<lparr>in_configured = Auto, in_directory_dump = True, in_destinations = 1,
       in_verify_without_egress = False, in_free_bytes = 149, in_expected_bytes = 100\<rparr> = Inl e
     \<and> errors_is e ErrNotEnoughSpace"
proof -
  let ?i = "\<lparr>in_configured = Auto, in_directory_dump = True, in_destinations = 1,
       in_verify_without_egress = False, in_free_bytes = 149, in_expected_bytes = 100\<rparr>"
  obtain e where e: "decide_staging ?i = Inl e"
    by (simp add: decide_staging_def stage_imposed_def Let_def needed_def int64_quot_def
        margin_numerator_def margin_denominator_def word_sle_eq)
  with staging_fits_the_disk[of ?i] show ?thesis by simp
qed

text \<open>
  The margin wraps around: an expected size of 2^62 bytes makes the room koffr asks for negative,
  so a disk with nothing free is found large enough and the backup is staged.
\<close>

lemma margin_overflow_stages_on_a_full_disk:
  "sint (needed 0x4000000000000000) < 0
   \<and> (\<exists>d. decide_staging \<lparr>in_configured = Auto, in_directory_dump = False, in_destinations = 1,
          in_verify_without_egress = False, in_free_bytes = 0, in_expected_bytes = 0x4000000000000000\<rparr> = Inr d
        \<and> sd_mode d = Stage)"
  by (simp add: decide_staging_def stage_imposed_def Let_def needed_def int64_quot_def
        margin_numerator_def margin_denominator_def word_sle_eq signed_divide_int_def)

section \<open>Names of staging files\<close>

lemma dec_int_pos: "0 < pid \<Longrightarrow> dec_int pid = dec (nat pid)"
  by (simp add: dec_int_def)

lemma owner_of_own_file:
  assumes "0 < pid" "pid < 2 ^ 63"
  shows "owner_of_staging_file (staging_file_name pid job) = Some pid"
proof -
  let ?rest = "dec (nat pid) @ CHR ''-'' # safe_segment job @ staging_suffix"
  have n: "staging_file_name pid job = staging_prefix @ ?rest"
    by (simp add: staging_file_name_def dec_int_pos[OF assms(1)])
  have "has_suffix (staging_file_name pid job) staging_suffix"
    unfolding staging_file_name_def has_suffix_def by (metis append.assoc suffixI)
  moreover have "trim_prefix (staging_file_name pid job) staging_prefix = ?rest"
    unfolding n by (simp add: trim_prefix_def)
  moreover have "cut (CHR ''-'') ?rest = (dec (nat pid), safe_segment job @ staging_suffix, True)"
    by (rule cut_append) (rule digits_no_byte[OF dec_digits], simp)
  moreover have "atoi (dec (nat pid)) = Some pid" using assms by simp
  ultimately show ?thesis using assms unfolding owner_of_staging_file_def n
    by (simp add: has_prefix_def)
qed

text \<open>
  The process that owns a staging file is read back from its name, whatever the job is called, so
  a purge can tell an abandoned buffer from one being written.
\<close>

theorem staging_name_roundtrip:
  assumes "0 < pid" "pid < 2 ^ 63"
  shows "owner_of_staging_file (staging_file_name pid job) = Some pid"
  by (rule owner_of_own_file[OF assms])

theorem staging_name_roundtrip_witness:
  "owner_of_staging_file (staging_file_name 4242 ''01K5X8-7.koffr'') = Some 4242"
  by (rule staging_name_roundtrip) simp_all

end
