(* ===== verification/Staging_Files.thy ===== *)
theory Staging_Files
  imports Staging Go_OS
begin

text \<open>
  The staging files of \<open>internal/domain/backup/staging_file.go\<close> and \<open>stagingFile\<close> of \<open>service.go\<close>:
  the buffer of a job, and the purge of the buffers dead jobs left behind (BKP-17).
\<close>

definition staging_directory :: string where "staging_directory = ''tmp''"

definition staging_dir_place :: "place \<Rightarrow> place" where
  "staging_dir_place state_directory = place_join state_directory staging_directory"

fun purge_entries :: "place \<Rightarrow> string list \<Rightarrow> os \<Rightarrow> gerr option \<times> os" where
  "purge_entries directory [] s = (None, s)"
| "purge_entries directory (name # names) s =
     (case owner_of_staging_file name of
        None \<Rightarrow> purge_entries directory names s
      | Some owner \<Rightarrow>
          if running s owner then purge_entries directory names s
          else (case os_remove (place_join directory name) s of
                  (Some e, s1) \<Rightarrow>
                    if errors_is e ErrNotExist then purge_entries directory names s1
                    else (Some (errorf (''remove the abandoned buffer '' @ name) e), s1)
                | (None, s1) \<Rightarrow> purge_entries directory names s1))"

definition purge_staging :: "place \<Rightarrow> os \<Rightarrow> gerr option \<times> os" where
  "purge_staging state_directory s =
     (case os_read_dir (staging_dir_place state_directory) s of
        (Inl e, s1) \<Rightarrow>
          (if errors_is e ErrNotExist then None
           else Some (errorf (''read the staging directory '' @
             place_string (staging_dir_place state_directory)) e), s1)
      | (Inr names, s1) \<Rightarrow> purge_entries (staging_dir_place state_directory) names s1)"

definition staging_place :: "place \<Rightarrow> int \<Rightarrow> string \<Rightarrow> place" where
  "staging_place state_directory pid job =
     place_join (staging_dir_place state_directory) (staging_file_name pid job)"

definition staging_file :: "place \<Rightarrow> string \<Rightarrow> os \<Rightarrow> place result \<times> os" where
  "staging_file state_directory job s =
     (let directory = staging_dir_place state_directory
      in case os_mkdir_all directory s of
           (Inl e, s1) \<Rightarrow> (Inl (errorf (''make the staging directory '' @ place_string directory) e), s1)
         | (Inr _, s1) \<Rightarrow>
             (case os_create_trunc (staging_place state_directory (os_pid s1) job) s1 of
                (Inl e, s2) \<Rightarrow> (Inl (errorf (''open a staging file in '' @ place_string directory) e), s2)
              | (Inr _, s2) \<Rightarrow> (Inr (staging_place state_directory (os_pid s1) job), s2)))"

section \<open>What a purge removes\<close>

definition abandoned_buffer :: "os \<Rightarrow> string \<Rightarrow> bool" where
  "abandoned_buffer s name \<longleftrightarrow>
     (case owner_of_staging_file name of None \<Rightarrow> False | Some owner \<Rightarrow> \<not> running s owner)"

lemma abandoned_same: "same_machine s t \<Longrightarrow> abandoned_buffer t name = abandoned_buffer s name"
  using running_same[of s t] by (simp add: abandoned_buffer_def split: option.splits)

lemma purge_entries_step:
  "purge_entries directory (name # names) s =
     (if abandoned_buffer s name then
        (case os_remove (place_join directory name) s of
           (Some e, s1) \<Rightarrow>
             if errors_is e ErrNotExist then purge_entries directory names s1
             else (Some (errorf (''remove the abandoned buffer '' @ name) e), s1)
         | (None, s1) \<Rightarrow> purge_entries directory names s1)
      else purge_entries directory names s)"
  by (simp add: abandoned_buffer_def split: option.split)

lemma purge_entries_frame:
  "purge_entries d names s = (r, t) \<Longrightarrow> same_machine s t
    \<and> (node_at t q = node_at s q
       \<or> node_at t q = None \<and> (\<exists>name \<in> set names. q = place_join d name \<and> abandoned_buffer s name))"
proof (induction names arbitrary: s)
  case Nil
  then show ?case by simp
next
  case (Cons name names)
  show ?case
  proof (cases "abandoned_buffer s name")
    case False
    with Cons.prems have "purge_entries d names s = (r, t)" by (simp only: purge_entries_step if_False)
    with Cons.IH show ?thesis by auto
  next
    case True
    obtain e s1 where rm: "os_remove (place_join d name) s = (e, s1)" by fastforce
    have m: "same_machine s s1" by (rule remove_frame(1)[OF rm])
    have n: "node_at s1 q = node_at s q \<or> node_at s1 q = None \<and> q = place_join d name"
      using rm remove_frame(2)[OF rm, of q] remove_frame(3)[of "place_join d name" s s1]
        remove_frame(4)[of "place_join d name" s _ s1 q]
      by (cases e; cases "q = place_join d name") auto
    consider (stop) "r \<noteq> None" "t = s1" | (go) "purge_entries d names s1 = (r, t)"
      using Cons.prems True rm
      by (cases e) (auto simp: purge_entries_step simp del: purge_entries.simps split: if_splits)
    then show ?thesis
    proof cases
      case stop
      with m n True show ?thesis by auto
    next
      case go
      from Cons.IH[OF go] m have "same_machine s t" by (blast intro: same_machine_trans)
      with Cons.IH[OF go] n True abandoned_same[OF m] show ?thesis by auto
    qed
  qed
qed

lemma purge_frame:
  assumes "purge_staging sd s = (r, t)"
  shows "same_machine s t" "node_at t q = node_at s q
    \<or> node_at t q = None \<and> (\<exists>name. q = place_join (staging_dir_place sd) name \<and> abandoned_buffer s name)"
proof -
  obtain x s1 where rd: "os_read_dir (staging_dir_place sd) s = (x, s1)" by fastforce
  have f: "same_machine s s1" "node_at s1 q = node_at s q" for q by (rule read_dir_frame[OF rd])+
  have "same_machine s t \<and> (node_at t q = node_at s q
    \<or> node_at t q = None \<and> (\<exists>name. q = place_join (staging_dir_place sd) name \<and> abandoned_buffer s name))"
  proof (cases x)
    case (Inl e)
    with assms rd f show ?thesis by (auto simp: purge_staging_def)
  next
    case (Inr names)
    with assms rd have p: "purge_entries (staging_dir_place sd) names s1 = (r, t)" by (simp add: purge_staging_def)
    have "same_machine s t" using purge_entries_frame[OF p] f(1) by (blast intro: same_machine_trans)
    then show ?thesis using purge_entries_frame[OF p, of q] f(2)[of q] abandoned_same[OF f(1)] by auto
  qed
  then show "same_machine s t" "node_at t q = node_at s q
    \<or> node_at t q = None \<and> (\<exists>name. q = place_join (staging_dir_place sd) name \<and> abandoned_buffer s name)"
    by blast+
qed

lemma quiet_purge_entries:
  assumes "quiet s" "\<forall>name \<in> set names. abandoned_buffer s name \<longrightarrow> node_at s (place_join d name) \<noteq> Some Dir"
  shows "\<exists>t. purge_entries d names s = (None, t)
    \<and> (\<forall>name \<in> set names. abandoned_buffer s name \<longrightarrow> node_at t (place_join d name) = None)"
  using assms
proof (induction names arbitrary: s)
  case Nil
  then show ?case by simp
next
  case (Cons name names)
  show ?case
  proof (cases "abandoned_buffer s name")
    case False
    with Cons show ?thesis by (auto simp only: purge_entries_step) auto
  next
    case True
    let ?p = "place_join d name"
    obtain e s1 where rm: "os_remove ?p s = (e, s1)" by fastforce
    have m: "same_machine s s1" by (rule remove_frame(1)[OF rm])
    have e: "e = None \<or> (\<exists>x. e = Some x \<and> errors_is x ErrNotExist)" and gone: "node_at s1 ?p = None"
      and keep: "node_at s1 q = (if q = ?p then None else node_at s q)" for q
      using rm Cons.prems True by (auto simp: os_remove_def not_exist_def path_error_def split: option.splits if_splits)
    have dirs: "\<forall>x \<in> set names. abandoned_buffer s1 x \<longrightarrow> node_at s1 (place_join d x) \<noteq> Some Dir"
      using Cons.prems(2) abandoned_same[OF m] by (auto simp: keep)
    obtain t where t: "purge_entries d names s1 = (None, t)"
      "\<forall>x \<in> set names. abandoned_buffer s1 x \<longrightarrow> node_at t (place_join d x) = None"
      using Cons.IH[OF quiet_same[OF m Cons.prems(1)] dirs] by blast
    have "purge_entries d (name # names) s = (None, t)"
      using True rm e t(1) by (auto simp only: purge_entries_step split: option.splits) auto
    moreover have "node_at t ?p = None" using purge_entries_frame[OF t(1), of ?p] gone by auto
    ultimately show ?thesis using t(2) abandoned_same[OF m] by auto
  qed
qed

text \<open>
  C32. A purge removes the staging files whose process is gone, and nothing else (BKP-17): when no
  system call fails and no directory carries such a name, afterwards none of them is left in the
  staging directory, and every other file and directory is as it was, a staging file of a living
  process included.
\<close>

theorem purge_exactly_abandoned:
  assumes "quiet s" "node_at s (staging_dir_place sd) = Some Dir"
    and "list_all (\<lambda>name. abandoned_buffer s name \<longrightarrow> node_at s (place_join (staging_dir_place sd) name) \<noteq> Some Dir)
      (children s (staging_dir_place sd))"
  shows "\<exists>t. purge_staging sd s = (None, t)
    \<and> (\<forall>name \<in> set (children s (staging_dir_place sd)). abandoned_buffer s name
        \<longrightarrow> node_at t (place_join (staging_dir_place sd) name) = None)
    \<and> (\<forall>q. node_at t q = node_at s q \<or> (\<exists>name. q = place_join (staging_dir_place sd) name \<and> abandoned_buffer s name))"
proof -
  have rd: "os_read_dir (staging_dir_place sd) s = (Inr (children s (staging_dir_place sd)), s)"
    using assms(1,2) by (simp add: os_read_dir_def)
  with quiet_purge_entries[of s "children s (staging_dir_place sd)" "staging_dir_place sd"] assms
  obtain t where "purge_staging sd s = (None, t)"
    "\<forall>name \<in> set (children s (staging_dir_place sd)). abandoned_buffer s name
        \<longrightarrow> node_at t (place_join (staging_dir_place sd) name) = None"
    by (auto simp: purge_staging_def list_all_iff)
  with purge_frame(2)[of sd s None t] show ?thesis by blast
qed

lemma owner_cases:
  "0 < pid \<Longrightarrow> pid < 2 ^ 63 \<Longrightarrow> abandoned_buffer s (staging_file_name pid job) = (\<not> running s pid)"
  by (simp add: abandoned_buffer_def owner_of_own_file)

lemma simple_staging_name: "0 < pid \<Longrightarrow> simple_name (staging_file_name pid job)"
  using segment_no_slash[of job] digits_no_byte[OF dec_digits, of "CHR ''/''" "nat pid"]
  by (auto simp: simple_name_def staging_file_name_def staging_prefix_def staging_suffix_def dec_int_pos is_digit_def byte_in_def)

theorem purge_exactly_abandoned_witness:
  "\<exists>t. purge_staging (True, [''k'']) (one_process 7
      [((True, [''k'', ''tmp'']), Dir), ((True, [''k'', ''tmp'', staging_file_name 9 ''j'']), File ''x'' 0)]) = (None, t)
    \<and> node_at t (True, [''k'', ''tmp'', staging_file_name 9 ''j'']) = None"
proof -
  let ?n = "staging_file_name 9 ''j''"
  let ?s = "one_process 7 [((True, [''k'', ''tmp'']), Dir), ((True, [''k'', ''tmp'', ?n]), File ''x'' 0)]"
  have d: "staging_dir_place (True, [''k'']) = (True, [''k'', ''tmp''])"
    by (simp add: staging_dir_place_def staging_directory_def place_join_simple simple_name_def)
  have j: "place_join (True, [''k'', ''tmp'']) ?n = (True, [''k'', ''tmp'', ?n])"
    by (simp add: place_join_simple simple_staging_name)
  have c: "children ?s (True, [''k'', ''tmp'']) = [?n]"
    by (simp add: children_def one_process_def place_dir_def delete_conv)
  have a: "abandoned_buffer ?s ?n" by (simp add: owner_cases)
  show ?thesis using purge_exactly_abandoned[of ?s "(True, [''k''])"] by (auto simp: d j c a)
qed

end
