(* ===== verification/Go_JSON.thy ===== *)
theory Go_JSON
  imports Go_Strings
begin

text \<open>
  The part of Go's \<open>encoding/json\<close> the program uses: \<open>json.Marshal\<close> and
  \<open>json.MarshalIndent(v, "", "  ")\<close> of objects, arrays, strings, numbers and booleans, and
  \<open>json.Unmarshal\<close> into a struct. Writing escapes what the encoder escapes, HTML characters and
  U+2028/U+2029 included, and replaces a byte that is not UTF-8 by U+FFFD. Reading accepts the
  whole grammar; a key of the input reaches the field whose name it equals without regard to ASCII
  case; given twice, the later one is decoded over what the earlier left, and a null leaves a plain
  field as it was.
\<close>

datatype json =
    JNull | JBool bool | JNum string | JStr string | JArr "json list" | JObj "(string \<times> json) list"

section \<open>UTF-8\<close>

definition cont_byte :: "char \<Rightarrow> bool" where
  "cont_byte c = byte_in 0x80 0xBF c"

text \<open>The width of the rune a string of non-ASCII bytes starts with; 0 when the bytes are not UTF-8.\<close>

fun utf8_width :: "string \<Rightarrow> nat" where
  "utf8_width (a # b # c # d # _) =
     (if byte_in 0xC2 0xDF a \<and> cont_byte b then 2
      else if (a = CHR 0xE0 \<and> byte_in 0xA0 0xBF b \<or> byte_in 0xE1 0xEC a \<and> cont_byte b
               \<or> a = CHR 0xED \<and> byte_in 0x80 0x9F b \<or> byte_in 0xEE 0xEF a \<and> cont_byte b)
              \<and> cont_byte c then 3
      else if (a = CHR 0xF0 \<and> byte_in 0x90 0xBF b \<or> byte_in 0xF1 0xF3 a \<and> cont_byte b
               \<or> a = CHR 0xF4 \<and> byte_in 0x80 0x8F b) \<and> cont_byte c \<and> cont_byte d then 4
      else 0)"
| "utf8_width [a, b, c] =
     (if byte_in 0xC2 0xDF a \<and> cont_byte b then 2
      else if (a = CHR 0xE0 \<and> byte_in 0xA0 0xBF b \<or> byte_in 0xE1 0xEC a \<and> cont_byte b
               \<or> a = CHR 0xED \<and> byte_in 0x80 0x9F b \<or> byte_in 0xEE 0xEF a \<and> cont_byte b)
              \<and> cont_byte c then 3
      else 0)"
| "utf8_width [a, b] = (if byte_in 0xC2 0xDF a \<and> cont_byte b then 2 else 0)"
| "utf8_width _ = 0"

definition is_ascii :: "char \<Rightarrow> bool" where
  "is_ascii c = byte_in 0 0x7F c"

definition utf8_encode :: "nat \<Rightarrow> string" where
  "utf8_encode r =
     (if r < 0x80 then [char_of r]
      else if r < 0x800 then [char_of (0xC0 + r div 64), char_of (0x80 + r mod 64)]
      else if r < 0x10000 then
        [char_of (0xE0 + r div 4096), char_of (0x80 + r div 64 mod 64), char_of (0x80 + r mod 64)]
      else [char_of (0xF0 + r div 262144), char_of (0x80 + r div 4096 mod 64),
            char_of (0x80 + r div 64 mod 64), char_of (0x80 + r mod 64)])"

definition rune_error :: nat where "rune_error = 0xFFFD"

lemma utf8_width_le: "utf8_width s \<le> length s"
  by (induction s rule: utf8_width.induct) auto

lemma utf8_width_take: "utf8_width s = Suc n \<Longrightarrow> utf8_width (take (Suc n) s @ r) = Suc n"
  by (cases s rule: utf8_width.cases; cases r rule: utf8_width.cases)
     (auto split: if_splits simp: byte_in_def cont_byte_def)

section \<open>Writing\<close>

definition hex_digit :: "nat \<Rightarrow> char" where
  "hex_digit n = (if n < 10 then char_of (48 + n) else char_of (87 + n))"

definition quote :: char where "quote = CHR 0x22"

definition backslash :: char where "backslash = CHR 0x5C"

definition escape_ascii :: "char \<Rightarrow> string" where
  "escape_ascii c =
     (if c = quote \<or> c = backslash then [backslash, c]
      else if c = CHR 0x08 then [backslash, CHR ''b'']
      else if c = CHR 0x0C then [backslash, CHR ''f'']
      else if c = CHR 0x0A then [backslash, CHR ''n'']
      else if c = CHR 0x0D then [backslash, CHR ''r'']
      else if c = CHR 0x09 then [backslash, CHR ''t'']
      else if of_char c < (32 :: nat) \<or> c = CHR ''<'' \<or> c = CHR ''>'' \<or> c = CHR ''&'' then
        [backslash, CHR ''u'', CHR ''0'', CHR ''0'', hex_digit (of_char c div 16), hex_digit (of_char c mod 16)]
      else [c])"

definition escape_rune :: "string \<Rightarrow> string" where
  "escape_rune r =
     (if r = [CHR 0xE2, CHR 0x80, CHR 0xA8] then backslash # ''u2028''
      else if r = [CHR 0xE2, CHR 0x80, CHR 0xA9] then backslash # ''u2029''
      else r)"

function json_escape :: "string \<Rightarrow> string" where
  "json_escape [] = []"
| "json_escape (c # cs) =
     (if is_ascii c then escape_ascii c @ json_escape cs
      else case utf8_width (c # cs) of
             0 \<Rightarrow> (backslash # ''ufffd'') @ json_escape cs
           | Suc n \<Rightarrow> escape_rune (take (Suc n) (c # cs)) @ json_escape (drop (Suc n) (c # cs)))"
  by pat_completeness auto
termination
  by (relation "measure length") auto

definition json_string :: "string \<Rightarrow> string" where
  "json_string s = quote # json_escape s @ [quote]"

definition json_break :: "bool \<Rightarrow> nat \<Rightarrow> string" where
  "json_break indented k = (if indented then newline # replicate (2 * k) (CHR '' '') else [])"

definition json_colon :: "bool \<Rightarrow> string" where
  "json_colon indented = (if indented then '': '' else '':'')"

fun json_render :: "bool \<Rightarrow> nat \<Rightarrow> json \<Rightarrow> string"
  and json_elements :: "bool \<Rightarrow> nat \<Rightarrow> json list \<Rightarrow> string"
  and json_members :: "bool \<Rightarrow> nat \<Rightarrow> (string \<times> json) list \<Rightarrow> string" where
  "json_render _ _ JNull = ''null''"
| "json_render _ _ (JBool b) = (if b then ''true'' else ''false'')"
| "json_render _ _ (JNum n) = n"
| "json_render _ _ (JStr s) = json_string s"
| "json_render i k (JArr vs) =
     (if vs = [] then ''[]''
      else ''['' @ json_break i (Suc k) @ json_elements i (Suc k) vs @ json_break i k @ '']'')"
| "json_render i k (JObj fs) =
     (if fs = [] then ''{}''
      else ''{'' @ json_break i (Suc k) @ json_members i (Suc k) fs @ json_break i k @ ''}'')"
| "json_elements _ _ [] = []"
| "json_elements i k (v # vs) =
     json_render i k v @ (if vs = [] then [] else '','' @ json_break i k @ json_elements i k vs)"
| "json_members _ _ [] = []"
| "json_members i k ((f, v) # fs) =
     json_string f @ json_colon i @ json_render i k v @
     (if fs = [] then [] else '','' @ json_break i k @ json_members i k fs)"

definition marshal :: "json \<Rightarrow> string" where
  "marshal v = json_render False 0 v"

definition marshal_indent :: "json \<Rightarrow> string" where
  "marshal_indent v = json_render True 0 v"

section \<open>Reading\<close>

definition json_space :: "char \<Rightarrow> bool" where
  "json_space c \<longleftrightarrow> c = CHR '' '' \<or> c = CHR 0x09 \<or> c = CHR 0x0A \<or> c = CHR 0x0D"

definition skip_space :: "string \<Rightarrow> string" where
  "skip_space s = dropWhile json_space s"

definition hex_value :: "char \<Rightarrow> nat option" where
  "hex_value c =
     (if is_digit c then Some (of_char c - 48)
      else if byte_in 97 102 c then Some (of_char c - 87)
      else if byte_in 65 70 c then Some (of_char c - 55) else None)"

definition hex4 :: "char \<Rightarrow> char \<Rightarrow> char \<Rightarrow> char \<Rightarrow> nat option" where
  "hex4 a b c d =
     (case (hex_value a, hex_value b, hex_value c, hex_value d) of
        (Some x, Some y, Some z, Some w) \<Rightarrow> Some (4096 * x + 256 * y + 16 * z + w)
      | _ \<Rightarrow> None)"

definition unescape :: "char \<Rightarrow> char option" where
  "unescape c =
     (if c = quote \<or> c = backslash \<or> c = CHR ''/'' then Some c
      else if c = CHR ''b'' then Some (CHR 0x08)
      else if c = CHR ''f'' then Some (CHR 0x0C)
      else if c = CHR ''n'' then Some (CHR 0x0A)
      else if c = CHR ''r'' then Some (CHR 0x0D)
      else if c = CHR ''t'' then Some (CHR 0x09) else None)"

definition low_surrogate :: "string \<Rightarrow> nat option" where
  "low_surrogate s =
     (case s of
        x # y # a # b # c # d # _ \<Rightarrow>
          if x = backslash \<and> y = CHR ''u'' then
            (case hex4 a b c d of
               Some r \<Rightarrow> if 0xDC00 \<le> r \<and> r < 0xE000 then Some r else None
             | None \<Rightarrow> None)
          else None
      | _ \<Rightarrow> None)"

text \<open>The bytes of a string literal, its closing quote consumed. A lone surrogate reads as U+FFFD.\<close>

function read_string :: "string \<Rightarrow> (string \<times> string) option" where
  "read_string [] = None"
| "read_string (c # cs) =
     (if c = quote then Some ([], cs)
      else if c = backslash then
        (case cs of
           CHR ''u'' # x # y # z # w # rest \<Rightarrow>
             (case hex4 x y z w of
                None \<Rightarrow> None
              | Some r \<Rightarrow>
                  if 0xD800 \<le> r \<and> r < 0xDC00 \<and> low_surrogate rest \<noteq> None then
                    map_option (apfst ((@) (utf8_encode
                        (0x10000 + 1024 * (r - 0xD800) + (the (low_surrogate rest) - 0xDC00)))))
                      (read_string (drop 6 rest))
                  else map_option (apfst ((@) (utf8_encode
                      (if 0xD800 \<le> r \<and> r < 0xE000 then rune_error else r)))) (read_string rest))
         | e # rest \<Rightarrow>
             (case unescape e of None \<Rightarrow> None | Some b \<Rightarrow> map_option (apfst ((#) b)) (read_string rest))
         | [] \<Rightarrow> None)
      else if of_char c < (32 :: nat) then None
      else if is_ascii c then map_option (apfst ((#) c)) (read_string cs)
      else case utf8_width (c # cs) of
             0 \<Rightarrow> map_option (apfst ((@) (utf8_encode rune_error))) (read_string cs)
           | Suc n \<Rightarrow> map_option (apfst ((@) (take (Suc n) (c # cs)))) (read_string (drop (Suc n) (c # cs))))"
  by pat_completeness auto
termination
  by (relation "measure length") auto


text \<open>A number literal, kept as it is written.\<close>

definition read_digits :: "string \<Rightarrow> (string \<times> string) option" where
  "read_digits s = (if s = [] \<or> \<not> is_digit (hd s) then None
                    else Some (takeWhile is_digit s, dropWhile is_digit s))"

definition read_integer_part :: "string \<Rightarrow> (string \<times> string) option" where
  "read_integer_part s =
     (case s of CHR ''0'' # r \<Rightarrow> Some (''0'', r) | _ \<Rightarrow> read_digits s)"

definition read_fraction_part :: "string \<Rightarrow> (string \<times> string) option" where
  "read_fraction_part s =
     (case s of CHR ''.'' # r \<Rightarrow> map_option (apfst ((#) (CHR ''.''))) (read_digits r)
      | _ \<Rightarrow> Some ([], s))"

definition read_exponent_part :: "string \<Rightarrow> (string \<times> string) option" where
  "read_exponent_part s =
     (case s of
        [] \<Rightarrow> Some ([], s)
      | e # r \<Rightarrow>
          if e = CHR ''e'' \<or> e = CHR ''E'' then
            (case r of
               [] \<Rightarrow> None
             | sign # t \<Rightarrow>
                 if sign = CHR ''+'' \<or> sign = CHR ''-''
                 then map_option (apfst (\<lambda>d. e # sign # d)) (read_digits t)
                 else map_option (apfst ((#) e)) (read_digits r))
          else Some ([], s))"

definition read_unsigned :: "string \<Rightarrow> (string \<times> string) option" where
  "read_unsigned s =
     (case read_integer_part s of
        None \<Rightarrow> None
      | Some (whole, r) \<Rightarrow>
          (case read_fraction_part r of
             None \<Rightarrow> None
           | Some (fraction, t) \<Rightarrow> map_option (apfst (\<lambda>e. whole @ fraction @ e)) (read_exponent_part t)))"

definition read_number :: "string \<Rightarrow> (string \<times> string) option" where
  "read_number s =
     (case s of CHR ''-'' # r \<Rightarrow> map_option (apfst ((#) (CHR ''-''))) (read_unsigned r)
      | _ \<Rightarrow> read_unsigned s)"

text \<open>
  The first argument bounds the nesting of calls: at most two for each byte of the input, so
  \<open>parse_json\<close> never runs out of it.
\<close>

fun read_value :: "nat \<Rightarrow> string \<Rightarrow> (json \<times> string) option"
  and read_elements :: "nat \<Rightarrow> string \<Rightarrow> (json list \<times> string) option"
  and read_members :: "nat \<Rightarrow> string \<Rightarrow> ((string \<times> json) list \<times> string) option" where
  "read_value 0 _ = None"
| "read_value (Suc n) s =
     (case skip_space s of
        [] \<Rightarrow> None
      | c # cs \<Rightarrow>
          if c = quote then map_option (apfst JStr) (read_string cs)
          else if c = CHR ''{'' then
            (if has_prefix (skip_space cs) ''}'' then Some (JObj [], tl (skip_space cs))
             else map_option (apfst JObj) (read_members n cs))
          else if c = CHR ''['' then
            (if has_prefix (skip_space cs) '']'' then Some (JArr [], tl (skip_space cs))
             else map_option (apfst JArr) (read_elements n cs))
          else if has_prefix (c # cs) ''null'' then Some (JNull, drop 4 (c # cs))
          else if has_prefix (c # cs) ''true'' then Some (JBool True, drop 4 (c # cs))
          else if has_prefix (c # cs) ''false'' then Some (JBool False, drop 5 (c # cs))
          else map_option (apfst JNum) (read_number (c # cs)))"
| "read_elements 0 _ = None"
| "read_elements (Suc n) s =
     (case read_value n s of
        None \<Rightarrow> None
      | Some (v, r) \<Rightarrow>
          (case skip_space r of
             [] \<Rightarrow> None
           | c # t \<Rightarrow>
               if c = CHR '','' then map_option (apfst ((#) v)) (read_elements n t)
               else if c = CHR '']'' then Some ([v], t) else None))"
| "read_members 0 _ = None"
| "read_members (Suc n) s =
     (case skip_space s of
        [] \<Rightarrow> None
      | q # cs \<Rightarrow>
          if q \<noteq> quote then None
          else case read_string cs of
            None \<Rightarrow> None
          | Some (f, r) \<Rightarrow>
              (case skip_space r of
                 [] \<Rightarrow> None
               | colon # t \<Rightarrow>
                   if colon \<noteq> CHR '':'' then None
                   else case read_value n t of
                     None \<Rightarrow> None
                   | Some (v, u) \<Rightarrow>
                       (case skip_space u of
                          [] \<Rightarrow> None
                        | c # w \<Rightarrow>
                            if c = CHR '','' then map_option (apfst ((#) (f, v))) (read_members n w)
                            else if c = CHR ''}'' then Some ([(f, v)], w) else None)))"

definition parse_json :: "string \<Rightarrow> json option" where
  "parse_json s =
     (case read_value (2 * length s + 1) s of
        None \<Rightarrow> None
      | Some (v, r) \<Rightarrow> if skip_space r = [] then Some v else None)"

section \<open>The fields of a struct\<close>

fun decode_field ::
  "('a \<Rightarrow> json \<Rightarrow> 'a option) \<Rightarrow> string \<Rightarrow> (string \<times> json) list \<Rightarrow> 'a \<Rightarrow> 'a option" where
  "decode_field decode name [] held = Some held"
| "decode_field decode name ((f, v) # fs) held =
     (if to_lower f = to_lower name
      then (case decode held v of None \<Rightarrow> None | Some got \<Rightarrow> decode_field decode name fs got)
      else decode_field decode name fs held)"

definition decode_string :: "string \<Rightarrow> json \<Rightarrow> string option" where
  "decode_string held v = (case v of JNull \<Rightarrow> Some held | JStr s \<Rightarrow> Some s | _ \<Rightarrow> None)"

definition decode_int :: "int \<Rightarrow> json \<Rightarrow> int option" where
  "decode_int held v = (case v of JNull \<Rightarrow> Some held | JNum n \<Rightarrow> atoi n | _ \<Rightarrow> None)"

definition decode_bool :: "bool \<Rightarrow> json \<Rightarrow> bool option" where
  "decode_bool held v = (case v of JNull \<Rightarrow> Some held | JBool b \<Rightarrow> Some b | _ \<Rightarrow> None)"

text \<open>A slice of strings, \<open>None\<close> being the nil slice, which is written \<open>null\<close>.\<close>

type_synonym slice = "string list option"

fun strings_of :: "json list \<Rightarrow> string list option" where
  "strings_of [] = Some []"
| "strings_of (JStr s # vs) = map_option ((#) s) (strings_of vs)"
| "strings_of (JNull # vs) = map_option ((#) []) (strings_of vs)"
| "strings_of (_ # vs) = None"

definition decode_strings :: "slice \<Rightarrow> json \<Rightarrow> slice option" where
  "decode_strings held v =
     (case v of JNull \<Rightarrow> Some None | JArr vs \<Rightarrow> map_option Some (strings_of vs) | _ \<Rightarrow> None)"

definition slice_json :: "slice \<Rightarrow> json" where
  "slice_json s = (case s of None \<Rightarrow> JNull | Some xs \<Rightarrow> JArr (map JStr xs))"

definition string_field :: "string \<Rightarrow> (string \<times> json) list \<Rightarrow> string option" where
  "string_field name fs = decode_field decode_string name fs []"

definition int_field :: "string \<Rightarrow> (string \<times> json) list \<Rightarrow> int option" where
  "int_field name fs = decode_field decode_int name fs 0"

definition bool_field :: "string \<Rightarrow> (string \<times> json) list \<Rightarrow> bool option" where
  "bool_field name fs = decode_field decode_bool name fs False"

definition strings_field :: "string \<Rightarrow> (string \<times> json) list \<Rightarrow> slice option" where
  "strings_field name fs = decode_field decode_strings name fs None"

named_theorems decoding

lemma decode_facts [decoding]:
  "decode_string held (JStr s) = Some s" "decode_int i (JNum n) = atoi n" "decode_bool d (JBool b) = Some b"
  "decode_string held JNull = Some held" "decode_int i JNull = Some i" "decode_bool d JNull = Some d"
  by (simp_all add: decode_string_def decode_int_def decode_bool_def)

lemma strings_of_map [simp]: "strings_of (map JStr xs) = Some xs"
  by (induction xs) simp_all

lemma decode_slice [decoding]: "decode_strings held (slice_json s) = Some s"
  by (cases s) (simp_all add: decode_strings_def slice_json_def)

lemmas field_defs [decoding] = string_field_def int_field_def bool_field_def strings_field_def

section \<open>A string literal reads back\<close>

function valid_utf8 :: "string \<Rightarrow> bool" where
  "valid_utf8 [] = True"
| "valid_utf8 (c # cs) =
     (if is_ascii c then valid_utf8 cs
      else case utf8_width (c # cs) of 0 \<Rightarrow> False | Suc n \<Rightarrow> valid_utf8 (drop (Suc n) (c # cs)))"
  by pat_completeness auto
termination
  by (relation "measure length") auto

lemma ascii_valid_utf8: "list_all is_ascii s \<Longrightarrow> valid_utf8 s"
  by (induction s) auto

lemma small_char: "of_char c < (n :: nat) \<Longrightarrow> \<exists>k < n. c = char_of k"
  by (metis char_of_char)

lemma char_neq_of: "(c :: char) \<noteq> d \<longleftrightarrow> of_char c \<noteq> (of_char d :: nat)"
  by simp

lemma hex_value_digit: "n < 16 \<Longrightarrow> hex_value (hex_digit n) = Some n"
  by (auto simp: hex_value_def hex_digit_def is_digit_def byte_in_def)

lemma json_bytes [simp]:
  "of_char quote = (34 :: nat)" "of_char backslash = (92 :: nat)" "quote \<noteq> backslash" "backslash \<noteq> quote"
  by (simp_all add: quote_def backslash_def)

lemma char_of_32: "of_char c < (32 :: nat) \<Longrightarrow> utf8_encode (of_char c) = [c]"
  by (simp add: utf8_encode_def)

lemma hex4_byte:
  assumes "of_char c < (128 :: nat)"
  shows "hex4 (CHR ''0'') (CHR ''0'') (hex_digit (of_char c div 16)) (hex_digit (of_char c mod 16)) = Some (of_char c)"
proof -
  have "of_char c div 16 < (16 :: nat)" using assms by simp
  moreover have "hex_value (CHR ''0'') = Some 0" by (simp add: hex_value_def is_digit_def byte_in_def)
  ultimately show ?thesis by (simp add: hex4_def hex_value_digit)
qed

lemma append_one: "(@) [c] = (#) c"
  by (rule ext) simp

lemma char_of_eqI: "of_char c = (n :: nat) \<Longrightarrow> char_of n = c"
  by auto

lemma separator_bytes:
  "char_of (226 :: nat) = CHR 0xE2" "char_of (128 :: nat) = CHR 0x80"
  "char_of (168 :: nat) = CHR 0xA8" "char_of (169 :: nat) = CHR 0xA9"
  by (rule char_of_eqI, simp)+

lemma line_separators:
  "utf8_encode 8232 = [CHR 0xE2, CHR 0x80, CHR 0xA8]" "utf8_encode 8233 = [CHR 0xE2, CHR 0x80, CHR 0xA9]"
  by (simp_all add: utf8_encode_def separator_bytes)

lemma read_escape_ascii:
  assumes "is_ascii c"
  shows "read_string (escape_ascii c @ r) = map_option (apfst ((#) c)) (read_string r)"
proof -
  have c: "of_char c < (128 :: nat)" using assms by (simp add: is_ascii_def byte_in_def)
  consider (special) "c \<in> {quote, backslash, CHR 0x08, CHR 0x0C, CHR 0x0A, CHR 0x0D, CHR 0x09}"
    | (unicode) "c \<notin> {quote, backslash, CHR 0x08, CHR 0x0C, CHR 0x0A, CHR 0x0D, CHR 0x09}"
        "of_char c < (32 :: nat) \<or> c = CHR ''<'' \<or> c = CHR ''>'' \<or> c = CHR ''&''"
    | (plain) "c \<notin> {quote, backslash, CHR 0x08, CHR 0x0C, CHR 0x0A, CHR 0x0D, CHR 0x09}"
        "\<not> (of_char c < (32 :: nat) \<or> c = CHR ''<'' \<or> c = CHR ''>'' \<or> c = CHR ''&'')"
    by blast
  then show ?thesis
  proof cases
    case special
    then show ?thesis by (elim insertE emptyE) (simp_all add: escape_ascii_def unescape_def quote_def backslash_def)
  next
    case unicode
    have e: "escape_ascii c = [backslash, CHR ''u'', CHR ''0'', CHR ''0'',
        hex_digit (of_char c div 16), hex_digit (of_char c mod 16)]"
      using unicode by (auto simp: escape_ascii_def)
    have "utf8_encode (of_char c) = [c]" using c by (simp add: utf8_encode_def)
    then show ?thesis using c unfolding e by (simp add: hex4_byte quote_def backslash_def append_one)
  next
    case plain
    then have "escape_ascii c = [c]" by (simp add: escape_ascii_def)
    with plain assms show ?thesis by simp
  qed
qed

lemma read_escape_rune:
  assumes w: "utf8_width s = Suc n" and c: "\<not> is_ascii (hd s)"
  shows "read_string (escape_rune (take (Suc n) s) @ r)
    = map_option (apfst ((@) (take (Suc n) s))) (read_string r)"
proof -
  have len: "Suc n \<le> length s" using utf8_width_le[of s] w by simp
  then obtain a t where t: "take (Suc n) s = a # t" and a: "a = hd s" by (cases s) auto
  consider "take (Suc n) s = [CHR 0xE2, CHR 0x80, CHR 0xA8]"
    | "take (Suc n) s = [CHR 0xE2, CHR 0x80, CHR 0xA9]"
    | (other) "take (Suc n) s \<noteq> [CHR 0xE2, CHR 0x80, CHR 0xA8]"
        "take (Suc n) s \<noteq> [CHR 0xE2, CHR 0x80, CHR 0xA9]"
    by blast
  then show ?thesis
  proof cases
    case other
    then have 3: "escape_rune (take (Suc n) s) = take (Suc n) s" by (simp add: escape_rune_def)
    have wt: "utf8_width (take (Suc n) s @ r) = Suc n" by (rule utf8_width_take[OF w])
    have na: "\<not> is_ascii a" using c a by simp
    then have hi: "128 \<le> (of_char a :: nat)" by (simp add: is_ascii_def byte_in_def)
    then have "a \<noteq> quote" "a \<noteq> backslash" by (auto simp: quote_def backslash_def)
    moreover have "length (a # t) = Suc n" using t len by (metis length_take min.absorb2)
    ultimately show ?thesis using wt na hi unfolding 3 unfolding t by simp
  qed (simp_all add: escape_rune_def hex4_def hex_value_def is_digit_def byte_in_def line_separators
        quote_def backslash_def)
qed

lemma read_json_escape: "valid_utf8 s \<Longrightarrow> read_string (json_escape s @ quote # r) = Some (s, r)"
proof (induction s rule: json_escape.induct)
  case 1
  then show ?case by simp
next
  case (2 c cs)
  show ?case
  proof (cases "is_ascii c")
    case True
    with "2.IH"(1) "2.prems" show ?thesis by (simp add: read_escape_ascii)
  next
    case False
    with "2.prems" have "utf8_width (c # cs) \<noteq> 0" by (cases "utf8_width (c # cs)") simp_all
    then obtain n where n: "utf8_width (c # cs) = Suc n" using not0_implies_Suc by blast
    with False "2.prems" have v: "valid_utf8 (drop (Suc n) (c # cs))" by simp
    have "read_string (json_escape (drop (Suc n) (c # cs)) @ quote # r) = Some (drop (Suc n) (c # cs), r)"
      by (rule "2.IH"(3)[OF False n v])
    then show ?thesis using False n read_escape_rune[OF n] by simp
  qed
qed

lemma read_json_string: "valid_utf8 s \<Longrightarrow> read_string (json_escape s @ [quote] @ r) = Some (s, r)"
  using read_json_escape by simp

section \<open>A value reads back\<close>

definition int_literal :: "string \<Rightarrow> bool" where
  "int_literal n \<longleftrightarrow> (\<exists>i. n = dec_int i)"

fun json_ok :: "json \<Rightarrow> bool" and elements_ok :: "json list \<Rightarrow> bool"
  and members_ok :: "(string \<times> json) list \<Rightarrow> bool" where
  "json_ok JNull = True"
| "json_ok (JBool _) = True"
| "json_ok (JNum n) = int_literal n"
| "json_ok (JStr s) = valid_utf8 s"
| "json_ok (JArr vs) = elements_ok vs"
| "json_ok (JObj fs) = members_ok fs"
| "elements_ok [] = True"
| "elements_ok (v # vs) = (json_ok v \<and> elements_ok vs)"
| "members_ok [] = True"
| "members_ok ((f, v) # fs) = (valid_utf8 f \<and> json_ok v \<and> members_ok fs)"

definition delimited :: "string \<Rightarrow> bool" where
  "delimited r \<longleftrightarrow> r = [] \<or> hd r \<in> {CHR '','', CHR '']'', CHR ''}'', CHR 0x0A}"

lemma skip_blanks: "dropWhile json_space (replicate m (CHR '' '') @ r) = dropWhile json_space r"
  by (induction m) (simp_all add: json_space_def)

lemma skip_break [simp]: "skip_space (json_break i k @ r) = skip_space r"
  by (simp add: json_break_def skip_space_def newline_def json_space_def skip_blanks)

lemma skip_not_space: "c # r = s \<Longrightarrow> \<not> json_space c \<Longrightarrow> skip_space s = s"
  by (auto simp: skip_space_def)

lemma delimited_simps [simp]:
  "delimited []" "delimited (CHR '','' # r)" "delimited (CHR '']'' # r)" "delimited (CHR ''}'' # r)"
  by (simp_all add: delimited_def)

lemma delimited_break: "delimited r \<Longrightarrow> delimited (json_break i k @ r)"
  by (simp add: json_break_def delimited_def newline_def)

lemma delimited_digits:
  assumes "delimited r" "list_all is_digit s" "s \<noteq> []"
  shows "takeWhile is_digit (s @ r) = s" "dropWhile is_digit (s @ r) = r"
proof -
  have "r = [] \<or> \<not> is_digit (hd r)" using assms(1) by (auto simp: delimited_def is_digit_def byte_in_def)
  with assms(2) show "takeWhile is_digit (s @ r) = s" "dropWhile is_digit (s @ r) = r"
    by (cases r; simp add: list_all_iff takeWhile_append dropWhile_append)+
qed

lemma dec_zero: "dec n = CHR ''0'' # t \<Longrightarrow> n = 0 \<and> t = []"
proof (induction n arbitrary: t rule: dec.induct)
  case (1 n)
  show ?case
  proof (cases "n < 10")
    case True
    with "1.prems" have "digit_char n = CHR ''0''" "t = []" by (auto simp: dec.simps[of n])
    moreover from this have "n mod 10 = 0" using digit_value_char[of n] by (simp add: digit_value_def)
    ultimately show ?thesis using True by simp
  next
    case False
    then have d: "dec n = dec (n div 10) @ [digit_char n]" by (simp add: dec.simps[of n])
    with "1.prems" obtain u where "dec (n div 10) = CHR ''0'' # u" by (cases "dec (n div 10)") auto
    with "1.IH"[OF False] False show ?thesis by (auto simp: div_eq_0_iff)
  qed
qed

lemma read_unsigned_dec:
  assumes "delimited r"
  shows "read_unsigned (dec n @ r) = Some (dec n, r)"
proof -
  have rest: "read_fraction_part r = Some ([], r)" "read_exponent_part r = Some ([], r)"
    using assms by (cases r; auto simp: delimited_def read_fraction_part_def read_exponent_part_def)+
  obtain c t where ct: "dec n = c # t" by (cases "dec n") auto
  have digs: "list_all is_digit (dec n)" by (rule dec_digits)
  have "read_integer_part (dec n @ r) = Some (dec n, r)"
  proof (cases "c = CHR ''0''")
    case True
    then have "dec n = ''0''" using dec_zero[of n t] ct by simp
    then show ?thesis by (simp add: read_integer_part_def)
  next
    case False
    then have "read_integer_part (dec n @ r) = read_digits (dec n @ r)"
      unfolding ct read_integer_part_def by (auto split: char.splits bool.splits list.splits)
    also have "\<dots> = Some (dec n, r)"
      using delimited_digits[OF assms digs dec_ne] digs ct by (simp add: read_digits_def)
    finally show ?thesis .
  qed
  then show ?thesis by (simp add: read_unsigned_def rest)
qed

lemma read_number_dec_int:
  assumes "delimited r"
  shows "read_number (dec_int i @ r) = Some (dec_int i, r)"
proof (cases "i < 0")
  case True
  then show ?thesis by (simp add: dec_int_def read_number_def read_unsigned_dec[OF assms])
next
  case False
  obtain c t where ct: "dec (nat i) = c # t" and d: "is_digit c"
    using dec_digits[of "nat i"] by (cases "dec (nat i)") auto
  then have "c \<noteq> CHR ''-''" by (auto simp: is_digit_def byte_in_def)
  then have "read_number (dec (nat i) @ r) = read_unsigned (dec (nat i) @ r)"
    unfolding ct read_number_def by (auto split: char.splits bool.splits list.splits)
  with False show ?thesis by (simp add: dec_int_def read_unsigned_dec[OF assms])
qed

definition opens :: "string \<Rightarrow> bool" where
  "opens s \<longleftrightarrow> s \<noteq> [] \<and> \<not> json_space (hd s) \<and> hd s \<noteq> CHR '']'' \<and> hd s \<noteq> CHR ''}''"

lemma opens_skip: "opens s \<Longrightarrow> skip_space (s @ r) = s @ r"
  by (cases s) (simp_all add: opens_def skip_space_def)

lemma opens_dec_int: "opens (dec_int i)"
proof -
  have d: "opens (dec n)" for n
    using dec_digits[of n] by (cases "dec n") (auto simp: opens_def json_space_def is_digit_def byte_in_def)
  show ?thesis by (simp add: dec_int_def d) (simp add: opens_def json_space_def)
qed

lemma opens_render: "json_ok v \<Longrightarrow> opens (json_render i k v)"
proof (cases v)
  case (JNum n)
  moreover assume "json_ok v"
  ultimately show ?thesis using opens_dec_int by (auto simp: int_literal_def)
qed (simp_all add: opens_def json_space_def json_string_def quote_def)

fun json_fuel :: "json \<Rightarrow> nat" and elements_fuel :: "json list \<Rightarrow> nat"
  and members_fuel :: "(string \<times> json) list \<Rightarrow> nat" where
  "json_fuel (JArr vs) = Suc (elements_fuel vs)"
| "json_fuel (JObj fs) = Suc (members_fuel fs)"
| "json_fuel _ = 1"
| "elements_fuel [] = 0"
| "elements_fuel (v # vs) = Suc (max (json_fuel v) (elements_fuel vs))"
| "members_fuel [] = 0"
| "members_fuel ((f, v) # fs) = Suc (max (json_fuel v) (members_fuel fs))"

lemma not_space_bytes [simp]: "\<not> json_space quote" "quote \<noteq> CHR '']''" "quote \<noteq> CHR ''}''" "quote \<noteq> CHR ''{''" "quote \<noteq> CHR ''[''"
  by (simp_all add: quote_def json_space_def)

lemma skip_space_Cons: "\<not> json_space c \<Longrightarrow> skip_space (c # r) = c # r"
  by (simp add: skip_space_def)

lemma json_spaces [simp]:
  "\<not> json_space (CHR '','')" "\<not> json_space (CHR '':'')" "\<not> json_space (CHR ''['')" "\<not> json_space (CHR '']'')"
  "\<not> json_space (CHR ''{'')" "\<not> json_space (CHR ''}'')" "json_space (CHR '' '')"
  by (simp_all add: json_space_def)

lemma fuel_render:
  "json_fuel v \<le> 2 * length (json_render i k v) + 1"
  "elements_fuel vs \<le> 2 * length (json_elements i k vs) + 2"
  "members_fuel fs \<le> 2 * length (json_members i k fs) + 2"
proof (induction i k v and i k vs and i k fs rule: json_render_json_elements_json_members.induct)
qed (auto simp: json_string_def)

lemma read_value_JNum:
  "int_literal m \<Longrightarrow> delimited r \<Longrightarrow> read_value (Suc n) (m @ r) = Some (JNum m, r)"
proof -
  assume "int_literal m" and r: "delimited r"
  then obtain j where m: "m = dec_int j" by (auto simp: int_literal_def)
  have "list_all (\<lambda>c. is_digit c \<or> c = CHR ''-'') m"
    using dec_digits[of "nat j"] dec_digits[of "nat (- j)"] by (auto simp: m dec_int_def list_all_iff)
  moreover have o: "opens m" unfolding m by (rule opens_dec_int)
  ultimately obtain c t where ct: "m = c # t" "is_digit c \<or> c = CHR ''-''" by (cases m) (auto simp: opens_def)
  then have ne: "c \<noteq> quote" "c \<noteq> CHR ''{''" "c \<noteq> CHR ''[''" "c \<noteq> CHR ''n''" "c \<noteq> CHR ''t''" "c \<noteq> CHR ''f''"
    by (auto simp: is_digit_def byte_in_def quote_def)
  have "skip_space (m @ r) = c # (t @ r)" using opens_skip[OF o, of r] ct by simp
  moreover have "read_number (c # (t @ r)) = Some (m, r)"
    using read_number_dec_int[OF r, of j] ct m by simp
  ultimately show ?thesis using ne by (simp add: has_prefix_def)
qed

lemma opens_append: "opens s \<Longrightarrow> opens (s @ t)"
  by (simp add: opens_def)

lemma elements_open: "elements_ok vs \<Longrightarrow> vs \<noteq> [] \<Longrightarrow> opens (json_elements i k vs)"
  by (cases vs) (simp_all add: opens_append opens_render)

lemma members_open: "fs \<noteq> [] \<Longrightarrow> opens (json_members i k fs)"
  by (cases fs) (auto simp: opens_def json_string_def)

lemma opens_not_close:
  assumes "opens s"
  shows "has_prefix (s @ r) '']'' = False" "has_prefix (s @ r) ''}'' = False"
proof -
  obtain c t where "s = c # t" using assms by (cases s) (auto simp: opens_def)
  with assms show "has_prefix (s @ r) '']'' = False" "has_prefix (s @ r) ''}'' = False"
    by (auto simp: opens_def has_prefix_def)
qed

lemma read_break_elements:
  "read_elements n (json_break i k @ s) = read_elements n s"
  "read_members n (json_break i k @ s) = read_members n s"
  "read_value n (json_break i k @ s) = read_value n s"
proof -
  show v: "read_value n (json_break i k @ s) = read_value n s" for n by (cases n) simp_all
  show "read_elements n (json_break i k @ s) = read_elements n s" by (cases n) (simp_all add: v)
  show "read_members n (json_break i k @ s) = read_members n s" by (cases n) simp_all
qed

lemma read_value_blank: "read_value n (CHR '' '' # s) = read_value n s"
  by (cases n) (simp_all add: skip_space_def)

lemma read_render:
  "json_ok v \<Longrightarrow> delimited r \<Longrightarrow> json_fuel v \<le> n \<Longrightarrow> read_value n (json_render i k v @ r) = Some (v, r)"
  "elements_ok vs \<Longrightarrow> vs \<noteq> [] \<Longrightarrow> elements_fuel vs \<le> n
    \<Longrightarrow> read_elements n (json_elements i k vs @ json_break i j @ CHR '']'' # r) = Some (vs, r)"
  "members_ok fs \<Longrightarrow> fs \<noteq> [] \<Longrightarrow> members_fuel fs \<le> n
    \<Longrightarrow> read_members n (json_members i k fs @ json_break i j @ CHR ''}'' # r) = Some (fs, r)"
proof (induction i k v and i k vs and i k fs arbitrary: n r and n r j and n r j
    rule: json_render_json_elements_json_members.induct)
  case (1 i k)
  then show ?case by (cases n) (simp_all add: skip_space_def json_space_def quote_def has_prefix_def)
next
  case (2 i k b)
  then show ?case by (cases n; cases b) (simp_all add: skip_space_def json_space_def quote_def has_prefix_def)
next
  case (3 i k m)
  then show ?case using read_value_JNum[of m r] by (cases n) (simp_all del: read_value.simps(2))
next
  case (4 i k s)
  then show ?case by (cases n) (simp_all add: json_string_def skip_space_Cons read_json_escape)
next
  case (5 i k vs)
  then show ?case
    by (cases n) (auto simp: skip_space_Cons quote_def has_prefix_def[of "_ # _"] read_break_elements
        opens_skip[OF elements_open] opens_not_close[OF elements_open])
next
  case (6 i k fs)
  then show ?case
    by (cases n) (auto simp: skip_space_Cons quote_def has_prefix_def[of "_ # _"] read_break_elements
        opens_skip[OF members_open] opens_not_close[OF members_open])
next
  case (7 i k)
  then show ?case by simp
next
  case (8 i k v vs)
  then obtain m where m: "n = Suc m" "json_fuel v \<le> m" "elements_fuel vs \<le> m" by (cases n) auto
  show ?case
  proof (cases "vs = []")
    case True
    have "read_value m (json_render i k v @ json_break i j @ CHR '']'' # r) = Some (v, json_break i j @ CHR '']'' # r)"
      by (rule "8.IH"(1)) (use "8.prems" m in \<open>simp_all add: delimited_break\<close>)
    then show ?thesis using True m by (simp add: skip_space_Cons)
  next
    case False
    let ?t = "json_break i k @ json_elements i k vs @ json_break i j @ CHR '']'' # r"
    have "read_value m (json_render i k v @ CHR '','' # ?t) = Some (v, CHR '','' # ?t)"
      by (rule "8.IH"(1)) (use "8.prems" m in simp_all)
    moreover have "read_elements m ?t = Some (vs, r)"
      unfolding read_break_elements by (rule "8.IH"(2)) (use "8.prems" m False in simp_all)
    ultimately show ?thesis using False m by (simp add: skip_space_Cons)
  qed
next
  case (9 i k)
  then show ?case by simp
next
  case (10 i k f v fs)
  then obtain m where m: "n = Suc m" "json_fuel v \<le> m" "members_fuel fs \<le> m" by (cases n) auto
  have c: "skip_space (json_colon i @ s) = json_colon i @ s"
    "read_value m (tl (json_colon i) @ s) = read_value m s" "hd (json_colon i) = CHR '':''"
    "json_colon i @ s = CHR '':'' # tl (json_colon i) @ s" for s
    by (cases i; simp add: json_colon_def skip_space_Cons read_value_blank)+
  have f: "read_string (json_escape f @ quote # s) = Some (f, s)" for s
    by (rule read_json_escape) (use "10.prems" in simp)
  show ?case
  proof (cases "fs = []")
    case True
    have "read_value m (json_render i k v @ json_break i j @ CHR ''}'' # r) = Some (v, json_break i j @ CHR ''}'' # r)"
      by (rule "10.IH"(1)) (use "10.prems" m in \<open>simp_all add: delimited_break\<close>)
    then show ?thesis using True m
      by (simp add: json_string_def skip_space_Cons f c(1,2)) (simp add: c skip_space_Cons)
  next
    case False
    let ?t = "json_break i k @ json_members i k fs @ json_break i j @ CHR ''}'' # r"
    have "read_value m (json_render i k v @ CHR '','' # ?t) = Some (v, CHR '','' # ?t)"
      by (rule "10.IH"(1)) (use "10.prems" m in simp_all)
    moreover have "read_members m ?t = Some (fs, r)"
      unfolding read_break_elements by (rule "10.IH"(2)) (use "10.prems" m False in simp_all)
    ultimately show ?thesis using False m
      by (simp add: json_string_def skip_space_Cons f c(1,2)) (simp add: c skip_space_Cons)
  qed
qed

lemma parse_render: "json_ok v \<Longrightarrow> parse_json (json_render i k v @ r) = Some v"
  if "skip_space r = []" "delimited r"
proof -
  assume v: "json_ok v"
  have "json_fuel v \<le> 2 * length (json_render i k v) + 1" by (rule fuel_render)
  then have "read_value (2 * length (json_render i k v @ r) + 1) (json_render i k v @ r) = Some (v, r)"
    by (intro read_render v that) simp
  then show ?thesis using that by (simp add: parse_json_def)
qed

lemma parse_marshal_indent [simp]: "json_ok v \<Longrightarrow> parse_json (marshal_indent v) = Some v"
  using parse_render[of "[]" v True 0] by (simp add: marshal_indent_def skip_space_def)

lemma parse_marshal [simp]: "json_ok v \<Longrightarrow> parse_json (marshal v) = Some v"
  using parse_render[of "[]" v False 0] by (simp add: marshal_def skip_space_def)

lemma valid_utf8_Cons [simp]: "is_ascii c \<Longrightarrow> valid_utf8 (c # cs) = valid_utf8 cs"
  by simp

declare valid_utf8.simps(2) [simp del] json_escape.simps(2) [simp del] read_string.simps(2) [simp del]
  read_value.simps(2) [simp del] read_elements.simps(2) [simp del] read_members.simps(2) [simp del]

section \<open>Quoting\<close>

text \<open>
  \<open>strconv.Quote\<close>, what \<open>%q\<close> writes: control characters and bytes that are not UTF-8 escaped, the
  other characters taken as printable.
\<close>

definition quote_byte :: "char \<Rightarrow> string" where
  "quote_byte c =
     (if c = quote \<or> c = backslash then [backslash, c]
      else if c = CHR 0x07 then [backslash, CHR ''a''] else if c = CHR 0x08 then [backslash, CHR ''b'']
      else if c = CHR 0x0C then [backslash, CHR ''f''] else if c = newline then [backslash, CHR ''n'']
      else if c = CHR 0x0D then [backslash, CHR ''r''] else if c = CHR 0x09 then [backslash, CHR ''t'']
      else if c = CHR 0x0B then [backslash, CHR ''v'']
      else if byte_in 0x20 0x7E c then [c]
      else [backslash, CHR ''x'', hex_digit (of_char c div 16), hex_digit (of_char c mod 16)])"

function quote_runes :: "string \<Rightarrow> string" where
  "quote_runes [] = []"
| "quote_runes (c # cs) =
     (if is_ascii c then quote_byte c @ quote_runes cs
      else case utf8_width (c # cs) of
        0 \<Rightarrow> quote_byte c @ quote_runes cs
      | Suc n \<Rightarrow> take (Suc n) (c # cs) @ quote_runes (drop (Suc n) (c # cs)))"
  by pat_completeness auto
termination
  by (relation "measure length") auto

definition go_quote :: "string \<Rightarrow> string" where
  "go_quote s = quote # quote_runes s @ [quote]"

end
