(* ===== verification/Lock.thy ===== *)
theory Lock
  imports Go_OS Go_JSON Archive_Path
begin

text \<open>
  \<open>internal/domain/backup/lock.go\<close>: the lock of a database is a file under the state directory,
  created exclusively and naming the process that holds it. First the code as one process runs it,
  over the file system of \<open>Go_OS\<close>; then two processes interleaved call by call.
\<close>

section \<open>The lock file\<close>

record holder =
  h_database :: string
  h_job :: string
  h_pid :: int
  h_acquired_at :: string

definition holder_json :: "holder \<Rightarrow> json" where
  "holder_json h =
     JObj [(''database'', JStr (h_database h)), (''job'', JStr (h_job h)),
           (''pid'', JNum (dec_int (h_pid h))), (''acquired_at'', JStr (h_acquired_at h))]"

text \<open>\<open>json.Unmarshal(contents, &held)\<close>: \<open>None\<close> when it reports an error.\<close>

definition read_holder :: "string \<Rightarrow> holder option" where
  "read_holder contents =
     (case parse_json contents of
        Some JNull \<Rightarrow> Some \<lparr>h_database = [], h_job = [], h_pid = 0, h_acquired_at = []\<rparr>
      | Some (JObj fs) \<Rightarrow>
          (case (string_field ''database'' fs, string_field ''job'' fs, int_field ''pid'' fs,
                 string_field ''acquired_at'' fs) of
             (Some database, Some job, Some pid, Some at) \<Rightarrow>
               Some \<lparr>h_database = database, h_job = job, h_pid = pid, h_acquired_at = at\<rparr>
           | _ \<Rightarrow> None)
      | _ \<Rightarrow> None)"

definition lock_directory :: string where "lock_directory = ''locks''"

definition lock_place :: "place \<Rightarrow> string \<Rightarrow> place" where
  "lock_place state_directory database =
     place_join (place_join state_directory lock_directory) (safe_segment database @ ''.lock'')"

definition lock_contents :: "string \<Rightarrow> string \<Rightarrow> int \<Rightarrow> instant \<Rightarrow> string" where
  "lock_contents database job pid at =
     marshal_indent (holder_json \<lparr>h_database = database, h_job = job, h_pid = pid,
       h_acquired_at = format_rfc3339 utc at\<rparr>) @ [newline]"

section \<open>Taking and giving back\<close>

definition remove_stale :: "place \<Rightarrow> string \<Rightarrow> os \<Rightarrow> gerr option \<times> os" where
  "remove_stale path database s =
     (case os_remove path s of
        (Some e, s1) \<Rightarrow>
          (if \<not> errors_is e ErrNotExist then Some (errorf (''clear the abandoned lock of '' @ database) e)
           else None, s1)
      | (None, s1) \<Rightarrow> (None, s1))"

definition held_error :: "holder \<Rightarrow> gerr" where
  "held_error h =
     Gerr [ErrLocked] (''a job is already running on this database: '' @ h_database h @
       '' is being backed up by the job '' @ h_job h @ '', started at '' @ h_acquired_at h @
       '' (pid '' @ dec_int (h_pid h) @ '')'')"

definition clear_if_abandoned :: "place \<Rightarrow> string \<Rightarrow> os \<Rightarrow> gerr option \<times> os" where
  "clear_if_abandoned path database s =
     (case os_read_file path s of
        (Inl e, s1) \<Rightarrow>
          (if errors_is e ErrNotExist then None
           else Some (errorf (''read the lock of '' @ database) e), s1)
      | (Inr contents, s1) \<Rightarrow>
          (case read_holder contents of
             None \<Rightarrow> remove_stale path database s1
           | Some held \<Rightarrow>
               if \<not> running s1 (h_pid held) then remove_stale path database s1
               else (Some (held_error held), s1)))"

definition locked_error :: "string \<Rightarrow> gerr" where
  "locked_error database = Gerr [ErrLocked] (''a job is already running on this database: '' @ database)"

text \<open>The loop of \<open>Acquire\<close>; the first argument counts the attempts left.\<close>

fun take_lock :: "nat \<Rightarrow> place \<Rightarrow> string \<Rightarrow> string \<Rightarrow> os \<Rightarrow> place result \<times> os" where
  "take_lock 0 path database written s = (Inl (locked_error database), s)"
| "take_lock (Suc left) path database written s =
     (case os_create_excl path s of
        (Inr _, s1) \<Rightarrow>
          (case os_write path written s1 of
             (write_err, s2) \<Rightarrow>
               (case os_touch s2 of
                  (close_err, s3) \<Rightarrow>
                    (case errors_join [write_err, close_err] of
                       Some e \<Rightarrow>
                         (case os_remove path s3 of
                            (_, s4) \<Rightarrow> (Inl (errorf (''write the lock of '' @ database) e), s4))
                     | None \<Rightarrow> (Inr path, s3))))
      | (Inl e, s1) \<Rightarrow>
          if \<not> errors_is e ErrExist then (Inl (errorf (''take the lock of '' @ database) e), s1)
          else if left = 0 then (Inl (locked_error database), s1)
          else (case clear_if_abandoned path database s1 of
                  (Some e, s2) \<Rightarrow> (Inl e, s2)
                | (None, s2) \<Rightarrow> take_lock left path database written s2))"

definition acquire :: "place \<Rightarrow> string \<Rightarrow> string \<Rightarrow> instant \<Rightarrow> os \<Rightarrow> place result \<times> os" where
  "acquire state_directory database job at s =
     (case os_mkdir_all (place_join state_directory lock_directory) s of
        (Inl e, s1) \<Rightarrow>
          (Inl (errorf (''make the lock directory '' @
              place_string (place_join state_directory lock_directory)) e), s1)
      | (Inr _, s1) \<Rightarrow>
          take_lock 2 (lock_place state_directory database) database
            (lock_contents database job (os_pid s1) at) s1)"

text \<open>A released lock has no path.\<close>

definition release :: "place option \<Rightarrow> os \<Rightarrow> gerr option \<times> place option \<times> os" where
  "release lock s =
     (case lock of
        None \<Rightarrow> (None, None, s)
      | Some path \<Rightarrow>
          (case os_remove path s of
             (Some e, s1) \<Rightarrow>
               if \<not> errors_is e ErrNotExist
               then (Some (errorf (''release the lock '' @ place_string path) e), Some path, s1)
               else (None, None, s1)
           | (None, s1) \<Rightarrow> (None, None, s1)))"

section \<open>What a lock file says\<close>

lemma digits_ascii: "list_all is_digit s \<Longrightarrow> list_all is_ascii s"
  by (auto simp: list_all_iff is_digit_def is_ascii_def byte_in_def)

lemma pad_int_ascii [simp]: "list_all is_ascii (pad_int w i)"
  by (simp add: pad_int_def digits_ascii pad_digits)

lemma stamp_marks [simp]:
  "is_ascii (CHR ''-'')" "is_ascii (CHR ''+'')" "is_ascii (CHR '':'')" "is_ascii (CHR ''T'')" "is_ascii (CHR ''Z'')"
  by (simp_all add: is_ascii_def byte_in_def)

lemma format_offset_ascii [simp]: "list_all is_ascii (format_offset off)"
proof -
  have "list_all is_ascii (x @ pad_int 2 a @ '':'' @ pad_int 2 b)" if "list_all is_ascii x" for x a b
    using that by simp
  then show ?thesis unfolding format_offset_def Let_def by (auto split: if_split)
qed

lemma rfc3339_ascii: "list_all is_ascii (format_rfc3339 zone at)"
  unfolding format_rfc3339_def Let_def by simp

lemma lock_contents_read:
  assumes "valid_utf8 database" "valid_utf8 job" "0 \<le> pid" "pid < 2 ^ 63"
  shows "read_holder (lock_contents database job pid at) =
    Some \<lparr>h_database = database, h_job = job, h_pid = pid, h_acquired_at = format_rfc3339 utc at\<rparr>"
proof -
  let ?h = "\<lparr>h_database = database, h_job = job, h_pid = pid, h_acquired_at = format_rfc3339 utc at\<rparr>"
  have "json_ok (holder_json ?h)" using assms ascii_valid_utf8[OF rfc3339_ascii]
    by (simp add: holder_json_def int_literal_def) (simp add: is_ascii_def byte_in_def, blast)
  then have "parse_json (lock_contents database job pid at) = Some (holder_json ?h)"
    unfolding lock_contents_def marshal_indent_def
    by (intro parse_render) (simp_all add: skip_space_def newline_def json_space_def delimited_def)
  moreover have "atoi (dec_int pid) = Some pid" by (rule atoi_dec_int[OF assms(3,4)])
  ultimately show ?thesis
    by (simp add: read_holder_def holder_json_def decoding
        to_lower_def to_lower_byte_def is_upper_def byte_in_def)
qed

section \<open>Who holds a lock\<close>

definition held_by :: "os \<Rightarrow> place \<Rightarrow> holder option" where
  "held_by s path =
     (case node_at s path of
        Some (File contents _) \<Rightarrow>
          (case read_holder contents of
             Some h \<Rightarrow> if running s (h_pid h) then Some h else None
           | None \<Rightarrow> None)
      | _ \<Rightarrow> None)"

lemma simple_lock_names: "simple_name lock_directory" "simple_name (safe_segment d @ ''.lock'')"
  using segment_no_slash[of d] by (auto simp: simple_name_def lock_directory_def)

lemma lock_place_eq: "lock_place sd d = (fst sd, snd sd @ [lock_directory, safe_segment d @ ''.lock''])"
  by (simp add: lock_place_def place_join_simple simple_lock_names)

lemma lock_dir_parent: "node_at s (place_join sd lock_directory) = Some Dir \<Longrightarrow> parent_ok s (lock_place sd d)"
  by (simp add: parent_ok_def lock_place_eq place_dir_def place_join_simple simple_lock_names butlast_append)

lemma held_by_cong: "node_at t p = node_at s p \<Longrightarrow> same_machine s t \<Longrightarrow> held_by t p = held_by s p"
proof -
  assume n: "node_at t p = node_at s p" and m: "same_machine s t"
  show ?thesis unfolding held_by_def n running_same[OF m] ..
qed

lemma held_by_mkdir:
  assumes "os_mkdir_all p s = (r, t)"
  shows "held_by t path = held_by s path"
proof -
  consider "node_at t path = node_at s path" | "node_at s path = None" "node_at t path = Some Dir"
    using mkdir_frame(2)[OF assms, of path] by auto
  then show ?thesis
  proof cases
    case 1
    then show ?thesis by (rule held_by_cong) (rule mkdir_frame(1)[OF assms])
  next
    case 2
    then show ?thesis by (simp add: held_by_def)
  qed
qed

lemma held_clear:
  assumes h: "held_by s path = Some h" and c: "clear_if_abandoned path database s = (r, t)"
  shows "node_at t q = node_at s q \<and> same_machine s t"
proof -
  from h obtain x m where n: "node_at s path = Some (File x m)" and rh: "read_holder x = Some h"
    and ru: "running s (h_pid h)"
    by (auto simp: held_by_def split: option.splits node.splits if_splits)
  obtain rr s1 where rd: "os_read_file path s = (rr, s1)" by fastforce
  have f: "same_machine s s1" "node_at s1 q = node_at s q" for q by (rule read_frame(1,2)[OF rd])+
  show ?thesis
  proof (cases rr)
    case (Inl e)
    with c rd f show ?thesis by (auto simp: clear_if_abandoned_def)
  next
    case (Inr y)
    then have "y = x" using read_frame(3)[of path s y s1] rd n by auto
    with c rd f Inr rh ru running_same[OF f(1)] show ?thesis by (auto simp: clear_if_abandoned_def)
  qed
qed

lemma held_take:
  assumes "held_by s path = Some h"
  shows "(\<exists>e. fst (take_lock n path database written s) = Inl e)
    \<and> node_at (snd (take_lock n path database written s)) q = node_at s q
    \<and> same_machine s (snd (take_lock n path database written s))"
  using assms
proof (induction n arbitrary: s)
  case 0
  then show ?case by simp
next
  case (Suc n)
  obtain r s1 where cr: "os_create_excl path s = (r, s1)" by fastforce
  from Suc.prems have "node_at s path \<noteq> None" by (auto simp: held_by_def split: option.splits)
  with create_frame(4)[of path s _ s1] cr obtain e where r: "r = Inl e" by (cases r) auto
  have f: "same_machine s s1" "node_at s1 x = node_at s x" for x
    using create_frame(1)[OF cr] create_frame(3)[of path s e s1] cr r by auto
  have h1: "held_by s1 path = Some h" using held_by_cong[OF f(2) f(1)] Suc.prems by simp
  obtain c s2 where cl: "clear_if_abandoned path database s1 = (c, s2)" by fastforce
  have g: "same_machine s1 s2" "node_at s2 x = node_at s1 x" for x using held_clear[OF h1 cl] by auto
  have h2: "held_by s2 path = Some h" using held_by_cong[OF g(2) g(1)] h1 by simp
  have "same_machine s s2" by (rule same_machine_trans[OF f(1) g(1)])
  then show ?case using cr r cl f g Suc.IH[OF h2] by (auto split: option.splits intro: same_machine_trans)
qed

lemma acquire_held:
  assumes h: "held_by s (lock_place sd database) = Some h" and a: "acquire sd database job at s = (r, t)"
  shows "(\<exists>e. r = Inl e) \<and> (\<forall>q c m. node_at t q = Some (File c m) \<longleftrightarrow> node_at s q = Some (File c m))"
proof -
  obtain mr s1 where mk: "os_mkdir_all (place_join sd lock_directory) s = (mr, s1)" by fastforce
  have h1: "held_by s1 (lock_place sd database) = Some h" using held_by_mkdir[OF mk] h by simp
  show ?thesis
  proof (cases mr)
    case (Inl e)
    with a mk mkdir_file[OF mk] show ?thesis by (auto simp: acquire_def)
  next
    case (Inr u)
    with a mk have "take_lock 2 (lock_place sd database) database (lock_contents database job (os_pid s1) at) s1 = (r, t)"
      by (simp add: acquire_def)
    with held_take[OF h1, of 2 database "lock_contents database job (os_pid s1) at"] mkdir_file[OF mk]
    show ?thesis by auto
  qed
qed

lemma place_dir_ne: "snd p \<noteq> [] \<Longrightarrow> place_dir p \<noteq> p"
  by (cases p; cases "snd p" rule: rev_cases) (auto simp: place_dir_def)

lemma parent_ok_drop: "snd p \<noteq> [] \<Longrightarrow> parent_ok s p \<Longrightarrow> parent_ok (drop_node p s) p"
  using place_dir_ne[of p] by (auto simp: parent_ok_def)

lemma lock_place_ne [simp]: "snd (lock_place sd d) \<noteq> []"
  by (simp add: lock_place_eq)

lemma quiet_clear:
  assumes "quiet s" "node_at s path = Some (File c m)" "held_by s path = None"
  shows "clear_if_abandoned path database s = (None, drop_node path s)"
proof -
  have "remove_stale path database s = (None, drop_node path s)"
    using assms(1,2) by (simp add: remove_stale_def os_remove_def)
  with assms show ?thesis
    by (auto simp: clear_if_abandoned_def os_read_file_def held_by_def split: option.splits if_splits)
qed

lemma quiet_take_free:
  assumes "quiet s" "node_at s path = None" "parent_ok s path"
  shows "take_lock (Suc n) path database written s
    = (Inr path, set_node path (File written (os_now s)) (set_node path (File [] (os_now s)) s))"
  using assms by (simp add: os_create_excl_def os_write_def os_touch_def append_node_def)

lemma quiet_take:
  assumes q: "quiet s" and h: "held_by s path = None" and d: "node_at s path \<noteq> Some Dir"
    and p: "parent_ok s path" "snd path \<noteq> []"
  shows "\<exists>t. take_lock (Suc (Suc n)) path database written s = (Inr path, t)
    \<and> node_at t path = Some (File written (os_now s))
    \<and> (\<forall>x. x \<noteq> path \<longrightarrow> node_at t x = node_at s x) \<and> same_machine s t"
proof (cases "node_at s path")
  case None
  then show ?thesis unfolding quiet_take_free[OF q None p(1)] by simp
next
  case (Some nd)
  with d obtain c m where nd: "node_at s path = Some (File c m)" by (cases nd) auto
  let ?s = "drop_node path s"
  have "os_create_excl path s = (Inl (path_error [ErrExist] ''open'' path ''file exists''), s)"
    using q nd by (simp add: os_create_excl_def)
  then have "take_lock (Suc (Suc n)) path database written s = take_lock (Suc n) path database written ?s"
    by (simp add: path_error_def quiet_clear[OF q nd h] del: take_lock.simps(2))
       (simp add: path_error_def quiet_clear[OF q nd h])
  also have "\<dots> = (Inr path, set_node path (File written (os_now s)) (set_node path (File [] (os_now s)) ?s))"
    using quiet_take_free[of ?s path] q parent_ok_drop[OF p(2,1)] by simp
  finally show ?thesis by simp
qed

lemma acquire_free:
  assumes q: "quiet s" and f: "dirs_free s (place_join sd lock_directory)"
    and d: "node_at s (lock_place sd database) \<noteq> Some Dir" and h: "held_by s (lock_place sd database) = None"
  shows "\<exists>t. acquire sd database job at s = (Inr (lock_place sd database), t)
    \<and> node_at t (lock_place sd database) = Some (File (lock_contents database job (os_pid s) at) (os_now s))
    \<and> (\<forall>x c m. x \<noteq> lock_place sd database \<longrightarrow> (node_at t x = Some (File c m) \<longleftrightarrow> node_at s x = Some (File c m)))
    \<and> same_machine s t
    \<and> (\<forall>x. x \<noteq> lock_place sd database \<longrightarrow> \<not> prefix (snd x) (snd sd @ [lock_directory]) \<longrightarrow> node_at t x = node_at s x)"
proof -
  let ?l = "lock_place sd database"
  obtain s1 where mk: "os_mkdir_all (place_join sd lock_directory) s = (Inr (), s1)"
    by (rule quiet_mkdir[OF q f])
  have sm: "same_machine s s1" by (rule mkdir_frame(1)[OF mk])
  have "snd (place_join sd lock_directory) \<noteq> []" by (simp add: place_join_simple simple_lock_names)
  then have "parent_ok s1 ?l" using lock_dir_parent mkdir_frame(3)[OF mk] by blast
  moreover have n: "node_at s1 ?l = node_at s ?l"
    by (rule mkdir_below[OF mk]) (simp add: lock_place_eq place_join_simple simple_lock_names)
  moreover have "held_by s1 ?l = None" using held_by_mkdir[OF mk] h by simp
  moreover have "quiet s1" by (rule quiet_same[OF sm q])
  ultimately obtain t where t: "take_lock 2 ?l database (lock_contents database job (os_pid s1) at) s1 = (Inr ?l, t)"
      "node_at t ?l = Some (File (lock_contents database job (os_pid s1) at) (os_now s1))"
      "\<forall>x. x \<noteq> ?l \<longrightarrow> node_at t x = node_at s1 x" "same_machine s1 t"
    using quiet_take[of s1 ?l 0 database "lock_contents database job (os_pid s1) at"] d
    by (auto simp: numeral_2_eq_2 simp del: take_lock.simps)
  moreover have "os_pid s1 = os_pid s" "os_now s1 = os_now s" using sm by (simp_all add: same_machine_def)
  moreover have "same_machine s t" by (rule same_machine_trans[OF sm t(4)])
  moreover have "node_at s1 x = node_at s x" if "\<not> prefix (snd x) (snd sd @ [lock_directory])" for x
    by (rule mkdir_only[OF mk]) (use that in \<open>simp add: place_join_simple simple_lock_names\<close>)
  ultimately show ?thesis using mk mkdir_file[OF mk] by (simp add: acquire_def)
qed

lemma take_lock_Inr:
  "take_lock n path database written s = (Inr p, t)
    \<Longrightarrow> p = path \<and> (\<exists>m. node_at t path = Some (File written m)) \<and> same_machine s t"
proof (induction n arbitrary: s)
  case 0
  then show ?case by simp
next
  case (Suc n)
  obtain r s1 where cr: "os_create_excl path s = (r, s1)" by fastforce
  have m1: "same_machine s s1" by (rule create_frame(1)[OF cr])
  show ?case
  proof (cases r)
    case (Inr u)
    obtain we s2 where w: "os_write path written s1 = (we, s2)" by fastforce
    obtain ce s3 where c: "os_touch s2 = (ce, s3)" by fastforce
    from Suc.prems cr Inr w c have e: "we = None" "p = path" "t = s3"
      by (auto split: option.splits prod.splits elim: errors_join.elims)
    have "node_at s1 path = Some (File [] (os_now s))" using create_frame(4)[of path s u s1] cr Inr by simp
    with w e(1) have "\<exists>m. node_at s2 path = Some (File written m)"
      by (auto simp: os_write_def append_node_def os_call_frame(3) split: prod.splits option.splits)
    then show ?thesis using e touch_frame[OF c] write_frame(1)[OF w] m1 by (auto intro: same_machine_trans)
  next
    case (Inl e)
    with Suc.prems cr obtain s2 where cl: "clear_if_abandoned path database s1 = (None, s2)"
      and tk: "take_lock n path database written s2 = (Inr p, t)"
      by (auto split: if_splits prod.splits option.splits)
    have "same_machine s1 s2" using cl
      by (auto simp: clear_if_abandoned_def remove_stale_def split: prod.splits sum.splits option.splits if_splits
          dest!: read_frame(1) remove_frame(1) intro: same_machine_trans)
    then show ?thesis using Suc.IH[OF tk] m1 by (auto intro: same_machine_trans)
  qed
qed

lemma acquire_Inr:
  assumes "acquire sd database job at s = (Inr p, t)"
  shows "p = lock_place sd database
    \<and> (\<exists>m. node_at t p = Some (File (lock_contents database job (os_pid s) at) m)) \<and> same_machine s t"
proof -
  from assms obtain u s1 where mk: "os_mkdir_all (place_join sd lock_directory) s = (Inr u, s1)"
    and tk: "take_lock 2 (lock_place sd database) database (lock_contents database job (os_pid s1) at) s1 = (Inr p, t)"
    by (auto simp: acquire_def split: prod.splits sum.splits)
  have "same_machine s s1" by (rule mkdir_frame(1)[OF mk])
  with take_lock_Inr[OF tk] show ?thesis by (auto intro: same_machine_trans simp: same_machine_def)
qed

lemma acquire_held_by:
  assumes a: "acquire sd database job at s = (Inr p, t)"
    and v: "valid_utf8 database" "valid_utf8 job" "0 < os_pid s" "os_pid s < 2 ^ 63" "running s (os_pid s)"
  shows "\<exists>h. held_by t p = Some h \<and> h_job h = job \<and> h_pid h = os_pid s"
proof -
  from acquire_Inr[OF a] obtain m where
    n: "node_at t p = Some (File (lock_contents database job (os_pid s) at) m)" and s: "same_machine s t" by blast
  show ?thesis using n v running_same[OF s] lock_contents_read[OF v(1,2) _ v(4), of at]
    by (simp add: held_by_def)
qed

lemma quiet_acquire_held:
  assumes q: "quiet s" and f: "dirs_free s (place_join sd lock_directory)"
    and h: "held_by s (lock_place sd database) = Some h"
  shows "fst (acquire sd database job at s) = Inl (held_error h)"
proof -
  let ?l = "lock_place sd database"
  obtain s1 where mk: "os_mkdir_all (place_join sd lock_directory) s = (Inr (), s1)"
    by (rule quiet_mkdir[OF q f])
  have q1: "quiet s1" by (rule quiet_same[OF mkdir_frame(1)[OF mk] q])
  have "held_by s1 ?l = Some h" using held_by_mkdir[OF mk] h by simp
  then obtain c m where n: "node_at s1 ?l = Some (File c m)" "read_holder c = Some h" "running s1 (h_pid h)"
    by (auto simp: held_by_def split: option.splits node.splits if_splits)
  have "os_create_excl ?l s1 = (Inl (path_error [ErrExist] ''open'' ?l ''file exists''), s1)"
    using q1 n by (simp add: os_create_excl_def)
  moreover have "clear_if_abandoned ?l database s1 = (Some (held_error h), s1)"
    using q1 n by (simp add: clear_if_abandoned_def os_read_file_def)
  ultimately show ?thesis using mk by (simp add: acquire_def numeral_2_eq_2 path_error_def)
qed

lemma dirs_free_acquired:
  assumes f: "dirs_free s (place_join sd lock_directory)"
    and n: "\<forall>x c m. x \<noteq> lock_place sd database \<longrightarrow> (node_at t x = Some (File c m) \<longleftrightarrow> node_at s x = Some (File c m))"
  shows "dirs_free t (place_join sd lock_directory)"
proof -
  have "(fst sd, take (Suc k) (snd sd @ [lock_directory])) \<noteq> lock_place sd database" for k
    by (auto simp: lock_place_eq dest!: arg_cong[where f = length])
  with f n show ?thesis by (auto simp: dirs_free_def place_join_simple simple_lock_names)
qed

section \<open>What the lock promises\<close>

text \<open>
  C13. A database is locked exactly once (E-051). When a job has taken the lock, every later attempt
  on the same database is refused while that process lives and its file is in place, whatever the
  identifiers of the jobs and whichever system calls fail; the attempt leaves every file as it was.
\<close>

theorem second_job_refused:
  assumes "acquire sd database job at s = (Inr path, t)"
    and "valid_utf8 database" "valid_utf8 job" "0 < os_pid s" "os_pid s < 2 ^ 63" "running s (os_pid s)"
    and "node_at u path = node_at t path" "running u (os_pid s)"
  shows "\<exists>e v. acquire sd database job2 at2 u = (Inl e, v)
    \<and> (\<forall>q c m. node_at v q = Some (File c m) \<longleftrightarrow> node_at u q = Some (File c m))
    \<and> (quiet u \<and> dirs_free u (place_join sd lock_directory) \<longrightarrow> errors_is e ErrLocked)"
proof -
  from acquire_held_by[OF assms(1-6)] obtain h where "held_by t path = Some h" "h_pid h = os_pid s" by auto
  with assms(7,8) have "held_by u path = Some h"
    by (auto simp: held_by_def split: option.splits node.splits if_splits)
  moreover have "path = lock_place sd database" using acquire_Inr[OF assms(1)] by simp
  moreover obtain r v where av: "acquire sd database job2 at2 u = (r, v)" by fastforce
  ultimately have h: "held_by u (lock_place sd database) = Some h" by simp
  have "errors_is (held_error h) ErrLocked" by (simp add: held_error_def)
  with acquire_held[OF h av] quiet_acquire_held[OF _ _ h, of job2 at2] av show ?thesis by auto
qed

lemma ascii_literals [simp]: "is_ascii (CHR ''a'')" "is_ascii (CHR ''b'')" "is_ascii (CHR ''j'')"
  by (simp_all add: is_ascii_def byte_in_def)

theorem second_job_refused_witness:
  "\<exists>path t e v. acquire (True, [''koffr'']) ''ab'' ''j'' 0 (one_process 7 []) = (Inr path, t)
    \<and> acquire (True, [''koffr'']) ''ab'' ''jj'' 5 t = (Inl e, v) \<and> errors_is e ErrLocked"
proof -
  let ?s = "one_process 7 []" and ?sd = "(True, [''koffr''])"
  obtain t where t: "acquire ?sd ''ab'' ''j'' 0 ?s = (Inr (lock_place ?sd ''ab''), t)" and same: "same_machine ?s t"
    and n: "\<forall>x c m. x \<noteq> lock_place ?sd ''ab'' \<longrightarrow> (node_at t x = Some (File c m) \<longleftrightarrow> node_at ?s x = Some (File c m))"
    using acquire_free[of ?s ?sd "''ab''" "''j''" 0] by (auto simp: dirs_free_def held_by_def)
  have "dirs_free t (place_join ?sd lock_directory)"
    by (rule dirs_free_acquired[OF _ n]) (simp add: dirs_free_def)
  moreover have "quiet t" "running t 7" using quiet_same[OF same] running_same[OF same, of 7] by simp_all
  ultimately show ?thesis using second_job_refused[OF t, of t "''jj''" 5] t by auto
qed

text \<open>
  C29. A lock decides by the process it names, and by nothing else (E-051). When no system call fails,
  a lock file that names a living process refuses the job with the error that says who holds it; a
  lock left by a process that is gone, and a lock file that cannot be read, are taken over, and the
  file then names this process, this job and this moment.
\<close>

theorem acquire_decides:
  assumes "quiet s" "dirs_free s (place_join sd lock_directory)" "node_at s (lock_place sd database) \<noteq> Some Dir"
    and "valid_utf8 database" "valid_utf8 job" "0 < os_pid s" "os_pid s < 2 ^ 63"
  shows "(case held_by s (lock_place sd database) of
      Some h \<Rightarrow> fst (acquire sd database job at s) = Inl (held_error h)
    | None \<Rightarrow> \<exists>t c m. acquire sd database job at s = (Inr (lock_place sd database), t)
        \<and> node_at t (lock_place sd database) = Some (File c m)
        \<and> read_holder c = Some \<lparr>h_database = database, h_job = job, h_pid = os_pid s,
            h_acquired_at = format_rfc3339 utc at\<rparr>)"
proof (cases "held_by s (lock_place sd database)")
  case None
  from acquire_free[OF assms(1-3) None, of job at] lock_contents_read[OF assms(4,5) _ assms(7), of at] assms(6)
  show ?thesis using None by auto
next
  case (Some h)
  with quiet_acquire_held[OF assms(1,2) Some] show ?thesis by simp
qed

theorem acquire_decides_witness:
  "\<exists>t. acquire (True, [''koffr'']) ''ab'' ''j'' 0
      (one_process 7 [(lock_place (True, [''koffr'']) ''ab'', File ''{'' 0)])
    = (Inr (lock_place (True, [''koffr'']) ''ab''), t)"
proof -
  let ?sd = "(True, [''koffr''])"
  let ?l = "lock_place ?sd ''ab''"
  let ?s = "one_process 7 [(?l, File ''{'' 0)]"
  have "read_holder ''{'' = None"
    by (simp add: read_holder_def parse_json_def numeral_3_eq_3 read_value.simps(2) read_members.simps(2)
        skip_space_def json_space_def quote_def has_prefix_def)
  then have "held_by ?s ?l = None" by (simp add: held_by_def)
  moreover have "dirs_free ?s (place_join ?sd lock_directory)"
    by (auto simp: dirs_free_def lock_place_eq place_join_simple simple_lock_names dest!: arg_cong[where f = length])
  ultimately show ?thesis using acquire_decides[of ?s ?sd "''ab''" "''j''" 0] by auto
qed

end
