(* ===== verification/Backup_Service.thy ===== *)
theory Backup_Service
  imports Store Staging_Files Lock
begin

text \<open>
  The use case of \<open>internal/domain/backup/service.go\<close> and its journal, \<open>journal.go\<close>: the seven steps of
  a backup (E-024). The ports are values of the wiring: what they answer is a function of what they are
  asked. A dump is a reader with what closing it reports, which may depend on whether it was read to its
  end; a packer answers for a reader and a sink that accepts every byte or fails after some. The clock
  is the elapsed time of the wiring, \<open>wi_sha256\<close> the hexadecimal digest of \<open>crypto/sha256\<close>.
\<close>

section \<open>Data\<close>

datatype step =
    StepResolution | StepDump | StepCompression | StepEncryption | StepWrite | StepVerification | StepManifest

definition steps :: "step list" where
  "steps = [StepResolution, StepDump, StepCompression, StepEncryption, StepWrite, StepVerification, StepManifest]"

definition manifest_suffix :: string where "manifest_suffix = ''.json''"

record verdict =
  vd_checked :: bool
  vd_checksum_ok :: bool
  vd_structure_ok :: bool
  vd_detail :: string

definition verdict_sound :: "verdict \<Rightarrow> bool" where
  "verdict_sound v \<longleftrightarrow> vd_checked v \<and> vd_checksum_ok v \<and> vd_structure_ok v"

definition verdict_why :: "verdict \<Rightarrow> string" where
  "verdict_why v =
     (if \<not> vd_checked v then ''it could not be checked: '' @ vd_detail v
      else if \<not> vd_checksum_ok v \<and> \<not> vd_structure_ok v then
        ''its checksum does not match and its structure was refused: '' @ vd_detail v
      else if \<not> vd_checksum_ok v then ''its checksum does not match what was written''
      else ''its structure was refused: '' @ vd_detail v)"

definition no_verdict :: verdict where
  "no_verdict = \<lparr>vd_checked = False, vd_checksum_ok = False, vd_structure_ok = False, vd_detail = []\<rparr>"

record request =
  rq_database :: string
  rq_job :: string
  rq_at :: instant

record resolution =
  rs_engine :: string
  rs_server_version :: string
  rs_tool_path :: string
  rs_tool_version :: string
  rs_tool_source :: string
  rs_directory_dump :: bool
  rs_extension :: string
  rs_argv :: "string list"
  rs_warnings :: "string list"

definition no_resolution :: resolution where
  "no_resolution = \<lparr>rs_engine = [], rs_server_version = [], rs_tool_path = [], rs_tool_version = [],
     rs_tool_source = [], rs_directory_dump = False, rs_extension = [], rs_argv = [], rs_warnings = []\<rparr>"

record packed =
  pk_raw_bytes :: int
  pk_stored_bytes :: int
  pk_sha_raw :: string
  pk_sha_stored :: string
  pk_pipeline :: "string list"

record job_result =
  jr_job :: string
  jr_database :: string
  jr_at :: instant
  jr_duration :: int
  jr_staging :: mode
  jr_staging_reason :: string
  jr_staging_forced :: bool
  jr_path :: string
  jr_raw_bytes :: int
  jr_stored_bytes :: int
  jr_sha_raw :: string
  jr_sha_stored :: string
  jr_pipeline :: "string list"
  jr_destinations :: "string list"
  jr_manifest :: string
  jr_warnings :: "string list"
  jr_steps :: "(step \<times> bool) list"
  jr_verification :: verdict
  jr_resolution :: resolution

definition wrote :: "job_result \<Rightarrow> bool" where
  "wrote r \<longleftrightarrow> 0 < jr_stored_bytes r \<and> jr_sha_stored r \<noteq> [] \<and> jr_destinations r \<noteq> []"

definition fresh_steps :: "(step \<times> bool) list" where
  "fresh_steps = map (\<lambda>s. (s, False)) steps"

definition set_step :: "bool \<Rightarrow> step \<Rightarrow> job_result \<Rightarrow> job_result" where
  "set_step b s r = r\<lparr>jr_steps := map (\<lambda>(t, d). (t, if t = s then b else d)) (jr_steps r)\<rparr>"

definition mark :: "step list \<Rightarrow> job_result \<Rightarrow> job_result" where
  "mark ss r = fold (set_step True) ss r"

definition unmark :: "step \<Rightarrow> job_result \<Rightarrow> job_result" where
  "unmark s r = set_step False s r"

definition new_result :: "request \<Rightarrow> job_result" where
  "new_result q = \<lparr>jr_job = rq_job q, jr_database = rq_database q, jr_at = rq_at q, jr_duration = 0,
     jr_staging = UnsetMode, jr_staging_reason = [], jr_staging_forced = False, jr_path = [],
     jr_raw_bytes = 0, jr_stored_bytes = 0, jr_sha_raw = [], jr_sha_stored = [], jr_pipeline = [],
     jr_destinations = [], jr_manifest = [], jr_warnings = [], jr_steps = fresh_steps,
     jr_verification = no_verdict, jr_resolution = no_resolution\<rparr>"

section \<open>The journal\<close>

datatype fact_value = FString string | FInt int | FBool bool

type_synonym fact = "string \<times> fact_value"

record job_step =
  js_job :: string
  js_database :: string
  js_step :: step
  js_failed :: "gerr option"
  js_facts :: "fact list"

definition fact_limit :: nat where "fact_limit = 200"

definition conclusion :: "string \<Rightarrow> string \<Rightarrow> fact" where
  "conclusion name said =
     (let line = fst (cut newline said)
      in (name, FString (if fact_limit < length line
                         then take fact_limit line @ [CHR 0xE2, CHR 0x80, CHR 0xA6] else line)))"

section \<open>Ports and wiring\<close>

record dump_handle =
  dh_reader :: reader
  dh_close :: "bool \<Rightarrow> gerr option"

record watcher =
  wt_refuses :: "string \<Rightarrow> (nat \<times> gerr) option"
  wt_conclude :: "string \<Rightarrow> bool \<times> string"

type_synonym sink = "(nat \<times> gerr) option"

record pack_run =
  pr_written :: string
  pr_answer :: "packed result"
  pr_taken :: nat
  pr_drained :: bool

record 's destination =
  ds_id :: string
  ds_store :: "'s store"
  ds_state :: 's

record wiring =
  wi_state_directory :: place
  wi_staging :: mode
  wi_resolver :: "string \<Rightarrow> resolution result"
  wi_dumper :: "resolution \<Rightarrow> request \<Rightarrow> dump_handle result"
  wi_pack :: "reader \<Rightarrow> sink \<Rightarrow> pack_run"
  wi_pipeline :: "string list"
  wi_free_bytes :: "int64 result"
  wi_database_bytes :: "string \<Rightarrow> int64 result"
  wi_last_successful :: "string \<Rightarrow> int64 option result"
  wi_verifier :: "(resolution \<Rightarrow> watcher result) option"
  wi_manifester :: "(job_result \<Rightarrow> string result) option"
  wi_structural :: bool
  wi_sha256 :: "string \<Rightarrow> string"
  wi_elapsed :: int

record 's world =
  wo_os :: os
  wo_destinations :: "'s destination list"
  wo_journal :: "job_step list"

definition journal ::
  "request \<Rightarrow> step \<Rightarrow> gerr option \<Rightarrow> fact list \<Rightarrow> 's world \<Rightarrow> 's world" where
  "journal q s failed facts w =
     w\<lparr>wo_journal := wo_journal w @
        [\<lparr>js_job = rq_job q, js_database = rq_database q, js_step = s, js_failed = failed, js_facts = facts\<rparr>]\<rparr>"

definition on_os :: "os \<Rightarrow> 's world \<Rightarrow> 's world" where
  "on_os s w = w\<lparr>wo_os := s\<rparr>"

definition destination_ids :: "'s world \<Rightarrow> string list" where
  "destination_ids w = map ds_id (wo_destinations w)"

section \<open>Deciding\<close>

definition decide_for :: "wiring \<Rightarrow> nat \<Rightarrow> string \<Rightarrow> resolution \<Rightarrow> staging_decision result" where
  "decide_for wi destinations database resolution =
     (case wi_free_bytes wi of
        Inl e \<Rightarrow> Inl (errorf ''measure the free space'' e)
      | Inr free \<Rightarrow>
          (case wi_last_successful wi database of
             Inl e \<Rightarrow> Inl (errorf (''read the last backup of '' @ database) e)
           | Inr last_backup \<Rightarrow>
               (case wi_database_bytes wi database of
                  Inl e \<Rightarrow> Inl (errorf (''measure the size of '' @ database) e)
                | Inr database_bytes \<Rightarrow>
                    decide_staging
                      \<lparr>in_configured = wi_staging wi, in_directory_dump = rs_directory_dump resolution,
                       in_destinations = destinations, in_verify_without_egress = wi_structural wi,
                       in_free_bytes = free, in_expected_bytes = estimate_stored last_backup database_bytes\<rparr>)))"

definition path_for :: "wiring \<Rightarrow> request \<Rightarrow> resolution \<Rightarrow> string" where
  "path_for wi q resolution =
     archive_path (rq_database q) (rq_at q) (rq_job q) (archive_extension (rs_extension resolution) (wi_pipeline wi))"

definition decided :: "staging_decision \<Rightarrow> string \<Rightarrow> job_result \<Rightarrow> job_result" where
  "decided d path r =
     r\<lparr>jr_staging := sd_mode d, jr_staging_reason := sd_reason d, jr_staging_forced := sd_forced d, jr_path := path\<rparr>"

definition plan :: "wiring \<Rightarrow> request \<Rightarrow> 's world \<Rightarrow> job_result \<times> gerr option" where
  "plan wi q w =
     (let r0 = new_result q
      in case wi_resolver wi (rq_database q) of
           Inl e \<Rightarrow> (r0, Some (errorf (''resolve a tool for '' @ rq_database q) e))
         | Inr resolution \<Rightarrow>
             (let r1 = mark [StepResolution] (r0\<lparr>jr_warnings := rs_warnings resolution\<rparr>)
              in case decide_for wi (length (wo_destinations w)) (rq_database q) resolution of
                   Inl e \<Rightarrow> (r1, Some e)
                 | Inr d \<Rightarrow>
                     ((decided d (path_for wi q resolution) r1)\<lparr>jr_destinations := destination_ids w\<rparr>, None)))"

section \<open>Dump, pack and write\<close>

text \<open>
  What the packer reads when a watcher sees the dump go by. A watcher that refuses a write ends the
  stream there with its error, as \<open>io.TeeReader\<close> does.
\<close>

definition watched :: "watcher option \<Rightarrow> reader \<Rightarrow> reader" where
  "watched watch r =
     (case watch of
        None \<Rightarrow> r
      | Some wt \<Rightarrow>
          (case wt_refuses wt (fst r) of
             None \<Rightarrow> r
           | Some (n, e) \<Rightarrow> (take n (fst r), Some e)))"

definition dump_died ::
  "request \<Rightarrow> gerr option \<Rightarrow> job_result \<Rightarrow> 's world \<Rightarrow> gerr option \<times> job_result \<times> 's world" where
  "dump_died q close_err r w =
     (case close_err of
        None \<Rightarrow> (None, r, w)
      | Some e \<Rightarrow>
          (Some (errorf (''dump '' @ rq_database q) e), unmark StepDump r, journal q StepDump (Some e) [] w))"

definition journal_packed :: "request \<Rightarrow> packed \<Rightarrow> 's world \<Rightarrow> 's world" where
  "journal_packed q p w =
     journal q StepEncryption None
       [(''sha256_raw'', FString (pk_sha_raw p)), (''sha256_stored'', FString (pk_sha_stored p))]
     (journal q StepCompression None
       [(''pipeline'', FString (join_with '','' (pk_pipeline p))), (''raw_bytes'', FInt (pk_raw_bytes p)),
        (''stored_bytes'', FInt (pk_stored_bytes p))] w)"

text \<open>The bytes of the staging file from its start; reading them may fail half way.\<close>

definition staged_reader :: "place \<Rightarrow> os \<Rightarrow> reader \<times> os" where
  "staged_reader temp s =
     (let c = (case node_at s temp of Some (File c _) \<Rightarrow> c | _ \<Rightarrow> [])
      in case os_call s of
           (Some (e, n), s1) \<Rightarrow> ((take n c, Some e), s1)
         | (None, s1) \<Rightarrow> ((c, None), s1))"

text \<open>
  The loop of \<open>stage\<close> over the destinations: the ones before the failure have been written. An error
  comes with the destination that failed, none when the staging file could not be rewound.
\<close>

fun send_staged ::
  "string \<Rightarrow> place \<Rightarrow> 's destination list \<Rightarrow> os \<Rightarrow> (string option \<times> gerr) option \<times> 's destination list \<times> os" where
  "send_staged path temp [] s = (None, [], s)"
| "send_staged path temp (d # ds) s =
     (case os_touch s of
        (Some e, s1) \<Rightarrow> (Some (None, errorf ''rewind the staging file'' e), d # ds, s1)
      | (None, s1) \<Rightarrow>
          (case staged_reader temp s1 of
             (from, s2) \<Rightarrow>
               (case so_write (ds_store d) path from (ds_state d) of
                  ((Inl e, _), t) \<Rightarrow> (Some (Some (ds_id d), e), d\<lparr>ds_state := t\<rparr> # ds, s2)
                | ((Inr _, _), t) \<Rightarrow>
                    (case send_staged path temp ds s2 of
                       (failed, ds', s3) \<Rightarrow> (failed, d\<lparr>ds_state := t\<rparr> # ds', s3)))))"

type_synonym 's written = "packed result \<times> job_result \<times> 's world \<times> string"

definition stage_filled ::
  "wiring \<Rightarrow> request \<Rightarrow> dump_handle \<Rightarrow> watcher option \<Rightarrow> string \<Rightarrow> place \<Rightarrow> job_result \<Rightarrow> 's world \<Rightarrow> 's written" where
  "stage_filled wi q dump watch path temp r w =
     (case os_call (wo_os w) of
        (fault, s1) \<Rightarrow>
          (let from = watched watch (dh_reader dump);
               run = wi_pack wi from (map_option (\<lambda>(e, n). (n, e)) fault);
               seen = take (pr_taken run) (fst from);
               w1 = on_os (append_node temp (pr_written run) s1) w
           in case dump_died q (dh_close dump (pr_drained run)) r w1 of
                (Some e, r1, w2) \<Rightarrow> (Inl e, r1, w2, seen)
              | (None, r1, w2) \<Rightarrow>
                  (case pr_answer run of
                     Inl e \<Rightarrow>
                       (Inl (errorf (''pack the dump of '' @ jr_database r) e), r1,
                        journal q StepCompression (Some e) [] w2, seen)
                   | Inr p \<Rightarrow>
                       (let r2 = mark [StepCompression, StepEncryption] r1;
                            w3 = journal_packed q p w2
                        in case send_staged path temp (wo_destinations w3) (wo_os w3) of
                             (failed, ds, s2) \<Rightarrow>
                               (let w4 = (on_os s2 w3)\<lparr>wo_destinations := ds\<rparr>
                                in case failed of
                                     Some (None, e) \<Rightarrow> (Inl e, r2, w4, seen)
                                   | Some (Some which, e) \<Rightarrow>
                                       (Inl (errorf (''write to the destination '' @ which) e), r2,
                                        journal q StepWrite (Some e) [(''destination'', FString which)] w4, seen)
                                   | None \<Rightarrow> (Inr p, mark [StepWrite] r2, w4, seen))))))"

text \<open>The deferred close and removal of the staging file, whose errors are dropped.\<close>

definition discard_staging :: "place \<Rightarrow> 's world \<Rightarrow> 's world" where
  "discard_staging temp w =
     (case os_touch (wo_os w) of (_, s1) \<Rightarrow> (case os_remove temp s1 of (_, s2) \<Rightarrow> on_os s2 w))"

definition stage ::
  "wiring \<Rightarrow> request \<Rightarrow> dump_handle \<Rightarrow> watcher option \<Rightarrow> string \<Rightarrow> job_result \<Rightarrow> 's world \<Rightarrow> 's written" where
  "stage wi q dump watch path r w =
     (case staging_file (wi_state_directory wi) (rq_job q) (wo_os w) of
        (Inl e, s1) \<Rightarrow> (Inl e, r, on_os s1 w, [])
      | (Inr temp, s1) \<Rightarrow>
          (case stage_filled wi q dump watch path temp r (on_os s1 w) of
             (answer, r1, w1, seen) \<Rightarrow> (answer, r1, discard_staging temp w1, seen)))"

text \<open>
  The packer and the destination are the two ends of a pipe. When the destination stops early, what the
  packer writes next fails with the error of the write, or with that of a closed pipe.
\<close>

definition closed_pipe :: gerr where
  "closed_pipe = errors_new ''io: read/write on closed pipe''"

definition err_of :: "'a result \<Rightarrow> gerr option" where
  "err_of a = (case a of Inl e \<Rightarrow> Some e | Inr _ \<Rightarrow> None)"

definition piped_run :: "wiring \<Rightarrow> reader \<Rightarrow> nat \<Rightarrow> gerr option \<Rightarrow> pack_run" where
  "piped_run wi from taken write_err =
     (if taken < length (pr_written (wi_pack wi from None))
      then wi_pack wi from (Some (taken, case write_err of Some e \<Rightarrow> e | None \<Rightarrow> closed_pipe))
      else wi_pack wi from None)"

definition stream_end ::
  "request \<Rightarrow> dump_handle \<Rightarrow> pack_run \<Rightarrow> gerr option \<Rightarrow> string \<Rightarrow> job_result \<Rightarrow> 's world \<Rightarrow> 's written" where
  "stream_end q dump packing write_err seen r w =
     (case dump_died q (dh_close dump (pr_drained packing)) r w of
        (Some e, r1, w1) \<Rightarrow> (Inl e, r1, w1, seen)
      | (None, r1, w1) \<Rightarrow>
          (case (errors_join [err_of (pr_answer packing), write_err], pr_answer packing) of
             (None, Inr p) \<Rightarrow>
               (Inr p, mark [StepCompression, StepEncryption, StepWrite] r1, journal_packed q p w1, seen)
           | (Some e, _) \<Rightarrow>
               (Inl (errorf (''stream the dump of '' @ jr_database r) e), r1,
                journal q StepCompression (Some e) [] w1, seen)
           | (None, Inl e) \<Rightarrow> (Inl e, r1, w1, seen)))"

definition stream ::
  "wiring \<Rightarrow> request \<Rightarrow> dump_handle \<Rightarrow> watcher option \<Rightarrow> string \<Rightarrow> job_result \<Rightarrow> 's world \<Rightarrow> 's written" where
  "stream wi q dump watch path r w =
     (case wo_destinations w of
        [d] \<Rightarrow>
          (let from = watched watch (dh_reader dump);
               full = wi_pack wi from None
           in case so_write (ds_store d) path (pr_written full, err_of (pr_answer full)) (ds_state d) of
                ((answer, taken), t) \<Rightarrow>
                  (let packing = piped_run wi from taken (err_of answer)
                   in stream_end q dump packing (err_of answer) (take (pr_taken packing) (fst from)) r
                        (w\<lparr>wo_destinations := [d\<lparr>ds_state := t\<rparr>]\<rparr>)))
      | ds \<Rightarrow>
          (Inl (errors_new (''streaming to '' @ dec (length ds) @ '' destinations: E-030 allows one'')), r, w, []))"

definition dump_and_write ::
  "wiring \<Rightarrow> request \<Rightarrow> resolution \<Rightarrow> watcher option \<Rightarrow> mode \<Rightarrow> string \<Rightarrow> job_result \<Rightarrow> 's world \<Rightarrow> 's written" where
  "dump_and_write wi q resolution watch m path r w =
     (case wi_dumper wi resolution q of
        Inl e \<Rightarrow> (Inl (errorf (''dump '' @ rq_database q) e), r, journal q StepDump (Some e) [] w, [])
      | Inr dump \<Rightarrow>
          (let r1 = mark [StepDump] r;
               w1 = journal q StepDump None
                 [(''staging'', FString (mode_name m)), (''staging_reason'', FString (jr_staging_reason r)),
                  (''tool'', FString (rs_tool_path resolution))] w
           in if m = Stage then stage wi q dump watch path r1 w1 else stream wi q dump watch path r1 w1))"

section \<open>Verify and describe\<close>

definition reread_checksum :: "wiring \<Rightarrow> 's destination \<Rightarrow> string \<Rightarrow> string result \<times> 's destination" where
  "reread_checksum wi d path =
     (case so_read (ds_store d) path (ds_state d) of
        (Inl e, t) \<Rightarrow> (Inl (errorf (''re-read the archive on '' @ ds_id d) e), d\<lparr>ds_state := t\<rparr>)
      | (Inr (bytes, Some e), t) \<Rightarrow> (Inl (errorf (''re-read the archive on '' @ ds_id d) e), d\<lparr>ds_state := t\<rparr>)
      | (Inr (bytes, None), t) \<Rightarrow> (Inr (wi_sha256 wi bytes), d\<lparr>ds_state := t\<rparr>))"

definition conclude_verification ::
  "request \<Rightarrow> string \<Rightarrow> job_result \<Rightarrow> 's world \<Rightarrow> gerr option \<times> job_result \<times> 's world" where
  "conclude_verification q detail r w =
     (let v = jr_verification r
      in if \<not> verdict_sound v then
           (let failure = Gerr [ErrNotVerified] (''the archive did not pass its verification: '' @ verdict_why v)
            in (Some failure, r,
                journal q StepVerification (Some failure)
                  [(''checksum_ok'', FBool (vd_checksum_ok v)), (''structure_ok'', FBool (vd_structure_ok v))] w))
         else
           (None, mark [StepVerification] r,
            journal q StepVerification None
              [(''checksum_ok'', FBool True), (''structure_ok'', FBool True), conclusion ''detail'' detail] w))"

definition verify_archive ::
  "wiring \<Rightarrow> request \<Rightarrow> (watcher \<times> string) option \<Rightarrow> job_result \<Rightarrow> 's world \<Rightarrow> gerr option \<times> job_result \<times> 's world" where
  "verify_archive wi q watch r w =
     (case watch of
        None \<Rightarrow>
          (let e = Gerr [ErrNotVerified] ''the archive did not pass its verification: nothing was wired to check it''
           in (Some e, r, journal q StepVerification (Some e) [] w))
      | Some (wt, seen) \<Rightarrow>
          (case wt_conclude wt seen of
             (sound, detail) \<Rightarrow>
               (let v = \<lparr>vd_checked = True, vd_checksum_ok = False, vd_structure_ok = sound, vd_detail = detail\<rparr>;
                    r1 = r\<lparr>jr_verification := v\<rparr>
                in case wo_destinations w of
                     [] \<Rightarrow> conclude_verification q detail r1 w
                   | d # ds \<Rightarrow>
                       (case reread_checksum wi d (jr_path r) of
                          (Inl e, d') \<Rightarrow>
                            (Some (errorf (''verify the archive of '' @ jr_database r) e),
                             r1\<lparr>jr_verification := v\<lparr>vd_checked := False, vd_detail := err_said e\<rparr>\<rparr>,
                             journal q StepVerification (Some e) [] (w\<lparr>wo_destinations := d' # ds\<rparr>))
                        | (Inr reread, d') \<Rightarrow>
                            conclude_verification q detail
                              (r1\<lparr>jr_verification := v\<lparr>vd_checksum_ok := (reread = jr_sha_stored r)\<rparr>\<rparr>)
                              (w\<lparr>wo_destinations := d' # ds\<rparr>)))))"

fun deposit ::
  "string \<Rightarrow> string \<Rightarrow> 's destination list \<Rightarrow> (string \<times> gerr) option \<times> 's destination list" where
  "deposit beside rendered [] = (None, [])"
| "deposit beside rendered (d # ds) =
     (case so_write (ds_store d) beside (rendered, None) (ds_state d) of
        ((Inl e, _), t) \<Rightarrow> (Some (ds_id d, e), d\<lparr>ds_state := t\<rparr> # ds)
      | ((Inr _, _), t) \<Rightarrow>
          (case deposit beside rendered ds of (failed, ds') \<Rightarrow> (failed, d\<lparr>ds_state := t\<rparr> # ds')))"

definition deposit_manifest ::
  "wiring \<Rightarrow> request \<Rightarrow> job_result \<Rightarrow> 's world \<Rightarrow> gerr option \<times> job_result \<times> 's world" where
  "deposit_manifest wi q r w =
     (case wi_manifester wi of
        None \<Rightarrow> (None, r, w)
      | Some render \<Rightarrow>
          (case render r of
             Inl e \<Rightarrow>
               (Some (errorf (''render the manifest of '' @ jr_database r) e), r, journal q StepManifest (Some e) [] w)
           | Inr rendered \<Rightarrow>
               (let beside = jr_path r @ manifest_suffix
                in case deposit beside rendered (wo_destinations w) of
                     (Some (which, e), ds) \<Rightarrow>
                       (Some (errorf (''deposit the manifest on '' @ which) e), r,
                        journal q StepManifest (Some e) [(''destination'', FString which)] (w\<lparr>wo_destinations := ds\<rparr>))
                   | (None, ds) \<Rightarrow>
                       (None, mark [StepManifest] (r\<lparr>jr_manifest := rendered\<rparr>),
                        journal q StepManifest None [(''path'', FString beside)] (w\<lparr>wo_destinations := ds\<rparr>)))))"

section \<open>Running a backup\<close>

definition finish_run ::
  "wiring \<Rightarrow> request \<Rightarrow> (watcher \<times> string) option \<Rightarrow> packed \<Rightarrow> job_result \<Rightarrow> 's world
    \<Rightarrow> job_result \<times> gerr option \<times> 's world" where
  "finish_run wi q watch p r w =
     (let r1 = r\<lparr>jr_raw_bytes := pk_raw_bytes p, jr_stored_bytes := pk_stored_bytes p, jr_sha_raw := pk_sha_raw p,
                jr_sha_stored := pk_sha_stored p, jr_pipeline := pk_pipeline p, jr_destinations := destination_ids w\<rparr>;
          w1 = journal q StepWrite None
            [(''path'', FString (jr_path r1)), (''destinations'', FString (join_with '','' (jr_destinations r1))),
             (''raw_bytes'', FInt (jr_raw_bytes r1)), (''stored_bytes'', FInt (jr_stored_bytes r1)),
             (''sha256_raw'', FString (jr_sha_raw r1)), (''sha256_stored'', FString (jr_sha_stored r1))] w
      in case verify_archive wi q watch r1 w1 of
           (Some e, r2, w2) \<Rightarrow> (r2, Some e, w2)
         | (None, r2, w2) \<Rightarrow>
             (case deposit_manifest wi q (r2\<lparr>jr_duration := wi_elapsed wi\<rparr>) w2 of
                (failed, r3, w3) \<Rightarrow> (r3, failed, w3)))"

definition run_resolved ::
  "wiring \<Rightarrow> request \<Rightarrow> resolution \<Rightarrow> watcher option \<Rightarrow> job_result \<Rightarrow> 's world
    \<Rightarrow> job_result \<times> gerr option \<times> 's world" where
  "run_resolved wi q resolution watch r w0 =
     (let w = journal q StepResolution None
            [(''engine'', FString (rs_engine resolution)), (''server_version'', FString (rs_server_version resolution)),
             (''tool'', FString (rs_tool_path resolution)), (''tool_version'', FString (rs_tool_version resolution)),
             (''tool_source'', FString (rs_tool_source resolution))] w0
      in case decide_for wi (length (wo_destinations w)) (rq_database q) resolution of
           Inl e \<Rightarrow> (r, Some e, journal q StepDump (Some e) [] w)
         | Inr d \<Rightarrow>
             (let r1 = decided d (path_for wi q resolution) r
              in case dump_and_write wi q resolution watch (sd_mode d) (jr_path r1) r1 w of
                   (Inl e, r2, w1, _) \<Rightarrow> (r2, Some e, w1)
                 | (Inr p, r2, w1, seen) \<Rightarrow> finish_run wi q (map_option (\<lambda>wt. (wt, seen)) watch) p r2 w1))"

definition run_locked :: "wiring \<Rightarrow> request \<Rightarrow> 's world \<Rightarrow> job_result \<times> gerr option \<times> 's world" where
  "run_locked wi q w0 =
     (let r0 = new_result q
      in case purge_staging (wi_state_directory wi) (wo_os w0) of
           (Some e, s1) \<Rightarrow> (r0, Some e, on_os s1 w0)
         | (None, s1) \<Rightarrow>
             (let w = on_os s1 w0
              in case wi_resolver wi (rq_database q) of
                   Inl e \<Rightarrow>
                     (r0, Some (errorf (''resolve a tool for '' @ rq_database q) e), journal q StepResolution (Some e) [] w)
                 | Inr resolution \<Rightarrow>
                     (let r1 = mark [StepResolution]
                            (r0\<lparr>jr_warnings := rs_warnings resolution, jr_resolution := resolution\<rparr>)
                      in case wi_verifier wi of
                           None \<Rightarrow> run_resolved wi q resolution None r1 w
                         | Some verifier \<Rightarrow>
                             (case verifier resolution of
                                Inl e \<Rightarrow> (r1, Some (errorf (''watch the structure of '' @ rq_database q) e), w)
                              | Inr wt \<Rightarrow> run_resolved wi q resolution (Some wt) r1 w))))"

definition run :: "wiring \<Rightarrow> request \<Rightarrow> 's world \<Rightarrow> job_result \<times> gerr option \<times> 's world" where
  "run wi q w =
     (case acquire (wi_state_directory wi) (rq_database q) (rq_job q) (rq_at q) (wo_os w) of
        (Inl e, s1) \<Rightarrow> (new_result q, Some e, on_os s1 w)
      | (Inr path, s1) \<Rightarrow>
          (case run_locked wi q (on_os s1 w) of
             (r, failed, w1) \<Rightarrow>
               (case release (Some path) (wo_os w1) of (_, _, s2) \<Rightarrow> (r, failed, on_os s2 w1))))"

end
