(* ===== verification/Backup_Steps.thy ===== *)
theory Backup_Steps
  imports Backup_Service
begin

text \<open>
  The order of a backup: which steps a result says were done, what the journal holds when a job ends,
  and that a plan says what the run then does.
\<close>

section \<open>Steps of a result\<close>

definition progress :: "nat \<Rightarrow> job_result \<Rightarrow> bool" where
  "progress n r \<longleftrightarrow> jr_steps r = map (\<lambda>(i, s). (s, i < n)) (enumerate 0 steps)"

lemma steps_enumerated:
  "enumerate 0 steps = [(0, StepResolution), (1, StepDump), (2, StepCompression), (3, StepEncryption),
     (4, StepWrite), (5, StepVerification), (6, StepManifest)]"
  by (simp add: steps_def)

lemma set_step_rest [simp]:
  "jr_path (set_step b s r) = jr_path r" "jr_verification (set_step b s r) = jr_verification r"
  "jr_database (set_step b s r) = jr_database r" "jr_sha_stored (set_step b s r) = jr_sha_stored r"
  "jr_staging (set_step b s r) = jr_staging r" "jr_staging_reason (set_step b s r) = jr_staging_reason r"
  "jr_staging_forced (set_step b s r) = jr_staging_forced r" "jr_warnings (set_step b s r) = jr_warnings r"
  "jr_destinations (set_step b s r) = jr_destinations r" "jr_stored_bytes (set_step b s r) = jr_stored_bytes r"
  "jr_manifest (set_step b s r) = jr_manifest r"
  by (simp_all add: set_step_def)

lemma mark_Cons [simp]: "mark (s # ss) r = mark ss (set_step True s r)" "mark [] r = r"
  by (simp_all add: mark_def)

lemma progress_cong: "jr_steps r = jr_steps s \<Longrightarrow> progress n r = progress n s"
  by (simp add: progress_def)

lemma progress_update [simp]:
  "progress n (r\<lparr>jr_verification := v\<rparr>) = progress n r" "progress n (r\<lparr>jr_duration := i\<rparr>) = progress n r"
  "progress n (r\<lparr>jr_manifest := s\<rparr>) = progress n r" "progress n (r\<lparr>jr_warnings := l\<rparr>) = progress n r"
  "progress n (r\<lparr>jr_resolution := x\<rparr>) = progress n r" "progress n (r\<lparr>jr_destinations := l\<rparr>) = progress n r"
  "progress n (decided d path r) = progress n r"
  by (simp_all add: progress_def decided_def)

lemma progress_new: "progress 0 (new_result q)"
  by (simp add: progress_def new_result_def fresh_steps_def steps_def)

lemma progress_set:
  "progress 0 r \<Longrightarrow> progress 1 (set_step True StepResolution r)"
  "progress 1 r \<Longrightarrow> progress 2 (set_step True StepDump r)"
  "progress 2 r \<Longrightarrow> progress 1 (set_step False StepDump r)"
  "progress 2 r \<Longrightarrow> progress 3 (set_step True StepCompression r)"
  "progress 3 r \<Longrightarrow> progress 4 (set_step True StepEncryption r)"
  "progress 4 r \<Longrightarrow> progress 5 (set_step True StepWrite r)"
  "progress 5 r \<Longrightarrow> progress 6 (set_step True StepVerification r)"
  "progress 6 r \<Longrightarrow> progress 7 (set_step True StepManifest r)"
  by (simp_all add: progress_def set_step_def steps_enumerated)

section \<open>The trace of a job\<close>

text \<open>What a piece of the job adds to the journal: steps without a failure, then perhaps one failed step.\<close>

definition entry_kind :: "job_step \<Rightarrow> step \<times> bool" where
  "entry_kind e = (js_step e, js_failed e = None)"

definition adds :: "'s world \<Rightarrow> 's world \<Rightarrow> (step \<times> bool) list \<Rightarrow> bool" where
  "adds w w' es \<longleftrightarrow> (\<exists>new. wo_journal w' = wo_journal w @ new \<and> map entry_kind new = es)"

lemma adds_refl: "adds w w []"
  by (simp add: adds_def)

lemma adds_nil [simp]: "wo_journal v = wo_journal w \<Longrightarrow> adds w v es \<longleftrightarrow> es = []"
  by (auto simp: adds_def)

lemma adds_trans: "adds u v es \<Longrightarrow> adds v w fs \<Longrightarrow> adds u w (es @ fs)"
  by (fastforce simp: adds_def)

lemma adds_journal1 [simp]:
  "wo_journal v = wo_journal w \<Longrightarrow> adds w (journal q s failed facts v) es \<longleftrightarrow> es = [(s, failed = None)]"
  by (auto simp: adds_def journal_def entry_kind_def)

lemma journal_world [simp]:
  "wo_os (journal q s f fs w) = wo_os w" "wo_destinations (journal q s f fs w) = wo_destinations w"
  "wo_os (on_os x w) = x" "wo_destinations (on_os x w) = wo_destinations w" "wo_journal (on_os x w) = wo_journal w"
  "wo_os (journal_packed q p w) = wo_os w" "wo_destinations (journal_packed q p w) = wo_destinations w"
  "wo_journal (discard_staging t w) = wo_journal w" "wo_destinations (discard_staging t w) = wo_destinations w"
  by (simp_all add: journal_def on_os_def journal_packed_def discard_staging_def split: prod.splits)

text \<open>What a step never changes of a result once it is decided.\<close>

definition same_head :: "job_result \<Rightarrow> job_result \<Rightarrow> bool" where
  "same_head r r' \<longleftrightarrow> jr_path r' = jr_path r \<and> jr_staging r' = jr_staging r
     \<and> jr_staging_reason r' = jr_staging_reason r \<and> jr_staging_forced r' = jr_staging_forced r
     \<and> jr_warnings r' = jr_warnings r \<and> jr_database r' = jr_database r \<and> jr_destinations r' = jr_destinations r"

lemma same_head_simps [simp]:
  "same_head r r" "same_head r (set_step b s r') = same_head r r'"
  "same_head r (r'\<lparr>jr_verification := v\<rparr>) = same_head r r'" "same_head r (r'\<lparr>jr_duration := i\<rparr>) = same_head r r'"
  "same_head r (r'\<lparr>jr_manifest := m\<rparr>) = same_head r r'"
  by (simp_all add: same_head_def)

lemma same_head_trans: "same_head a b \<Longrightarrow> same_head b c \<Longrightarrow> same_head a c"
  by (simp add: same_head_def)

definition packed_trace :: "(step \<times> bool) list" where
  "packed_trace = [(StepCompression, True), (StepEncryption, True)]"

lemma adds_packed: "adds w (journal_packed q p w) es \<longleftrightarrow> es = packed_trace"
  by (auto simp: adds_def journal_packed_def journal_def packed_trace_def entry_kind_def)

lemma adds_on_os [simp]: "adds u (on_os s w) es = adds u w es" "adds (on_os s w) u es = adds w u es"
  "adds u (w\<lparr>wo_destinations := ds\<rparr>) es = adds u w es" "adds (w\<lparr>wo_destinations := ds\<rparr>) u es = adds w u es"
  "adds u (discard_staging t w) es = adds u w es"
  by (simp_all add: adds_def)

lemma dump_died_cases:
  assumes "dump_died q c r w = (a, r', w')"
  obtains "c = None" "a = None" "r' = r" "w' = w"
  | e where "c = Some e" "a = Some (errorf (''dump '' @ rq_database q) e)" "r' = set_step False StepDump r"
      "w' = journal q StepDump (Some e) [] w"
  using assms by (cases c) (auto simp: dump_died_def unmark_def)

text \<open>How the middle of a backup ends: what it answers, the steps done, the trace it adds.\<close>

inductive middle :: "bool \<Rightarrow> nat \<Rightarrow> (step \<times> bool) list \<Rightarrow> bool" where
  written: "middle True 5 packed_trace"
| no_room: "middle False 2 []"
| died: "middle False 1 [(StepDump, False)]"
| unpacked: "middle False 2 [(StepCompression, False)]"
| unsent: "middle False 4 (packed_trace @ [(StepWrite, False)])"
| unrewound: "middle False 4 packed_trace"

inductive_cases middleE: "middle b n es"

lemma ends:
  "same_head r r' \<Longrightarrow> progress n r' \<Longrightarrow> adds w w' es \<Longrightarrow> ok answer = b \<Longrightarrow> middle b n es
    \<Longrightarrow> same_head r r' \<and> (\<exists>n es. progress n r' \<and> adds w w' es \<and> middle (ok answer) n es)"
  by blast

lemma stage_filled_ends:
  assumes "stage_filled wi q dump watch path temp r w = (answer, r', w', seen)" "progress 2 r"
  shows "same_head r r' \<and> (\<exists>n es. progress n r' \<and> adds w w' es \<and> middle (ok answer) n es)"
proof -
  obtain fault s1 where os: "os_call (wo_os w) = (fault, s1)" by fastforce
  let ?from = "watched watch (dh_reader dump)"
  let ?run = "wi_pack wi ?from (map_option (\<lambda>(e, n). (n, e)) fault)"
  let ?w1 = "on_os (append_node temp (pr_written ?run) s1) w"
  obtain dd r1 w2 where dd: "dump_died q (dh_close dump (pr_drained ?run)) r ?w1 = (dd, r1, w2)" by (metis prod_cases3)
  from dd show ?thesis
  proof (cases rule: dump_died_cases)
    case (2 e)
    have "progress 1 r1" unfolding 2 by (rule progress_set(3)[OF assms(2)])
    moreover from assms(1) os dd 2 have "\<not> ok answer" "r' = r1" "adds w w' [(StepDump, False)]"
      by (auto simp: stage_filled_def Let_def)
    moreover have "same_head r r1" unfolding 2 by simp
    ultimately show ?thesis by (intro ends[OF _ _ _ _ middle.died]) simp_all
  next
    case 1
    show ?thesis
    proof (cases "pr_answer ?run")
      case (Inl e)
      with assms os dd 1 have "\<not> ok answer" "r' = r" "adds w w' [(StepCompression, False)]"
        by (auto simp: stage_filled_def Let_def)
      then show ?thesis using assms(2) by (intro ends[OF _ _ _ _ middle.unpacked]) simp_all
    next
      case (Inr pk)
      let ?r2 = "mark [StepCompression, StepEncryption] r1"
      let ?w3 = "journal_packed q pk w2"
      have p4: "progress 4 ?r2" using progress_set(5)[OF progress_set(4)[OF assms(2)]] 1 by simp
      have p5: "progress 5 (mark [StepWrite] ?r2)" using progress_set(6)[OF p4] by simp
      have a: "adds w ?w3 packed_trace" using adds_packed[of w2 q pk] 1 by (simp add: adds_def)
      obtain f ds s2 where sd: "send_staged path temp (wo_destinations ?w3) (wo_os ?w3) = (f, ds, s2)" by (metis prod_cases3)
      have ch: "same_head r ?r2" using 1 by simp
      show ?thesis
      proof (cases f)
        case None
        with assms(1) os dd 1 Inr sd have "answer = Inr pk" "r' = mark [StepWrite] ?r2" "adds w w' packed_trace"
          using a by (auto simp: stage_filled_def Let_def)
        with p5 ch show ?thesis by (intro ends[OF _ _ _ _ middle.written]) simp_all
      next
        case (Some we)
        obtain which e where we: "we = (which, e)" by (cases we)
        show ?thesis
        proof (cases which)
          case None
          with assms(1) os dd 1 Inr sd Some we have "\<not> ok answer" "r' = ?r2" "adds w w' packed_trace"
            using a by (auto simp: stage_filled_def Let_def)
          with p4 ch show ?thesis by (intro ends[OF _ _ _ _ middle.unrewound]) simp_all
        next
          case (Some d)
          with assms(1) os dd 1 Inr sd \<open>f = Some we\<close> we have "\<not> ok answer" "r' = ?r2"
            "adds w w' (packed_trace @ [(StepWrite, False)])"
            using a by (auto simp: stage_filled_def Let_def intro: adds_trans)
          with p4 ch show ?thesis by (intro ends[OF _ _ _ _ middle.unsent]) simp_all
        qed
      qed
    qed
  qed
qed

lemma stage_ends:
  assumes "stage wi q dump watch path r w = (answer, r', w', seen)" "progress 2 r"
  shows "same_head r r' \<and> (\<exists>n es. progress n r' \<and> adds w w' es \<and> middle (ok answer) n es)"
proof -
  obtain a s1 where sf: "staging_file (wi_state_directory wi) (rq_job q) (wo_os w) = (a, s1)" by fastforce
  show ?thesis
  proof (cases a)
    case (Inl e)
    with assms(1) sf have "\<not> ok answer" "r' = r" "adds w w' []" by (auto simp: stage_def adds_refl)
    with assms(2) show ?thesis by (intro ends[OF _ _ _ _ middle.no_room]) simp_all
  next
    case (Inr temp)
    obtain a2 r2 w2 seen2 where fl: "stage_filled wi q dump watch path temp r (on_os s1 w) = (a2, r2, w2, seen2)"
      by (metis prod_cases4)
    with assms(1) sf Inr have "answer = a2" "r' = r2" "w' = discard_staging temp w2" by (auto simp: stage_def)
    with stage_filled_ends[OF fl assms(2)] show ?thesis by simp
  qed
qed

lemma stream_end_ends:
  assumes "stream_end q dump packing write_err seen r w = (answer, r', w', seen')" "progress 2 r"
  shows "same_head r r' \<and> (\<exists>n es. progress n r' \<and> adds w w' es \<and> middle (ok answer) n es)"
proof -
  obtain dd r1 w2 where dd: "dump_died q (dh_close dump (pr_drained packing)) r w = (dd, r1, w2)" by (metis prod_cases3)
  from dd show ?thesis
  proof (cases rule: dump_died_cases)
    case (2 e)
    have "progress 1 r1" unfolding 2 by (rule progress_set(3)[OF assms(2)])
    moreover from assms(1) dd 2 have "\<not> ok answer" "r' = r1" "adds w w' [(StepDump, False)]"
      by (auto simp: stream_end_def)
    moreover have "same_head r r1" unfolding 2 by simp
    ultimately show ?thesis by (intro ends[OF _ _ _ _ middle.died]) simp_all
  next
    case 1
    have p5: "progress 5 (mark [StepCompression, StepEncryption, StepWrite] r)"
      using progress_set(6)[OF progress_set(5)[OF progress_set(4)[OF assms(2)]]] by simp
    show ?thesis
    proof (cases "errors_join [err_of (pr_answer packing), write_err]")
      case (Some e)
      with assms(1) dd 1 have "\<not> ok answer" "r' = r" "adds w w' [(StepCompression, False)]"
        by (auto simp: stream_end_def simp del: errors_join.simps)
      then show ?thesis using assms(2) by (intro ends[OF _ _ _ _ middle.unpacked]) simp_all
    next
      case None
      then have "err_of (pr_answer packing) = None" by (simp only: errors_join_None_iff) simp
      then obtain pk where pk: "pr_answer packing = Inr pk" by (auto simp: err_of_def split: sum.splits)
      have "adds w (journal_packed q pk w) packed_trace" by (simp add: adds_packed)
      with assms(1) dd 1 None pk have "answer = Inr pk" "r' = mark [StepCompression, StepEncryption, StepWrite] r"
        "adds w w' packed_trace"
        by (auto simp: stream_end_def simp del: errors_join.simps mark_Cons)
      with p5 show ?thesis by (intro ends[OF _ _ _ _ middle.written]) simp_all
    qed
  qed
qed

lemma stream_ends:
  assumes "stream wi q dump watch path r w = (answer, r', w', seen)" "progress 2 r"
  shows "same_head r r' \<and> (\<exists>n es. progress n r' \<and> adds w w' es \<and> middle (ok answer) n es)"
proof (cases "\<exists>d. wo_destinations w = [d]")
  case False
  then have "stream wi q dump watch path r w
      = (Inl (errors_new (''streaming to '' @ dec (length (wo_destinations w)) @ '' destinations: E-030 allows one'')), r, w, [])"
    by (auto simp: stream_def split: list.splits)
  with assms(1) have "\<not> ok answer" "r' = r" "adds w w' []" by (auto simp: adds_refl)
  with assms(2) show ?thesis by (intro ends[OF _ _ _ _ middle.no_room]) simp_all
next
  case True
  then obtain d where d: "wo_destinations w = [d]" by blast
  let ?from = "watched watch (dh_reader dump)"
  let ?full = "wi_pack wi ?from None"
  obtain sa taken t where sw: "so_write (ds_store d) path (pr_written ?full, err_of (pr_answer ?full)) (ds_state d)
      = ((sa, taken), t)"
    by (metis surj_pair)
  let ?p = "piped_run wi ?from taken (err_of sa)"
  have "stream_end q dump ?p (err_of sa) (take (pr_taken ?p) (fst ?from)) r (w\<lparr>wo_destinations := [d\<lparr>ds_state := t\<rparr>]\<rparr>)
      = (answer, r', w', seen)"
    using assms(1) by (simp add: stream_def d sw Let_def)
  from stream_end_ends[OF this assms(2)] show ?thesis by simp
qed

section \<open>The whole job\<close>

text \<open>
  The trace of a job: the steps that went through, in order, then at most one failed line. A dump whose
  process died after it started is taken back; a structure watcher that cannot start leaves no line.
\<close>

definition done_steps :: "nat \<Rightarrow> (step \<times> bool) list" where
  "done_steps k = map (\<lambda>s. (s, True)) (take k steps)"

definition coherent :: "bool \<Rightarrow> nat \<Rightarrow> nat \<Rightarrow> (step \<times> bool) list \<Rightarrow> bool" where
  "coherent failed n k tail \<longleftrightarrow>
     tail = [] \<and> n = k \<and> k \<le> 7 \<and> (failed \<longrightarrow> k < 7)
     \<or> failed \<and> k < 7 \<and> n = k \<and> tail = [(steps ! k, False)]
     \<or> failed \<and> k = 2 \<and> n = 1 \<and> tail = [(StepDump, False)]
     \<or> failed \<and> k = 0 \<and> n = 1 \<and> tail = []"

definition traced :: "job_result \<Rightarrow> bool \<Rightarrow> (step \<times> bool) list \<Rightarrow> bool" where
  "traced r failed es \<longleftrightarrow> (\<exists>n k tail. progress n r \<and> es = done_steps k @ tail \<and> coherent failed n k tail)"

lemma done_steps_simps [simp]:
  "done_steps 0 = []" "done_steps (Suc 0) = [(StepResolution, True)]"
  "done_steps 2 = [(StepResolution, True), (StepDump, True)]"
  "done_steps 4 = [(StepResolution, True), (StepDump, True), (StepCompression, True), (StepEncryption, True)]"
  "done_steps 5 = [(StepResolution, True), (StepDump, True), (StepCompression, True), (StepEncryption, True), (StepWrite, True)]"
  "done_steps 6 = [(StepResolution, True), (StepDump, True), (StepCompression, True), (StepEncryption, True),
     (StepWrite, True), (StepVerification, True)]"
  "done_steps 7 = [(StepResolution, True), (StepDump, True), (StepCompression, True), (StepEncryption, True),
     (StepWrite, True), (StepVerification, True), (StepManifest, True)]"
  by (simp_all add: done_steps_def steps_def)

lemma tracedI: "progress n r \<Longrightarrow> coherent failed n k tail \<Longrightarrow> es = done_steps k @ tail \<Longrightarrow> traced r failed es"
  unfolding traced_def by blast

lemma traced_head:
  assumes "progress n r" "middle b n es"
  shows "\<not> b \<Longrightarrow> traced r True (done_steps 2 @ es)"
    and "b \<Longrightarrow> n = 5 \<and> es = packed_trace"
proof -
  show "\<not> b \<Longrightarrow> traced r True (done_steps 2 @ es)"
    using assms(2)
  proof (cases rule: middle.cases)
    case no_room
    with assms(1) show ?thesis by (intro tracedI[of n r True 2 "[]"]) (auto simp: coherent_def)
  next
    case died
    with assms(1) show ?thesis by (intro tracedI[of n r True 2 es]) (auto simp: coherent_def)
  next
    case unpacked
    with assms(1) show ?thesis by (intro tracedI[of n r True 2 es]) (auto simp: coherent_def steps_def)
  next
    case unsent
    with assms(1) show ?thesis
      by (intro tracedI[of n r True 4 "[(StepWrite, False)]"]) (auto simp: coherent_def steps_def packed_trace_def)
  next
    case unrewound
    with assms(1) show ?thesis by (intro tracedI[of n r True 4 "[]"]) (auto simp: coherent_def packed_trace_def)
  qed simp
  show "b \<Longrightarrow> n = 5 \<and> es = packed_trace" using assms(2) by (auto elim: middleE)
qed

lemma verify_ends:
  assumes "verify_archive wi q watch r w = (failed, r', w')" "progress 5 r"
  shows "same_head r r' \<and> jr_sha_stored r' = jr_sha_stored r
    \<and> (failed = None \<longrightarrow> progress 6 r' \<and> adds w w' [(StepVerification, True)] \<and> verdict_sound (jr_verification r'))
    \<and> (failed \<noteq> None \<longrightarrow> progress 5 r' \<and> adds w w' [(StepVerification, False)])"
proof -
  have c: "same_head r x' \<and> jr_sha_stored x' = jr_sha_stored x
    \<and> (f = None \<longrightarrow> progress 6 x' \<and> adds v v' [(StepVerification, True)] \<and> verdict_sound (jr_verification x'))
    \<and> (f \<noteq> None \<longrightarrow> progress 5 x' \<and> adds v v' [(StepVerification, False)])"
    if "conclude_verification q detail x v = (f, x', v')" "progress 5 x" "same_head r x" for detail x v f x' v'
    using that progress_set(7)[of x] by (auto simp: conclude_verification_def Let_def split: if_splits)
  show ?thesis
  proof (cases watch)
    case None
    with assms show ?thesis by (auto simp: verify_archive_def Let_def)
  next
    case (Some ws)
    obtain wt seen where ws: "ws = (wt, seen)" by (cases ws)
    obtain sound detail where cd: "wt_conclude wt seen = (sound, detail)" by fastforce
    show ?thesis
    proof (cases "wo_destinations w")
      case Nil
      with assms Some ws cd show ?thesis by (auto simp: verify_archive_def Let_def dest!: c)
    next
      case (Cons d ds)
      obtain a d' where rr: "reread_checksum wi d (jr_path r) = (a, d')" by fastforce
      show ?thesis
      proof (cases a)
        case (Inl e)
        with assms Some ws cd Cons rr show ?thesis by (auto simp: verify_archive_def Let_def)
      next
        case (Inr sha)
        let ?v = "\<lparr>vd_checked = True, vd_checksum_ok = False, vd_structure_ok = sound, vd_detail = detail\<rparr>"
        have "conclude_verification q detail
            (r\<lparr>jr_verification := ?v\<lparr>vd_checksum_ok := (sha = jr_sha_stored r)\<rparr>\<rparr>)
            (w\<lparr>wo_destinations := d' # ds\<rparr>) = (failed, r', w')"
          using assms(1) Some ws cd Cons rr Inr by (simp add: verify_archive_def Let_def)
        from c[OF this] assms(2) show ?thesis by simp
      qed
    qed
  qed
qed

lemma deposit_ends:
  assumes "deposit_manifest wi q r w = (failed, r', w')" "progress 6 r"
  shows "same_head r r' \<and> jr_verification r' = jr_verification r \<and> jr_sha_stored r' = jr_sha_stored r
    \<and> (failed = None \<longrightarrow> (if wi_manifester wi = None then progress 6 r' \<and> adds w w' []
         else progress 7 r' \<and> adds w w' [(StepManifest, True)]))
    \<and> (failed \<noteq> None \<longrightarrow> progress 6 r' \<and> adds w w' [(StepManifest, False)])"
proof (cases "wi_manifester wi")
  case None
  with assms show ?thesis by (auto simp: deposit_manifest_def adds_refl)
next
  case (Some render)
  show ?thesis
  proof (cases "render r")
    case (Inl e)
    with assms Some show ?thesis by (auto simp: deposit_manifest_def)
  next
    case (Inr m)
    obtain f ds where dp: "deposit (jr_path r @ manifest_suffix) m (wo_destinations w) = (f, ds)" by fastforce
    show ?thesis
    proof (cases f)
      case None
      with assms Some Inr dp progress_set(8)[of "r\<lparr>jr_manifest := m\<rparr>"] show ?thesis
        by (auto simp: deposit_manifest_def Let_def)
    next
      case (Some we)
      with assms \<open>wi_manifester wi = Some render\<close> Inr dp show ?thesis
        by (cases we) (auto simp: deposit_manifest_def Let_def)
    qed
  qed
qed

lemma finish_run_ends:
  assumes "finish_run wi q watch p r w = (r', failed, w')" "progress 5 r" "adds u w (done_steps 2 @ packed_trace)"
  shows "jr_path r' = jr_path r \<and> jr_staging r' = jr_staging r \<and> jr_staging_reason r' = jr_staging_reason r
    \<and> jr_staging_forced r' = jr_staging_forced r \<and> jr_warnings r' = jr_warnings r
    \<and> jr_destinations r' = destination_ids w"
    and "\<exists>es. adds u w' es \<and> traced r' (failed \<noteq> None) es
      \<and> (failed = None \<longrightarrow> verdict_sound (jr_verification r')
          \<and> progress (if wi_manifester wi = None then 6 else 7) r'
          \<and> es = done_steps (if wi_manifester wi = None then 6 else 7))"
proof -
  define r1 where "r1 = r\<lparr>jr_raw_bytes := pk_raw_bytes p, jr_stored_bytes := pk_stored_bytes p, jr_sha_raw := pk_sha_raw p,
      jr_sha_stored := pk_sha_stored p, jr_pipeline := pk_pipeline p, jr_destinations := destination_ids w\<rparr>"
  define w1 where "w1 = journal q StepWrite None
      [(''path'', FString (jr_path r1)), (''destinations'', FString (join_with '','' (jr_destinations r1))),
       (''raw_bytes'', FInt (jr_raw_bytes r1)), (''stored_bytes'', FInt (jr_stored_bytes r1)),
       (''sha256_raw'', FString (jr_sha_raw r1)), (''sha256_stored'', FString (jr_sha_stored r1))] w"
  have h1: "same_head (r\<lparr>jr_destinations := destination_ids w\<rparr>) r1" "progress 5 r1"
    using assms(2) by (simp_all add: r1_def same_head_def progress_def)
  have "adds w w1 [(StepWrite, True)]" by (simp add: w1_def)
  from adds_trans[OF assms(3) this] have a1: "adds u w1 (done_steps 5)" by (simp add: packed_trace_def)
  obtain f2 r2 w2 where v: "verify_archive wi q watch r1 w1 = (f2, r2, w2)" by (metis prod_cases3)
  note ve = verify_ends[OF v h1(2)]
  obtain f3 r3 w3 where dm: "deposit_manifest wi q (r2\<lparr>jr_duration := wi_elapsed wi\<rparr>) w2 = (f3, r3, w3)"
    by (metis prod_cases3)
  have run: "(case f2 of Some e \<Rightarrow> (r2, Some e, w2) | None \<Rightarrow> (r3, f3, w3)) = (r', failed, w')"
    using assms(1) v dm by (auto simp: finish_run_def Let_def r1_def[symmetric] w1_def[symmetric] split: option.splits)
  have "same_head r1 r' \<and> (\<exists>es. adds u w' es \<and> traced r' (failed \<noteq> None) es
      \<and> (failed = None \<longrightarrow> verdict_sound (jr_verification r')
          \<and> progress (if wi_manifester wi = None then 6 else 7) r'
          \<and> es = done_steps (if wi_manifester wi = None then 6 else 7)))"
  proof (cases f2)
    case (Some e)
    with run have r': "r' = r2" "failed = Some e" "w' = w2" by auto
    from ve Some have a: "adds w1 w2 [(StepVerification, False)]" and p5: "progress 5 r2" by simp_all
    have "traced r2 True (done_steps 5 @ [(StepVerification, False)])"
      by (rule tracedI[OF p5, of True 5]) (auto simp: coherent_def steps_def)
    with ve adds_trans[OF a1 a] r' show ?thesis by auto
  next
    case None
    with run have r': "r' = r3" "failed = f3" "w' = w3" by auto
    from ve None have a: "adds w1 w2 [(StepVerification, True)]" and p6: "progress 6 r2"
      and snd: "verdict_sound (jr_verification r2)" by simp_all
    have a6: "adds u w2 (done_steps 6)" using adds_trans[OF a1 a] by simp
    note de = deposit_ends[OF dm, simplified, OF p6]
    have h: "same_head r1 r3" using ve de same_head_trans[of r1 r2 r3] by (simp add: same_head_def)
    show ?thesis
    proof (cases "f3 = None")
      case True
      show ?thesis
      proof (cases "wi_manifester wi = None")
        case m: True
        have "traced r3 False (done_steps 6)"
          by (rule tracedI[of 6 r3 False 6 "[]"]) (use de True m in \<open>auto simp: coherent_def\<close>)
        with de True m r' h adds_trans[OF a6, of w3 "[]"] snd show ?thesis by auto
      next
        case m: False
        have "traced r3 False (done_steps 7)"
          by (rule tracedI[of 7 r3 False 7 "[]"]) (use de True m in \<open>auto simp: coherent_def\<close>)
        with de True m r' h adds_trans[OF a6, of w3 "[(StepManifest, True)]"] snd show ?thesis by auto
      qed
    next
      case False
      have "traced r3 True (done_steps 6 @ [(StepManifest, False)])"
        by (rule tracedI[of 6 r3 True 6]) (use de False in \<open>auto simp: coherent_def steps_def\<close>)
      with de False r' h adds_trans[OF a6, of w3 "[(StepManifest, False)]"] show ?thesis by auto
    qed
  qed
  then show "\<exists>es. adds u w' es \<and> traced r' (failed \<noteq> None) es
      \<and> (failed = None \<longrightarrow> verdict_sound (jr_verification r')
          \<and> progress (if wi_manifester wi = None then 6 else 7) r'
          \<and> es = done_steps (if wi_manifester wi = None then 6 else 7))"
    and "jr_path r' = jr_path r \<and> jr_staging r' = jr_staging r \<and> jr_staging_reason r' = jr_staging_reason r
    \<and> jr_staging_forced r' = jr_staging_forced r \<and> jr_warnings r' = jr_warnings r
    \<and> jr_destinations r' = destination_ids w"
    using h1(1) by (auto simp: same_head_def)
qed

lemma dump_and_write_ends:
  assumes "dump_and_write wi q resolution watch m path r w = (answer, r', w', seen)" "progress 1 r"
    "adds u w (done_steps 1)"
  shows "same_head r r'"
    and "\<not> ok answer \<Longrightarrow> \<exists>es. adds u w' es \<and> traced r' True es"
    and "ok answer \<Longrightarrow> progress 5 r' \<and> adds u w' (done_steps 2 @ packed_trace)"
proof -
  have "same_head r r' \<and> (\<not> ok answer \<longrightarrow> (\<exists>es. adds u w' es \<and> traced r' True es))
    \<and> (ok answer \<longrightarrow> progress 5 r' \<and> adds u w' (done_steps 2 @ packed_trace))"
  proof (cases "wi_dumper wi resolution q")
    case (Inl e)
    with assms(1) have r': "\<not> ok answer" "r' = r" "adds w w' [(StepDump, False)]" by (auto simp: dump_and_write_def)
    have "traced r True (done_steps 1 @ [(StepDump, False)])"
      by (rule tracedI[OF assms(2), of True 1]) (auto simp: coherent_def steps_def)
    with r' adds_trans[OF assms(3) r'(3)] show ?thesis by auto
  next
    case (Inr dump)
    let ?r1 = "mark [StepDump] r"
    let ?w1 = "journal q StepDump None [(''staging'', FString (mode_name m)),
        (''staging_reason'', FString (jr_staging_reason r)), (''tool'', FString (rs_tool_path resolution))] w"
    have p2: "progress 2 ?r1" using progress_set(2)[OF assms(2)] by simp
    have "adds w ?w1 [(StepDump, True)]" by simp
    from adds_trans[OF assms(3) this] have a: "adds u ?w1 (done_steps 2)" by simp
    have "stage wi q dump watch path ?r1 ?w1 = (answer, r', w', seen)
        \<or> stream wi q dump watch path ?r1 ?w1 = (answer, r', w', seen)"
      using assms(1) Inr by (auto simp: dump_and_write_def Let_def split: if_splits)
    then have "same_head ?r1 r' \<and> (\<exists>n es. progress n r' \<and> adds ?w1 w' es \<and> middle (ok answer) n es)"
      by (elim disjE) (rule stage_ends[OF _ p2], assumption, rule stream_ends[OF _ p2], assumption)
    then obtain n es where
      h: "same_head ?r1 r'" "progress n r'" "adds ?w1 w' es" "middle (ok answer) n es" by (elim conjE exE)
    show ?thesis using traced_head[OF h(2,4)] adds_trans[OF a h(3)] h(1,2) by (auto simp: same_head_def)
  qed
  then show "same_head r r'" "\<not> ok answer \<Longrightarrow> \<exists>es. adds u w' es \<and> traced r' True es"
    "ok answer \<Longrightarrow> progress 5 r' \<and> adds u w' (done_steps 2 @ packed_trace)" by blast+
qed

text \<open>What a job that got past its resolution answers.\<close>

lemma run_resolved_ends:
  assumes "run_resolved wi q resolution watch r w = (r', failed, w')" "progress 1 r" "adds u w []"
  shows "\<exists>es. adds u w' es \<and> traced r' (failed \<noteq> None) es
      \<and> (failed = None \<longrightarrow> verdict_sound (jr_verification r')
          \<and> progress (if wi_manifester wi = None then 6 else 7) r'
          \<and> es = done_steps (if wi_manifester wi = None then 6 else 7))"
proof -
  let ?w = "journal q StepResolution None
      [(''engine'', FString (rs_engine resolution)), (''server_version'', FString (rs_server_version resolution)),
       (''tool'', FString (rs_tool_path resolution)), (''tool_version'', FString (rs_tool_version resolution)),
       (''tool_source'', FString (rs_tool_source resolution))] w"
  have "adds w ?w [(StepResolution, True)]" by simp
  from adds_trans[OF assms(3) this] have a: "adds u ?w (done_steps 1)" by simp
  show ?thesis
  proof (cases "decide_for wi (length (wo_destinations w)) (rq_database q) resolution")
    case (Inl e)
    with assms(1) have r': "failed = Some e" "r' = r" "adds ?w w' [(StepDump, False)]"
      by (auto simp: run_resolved_def Let_def)
    have "traced r True (done_steps 1 @ [(StepDump, False)])"
      by (rule tracedI[OF assms(2), of True 1]) (auto simp: coherent_def steps_def)
    with r' adds_trans[OF a r'(3)] show ?thesis by auto
  next
    case (Inr d)
    let ?r1 = "decided d (path_for wi q resolution) r"
    obtain ans r2 w2 seen where
      dw: "dump_and_write wi q resolution watch (sd_mode d) (jr_path ?r1) ?r1 ?w = (ans, r2, w2, seen)"
      by (metis prod_cases4)
    have p1: "progress 1 ?r1" using assms(2) by simp
    note de = dump_and_write_ends[OF dw p1 a]
    show ?thesis
    proof (cases ans)
      case (Inl e)
      with assms(1) Inr dw have "failed = Some e" "r' = r2" "w' = w2" by (auto simp: run_resolved_def Let_def)
      with de(2) Inl show ?thesis by auto
    next
      case (Inr p)
      with assms(1) \<open>decide_for _ _ _ _ = Inr d\<close> dw
      have fr: "finish_run wi q (map_option (\<lambda>wt. (wt, seen)) watch) p r2 w2 = (r', failed, w')"
        by (simp add: run_resolved_def Let_def)
      from de(3) Inr have "progress 5 r2" "adds u w2 (done_steps 2 @ packed_trace)" by simp_all
      from finish_run_ends(2)[OF fr this] show ?thesis .
    qed
  qed
qed

lemma run_locked_ends:
  assumes "run_locked wi q w = (r, failed, w')" "wo_journal w = wo_journal u"
  shows "\<exists>es. adds u w' es \<and> traced r (failed \<noteq> None) es
      \<and> (failed = None \<longrightarrow> verdict_sound (jr_verification r)
          \<and> progress (if wi_manifester wi = None then 6 else 7) r
          \<and> es = done_steps (if wi_manifester wi = None then 6 else 7))"
proof -
  obtain pe s1 where pg: "purge_staging (wi_state_directory wi) (wo_os w) = (pe, s1)" by fastforce
  have u: "adds u (on_os s1 w) []" using assms(2) by (simp add: adds_def)
  have t0: "traced (new_result q) True []"
    by (rule tracedI[OF progress_new, of True 0 "[]"]) (simp_all add: coherent_def)
  show ?thesis
  proof (cases pe)
    case (Some e)
    with assms(1) pg u t0 show ?thesis by (auto simp: run_locked_def)
  next
    case None
    show ?thesis
    proof (cases "wi_resolver wi (rq_database q)")
      case (Inl e)
      have "traced (new_result q) True [(StepResolution, False)]"
        by (rule tracedI[OF progress_new, of True 0 "[(StepResolution, False)]"]) (simp_all add: coherent_def steps_def)
      with assms pg None Inl show ?thesis by (auto simp: run_locked_def)
    next
      case (Inr resolution)
      let ?r1 = "mark [StepResolution] ((new_result q)\<lparr>jr_warnings := rs_warnings resolution, jr_resolution := resolution\<rparr>)"
      have p1: "progress 1 ?r1" using progress_set(1) progress_new by simp
      show ?thesis
      proof (cases "\<exists>vf e. wi_verifier wi = Some vf \<and> vf resolution = Inl e")
        case True
        have "traced ?r1 True []"
          by (rule tracedI[OF p1, of True 0 "[]"]) (simp_all add: coherent_def)
        moreover have "r = ?r1" "failed \<noteq> None" "w' = on_os s1 w"
          using assms(1) pg None Inr True by (auto simp: run_locked_def Let_def)
        ultimately show ?thesis using u by (intro exI[of _ "[]"]) simp
      next
        case False
        then obtain watch where "run_resolved wi q resolution watch ?r1 (on_os s1 w) = (r, failed, w')"
          using assms(1) pg None Inr by (auto simp: run_locked_def Let_def split: option.splits sum.splits)
        from run_resolved_ends[OF this p1 u] show ?thesis .
      qed
    qed
  qed
qed

lemma run_ends:
  assumes "run wi q w = (r, failed, w')"
  shows "\<exists>es. adds w w' es \<and> traced r (failed \<noteq> None) es
      \<and> (failed = None \<longrightarrow> verdict_sound (jr_verification r)
          \<and> progress (if wi_manifester wi = None then 6 else 7) r
          \<and> es = done_steps (if wi_manifester wi = None then 6 else 7))"
proof -
  obtain a s1 where ac: "acquire (wi_state_directory wi) (rq_database q) (rq_job q) (rq_at q) (wo_os w) = (a, s1)"
    by fastforce
  show ?thesis
  proof (cases a)
    case (Inl e)
    have "traced (new_result q) True []"
      by (rule tracedI[OF progress_new, of True 0 "[]"]) (simp_all add: coherent_def)
    with assms ac Inl adds_refl[of w] show ?thesis by (auto simp: run_def)
  next
    case (Inr path)
    obtain r1 f1 w1 where rl: "run_locked wi q (on_os s1 w) = (r1, f1, w1)" by (metis prod_cases3)
    with assms ac Inr obtain s2 where e: "r = r1" "failed = f1" "w' = on_os s2 w1"
      by (auto simp: run_def split: prod.splits)
    from run_locked_ends[OF rl, of w] show ?thesis unfolding e by simp
  qed
qed

section \<open>What the order promises\<close>

text \<open>
  C14. The seven steps happen in the order of E-024 and a step that fails stops the job (BKP-06): whatever
  the ports answer, the steps a result says were done are the first ones of the seven, none is
  skipped, and a job reports success only when every step it was wired for is done, the verification
  included; a job that failed never has all seven.
\<close>

theorem run_steps_are_a_prefix:
  assumes "run wi q w = (r, failed, w')" "wi_manifester wi \<noteq> None"
  shows "\<exists>n \<le> 7. jr_steps r = map (\<lambda>(i, s). (s, i < n)) (enumerate 0 steps)
    \<and> (failed = None \<longleftrightarrow> n = 7)"
proof -
  from run_ends[OF assms(1)] obtain es n k tail where p: "progress n r" and c: "coherent (failed \<noteq> None) n k tail"
    and ok: "failed = None \<Longrightarrow> progress 7 r" and tr: "es = done_steps k @ tail" "adds w w' es"
    using assms(2) unfolding traced_def by fastforce
  have "n \<le> 7 \<and> (failed = None \<longleftrightarrow> n = 7)"
    using c ok p unfolding coherent_def by (cases failed) (auto simp: progress_def steps_enumerated)
  with p show ?thesis unfolding progress_def by blast
qed

text \<open>
  The journal stops where the job stops (BKP-20): what a job adds to it is the lines of the first
  steps in their order, all without a failure, then at most one line that failed; a job that succeeds
  leaves exactly one line without a failure for each of the seven steps.
\<close>

lemma journal_stops_where_the_job_stops:
  assumes "run wi q w = (r, failed, w')" "wi_manifester wi \<noteq> None"
  shows "\<exists>new k tail. wo_journal w' = wo_journal w @ new
    \<and> map (\<lambda>e. (js_step e, js_failed e = None)) new = map (\<lambda>s. (s, True)) (take k steps) @ tail
    \<and> length tail \<le> 1 \<and> list_all (\<lambda>(_, fine). \<not> fine) tail
    \<and> (failed = None \<longrightarrow> k = 7 \<and> tail = [])"
proof -
  from run_ends[OF assms(1)] obtain es where a: "adds w w' es" and t: "traced r (failed \<noteq> None) es"
    and ok: "failed = None \<Longrightarrow> es = done_steps 7" using assms(2) by auto
  from t obtain n k tail where c: "coherent (failed \<noteq> None) n k tail" and es: "es = done_steps k @ tail"
    unfolding traced_def by blast
  from a obtain new where n: "wo_journal w' = wo_journal w @ new" "map entry_kind new = es"
    unfolding adds_def by blast
  have "entry_kind = (\<lambda>e. (js_step e, js_failed e = None))" by (simp add: fun_eq_iff entry_kind_def)
  with n es have m: "map (\<lambda>e. (js_step e, js_failed e = None)) new = map (\<lambda>s. (s, True)) (take k steps) @ tail"
    by (simp add: done_steps_def)
  show ?thesis
  proof (cases failed)
    case None
    with ok n(2) have "map (\<lambda>e. (js_step e, js_failed e = None)) new = map (\<lambda>s. (s, True)) (take 7 steps)"
      by (simp add: done_steps_def \<open>entry_kind = _\<close>)
    with n(1) show ?thesis by (intro exI[of _ new] exI[of _ 7] exI[of _ "[]"]) simp
  next
    case (Some e)
    with c have "length tail \<le> 1 \<and> list_all (\<lambda>(_, fine). \<not> fine) tail" by (auto simp: coherent_def)
    with n(1) m Some show ?thesis by blast
  qed
qed

end
