(* ===== verification/Backup_Safety.thy ===== *)
theory Backup_Safety
  imports Backup_Steps
begin

text \<open>
  What a backup that reports success has really done, and what a backup that fails has not.
\<close>

section \<open>Taking a success apart\<close>

lemma run_success_parts:
  assumes "run wi q w = (r, None, w')"
  obtains lock s1 s2 resolution vf wt d p rA wA r2 w2 seen w3 s4 where
    "acquire (wi_state_directory wi) (rq_database q) (rq_job q) (rq_at q) (wo_os w) = (Inr lock, s1)"
    "purge_staging (wi_state_directory wi) s1 = (None, s2)"
    "wi_resolver wi (rq_database q) = Inr resolution" "wi_verifier wi = Some vf" "vf resolution = Inr wt"
    "decide_for wi (length (wo_destinations w)) (rq_database q) resolution = Inr d"
    "wo_destinations wA = wo_destinations w" "wo_os wA = s2" "jr_path rA = path_for wi q resolution"
    "dump_and_write wi q resolution (Some wt) (sd_mode d) (path_for wi q resolution) rA wA = (Inr p, r2, w2, seen)"
    "finish_run wi q (Some (wt, seen)) p r2 w2 = (r, None, w3)" "w' = on_os s4 w3"
    "jr_path r2 = path_for wi q resolution"
    "jr_staging r = sd_mode d" "jr_staging_reason r = sd_reason d" "jr_staging_forced r = sd_forced d"
    "jr_warnings r = rs_warnings resolution" "jr_path r = path_for wi q resolution" "jr_destinations r = destination_ids w2"
proof -
  obtain a s1 where ac: "acquire (wi_state_directory wi) (rq_database q) (rq_job q) (rq_at q) (wo_os w) = (a, s1)"
    by fastforce
  from assms ac obtain lock where a: "a = Inr lock" by (cases a) (auto simp: run_def)
  obtain rl fl w3 where rl: "run_locked wi q (on_os s1 w) = (rl, fl, w3)" by (metis prod_cases3)
  from assms ac a rl obtain s4 where e: "rl = r" "fl = None" "w' = on_os s4 w3"
    by (auto simp: run_def split: prod.splits)
  obtain pe s2 where pg: "purge_staging (wi_state_directory wi) s1 = (pe, s2)" by fastforce
  from rl pg e have pe: "pe = None" by (cases pe) (auto simp: run_locked_def)
  from rl pg e pe obtain resolution where rs: "wi_resolver wi (rq_database q) = Inr resolution"
    by (cases "wi_resolver wi (rq_database q)") (auto simp: run_locked_def)
  let ?r1 = "mark [StepResolution] ((new_result q)\<lparr>jr_warnings := rs_warnings resolution, jr_resolution := resolution\<rparr>)"
  obtain watch where rr: "run_resolved wi q resolution watch ?r1 (on_os s2 (on_os s1 w)) = (r, None, w3)"
    and wv: "watch = None \<or> (\<exists>vf wt. wi_verifier wi = Some vf \<and> vf resolution = Inr wt \<and> watch = Some wt)"
    using rl pg e pe rs by (auto simp: run_locked_def Let_def split: option.splits sum.splits)
  define wA where "wA = journal q StepResolution None
      [(''engine'', FString (rs_engine resolution)), (''server_version'', FString (rs_server_version resolution)),
       (''tool'', FString (rs_tool_path resolution)), (''tool_version'', FString (rs_tool_version resolution)),
       (''tool_source'', FString (rs_tool_source resolution))] (on_os s2 (on_os s1 w))"
  have wA: "wo_destinations wA = wo_destinations w" "wo_os wA = s2" by (simp_all add: wA_def)
  note rr' = rr[unfolded run_resolved_def Let_def, folded wA_def]
  from rr' obtain d where d: "decide_for wi (length (wo_destinations w)) (rq_database q) resolution = Inr d"
    by (cases "decide_for wi (length (wo_destinations w)) (rq_database q) resolution") (auto simp: wA)
  let ?rA = "decided d (path_for wi q resolution) ?r1"
  have pth: "jr_path ?rA = path_for wi q resolution" by (simp add: decided_def)
  obtain ans r2 w2 seen where
    dw: "dump_and_write wi q resolution watch (sd_mode d) (path_for wi q resolution) ?rA wA = (ans, r2, w2, seen)"
    by (metis prod_cases4)
  from rr' d dw pth obtain p where p: "ans = Inr p" by (cases ans) (auto simp: wA)
  from rr' d dw pth p have fr: "finish_run wi q (map_option (\<lambda>wt. (wt, seen)) watch) p r2 w2 = (r, None, w3)"
    by (auto simp: wA)
  have wt: "watch \<noteq> None"
  proof
    assume "watch = None"
    with fr show False by (auto simp: finish_run_def verify_archive_def Let_def)
  qed
  then obtain vf wt' where v: "wi_verifier wi = Some vf" "vf resolution = Inr wt'" "watch = Some wt'" using wv by auto
  have "progress 1 ?r1" using progress_set(1) progress_new by simp
  then have p1: "progress 1 ?rA" by simp
  have "adds (w\<lparr>wo_journal := wo_journal w\<rparr>) wA (done_steps 1)" by (simp add: wA_def)
  note ends = dump_and_write_ends[OF dw p1 this]
  have hd: "jr_path r2 = path_for wi q resolution" "jr_staging r2 = sd_mode d" "jr_staging_reason r2 = sd_reason d"
    "jr_staging_forced r2 = sd_forced d" "jr_warnings r2 = rs_warnings resolution"
    using pth ends(1) by (simp_all add: same_head_def decided_def)
  have "progress 5 r2" "adds (w\<lparr>wo_journal := wo_journal w\<rparr>) w2 (done_steps 2 @ packed_trace)"
    using ends(3) p by simp_all
  from finish_run_ends(1)[OF fr this] hd
  show thesis using that[OF ac[unfolded a] pg[unfolded pe] rs v(1,2) d wA pth] dw fr v(3) p e(3) by simp
qed

text \<open>What the verification of a successful job saw.\<close>

lemma finish_run_success:
  assumes "finish_run wi q (Some (wt, seen)) p r w = (r', None, w')"
  obtains detail d ds bytes t w2 where
    "wt_conclude wt seen = (True, detail)" "wo_destinations w = d # ds"
    "so_read (ds_store d) (jr_path r) (ds_state d) = (Inr (bytes, None), t)"
    "wi_sha256 wi bytes = pk_sha_stored p" "jr_sha_stored r' = pk_sha_stored p" "jr_path r' = jr_path r"
    "jr_stored_bytes r' = pk_stored_bytes p" "jr_raw_bytes r' = pk_raw_bytes p" "jr_sha_raw r' = pk_sha_raw p"
    "jr_pipeline r' = pk_pipeline p"
    "case wi_manifester wi of
       None \<Rightarrow> wo_destinations w' = d\<lparr>ds_state := t\<rparr> # ds
     | Some _ \<Rightarrow> deposit (jr_path r @ manifest_suffix) (jr_manifest r') (d\<lparr>ds_state := t\<rparr> # ds) = (None, wo_destinations w')"
proof -
  define r1 where "r1 = r\<lparr>jr_raw_bytes := pk_raw_bytes p, jr_stored_bytes := pk_stored_bytes p, jr_sha_raw := pk_sha_raw p,
      jr_sha_stored := pk_sha_stored p, jr_pipeline := pk_pipeline p, jr_destinations := destination_ids w\<rparr>"
  define w1 where "w1 = journal q StepWrite None
      [(''path'', FString (jr_path r1)), (''destinations'', FString (join_with '','' (jr_destinations r1))),
       (''raw_bytes'', FInt (jr_raw_bytes r1)), (''stored_bytes'', FInt (jr_stored_bytes r1)),
       (''sha256_raw'', FString (jr_sha_raw r1)), (''sha256_stored'', FString (jr_sha_stored r1))] w"
  have r1: "jr_path r1 = jr_path r" "jr_sha_stored r1 = pk_sha_stored p" by (simp_all add: r1_def)
  have w1: "wo_destinations w1 = wo_destinations w" by (simp add: w1_def)
  obtain f2 r2 w2 where v: "verify_archive wi q (Some (wt, seen)) r1 w1 = (f2, r2, w2)" by (metis prod_cases3)
  note fr = assms[unfolded finish_run_def Let_def, folded r1_def, folded w1_def, simplified v prod.case]
  from fr have f2: "f2 = None" by (cases f2) auto
  obtain f3 r3 w3 where dm: "deposit_manifest wi q (r2\<lparr>jr_duration := wi_elapsed wi\<rparr>) w2 = (f3, r3, w3)"
    by (metis prod_cases3)
  from fr f2 dm have r': "r' = r3" "f3 = None" "w' = w3" by auto
  obtain sound detail where cd: "wt_conclude wt seen = (sound, detail)" by fastforce
  let ?v = "\<lparr>vd_checked = True, vd_checksum_ok = False, vd_structure_ok = sound, vd_detail = detail\<rparr>"
  from v f2 cd obtain d ds where ds: "wo_destinations w = d # ds"
    by (cases "wo_destinations w")
       (auto simp: verify_archive_def Let_def w1 conclude_verification_def verdict_sound_def split: if_splits)
  obtain a d' where rr: "reread_checksum wi d (jr_path r) = (a, d')" by fastforce
  from v f2 cd ds rr obtain sha where a: "a = Inr sha"
    by (cases a) (auto simp: verify_archive_def Let_def w1 r1)
  have cv: "conclude_verification q detail
      (r1\<lparr>jr_verification := ?v\<lparr>vd_checksum_ok := (sha = jr_sha_stored r1)\<rparr>\<rparr>) (w1\<lparr>wo_destinations := d' # ds\<rparr>) = (None, r2, w2)"
    using v f2 cd ds rr a by (simp add: verify_archive_def Let_def w1 r1)
  then have snd: "sound" "sha = pk_sha_stored p" and
    r2: "r2 = mark [StepVerification] (r1\<lparr>jr_verification := ?v\<lparr>vd_checksum_ok := (sha = jr_sha_stored r1)\<rparr>\<rparr>)" and
    w2: "wo_destinations w2 = d' # ds"
    by (auto simp: conclude_verification_def verdict_sound_def Let_def r1 split: if_splits)
  from rr a obtain bytes t where rd: "so_read (ds_store d) (jr_path r) (ds_state d) = (Inr (bytes, None), t)"
    "sha = wi_sha256 wi bytes" "d' = d\<lparr>ds_state := t\<rparr>"
    by (auto simp: reread_checksum_def split: prod.splits sum.splits option.splits)
  have keep: "jr_sha_stored r2 = pk_sha_stored p" "jr_path r2 = jr_path r" "jr_stored_bytes r2 = pk_stored_bytes p"
    "jr_raw_bytes r2 = pk_raw_bytes p" "jr_sha_raw r2 = pk_sha_raw p" "jr_pipeline r2 = pk_pipeline p"
    unfolding r2 by (simp_all add: set_step_def r1_def)
  have dep: "case wi_manifester wi of
       None \<Rightarrow> wo_destinations w' = d\<lparr>ds_state := t\<rparr> # ds
     | Some _ \<Rightarrow> deposit (jr_path r @ manifest_suffix) (jr_manifest r') (d\<lparr>ds_state := t\<rparr> # ds) = (None, wo_destinations w')"
    and same: "jr_sha_stored r3 = jr_sha_stored r2" "jr_path r3 = jr_path r2" "jr_stored_bytes r3 = jr_stored_bytes r2"
      "jr_raw_bytes r3 = jr_raw_bytes r2" "jr_sha_raw r3 = jr_sha_raw r2" "jr_pipeline r3 = jr_pipeline r2"
    using dm r' w2 rd(3) keep(2)
    by (auto simp: deposit_manifest_def set_step_def Let_def split: option.splits sum.splits prod.splits)
  show thesis
    by (rule that[of detail d ds bytes t]) (use cd snd ds rd dep same keep r' in simp_all)
qed

text \<open>A job changes the state of its destinations, never which they are.\<close>

definition wiring_of :: "'s destination list \<Rightarrow> (string \<times> 's store) list" where
  "wiring_of ds = map (\<lambda>d. (ds_id d, ds_store d)) ds"

lemma wiring_of_simps [simp]:
  "wiring_of [] = []" "wiring_of (d # ds) = (ds_id d, ds_store d) # wiring_of ds"
  by (simp_all add: wiring_of_def)

lemma send_staged_wiring: "send_staged path temp ds s = (f, ds', s') \<Longrightarrow> wiring_of ds' = wiring_of ds"
proof (induction ds arbitrary: s ds' s' f)
  case Nil
  then show ?case by simp
next
  case (Cons d ds)
  then show ?case by (auto split: prod.splits option.splits sum.splits)
qed

lemma deposit_wiring: "deposit path m ds = (f, ds') \<Longrightarrow> wiring_of ds' = wiring_of ds"
  by (induction ds arbitrary: ds' f) (auto split: prod.splits sum.splits)

lemma dump_died_world: "dump_died q c r w = (a, r', w') \<Longrightarrow> wo_destinations w' = wo_destinations w \<and> wo_os w' = wo_os w"
  by (auto simp: dump_died_def split: option.splits)

lemma stage_filled_wiring:
  "stage_filled wi q dump watch path temp r w = (a, r', w', seen) \<Longrightarrow> wiring_of (wo_destinations w') = wiring_of (wo_destinations w)"
  by (auto simp: stage_filled_def Let_def dest!: dump_died_world send_staged_wiring
      split: prod.splits option.splits sum.splits)

lemma stream_end_world:
  "stream_end q dump packing e seen r w = (a, r', w', seen') \<Longrightarrow> wo_destinations w' = wo_destinations w \<and> wo_os w' = wo_os w"
  by (auto simp: stream_end_def dest!: dump_died_world split: prod.splits option.splits sum.splits)

lemma stream_wiring:
  "stream wi q dump watch path r w = (a, r', w', seen) \<Longrightarrow> wiring_of (wo_destinations w') = wiring_of (wo_destinations w)"
  by (auto simp: stream_def Let_def dest!: stream_end_world split: list.splits prod.splits)

lemma dump_and_write_wiring:
  "dump_and_write wi q resolution watch m path r w = (a, r', w', seen)
    \<Longrightarrow> wiring_of (wo_destinations w') = wiring_of (wo_destinations w)"
  by (auto simp: dump_and_write_def stage_def Let_def dest!: stage_filled_wiring stream_wiring
      split: sum.splits prod.splits if_splits)

lemma success_wiring:
  assumes "run wi q w = (r, None, w')"
  shows "wiring_of (wo_destinations w') = wiring_of (wo_destinations w)"
proof (rule run_success_parts[OF assms])
  fix resolution wt dec p rA r2 seen s4 and wA w2 w3 :: "'a world"
  assume wA: "wo_destinations wA = wo_destinations w"
    and dw: "dump_and_write wi q resolution (Some wt) (sd_mode dec) (path_for wi q resolution) rA wA = (Inr p, r2, w2, seen)"
    and fr: "finish_run wi q (Some (wt, seen)) p r2 w2 = (r, None, w3)" and w': "w' = on_os s4 w3"
  have "wiring_of (wo_destinations w3) = wiring_of (wo_destinations w2)"
  proof (rule finish_run_success[OF fr])
    fix d ds t
    assume "wo_destinations w2 = d # ds"
      and "case wi_manifester wi of None \<Rightarrow> wo_destinations w3 = d\<lparr>ds_state := t\<rparr> # ds
        | Some _ \<Rightarrow> deposit (jr_path r2 @ manifest_suffix) (jr_manifest r) (d\<lparr>ds_state := t\<rparr> # ds) = (None, wo_destinations w3)"
    then show ?thesis
      by (cases "wi_manifester wi") (simp_all add: deposit_wiring[where f = None] del: deposit.simps)
  qed
  with dump_and_write_wiring[OF dw] wA w' show ?thesis by (simp add: on_os_def)
qed

text \<open>
  C2. A backup that reports success has been checked (P4): the structure watcher of the database accepted
  what it saw of the dump, and the archive was read back from the first destination and hashed to the
  fingerprint the result and the manifest carry. Nothing is assumed of the ports: a job without a
  watcher, without a destination, or whose archive cannot be read back never reports success.
\<close>

theorem success_is_verified:
  assumes "run wi q w = (r, None, w')"
  shows "\<exists>resolution vf wt seen detail st bytes t.
      wi_resolver wi (rq_database q) = Inr resolution \<and> wi_verifier wi = Some vf \<and> vf resolution = Inr wt
      \<and> wt_conclude wt seen = (True, detail)
      \<and> wo_destinations w \<noteq> []
      \<and> so_read (ds_store (hd (wo_destinations w))) (jr_path r) st = (Inr (bytes, None), t)
      \<and> wi_sha256 wi bytes = jr_sha_stored r \<and> verdict_sound (jr_verification r)"
proof -
  have "verdict_sound (jr_verification r)" using run_ends[OF assms] by auto
  show ?thesis
  proof (rule run_success_parts[OF assms])
    fix resolution vf wt d p rA wA r2 w2 seen w3
    assume rs: "wi_resolver wi (rq_database q) = Inr resolution" "wi_verifier wi = Some vf" "vf resolution = Inr wt"
      and wA: "wo_destinations wA = wo_destinations w"
      and dw: "dump_and_write wi q resolution (Some wt) (sd_mode d) (path_for wi q resolution) rA wA = (Inr p, r2, w2, seen)"
      and fr: "finish_run wi q (Some (wt, seen)) p r2 w2 = (r, None, w3)"
    show ?thesis
    proof (rule finish_run_success[OF fr])
      fix detail e ds bytes t
      assume f: "wt_conclude wt seen = (True, detail)" "wo_destinations w2 = e # ds"
        "so_read (ds_store e) (jr_path r2) (ds_state e) = (Inr (bytes, None), t)"
        "wi_sha256 wi bytes = pk_sha_stored p" "jr_sha_stored r = pk_sha_stored p" "jr_path r = jr_path r2"
      have "wo_destinations w \<noteq> []" "ds_store e = ds_store (hd (wo_destinations w))"
        using dump_and_write_wiring[OF dw] f(2) wA by (cases "wo_destinations w"; simp)+
      moreover note \<open>verdict_sound (jr_verification r)\<close>
      ultimately show ?thesis using rs f
        by - (rule exI[of _ resolution], rule exI[of _ vf], rule exI[of _ wt], rule exI[of _ seen], rule exI[of _ detail],
          rule exI[of _ "ds_state e"], rule exI[of _ bytes], rule exI[of _ t], simp)
    qed
  qed
qed

end
