(* ===== verification/Pipeline.thy ===== *)
theory Pipeline
  imports Backup_Service
begin

text \<open>
  \<open>internal/pipeline\<close> and \<open>internal/domain/crypto/recipients.go\<close>: a dump goes through compression and
  encryption in one pass, fingerprinted before and after. The zstd encoder and the age writer are not
  part of the repository: they are the transducers of a \<open>codec\<close>, which turn what is written to them
  into what they write on, block by block, and may write more when they are closed.
\<close>

section \<open>Recipients\<close>

record recipients =
  rc_keys :: "string list"
  rc_from :: string

text \<open>A line of \<open>bufio.Scanner\<close>: its carriage return dropped; a line of 64 KiB or more stops the scan.\<close>

definition max_line :: nat where "max_line = 65536"

definition chomp :: "string \<Rightarrow> string" where
  "chomp l = (if l \<noteq> [] \<and> last l = CHR 0x0D then butlast l else l)"

definition scan_lines :: "string \<Rightarrow> string list" where
  "scan_lines s =
     (let ls = split_on newline s in map chomp (if last ls = [] then butlast ls else ls))"

fun read_recipients ::
  "(string \<Rightarrow> string result) \<Rightarrow> string \<Rightarrow> nat \<Rightarrow> string list \<Rightarrow> string list result" where
  "read_recipients parse_key path line [] = Inr []"
| "read_recipients parse_key path line (l # ls) =
     (if max_line \<le> length l then Inl (errorf (''read '' @ path) (errors_new ''bufio.Scanner: token too long''))
      else let txt = trim_space l
           in if txt = [] \<or> has_prefix txt ''#'' then read_recipients parse_key path (Suc line) ls
              else case parse_key txt of
                Inl e \<Rightarrow>
                  Inl (errorf (path @ '' line '' @ dec line @ '': '' @ go_quote txt @ '' is not an age public key'') e)
              | Inr key \<Rightarrow> map_sum (\<lambda>e. e) ((#) key) (read_recipients parse_key path (Suc line) ls))"

definition load_recipients :: "(string \<Rightarrow> string result) \<Rightarrow> string \<Rightarrow> os \<Rightarrow> recipients result \<times> os" where
  "load_recipients parse_key path s =
     (case os_read_file (place_of path) s of
        (Inl e, s1) \<Rightarrow> (Inl (errorf ''read the recipients'' e), s1)
      | (Inr text, s1) \<Rightarrow>
          (case read_recipients parse_key path 1 (scan_lines text) of
             Inl e \<Rightarrow> (Inl e, s1)
           | Inr [] \<Rightarrow>
               (Inl (errors_new (path @ '' declares no recipient: koffr does not encrypt for nobody'')), s1)
           | Inr keys \<Rightarrow> (Inr \<lparr>rc_keys = keys, rc_from = path\<rparr>, s1)))"

definition recipients_warning :: "recipients \<Rightarrow> string" where
  "recipients_warning r =
     (if 2 \<le> length (rc_keys r) then []
      else rc_from r @ '' declares one recipient: add an escrow key kept elsewhere, '' @
           ''or losing this one makes every archive it encrypted unreadable forever'')"

definition effective :: "recipients \<Rightarrow> recipients \<Rightarrow> recipients" where
  "effective fleet database = (if rc_keys database \<noteq> [] then database else fleet)"

section \<open>One pass\<close>

record ('z, 'a) codec =
  zs_start :: "int \<Rightarrow> 'z result"
  zs_write :: "'z \<Rightarrow> string \<Rightarrow> string \<times> 'z"
  zs_close :: "'z \<Rightarrow> string"
  ag_start :: "string list \<Rightarrow> (string \<times> 'a) result"
  ag_write :: "'a \<Rightarrow> string \<Rightarrow> string \<times> 'a"
  ag_close :: "'a \<Rightarrow> string"

definition default_compression :: int where "default_compression = 3"

definition level_of :: "int \<Rightarrow> int" where
  "level_of asked = (if asked \<le> 0 then default_compression else asked)"

text \<open>
  The state of a run: what reached the destination, what the two counters saw, and the two encoders.
\<close>

record ('z, 'a) piping =
  pp_written :: string
  pp_stored :: string
  pp_raw :: string
  pp_zs :: 'z
  pp_ag :: 'a

text \<open>\<open>io.MultiWriter(into, stored)\<close>: the counter sees nothing of a write the destination refused.\<close>

definition write_out :: "sink \<Rightarrow> string \<Rightarrow> ('z, 'a) piping \<Rightarrow> gerr option \<times> ('z, 'a) piping" where
  "write_out into bytes p =
     (case into of
        None \<Rightarrow> (None, p\<lparr>pp_written := pp_written p @ bytes, pp_stored := pp_stored p @ bytes\<rparr>)
      | Some (limit, e) \<Rightarrow>
          if length (pp_written p) + length bytes \<le> limit
          then (None, p\<lparr>pp_written := pp_written p @ bytes, pp_stored := pp_stored p @ bytes\<rparr>)
          else (Some e, p\<lparr>pp_written := pp_written p @ take (limit - length (pp_written p)) bytes\<rparr>))"

definition write_sealed :: "('z, 'a) codec \<Rightarrow> sink \<Rightarrow> string \<Rightarrow> ('z, 'a) piping \<Rightarrow> gerr option \<times> ('z, 'a) piping" where
  "write_sealed c into bytes p =
     (let (out, ag) = ag_write c (pp_ag p) bytes in write_out into out (p\<lparr>pp_ag := ag\<rparr>))"

text \<open>\<open>io.MultiWriter(compress, raw)\<close>\<close>

definition write_raw :: "('z, 'a) codec \<Rightarrow> sink \<Rightarrow> string \<Rightarrow> ('z, 'a) piping \<Rightarrow> gerr option \<times> ('z, 'a) piping" where
  "write_raw c into bytes p =
     (let (out, zs) = zs_write c (pp_zs p) bytes
      in case write_sealed c into out (p\<lparr>pp_zs := zs\<rparr>) of
           (Some e, p1) \<Rightarrow> (Some e, p1)
         | (None, p1) \<Rightarrow> (None, p1\<lparr>pp_raw := pp_raw p1 @ bytes\<rparr>))"

definition copy_block :: nat where "copy_block = 32768"

function blocks :: "string \<Rightarrow> string list" where
  "blocks s = (if s = [] then [] else take copy_block s # blocks (drop copy_block s))"
  by pat_completeness auto
termination
  by (relation "measure length") (auto simp: copy_block_def)

declare blocks.simps [simp del]

text \<open>\<open>io.Copy\<close>: the blocks of the reader one by one; it also answers how many bytes it took.\<close>

fun copy_blocks ::
  "('z, 'a) codec \<Rightarrow> sink \<Rightarrow> string list \<Rightarrow> ('z, 'a) piping \<Rightarrow> gerr option \<times> nat \<times> ('z, 'a) piping" where
  "copy_blocks c into [] p = (None, 0, p)"
| "copy_blocks c into (b # bs) p =
     (case write_raw c into b p of
        (Some e, p1) \<Rightarrow> (Some e, length b, p1)
      | (None, p1) \<Rightarrow> (case copy_blocks c into bs p1 of (e, n, p2) \<Rightarrow> (e, length b + n, p2)))"

definition refused :: "string \<Rightarrow> nat \<Rightarrow> bool \<Rightarrow> gerr \<Rightarrow> pack_run" where
  "refused written taken drained e =
     \<lparr>pr_written = written, pr_answer = Inl e, pr_taken = taken, pr_drained = drained\<rparr>"

text \<open>The encoders closed after a failure: what they still write goes out, their errors are dropped.\<close>

definition close_sealed :: "('z, 'a) codec \<Rightarrow> sink \<Rightarrow> ('z, 'a) piping \<Rightarrow> gerr option \<times> ('z, 'a) piping" where
  "close_sealed c into p = write_out into (ag_close c (pp_ag p)) p"

definition abandon :: "('z, 'a) codec \<Rightarrow> sink \<Rightarrow> ('z, 'a) piping \<Rightarrow> string" where
  "abandon c into p =
     pp_written (snd (close_sealed c into (snd (write_sealed c into (zs_close c (pp_zs p)) p))))"

definition close_all :: "('z, 'a) codec \<Rightarrow> (string \<Rightarrow> string) \<Rightarrow> string list \<Rightarrow> sink \<Rightarrow> nat \<Rightarrow> ('z, 'a) piping \<Rightarrow> pack_run" where
  "close_all c sha256 steps_applied into taken p =
     (case write_sealed c into (zs_close c (pp_zs p)) p of
        (Some e, p1) \<Rightarrow>
          refused (pp_written (snd (close_sealed c into p1))) taken True (errorf ''finish the compression'' e)
      | (None, p1) \<Rightarrow>
          (case close_sealed c into p1 of
             (Some e, p2) \<Rightarrow> refused (pp_written p2) taken True (errorf ''finish the encryption'' e)
           | (None, p2) \<Rightarrow>
               \<lparr>pr_written = pp_written p2,
                pr_answer = Inr \<lparr>pk_raw_bytes = int (length (pp_raw p2)), pk_stored_bytes = int (length (pp_stored p2)),
                  pk_sha_raw = sha256 (pp_raw p2), pk_sha_stored = sha256 (pp_stored p2), pk_pipeline = steps_applied\<rparr>,
                pr_taken = taken, pr_drained = True\<rparr>))"

definition pipeline_copy ::
  "('z, 'a) codec \<Rightarrow> (string \<Rightarrow> string) \<Rightarrow> string list \<Rightarrow> reader \<Rightarrow> sink \<Rightarrow> ('z, 'a) piping \<Rightarrow> pack_run" where
  "pipeline_copy c sha256 steps_applied from into p =
     (case copy_blocks c into (blocks (fst from)) p of
        (Some e, taken, p1) \<Rightarrow> refused (abandon c into p1) taken False (errorf ''stream the dump'' e)
      | (None, taken, p1) \<Rightarrow>
          (case snd from of
             Some e \<Rightarrow> refused (abandon c into p1) taken True (errorf ''stream the dump'' e)
           | None \<Rightarrow> close_all c sha256 steps_applied into taken p1))"

text \<open>\<open>Encrypt\<close>: the age writer writes its header when it starts. An error comes with what was written.\<close>

definition encrypt_into ::
  "('z, 'a) codec \<Rightarrow> sink \<Rightarrow> recipients \<Rightarrow> string \<times> gerr + (unit, 'a) piping" where
  "encrypt_into c into to =
     (if rc_keys to = [] then Inl ([], errors_new ''encrypt: no recipient, and koffr does not encrypt for nobody'')
      else case ag_start c (rc_keys to) of
        Inl e \<Rightarrow> Inl ([], errorf (''encrypt for '' @ dec (length (rc_keys to)) @ '' recipients'') e)
      | Inr (header, ag) \<Rightarrow>
          (case write_out into header \<lparr>pp_written = [], pp_stored = [], pp_raw = [], pp_zs = (), pp_ag = ag\<rparr> of
             (Some e, p) \<Rightarrow> Inl (pp_written p, errorf (''encrypt for '' @ dec (length (rc_keys to)) @ '' recipients'') e)
           | (None, p) \<Rightarrow> Inr p))"

definition pipeline_run ::
  "('z, 'a) codec \<Rightarrow> (string \<Rightarrow> string) \<Rightarrow> string list \<Rightarrow> recipients \<Rightarrow> int \<Rightarrow> reader \<Rightarrow> sink \<Rightarrow> pack_run" where
  "pipeline_run c sha256 steps_applied to level from into =
     (if rc_keys to = [] then
        refused [] 0 False (errors_new ''run the pipeline: no recipient, and koffr does not encrypt for nobody'')
      else case encrypt_into c into to of
        Inl (out, e) \<Rightarrow> refused out 0 False e
      | Inr p0 \<Rightarrow>
          (case zs_start c (level_of level) of
             Inl e \<Rightarrow> refused (pp_written p0) 0 False (errorf ''start the compression'' e)
           | Inr zs \<Rightarrow>
               pipeline_copy c sha256 steps_applied from into
                 \<lparr>pp_written = pp_written p0, pp_stored = pp_stored p0, pp_raw = [], pp_zs = zs, pp_ag = pp_ag p0\<rparr>))"

text \<open>\<open>pipelinePacker\<close> of \<open>internal/cli/backup.go\<close>.\<close>

definition pipeline_steps :: "string list" where
  "pipeline_steps = [''zstd:3'', ''age:x25519'']"

definition pipeline_pack ::
  "('z, 'a) codec \<Rightarrow> (string \<Rightarrow> string) \<Rightarrow> recipients \<Rightarrow> reader \<Rightarrow> sink \<Rightarrow> pack_run" where
  "pipeline_pack c sha256 to from into =
     (let done = pipeline_run c sha256 pipeline_steps to 0 from into
      in done\<lparr>pr_answer := map_sum (errorf ''compress and encrypt'') (\<lambda>p. p) (pr_answer done)\<rparr>)"

section \<open>The contract of a packer\<close>

text \<open>
  What a backup relies on: a packer that answers without an error has read a dump to its end, its two
  sizes and fingerprints are those of the dump and of every byte that reached the destination, and it
  never writes more than the destination takes.
\<close>

locale packer =
  fixes pack :: "reader \<Rightarrow> sink \<Rightarrow> pack_run" and sha256 :: "string \<Rightarrow> string" and applied :: "string list"
  assumes pack_whole: "pr_answer (pack (b, e) into) = Inr p
      \<Longrightarrow> e = None \<and> pr_drained (pack (b, e) into) \<and> pr_taken (pack (b, e) into) = length b
        \<and> pk_raw_bytes p = int (length b) \<and> pk_sha_raw p = sha256 b
        \<and> pk_stored_bytes p = int (length (pr_written (pack (b, e) into)))
        \<and> pk_sha_stored p = sha256 (pr_written (pack (b, e) into)) \<and> pk_pipeline p = applied"
    and pack_taken: "pr_taken (pack (b, e) into) \<le> length b"
    and pack_fits: "length (pr_written (pack (b, e) (Some (n, x)))) \<le> n"
begin

lemma whole_stream:
  "pr_answer (pack r into) = Inr p \<Longrightarrow> take (pr_taken (pack r into)) (fst r) = fst r \<and> snd r = None"
  using pack_whole[of "fst r" "snd r" into p] by simp

end

lemma write_out_result:
  assumes "write_out into bytes p = (e, p')"
  shows "e = None \<Longrightarrow> pp_written p' = pp_written p @ bytes \<and> pp_stored p' = pp_stored p @ bytes"
    "pp_raw p' = pp_raw p" "pp_zs p' = pp_zs p" "pp_ag p' = pp_ag p"
    "into = Some (n, x) \<Longrightarrow> length (pp_written p) \<le> n \<Longrightarrow> length (pp_written p') \<le> n"
  using assms by (auto simp: write_out_def split: option.splits if_splits)

lemma write_sealed_result:
  assumes "write_sealed c into bytes p = (e, p')"
  shows "e = None \<Longrightarrow> pp_written p = pp_stored p \<Longrightarrow> pp_written p' = pp_stored p'"
    "pp_raw p' = pp_raw p" "into = Some (n, x) \<Longrightarrow> length (pp_written p) \<le> n \<Longrightarrow> length (pp_written p') \<le> n"
proof -
  obtain out ag where a: "ag_write c (pp_ag p) bytes = (out, ag)" by fastforce
  have w: "write_out into out (p\<lparr>pp_ag := ag\<rparr>) = (e, p')" using assms a by (simp add: write_sealed_def)
  note r = write_out_result[OF w]
  show "e = None \<Longrightarrow> pp_written p = pp_stored p \<Longrightarrow> pp_written p' = pp_stored p'" using r(1) by simp
  show "pp_raw p' = pp_raw p" using r(2) by simp
  show "into = Some (n, x) \<Longrightarrow> length (pp_written p) \<le> n \<Longrightarrow> length (pp_written p') \<le> n" using r(5) by simp
qed

lemma write_raw_result:
  assumes "write_raw c into bytes p = (e, p')"
  shows "e = None \<Longrightarrow> pp_written p = pp_stored p \<Longrightarrow> pp_written p' = pp_stored p' \<and> pp_raw p' = pp_raw p @ bytes"
    "into = Some (n, x) \<Longrightarrow> length (pp_written p) \<le> n \<Longrightarrow> length (pp_written p') \<le> n"
proof -
  obtain out zs where a: "zs_write c (pp_zs p) bytes = (out, zs)" by fastforce
  obtain f p1 where w: "write_sealed c into out (p\<lparr>pp_zs := zs\<rparr>) = (f, p1)" by fastforce
  note r = write_sealed_result[OF w]
  show "e = None \<Longrightarrow> pp_written p = pp_stored p \<Longrightarrow> pp_written p' = pp_stored p' \<and> pp_raw p' = pp_raw p @ bytes"
    using assms a w r(1,2) by (auto simp: write_raw_def split: option.splits)
  show "into = Some (n, x) \<Longrightarrow> length (pp_written p) \<le> n \<Longrightarrow> length (pp_written p') \<le> n"
    using assms a w r(3) by (auto simp: write_raw_def split: option.splits)
qed

lemma copy_blocks_result:
  "copy_blocks c into bs p = (e, n, p') \<Longrightarrow> n \<le> length (concat bs)
    \<and> (e = None \<longrightarrow> n = length (concat bs) \<and> (pp_written p = pp_stored p \<longrightarrow>
        pp_written p' = pp_stored p' \<and> pp_raw p' = pp_raw p @ concat bs))
    \<and> (\<forall>m x. into = Some (m, x) \<longrightarrow> length (pp_written p) \<le> m \<longrightarrow> length (pp_written p') \<le> m)"
proof (induction bs arbitrary: p n)
  case Nil
  then show ?case by simp
next
  case (Cons b bs)
  obtain f p1 where w: "write_raw c into b p = (f, p1)" by fastforce
  note r = write_raw_result[OF w]
  show ?case
  proof (cases f)
    case (Some x)
    with Cons.prems w r(2) show ?thesis by auto
  next
    case None
    obtain n2 where cb: "copy_blocks c into bs p1 = (e, n2, p')" "n = length b + n2"
      using Cons.prems w None by (auto split: prod.splits)
    from Cons.IH[OF cb(1)] cb(2) r None show ?thesis by auto
  qed
qed

lemma concat_blocks [simp]: "concat (blocks s) = s"
proof (induction s rule: blocks.induct)
  case (1 s)
  then show ?case by (cases "s = []") (simp_all add: blocks.simps[of s] blocks.simps[of "[]"])
qed

lemma abandon_fits: "into = Some (n, x) \<Longrightarrow> length (pp_written p) \<le> n \<Longrightarrow> length (abandon c into p) \<le> n"
proof -
  assume h: "into = Some (n, x)" "length (pp_written p) \<le> n"
  obtain e p1 where a: "write_sealed c into (zs_close c (pp_zs p)) p = (e, p1)" by fastforce
  obtain f p2 where b: "write_out into (ag_close c (pp_ag p1)) p1 = (f, p2)" by fastforce
  show ?thesis
    using write_out_result(5)[OF b h(1)] write_sealed_result(3)[OF a h] a b by (simp add: abandon_def close_sealed_def)
qed

lemma close_all_result:
  assumes "pp_written p = pp_stored p"
  shows "pr_answer (close_all c sha ss into taken p) = Inr k \<Longrightarrow>
      k = \<lparr>pk_raw_bytes = int (length (pp_raw p)), pk_stored_bytes = int (length (pr_written (close_all c sha ss into taken p))),
        pk_sha_raw = sha (pp_raw p), pk_sha_stored = sha (pr_written (close_all c sha ss into taken p)), pk_pipeline = ss\<rparr>"
    "pr_taken (close_all c sha ss into taken p) = taken" "pr_drained (close_all c sha ss into taken p)"
    "into = Some (n, x) \<Longrightarrow> length (pp_written p) \<le> n \<Longrightarrow> length (pr_written (close_all c sha ss into taken p)) \<le> n"
proof -
  obtain e p1 where a: "write_sealed c into (zs_close c (pp_zs p)) p = (e, p1)" by fastforce
  obtain f p2 where b: "write_out into (ag_close c (pp_ag p1)) p1 = (f, p2)" by fastforce
  note ra = write_sealed_result[OF a] and rb = write_out_result[OF b]
  show "pr_answer (close_all c sha ss into taken p) = Inr k \<Longrightarrow>
      k = \<lparr>pk_raw_bytes = int (length (pp_raw p)), pk_stored_bytes = int (length (pr_written (close_all c sha ss into taken p))),
        pk_sha_raw = sha (pp_raw p), pk_sha_stored = sha (pr_written (close_all c sha ss into taken p)), pk_pipeline = ss\<rparr>"
    using a b ra(1,2) rb(1,2) assms by (auto simp: close_all_def close_sealed_def refused_def split: option.splits)
  show "pr_taken (close_all c sha ss into taken p) = taken" "pr_drained (close_all c sha ss into taken p)"
    using a b by (auto simp: close_all_def close_sealed_def refused_def split: option.splits)
  show "into = Some (n, x) \<Longrightarrow> length (pp_written p) \<le> n \<Longrightarrow> length (pr_written (close_all c sha ss into taken p)) \<le> n"
    using a b ra(3) rb(5) by (auto simp: close_all_def close_sealed_def refused_def split: option.splits)
qed

definition keeps_law :: "(string \<Rightarrow> string) \<Rightarrow> string list \<Rightarrow> reader \<Rightarrow> sink \<Rightarrow> pack_run \<Rightarrow> bool" where
  "keeps_law sha ss from into out \<longleftrightarrow>
     (\<forall>k. pr_answer out = Inr k \<longrightarrow> snd from = None \<and> pr_drained out \<and> pr_taken out = length (fst from)
        \<and> k = \<lparr>pk_raw_bytes = int (length (fst from)), pk_stored_bytes = int (length (pr_written out)),
             pk_sha_raw = sha (fst from), pk_sha_stored = sha (pr_written out), pk_pipeline = ss\<rparr>)
     \<and> pr_taken out \<le> length (fst from)
     \<and> (\<forall>n x. into = Some (n, x) \<longrightarrow> length (pr_written out) \<le> n)"

lemma refused_law: "taken \<le> length (fst from) \<Longrightarrow> (\<And>n x. into = Some (n, x) \<Longrightarrow> length written \<le> n)
    \<Longrightarrow> keeps_law sha ss from into (refused written taken drained e)"
  by (simp add: keeps_law_def refused_def)

lemma pipeline_copy_law:
  assumes "pp_written p = pp_stored p" "pp_raw p = []" "\<And>n x. into = Some (n, x) \<Longrightarrow> length (pp_written p) \<le> n"
  shows "keeps_law sha ss from into (pipeline_copy c sha ss from into p)"
proof -
  obtain e taken p1 where cb: "copy_blocks c into (blocks (fst from)) p = (e, taken, p1)" by (metis prod_cases3)
  note r = copy_blocks_result[OF cb]
  have fit: "length (pp_written p1) \<le> n" if "into = Some (n, x)" for n x using r assms(3)[OF that] that by blast
  show ?thesis
  proof (cases e)
    case (Some x)
    have "keeps_law sha ss from into (refused (abandon c into p1) taken False (errorf ''stream the dump'' x))"
      using r abandon_fits[OF _ fit] by (intro refused_law) auto
    with cb Some show ?thesis by (simp add: pipeline_copy_def)
  next
    case None
    with r assms have p1: "pp_written p1 = pp_stored p1" "pp_raw p1 = fst from" "taken = length (fst from)" by auto
    show ?thesis
    proof (cases "snd from")
      case (Some x)
      have "keeps_law sha ss from into (refused (abandon c into p1) taken True (errorf ''stream the dump'' x))"
        using r abandon_fits[OF _ fit] by (intro refused_law) auto
      with cb None Some show ?thesis by (simp add: pipeline_copy_def)
    next
      case s: None
      show ?thesis
        using cb None s p1 close_all_result[OF p1(1), where c = c and sha = sha and ss = ss and into = into and taken = taken] fit
        by (auto simp: pipeline_copy_def keeps_law_def)
    qed
  qed
qed

lemma pipeline_run_law: "keeps_law sha ss from into (pipeline_run c sha ss to level from into)"
proof -
  have none: "keeps_law sha ss from into (refused [] 0 False e)" for e by (rule refused_law) simp_all
  show ?thesis
  proof (cases "rc_keys to = [] \<or> (\<exists>e. ag_start c (rc_keys to) = Inl e)")
    case True
    with none show ?thesis by (auto simp: pipeline_run_def encrypt_into_def)
  next
    case False
    then obtain header ag where ag: "ag_start c (rc_keys to) = Inr (header, ag)"
      by (cases "ag_start c (rc_keys to)") auto
    let ?p = "\<lparr>pp_written = [], pp_stored = [], pp_raw = [], pp_zs = (), pp_ag = ag\<rparr>"
    obtain f p0 where w: "write_out into header ?p = (f, p0)" by fastforce
    note r = write_out_result[OF w]
    have fit: "length (pp_written p0) \<le> n" if "into = Some (n, x)" for n x using r(5)[OF that] by simp
    have ref: "keeps_law sha ss from into (refused (pp_written p0) 0 False e)" for e
      by (rule refused_law) (use fit in auto)
    show ?thesis
    proof (cases "f = None \<and> (\<exists>zs. zs_start c (level_of level) = Inr zs)")
      case True
      then obtain zs where zs: "f = None" "zs_start c (level_of level) = Inr zs" by blast
      let ?q = "\<lparr>pp_written = pp_written p0, pp_stored = pp_stored p0, pp_raw = [], pp_zs = zs, pp_ag = ag\<rparr>"
      have "keeps_law sha ss from into (pipeline_copy c sha ss from into ?q)"
        by (rule pipeline_copy_law) (use r(1) zs fit in auto)
      moreover have "pp_ag p0 = ag" using w by (auto simp: write_out_def split: option.splits if_splits)
      ultimately show ?thesis using False ag w zs by (simp add: pipeline_run_def encrypt_into_def)
    next
      case no: False
      with False ag w ref show ?thesis by (auto simp: pipeline_run_def encrypt_into_def split: option.splits sum.splits)
    qed
  qed
qed

lemma pipeline_pack_law: "keeps_law sha pipeline_steps from into (pipeline_pack c sha to from into)"
  using pipeline_run_law[of sha pipeline_steps "from" into c to 0]
  by (auto simp: keeps_law_def pipeline_pack_def Let_def map_sum_def split: sum.splits)

interpretation piped: packer "pipeline_pack c sha256 recipients" sha256 pipeline_steps for c sha256 recipients
proof
  fix b e into p
  assume "pr_answer (pipeline_pack c sha256 recipients (b, e) into) = Inr p"
  with pipeline_pack_law[of sha256 "(b, e)" into c recipients]
  show "e = None \<and> pr_drained (pipeline_pack c sha256 recipients (b, e) into)
      \<and> pr_taken (pipeline_pack c sha256 recipients (b, e) into) = length b
      \<and> pk_raw_bytes p = int (length b) \<and> pk_sha_raw p = sha256 b
      \<and> pk_stored_bytes p = int (length (pr_written (pipeline_pack c sha256 recipients (b, e) into)))
      \<and> pk_sha_stored p = sha256 (pr_written (pipeline_pack c sha256 recipients (b, e) into))
      \<and> pk_pipeline p = pipeline_steps"
    by (auto simp: keeps_law_def)
next
  fix b e into
  show "pr_taken (pipeline_pack c sha256 recipients (b, e) into) \<le> length b"
    using pipeline_pack_law[of sha256 "(b, e)" into c recipients] by (simp add: keeps_law_def)
next
  fix b e n x
  show "length (pr_written (pipeline_pack c sha256 recipients (b, e) (Some (n, x)))) \<le> n"
    using pipeline_pack_law[of sha256 "(b, e)" "Some (n, x)" c recipients] by (simp add: keeps_law_def)
qed

end
