(* ===== verification/Backup_Archive.thy ===== *)
theory Backup_Archive
  imports Backup_Safety Pipeline
begin

text \<open>
  What a successful backup leaves on its destinations, when they are directories and the packer is the
  pipeline: the laws of both interfaces carried through the use case.
\<close>

section \<open>What lies on a destination\<close>

declare split_paired_All [simp del] split_paired_Ex [simp del]

definition on_directory :: "os destination \<Rightarrow> bool" where
  "on_directory d \<longleftrightarrow> (\<exists>root. ds_store d = filesystem root)"

definition lies :: "os destination \<Rightarrow> string \<Rightarrow> string option \<Rightarrow> bool" where
  "lies d path b \<longleftrightarrow> (\<exists>root. ds_store d = filesystem root \<and> held_file (ds_state d) (resolve root path) = b)"

definition fair_name :: "string \<Rightarrow> bool" where
  "fair_name path \<longleftrightarrow> (\<forall>root. \<not> own_name (resolve root path))"

lemma written_lies:
  assumes "on_directory d" "fair_name path" "so_write (ds_store d) path (b, e) (ds_state d) = ((Inr n, k), t)"
  shows "lies (d\<lparr>ds_state := t\<rparr>) path (Some b)" "e = None" "k = length b"
proof -
  from assms(1) obtain root where r: "ds_store d = filesystem root" by (auto simp: on_directory_def)
  have w: "so_write (filesystem root) path (b, e) (ds_state d) = ((Inr n, k), t)" using assms(3) r by simp
  have "\<not> own_name (resolve root path)" using assms(2) by (simp add: fair_name_def)
  from fs.write_whole[OF w this] show "lies (d\<lparr>ds_state := t\<rparr>) path (Some b)" "e = None" "k = length b"
    using r by (auto simp: lies_def)
qed

lemma written_keeps:
  assumes "on_directory d" "fair_name path" "fair_name other" "\<And>root. resolve root path \<noteq> resolve root other"
    "so_write (ds_store d) path src (ds_state d) = (answer, t)"
    "lies d other b"
  shows "lies (d\<lparr>ds_state := t\<rparr>) other b"
proof -
  from assms(6) obtain root where r: "ds_store d = filesystem root" "held_file (ds_state d) (resolve root other) = b"
    by (auto simp: lies_def)
  have w: "so_write (filesystem root) path src (ds_state d) = (answer, t)" using assms(5) r(1) by simp
  have n: "\<not> own_name (resolve root path)" "\<not> own_name (resolve root other)" using assms(2,3) by (simp_all add: fair_name_def)
  have "resolve root other \<noteq> resolve root path" using assms(4)[of root] by simp
  from fs.write_frame[OF w n(1) this n(2)] r show ?thesis by (auto simp: lies_def)
qed

lemma read_keeps:
  assumes "on_directory d" "so_read (ds_store d) path (ds_state d) = (got, t)" "lies d other b"
  shows "lies (d\<lparr>ds_state := t\<rparr>) other b"
proof -
  from assms(3) obtain root where r: "ds_store d = filesystem root" "held_file (ds_state d) (resolve root other) = b"
    by (auto simp: lies_def)
  have w: "so_read (filesystem root) path (ds_state d) = (got, t)" using assms(2) r(1) by simp
  from fs.read_frame[OF w, of "resolve root other"] r show ?thesis by (auto simp: lies_def)
qed

lemma read_lies:
  assumes "so_read (ds_store d) path (ds_state d) = (Inr (bytes, None), t)" "lies d path b"
  shows "b = Some bytes"
proof -
  from assms(2) obtain root where r: "ds_store d = filesystem root" "held_file (ds_state d) (resolve root path) = b"
    by (auto simp: lies_def)
  with fs.read_held[of root path "ds_state d" bytes t] assms(1) show ?thesis by simp
qed

section \<open>Sending\<close>

lemma on_directory_state [simp]: "on_directory (d\<lparr>ds_state := t\<rparr>) = on_directory d"
  by (simp add: on_directory_def)

lemma staged_reader_whole:
  assumes "node_at s temp = Some (File c m)" "staged_reader temp s = ((b, None), s')"
  shows "b = c" "node_at s' q = node_at s q"
  using assms by (auto simp: staged_reader_def Let_def os_call_frame(3) split: prod.splits option.splits)

lemma staged_reader_frame: "staged_reader temp s = (r, s') \<Longrightarrow> node_at s' q = node_at s q"
  by (auto simp: staged_reader_def Let_def os_call_frame(3) split: prod.splits option.splits)

lemma send_staged_lies:
  "send_staged path temp ds s = (None, ds', s') \<Longrightarrow> \<forall>d \<in> set ds. on_directory d \<Longrightarrow> fair_name path
    \<Longrightarrow> node_at s temp = Some (File c m) \<Longrightarrow> \<forall>d \<in> set ds'. on_directory d \<and> lies d path (Some c)"
proof (induction ds arbitrary: s ds' s')
  case Nil
  then show ?case by simp
next
  case (Cons d ds)
  obtain e s1 where t: "os_touch s = (e, s1)" by fastforce
  obtain b f s2 where r: "staged_reader temp s1 = ((b, f), s2)" by (metis surj_pair)
  obtain a k st where w: "so_write (ds_store d) path (b, f) (ds_state d) = ((a, k), st)" by (metis surj_pair)
  from Cons.prems(1) t r w have e: "e = None" by (auto split: option.splits)
  from Cons.prems(1) t r w e obtain n where a: "a = Inr n" by (cases a) auto
  from Cons.prems(1) t r w e a obtain ds2 where
    rec: "send_staged path temp ds s2 = (None, ds2, s')" and ds': "ds' = d\<lparr>ds_state := st\<rparr> # ds2"
    by (auto split: prod.splits)
  have d: "on_directory d" using Cons.prems(2) by simp
  note wl = written_lies[OF d Cons.prems(3) w[unfolded a]]
  have n1: "node_at s1 temp = Some (File c m)" using touch_frame(2)[OF t] Cons.prems(4) by simp
  from wl(2) r have "b = c" using staged_reader_whole(1)[OF n1] by simp
  moreover have "node_at s2 temp = Some (File c m)" using staged_reader_frame[OF r] n1 by simp
  ultimately show ?case using Cons.IH[OF rec _ Cons.prems(3)] Cons.prems(2) wl(1) d unfolding ds' by simp
qed

lemma deposit_lies:
  "deposit beside m ds = (None, ds') \<Longrightarrow> \<forall>d \<in> set ds. on_directory d \<and> lies d path b \<Longrightarrow> fair_name beside \<Longrightarrow> fair_name path
    \<Longrightarrow> (\<And>root. resolve root beside \<noteq> resolve root path)
    \<Longrightarrow> \<forall>d \<in> set ds'. lies d path b \<and> lies d beside (Some m)"
proof (induction ds arbitrary: ds')
  case Nil
  then show ?case by simp
next
  case (Cons d ds)
  obtain a k st where w: "so_write (ds_store d) beside (m, None) (ds_state d) = ((a, k), st)" by (metis surj_pair)
  from Cons.prems(1) w obtain n where a: "a = Inr n" by (cases a) auto
  from Cons.prems(1) w a obtain ds2 where
    rec: "deposit beside m ds = (None, ds2)" and ds': "ds' = d\<lparr>ds_state := st\<rparr> # ds2"
    by (auto split: prod.splits)
  have d: "on_directory d" "lies d path b" using Cons.prems(2) by simp_all
  have "lies (d\<lparr>ds_state := st\<rparr>) beside (Some m)" by (rule written_lies(1)[OF d(1) Cons.prems(3) w[unfolded a]])
  moreover have "lies (d\<lparr>ds_state := st\<rparr>) path b"
    by (rule written_keeps[OF d(1) Cons.prems(3,4,5) w d(2)])
  ultimately show ?case using Cons.IH[OF rec _ Cons.prems(3,4,5)] Cons.prems(2) unfolding ds' by simp
qed

lemma staging_file_empty: "staging_file sd job s = (Inr temp, s1) \<Longrightarrow> \<exists>m. node_at s1 temp = Some (File [] m)"
  by (auto simp: staging_file_def Let_def split: prod.splits sum.splits dest!: trunc_frame(4))

text \<open>What the middle of a successful backup did: one run of the packer over the whole dump.\<close>

lemma dump_and_write_lies:
  assumes dw: "dump_and_write wi q resolution watch md path r w = (Inr p, r', w', seen)"
    and ds: "\<forall>d \<in> set (wo_destinations w). on_directory d" and fair: "fair_name path"
  obtains dump into where
    "wi_dumper wi resolution q = Inr dump"
    "pr_answer (wi_pack wi (watched watch (dh_reader dump)) into) = Inr p"
    "dh_close dump (pr_drained (wi_pack wi (watched watch (dh_reader dump)) into)) = None"
    "seen = take (pr_taken (wi_pack wi (watched watch (dh_reader dump)) into)) (fst (watched watch (dh_reader dump)))"
    "\<forall>d \<in> set (wo_destinations w'). on_directory d
       \<and> lies d path (Some (pr_written (wi_pack wi (watched watch (dh_reader dump)) into)))"
proof -
  from dw obtain dump where dump: "wi_dumper wi resolution q = Inr dump"
    by (cases "wi_dumper wi resolution q") (auto simp: dump_and_write_def)
  let ?from = "watched watch (dh_reader dump)"
  let ?r1 = "mark [StepDump] r"
  let ?w1 = "journal q StepDump None [(''staging'', FString (mode_name md)),
      (''staging_reason'', FString (jr_staging_reason r)), (''tool'', FString (rs_tool_path resolution))] w"
  consider (st) "stage wi q dump watch path ?r1 ?w1 = (Inr p, r', w', seen)"
    | (sr) "stream wi q dump watch path ?r1 ?w1 = (Inr p, r', w', seen)"
    using dw dump by (auto simp: dump_and_write_def Let_def split: if_splits)
  then show thesis
  proof cases
    case st
    obtain a s1 where sf: "staging_file (wi_state_directory wi) (rq_job q) (wo_os ?w1) = (a, s1)" by fastforce
    from st sf obtain temp where a: "a = Inr temp" by (cases a) (auto simp: stage_def)
    have "\<exists>m. node_at s1 temp = Some (File [] m)" by (rule staging_file_empty[OF sf[unfolded a]])
    then obtain m0 where tn: "node_at s1 temp = Some (File [] m0)" by blast
    obtain ans r2 w2 sn where fl: "stage_filled wi q dump watch path temp ?r1 (on_os s1 ?w1) = (ans, r2, w2, sn)"
      by (metis prod_cases4)
    from st sf a fl have e: "ans = Inr p" "sn = seen" "w' = discard_staging temp w2" by (auto simp: stage_def)
    obtain fault s2 where os: "os_call s1 = (fault, s2)" by fastforce
    let ?into = "map_option (\<lambda>(e, n). (n, e)) fault"
    let ?run = "wi_pack wi ?from ?into"
    let ?w2 = "on_os (append_node temp (pr_written ?run) s2) (on_os s1 ?w1)"
    obtain dd r3 w3 where dd: "dump_died q (dh_close dump (pr_drained ?run)) ?r1 ?w2 = (dd, r3, w3)" by (metis prod_cases3)
    from fl e os dd have cl: "dd = None" by (auto simp: stage_filled_def Let_def split: option.splits)
    then have cl': "dh_close dump (pr_drained ?run) = None" "w3 = ?w2" using dd by (auto simp: dump_died_def split: option.splits)
    from fl e os dd cl obtain pk where pk: "pr_answer ?run = Inr pk"
      by (cases "pr_answer ?run") (auto simp: stage_filled_def Let_def)
    obtain f ds2 s3 where sd: "send_staged path temp (wo_destinations w3) (wo_os w3) = (f, ds2, s3)" by (metis prod_cases3)
    from fl e os dd cl pk sd have fin: "f = None" "pk = p" "wo_destinations w2 = ds2"
      "seen = take (pr_taken ?run) (fst ?from)"
      by (auto simp: stage_filled_def Let_def split: option.splits)
    have "node_at (wo_os w3) temp = Some (File (pr_written ?run) (os_now s2))"
      using tn os_call_frame(3)[OF os, of temp] by (simp add: cl'(2) append_node_def)
    from send_staged_lies[OF sd[unfolded fin(1)] _ fair this] ds cl'(2)
    have "\<forall>d \<in> set (wo_destinations w'). on_directory d \<and> lies d path (Some (pr_written ?run))"
      by (simp add: e(3) fin(3))
    with that[OF dump] pk fin cl' show thesis by blast
  next
    case sr
    then obtain d where d: "wo_destinations w = [d]" by (auto simp: stream_def split: list.splits)
    let ?full = "wi_pack wi ?from None"
    obtain sa taken t where sw: "so_write (ds_store d) path (pr_written ?full, err_of (pr_answer ?full)) (ds_state d)
        = ((sa, taken), t)" by (metis surj_pair)
    let ?p = "piped_run wi ?from taken (err_of sa)"
    have se: "stream_end q dump ?p (err_of sa) (take (pr_taken ?p) (fst ?from)) ?r1 (?w1\<lparr>wo_destinations := [d\<lparr>ds_state := t\<rparr>]\<rparr>)
        = (Inr p, r', w', seen)"
      using sr by (simp add: stream_def d sw Let_def)
    obtain dd r3 w3 where dd: "dump_died q (dh_close dump (pr_drained ?p)) ?r1 (?w1\<lparr>wo_destinations := [d\<lparr>ds_state := t\<rparr>]\<rparr>) = (dd, r3, w3)"
      by (metis prod_cases3)
    from se dd have ddn: "dd = None" by (auto simp: stream_end_def split: option.splits)
    then have cl: "dh_close dump (pr_drained ?p) = None" using dd by (auto simp: dump_died_def split: option.splits)
    from se dd ddn have jn: "errors_join [err_of (pr_answer ?p), err_of sa] = None" "pr_answer ?p = Inr p"
      "seen = take (pr_taken ?p) (fst ?from)"
      by (auto simp: stream_end_def simp del: errors_join.simps split: option.splits sum.splits)
    from jn(1) have "err_of sa = None" by (simp only: errors_join_None_iff) simp
    then obtain n where sa: "sa = Inr n" by (auto simp: err_of_def split: sum.splits)
    have od: "on_directory d" using ds d by simp
    note wl = written_lies[OF od fair sw[unfolded sa]]
    have full: "?p = ?full" using wl(3) by (simp add: piped_run_def)
    have "\<forall>d \<in> set (wo_destinations w'). on_directory d \<and> lies d path (Some (pr_written ?full))"
      using stream_end_world[OF se] wl(1) od by simp
    with that[OF dump, of None] jn cl full show thesis by simp
  qed
qed

section \<open>What a success leaves behind\<close>

lemma archive_fair:
  assumes "segment_ok dump"
  shows "fair_name (archive_path database at ident (archive_extension dump pipeline))"
    and "fair_name (archive_path database at ident (archive_extension dump pipeline) @ manifest_suffix)"
    and "resolve root (archive_path database at ident (archive_extension dump pipeline) @ manifest_suffix)
      \<noteq> resolve root (archive_path database at ident (archive_extension dump pipeline))"
  using archive_under[OF assms] unfolding fair_name_def manifest_suffix_def Let_def by metis+

lemma run_leaves_a_backup:
  assumes "run wi q w = (r, None, w')"
    and "wi_pack wi = pipeline_pack codec (wi_sha256 wi) to" and "wi_manifester wi \<noteq> None"
    and "\<forall>d \<in> set (wo_destinations w). on_directory d"
    and "\<And>resolution. wi_resolver wi (rq_database q) = Inr resolution \<Longrightarrow> segment_ok (rs_extension resolution)"
  shows "\<exists>resolution dump vf wt detail archive.
      wi_resolver wi (rq_database q) = Inr resolution \<and> wi_dumper wi resolution q = Inr dump
      \<and> snd (dh_reader dump) = None \<and> dh_close dump True = None
      \<and> wi_verifier wi = Some vf \<and> vf resolution = Inr wt
      \<and> wt_conclude wt (fst (dh_reader dump)) = (True, detail)
      \<and> jr_raw_bytes r = int (length (fst (dh_reader dump))) \<and> jr_sha_raw r = wi_sha256 wi (fst (dh_reader dump))
      \<and> jr_stored_bytes r = int (length archive) \<and> jr_sha_stored r = wi_sha256 wi archive
      \<and> wo_destinations w' \<noteq> []
      \<and> (\<forall>d \<in> set (wo_destinations w'). lies d (jr_path r) (Some archive)
          \<and> lies d (jr_path r @ manifest_suffix) (Some (jr_manifest r)))"
proof (rule run_success_parts[OF assms(1)])
  fix resolution vf wt dec p rA wA r2 w2 seen w3 s4
  assume rs: "wi_resolver wi (rq_database q) = Inr resolution" and v: "wi_verifier wi = Some vf" "vf resolution = Inr wt"
    and wA: "wo_destinations wA = wo_destinations w"
    and dw: "dump_and_write wi q resolution (Some wt) (sd_mode dec) (path_for wi q resolution) rA wA = (Inr p, r2, w2, seen)"
    and fr: "finish_run wi q (Some (wt, seen)) p r2 w2 = (r, None, w3)" and w': "w' = on_os s4 w3"
    and pth: "jr_path r2 = path_for wi q resolution"
  let ?path = "path_for wi q resolution"
  note fair = archive_fair[OF assms(5)[OF rs], where database = "rq_database q" and at = "rq_at q"
      and ident = "rq_job q" and pipeline = "wi_pipeline wi", folded path_for_def]
  have dirs: "\<forall>d \<in> set (wo_destinations wA). on_directory d" using assms(4) wA by simp
  show ?thesis
  proof (rule dump_and_write_lies[OF dw dirs fair(1)])
    fix dump :: dump_handle and into
    let ?run = "wi_pack wi (watched (Some wt) (dh_reader dump)) into"
    assume dump: "wi_dumper wi resolution q = Inr dump" and an: "pr_answer ?run = Inr p"
      and cl: "dh_close dump (pr_drained ?run) = None"
      and seen: "seen = take (pr_taken ?run) (fst (watched (Some wt) (dh_reader dump)))"
      and lie: "\<forall>d \<in> set (wo_destinations w2). on_directory d \<and> lies d ?path (Some (pr_written ?run))"
    let ?from = "watched (Some wt) (dh_reader dump)"
    have pw: "snd ?from = None \<and> pr_drained ?run \<and> pr_taken ?run = length (fst ?from)
        \<and> pk_raw_bytes p = int (length (fst ?from)) \<and> pk_sha_raw p = wi_sha256 wi (fst ?from)
        \<and> pk_stored_bytes p = int (length (pr_written ?run)) \<and> pk_sha_stored p = wi_sha256 wi (pr_written ?run)"
      using piped.pack_whole[of codec "wi_sha256 wi" to "fst ?from" "snd ?from" into p] an unfolding assms(2) by simp
    have whole: "?from = dh_reader dump" using pw by (auto simp: watched_def split: option.splits)
    have cl': "dh_close dump True = None" using cl pw by simp
    have sn: "seen = fst (dh_reader dump)" using seen pw whole by simp
    show ?thesis
    proof (rule finish_run_success[OF fr])
      fix detail e es bytes t
      assume f: "wt_conclude wt seen = (True, detail)" "wo_destinations w2 = e # es"
        "so_read (ds_store e) (jr_path r2) (ds_state e) = (Inr (bytes, None), t)"
        "jr_sha_stored r = pk_sha_stored p" "jr_path r = jr_path r2"
        "jr_stored_bytes r = pk_stored_bytes p" "jr_raw_bytes r = pk_raw_bytes p" "jr_sha_raw r = pk_sha_raw p"
        and m: "case wi_manifester wi of None \<Rightarrow> wo_destinations w3 = e\<lparr>ds_state := t\<rparr> # es
          | Some _ \<Rightarrow> deposit (jr_path r2 @ manifest_suffix) (jr_manifest r) (e\<lparr>ds_state := t\<rparr> # es) = (None, wo_destinations w3)"
      have e: "on_directory e" "lies e ?path (Some (pr_written ?run))" using lie f(2) by simp_all
      have "lies (e\<lparr>ds_state := t\<rparr>) ?path (Some (pr_written ?run))" by (rule read_keeps[OF e(1) f(3) e(2)])
      then have all: "\<forall>d \<in> set (e\<lparr>ds_state := t\<rparr> # es). on_directory d \<and> lies d ?path (Some (pr_written ?run))"
        using lie f(2) e(1) by simp
      have dp: "deposit (?path @ manifest_suffix) (jr_manifest r) (e\<lparr>ds_state := t\<rparr> # es) = (None, wo_destinations w3)"
        using m assms(3) pth by auto
      have "\<forall>d \<in> set (wo_destinations w3). lies d ?path (Some (pr_written ?run))
          \<and> lies d (?path @ manifest_suffix) (Some (jr_manifest r))"
        by (rule deposit_lies[OF dp all fair(2,1,3)])
      moreover have "wo_destinations w3 \<noteq> []" using deposit_wiring[OF dp] by (cases "wo_destinations w3") auto
      ultimately show ?thesis
        using rs dump v cl' f pw whole sn w' pth
        by - (rule exI[of _ resolution], rule exI[of _ dump], rule exI[of _ vf], rule exI[of _ wt],
          rule exI[of _ detail], rule exI[of _ "pr_written ?run"], simp)
    qed
  qed
qed

text \<open>
  C1. A backup that reports success is a backup (E-024, P4). Its destinations being directories and its
  packer the pipeline, whatever system calls failed on the way: the dump was read to its end without
  an error and its process ended well, the watcher saw every byte of it and accepted it; every
  destination holds the same archive under the path of the result, whose size and fingerprint are the
  ones of the result, as are those of the dump; and beside it every destination holds the manifest.
\<close>

theorem success_is_a_backup:
  assumes "run wi q w = (r, None, w')"
    and "wi_pack wi = pipeline_pack codec (wi_sha256 wi) to" and "wi_manifester wi \<noteq> None"
    and "\<forall>d \<in> set (wo_destinations w). on_directory d"
    and "\<And>resolution. wi_resolver wi (rq_database q) = Inr resolution \<Longrightarrow> segment_ok (rs_extension resolution)"
  shows "\<exists>resolution dump vf wt detail archive.
      wi_resolver wi (rq_database q) = Inr resolution \<and> wi_dumper wi resolution q = Inr dump
      \<and> snd (dh_reader dump) = None \<and> dh_close dump True = None
      \<and> wi_verifier wi = Some vf \<and> vf resolution = Inr wt
      \<and> wt_conclude wt (fst (dh_reader dump)) = (True, detail)
      \<and> jr_raw_bytes r = int (length (fst (dh_reader dump))) \<and> jr_sha_raw r = wi_sha256 wi (fst (dh_reader dump))
      \<and> jr_stored_bytes r = int (length archive) \<and> jr_sha_stored r = wi_sha256 wi archive
      \<and> wo_destinations w' \<noteq> []
      \<and> (\<forall>d \<in> set (wo_destinations w'). lies d (jr_path r) (Some archive)
          \<and> lies d (jr_path r @ manifest_suffix) (Some (jr_manifest r)))"
  using run_leaves_a_backup [OF assms(1-4)] assms(5) by blast

end
