(* ===== verification/Backup_Failure.thy ===== *)
theory Backup_Failure
  imports Backup_Archive
begin

text \<open>
  What a backup that is refused or fails has not done, and what every backup cleans up.
\<close>

section \<open>A plan and a run\<close>

text \<open>
  C16. A plan says what the run then does (E-103b): when a run succeeds, the plan of the same request over
  the same destinations reports no error, and names the same path, the same staging decision with the
  same reason, the same destinations and the same warnings.
\<close>

theorem plan_predicts_the_run:
  assumes "run wi q w = (r, None, w')"
  shows "\<exists>p. plan wi q w = (p, None) \<and> jr_path p = jr_path r \<and> jr_staging p = jr_staging r
    \<and> jr_staging_reason p = jr_staging_reason r \<and> jr_staging_forced p = jr_staging_forced r
    \<and> jr_destinations p = jr_destinations r \<and> jr_warnings p = jr_warnings r"
proof (rule run_success_parts[OF assms])
  fix resolution vf wt d p rA wA r2 w2 seen w3
  assume rs: "wi_resolver wi (rq_database q) = Inr resolution"
    and d: "decide_for wi (length (wo_destinations w)) (rq_database q) resolution = Inr d"
    and wA: "wo_destinations wA = wo_destinations w"
    and dw: "dump_and_write wi q resolution (Some wt) (sd_mode d) (path_for wi q resolution) rA wA = (Inr p, r2, w2, seen)"
    and r: "jr_staging r = sd_mode d" "jr_staging_reason r = sd_reason d" "jr_staging_forced r = sd_forced d"
      "jr_warnings r = rs_warnings resolution" "jr_path r = path_for wi q resolution" "jr_destinations r = destination_ids w2"
  have "map fst (wiring_of (wo_destinations w2)) = map fst (wiring_of (wo_destinations w))"
    using dump_and_write_wiring[OF dw] wA by simp
  then have "destination_ids w2 = destination_ids w" by (simp add: wiring_of_def destination_ids_def comp_def)
  then show ?thesis using rs d r by (simp add: plan_def Let_def decided_def)
qed

section \<open>A job that is refused\<close>

text \<open>
  A second job on a database is refused before it does anything (E-051): while the lock names a
  living process, a run reports an error, asks nothing of the database, journals nothing, changes no
  destination and no file, and describes no archive.
\<close>

lemma refused_job_touches_nothing:
  assumes "run wi q w = (r, failed, w')" "held_by (wo_os w) (lock_place (wi_state_directory wi) (rq_database q)) = Some h"
  shows "failed \<noteq> None \<and> r = new_result q \<and> wo_journal w' = wo_journal w \<and> wo_destinations w' = wo_destinations w
    \<and> (\<forall>p c m. node_at (wo_os w') p = Some (File c m) \<longleftrightarrow> node_at (wo_os w) p = Some (File c m))"
proof -
  obtain a s1 where ac: "acquire (wi_state_directory wi) (rq_database q) (rq_job q) (rq_at q) (wo_os w) = (a, s1)"
    by fastforce
  from acquire_held[OF assms(2) ac] obtain e where a: "a = Inl e"
    and same: "\<forall>p c m. node_at s1 p = Some (File c m) \<longleftrightarrow> node_at (wo_os w) p = Some (File c m)" by blast
  from assms(1) ac a have "r = new_result q" "failed = Some e" "w' = on_os s1 w" by (auto simp: run_def)
  with same show ?thesis by simp
qed

section \<open>A dump that dies\<close>

lemma dump_and_write_closed:
  assumes "dump_and_write wi q resolution watch md path r w = (Inr p, r', w', seen)"
  shows "\<exists>dump b. wi_dumper wi resolution q = Inr dump \<and> dh_close dump b = None"
proof -
  from assms obtain dump where dump: "wi_dumper wi resolution q = Inr dump"
    by (cases "wi_dumper wi resolution q") (auto simp: dump_and_write_def)
  have filled: "\<exists>b. dh_close dump b = None"
    if "stage_filled wi q dump watch path temp x v = (Inr p, x', v', sn)" for temp x v x' v' sn
    using that by (auto simp: stage_filled_def Let_def dump_died_def split: prod.splits option.splits sum.splits)
  have ended: "\<exists>b. dh_close dump b = None"
    if "stream_end q dump k e sn x v = (Inr p, x', v', sn')" for k e sn x v x' v' sn'
    using that by (auto simp: stream_end_def dump_died_def split: option.splits prod.splits)
  have "\<exists>b. dh_close dump b = None"
    using assms dump by (auto simp: dump_and_write_def stage_def stream_def Let_def dest: filled ended
        split: if_splits sum.splits prod.splits list.splits)
  with dump show ?thesis by blast
qed

text \<open>
  A dump whose process ends badly is never a backup (BKP-25, BKP-27): whatever reached the
  destination, staged or streamed, and whatever the watcher and the destination answer, a run whose
  every dump reports an error when it is closed reports an error.
\<close>

lemma dead_dump_is_never_a_backup:
  assumes "run wi q w = (r, failed, w')"
    and "\<And>resolution dump b. wi_dumper wi resolution q = Inr dump \<Longrightarrow> dh_close dump b \<noteq> None"
  shows "failed \<noteq> None"
proof
  assume "failed = None"
  with assms(1) have "run wi q w = (r, None, w')" by simp
  then show False
  proof (rule run_success_parts)
    fix resolution vf wt d p rA wA r2 w2 seen
    assume "dump_and_write wi q resolution (Some wt) (sd_mode d) (path_for wi q resolution) rA wA = (Inr p, r2, w2, seen)"
    from dump_and_write_closed[OF this] assms(2) show False by blast
  qed
qed

section \<open>What every job cleans up\<close>

declare split_paired_All [simp del] split_paired_Ex [simp del]

lemma split_on_suffix:
  "c \<notin> set b \<Longrightarrow> split_on c (a @ b) = butlast (split_on c a) @ [last (split_on c a) @ b]"
proof (induction a)
  case Nil
  then show ?case by (simp add: split_on_whole)
next
  case (Cons d a)
  obtain x xs where sp: "split_on c a = x # xs" by (cases "split_on c a") auto
  show ?case
  proof (cases "d = c")
    case True
    with Cons sp show ?thesis by simp
  next
    case False
    with Cons sp show ?thesis by (cases xs rule: rev_cases) (auto simp: butlast_append)
  qed
qed

text \<open>A buffer's name ends a path that is no lock.\<close>

lemma buffer_last:
  assumes "has_suffix name staging_suffix"
  shows "\<exists>y. snd (place_join p name) \<noteq> [] \<and> last (snd (place_join p name)) = y @ staging_suffix"
proof -
  from assms obtain a where n: "name = a @ staging_suffix" by (auto simp: has_suffix_def suffix_def)
  have "CHR ''/'' \<notin> set staging_suffix" by (simp add: staging_suffix_def)
  from split_on_suffix[OF this, of a] n obtain xs y where sp: "split_on (CHR ''/'') name = xs @ [y @ staging_suffix]" by metis
  have ne: "staging_suffix \<noteq> []" by (simp add: staging_suffix_def)
  have "y @ staging_suffix \<noteq> ''.'' \<and> y @ staging_suffix \<noteq> ''..''"
    by (cases y; cases "tl y") (auto simp: staging_suffix_def)
  with ne show ?thesis by (simp add: place_join_def sp clean_step_def)
qed

lemma abandoned_suffix: "abandoned_buffer s name \<Longrightarrow> has_suffix name staging_suffix"
  by (auto simp: abandoned_buffer_def owner_of_staging_file_def split: if_splits)

lemma lock_not_buffer: "has_suffix name staging_suffix \<Longrightarrow> lock_place sd db \<noteq> place_join p name"
proof
  assume "has_suffix name staging_suffix" and e: "lock_place sd db = place_join p name"
  from buffer_last[OF this(1), of p] obtain y where "last (snd (lock_place sd db)) = y @ staging_suffix" unfolding e by blast
  then have "safe_segment db @ ''.lock'' = y @ ''.koffr''" by (simp add: lock_place_eq staging_suffix_def)
  then have "last (safe_segment db @ ''.lock'') = last (y @ ''.koffr'')" by (rule arg_cong)
  then show False by simp
qed

lemma staging_suffixed: "has_suffix (staging_file_name pid job) staging_suffix"
  unfolding staging_file_name_def has_suffix_def by (metis append.assoc suffixI)

text \<open>What a piece of a job does to the files: nothing but to buffers.\<close>

definition only_buffers :: "place \<Rightarrow> os \<Rightarrow> os \<Rightarrow> bool" where
  "only_buffers sd s t \<longleftrightarrow> same_machine s t
     \<and> (\<forall>q c m. (\<forall>name. has_suffix name staging_suffix \<longrightarrow> q \<noteq> place_join (staging_dir_place sd) name)
         \<longrightarrow> (node_at t q = Some (File c m) \<longleftrightarrow> node_at s q = Some (File c m)))"

definition no_file :: "os \<Rightarrow> place \<Rightarrow> bool" where
  "no_file s q \<longleftrightarrow> (\<forall>c m. node_at s q \<noteq> Some (File c m))"

lemma only_buffers_refl [simp]: "only_buffers sd s s"
  by (simp add: only_buffers_def)

lemma only_buffers_trans: "only_buffers sd s t \<Longrightarrow> only_buffers sd t u \<Longrightarrow> only_buffers sd s u"
  unfolding only_buffers_def using same_machine_trans by blast

lemma only_buffersI:
  "same_machine s t \<Longrightarrow> (\<And>q. q \<noteq> staging_place sd pid job \<Longrightarrow> node_at t q = node_at s q) \<Longrightarrow> only_buffers sd s t"
  using staging_suffixed[of pid job] by (auto simp: only_buffers_def staging_place_def)

lemma send_staged_os:
  "send_staged path temp ds s = (f, ds', s') \<Longrightarrow> same_machine s s' \<and> (\<forall>q. node_at s' q = node_at s q)"
proof (induction ds arbitrary: s f ds' s')
  case Nil
  then show ?case by simp
next
  case (Cons d ds)
  obtain e s1 where t: "os_touch s = (e, s1)" by fastforce
  obtain b s2 where r: "staged_reader temp s1 = (b, s2)" by fastforce
  obtain a k st where w: "so_write (ds_store d) path b (ds_state d) = ((a, k), st)" by (metis surj_pair)
  obtain f3 ds3 s3 where rec: "send_staged path temp ds s2 = (f3, ds3, s3)" by (metis prod_cases3)
  have r': "same_machine s1 s2"
    using r by (auto simp: staged_reader_def Let_def dest: os_call_frame(1) split: prod.splits option.splits)
  have m2: "same_machine s s2" by (rule same_machine_trans[OF touch_frame(1)[OF t] r'])
  have n2: "node_at s2 q = node_at s q" for q using touch_frame(2)[OF t] staged_reader_frame[OF r] by simp
  from Cons.prems t r w rec have "s' = s1 \<or> s' = s2 \<or> s' = s3" by (auto split: option.splits sum.splits)
  then show ?case using touch_frame[OF t] m2 n2 Cons.IH[OF rec] same_machine_trans by auto
qed

lemma stage_filled_os:
  assumes "stage_filled wi q dump watch path temp r w = (a, r', w', seen)"
  shows "same_machine (wo_os w) (wo_os w')" "x \<noteq> temp \<Longrightarrow> node_at (wo_os w') x = node_at (wo_os w) x"
proof -
  obtain fault s1 where os: "os_call (wo_os w) = (fault, s1)" by fastforce
  let ?run = "wi_pack wi (watched watch (dh_reader dump)) (map_option (\<lambda>(e, n). (n, e)) fault)"
  let ?w1 = "on_os (append_node temp (pr_written ?run) s1) w"
  obtain dd r1 w2 where dd: "dump_died q (dh_close dump (pr_drained ?run)) r ?w1 = (dd, r1, w2)" by (metis prod_cases3)
  have w2: "wo_os w2 = append_node temp (pr_written ?run) s1" using dump_died_world[OF dd] by simp
  have "\<exists>s2. wo_os w' = s2 \<and> same_machine (wo_os w2) s2 \<and> (\<forall>q. node_at s2 q = node_at (wo_os w2) q)"
    using assms os dd by (auto simp: stage_filled_def Let_def dest!: send_staged_os split: option.splits sum.splits prod.splits)
  moreover have "same_machine (wo_os w) (wo_os w2)" using os_call_frame(1)[OF os] by (simp add: w2)
  moreover have "node_at (wo_os w2) x = node_at (wo_os w) x" if "x \<noteq> temp"
    using node_at_append[OF that] os_call_frame(3)[OF os] by (simp add: w2)
  ultimately show "same_machine (wo_os w) (wo_os w')" "x \<noteq> temp \<Longrightarrow> node_at (wo_os w') x = node_at (wo_os w) x"
    using same_machine_trans by auto
qed

lemma stage_os:
  assumes st: "stage wi q dump watch path r w = (a, r', w', seen)" and qt: "quiet (wo_os w)"
    and pid: "os_pid (wo_os w) = pid" and none: "no_file (wo_os w) (staging_place (wi_state_directory wi) pid (rq_job q))"
  shows "only_buffers (wi_state_directory wi) (wo_os w) (wo_os w')"
    "no_file (wo_os w') (staging_place (wi_state_directory wi) pid (rq_job q))"
proof -
  let ?sd = "wi_state_directory wi" and ?t = "staging_place (wi_state_directory wi) pid (rq_job q)"
  obtain mr s0 where mk: "os_mkdir_all (staging_dir_place ?sd) (wo_os w) = (mr, s0)" by fastforce
  have m0: "same_machine (wo_os w) s0" by (rule mkdir_frame(1)[OF mk])
  have b0: "only_buffers ?sd (wo_os w) s0" using m0 mkdir_file[OF mk] by (simp add: only_buffers_def)
  have n0: "no_file s0 ?t" using none mkdir_file[OF mk] by (simp add: no_file_def)
  have p0: "os_pid s0 = pid" using m0 pid by (simp add: same_machine_def)
  obtain cr s1 where tr: "os_create_trunc ?t s0 = (cr, s1)" by fastforce
  have b1: "only_buffers ?sd s0 s1" by (rule only_buffersI[OF trunc_frame(1)[OF tr]]) (rule trunc_frame(2)[OF tr])
  show "only_buffers ?sd (wo_os w) (wo_os w')" "no_file (wo_os w') ?t"
  proof -
    have "only_buffers ?sd (wo_os w) (wo_os w') \<and> no_file (wo_os w') ?t"
    proof (cases "\<exists>e. mr = Inl e \<or> cr = Inl e")
      case True
      have "no_file s1 ?t" if "cr = Inl e" for e
        using trunc_frame(3)[OF tr[unfolded that], of ?t] n0 unfolding no_file_def by simp
      with True st mk tr p0 b0 n0 only_buffers_trans[OF b0 b1] show ?thesis
        by (auto simp: stage_def staging_file_def Let_def split: sum.splits)
    next
      case False
      then obtain u v where ok: "mr = Inr u" "cr = Inr v" by (cases mr; cases cr) auto
      obtain a2 r2 w2 seen2 where fl: "stage_filled wi q dump watch path ?t r (on_os s1 w) = (a2, r2, w2, seen2)"
        by (metis prod_cases4)
      have w': "w' = discard_staging ?t w2" using st mk tr ok p0 fl by (auto simp: stage_def staging_file_def Let_def)
      obtain e3 s3 where t3: "os_touch (wo_os w2) = (e3, s3)" by fastforce
      obtain e4 s4 where t4: "os_remove ?t s3 = (e4, s4)" by fastforce
      have os': "wo_os w' = s4" using w' t3 t4 by (simp add: discard_staging_def)
      note f = stage_filled_os[OF fl]
      have b2: "only_buffers ?sd s1 (wo_os w2)" by (rule only_buffersI) (use f in auto)
      have b3: "only_buffers ?sd (wo_os w2) s3" by (rule only_buffersI) (use touch_frame[OF t3] in auto)
      have b4: "only_buffers ?sd s3 s4" by (rule only_buffersI) (use remove_frame(1,2)[OF t4] in auto)
      have all: "only_buffers ?sd (wo_os w) s3" using b0 b1 b2 b3 only_buffers_trans by blast
      then have "quiet s3" using quiet_same qt by (auto simp: only_buffers_def)
      then have "no_file s4 ?t" using t4 by (auto simp: os_remove_def no_file_def split: option.splits if_splits)
      with os' only_buffers_trans[OF all b4] show ?thesis by simp
    qed
    then show "only_buffers ?sd (wo_os w) (wo_os w')" "no_file (wo_os w') ?t" by blast+
  qed
qed

lemma stream_os: "stream wi q dump watch path r w = (a, r', w', seen) \<Longrightarrow> wo_os w' = wo_os w"
  by (auto simp: stream_def Let_def dest!: stream_end_world split: list.splits prod.splits)

lemma verify_os: "verify_archive wi q watch r w = (a, r', w') \<Longrightarrow> wo_os w' = wo_os w"
  by (auto simp: verify_archive_def conclude_verification_def Let_def
      split: option.splits prod.splits list.splits sum.splits if_splits)

lemma deposit_os: "deposit_manifest wi q r w = (a, r', w') \<Longrightarrow> wo_os w' = wo_os w"
  by (auto simp: deposit_manifest_def Let_def split: option.splits sum.splits prod.splits)

lemma finish_run_os: "finish_run wi q watch p r w = (r', a, w') \<Longrightarrow> wo_os w' = wo_os w"
  by (auto simp: finish_run_def Let_def dest!: verify_os deposit_os split: option.splits prod.splits)

lemma run_locked_os:
  assumes rl: "run_locked wi q w = (r, f, w')" and qt: "quiet (wo_os w)"
    and none: "no_file (wo_os w) (staging_place (wi_state_directory wi) (os_pid (wo_os w)) (rq_job q))"
  shows "only_buffers (wi_state_directory wi) (wo_os w) (wo_os w')"
    "no_file (wo_os w') (staging_place (wi_state_directory wi) (os_pid (wo_os w)) (rq_job q))"
proof -
  let ?sd = "wi_state_directory wi"
  let ?t = "staging_place ?sd (os_pid (wo_os w)) (rq_job q)"
  have refl: "only_buffers ?sd s s \<and> (no_file s ?t \<longrightarrow> no_file s ?t)" for s by simp
  obtain pe s1 where pg: "purge_staging ?sd (wo_os w) = (pe, s1)" by fastforce
  have b1: "only_buffers ?sd (wo_os w) s1"
    unfolding only_buffers_def
  proof (intro conjI allI impI)
    show "same_machine (wo_os w) s1" by (rule purge_frame(1)[OF pg])
  next
    fix x c m
    assume a: "\<forall>name. has_suffix name staging_suffix \<longrightarrow> x \<noteq> place_join (staging_dir_place ?sd) name"
    show "(node_at s1 x = Some (File c m)) = (node_at (wo_os w) x = Some (File c m))"
      using purge_frame(2)[OF pg, of x] a abandoned_suffix by fastforce
  qed
  have n1: "no_file s1 ?t" using purge_frame(2)[OF pg, of ?t] none unfolding no_file_def by auto
  have q1: "quiet s1" by (rule quiet_same[OF purge_frame(1)[OF pg] qt])
  have p1: "os_pid s1 = os_pid (wo_os w)" using purge_frame(1)[OF pg] by (simp add: same_machine_def)
  have dw: "only_buffers ?sd s1 (wo_os v') \<and> no_file (wo_os v') ?t"
    if "dump_and_write wi q resolution watch md path x v = (a, x', v', sn)" "wo_os v = s1"
    for resolution watch md path x v a x' v' sn
  proof (cases "wi_dumper wi resolution q")
    case (Inl e)
    with that n1 show ?thesis by (auto simp: dump_and_write_def)
  next
    case (Inr dump)
    let ?v = "journal q StepDump None [(''staging'', FString (mode_name md)),
        (''staging_reason'', FString (jr_staging_reason x)), (''tool'', FString (rs_tool_path resolution))] v"
    have v: "wo_os ?v = s1" using that(2) by simp
    note call = that(1)
    consider "stage wi q dump watch path (mark [StepDump] x) ?v = (a, x', v', sn)"
      | "stream wi q dump watch path (mark [StepDump] x) ?v = (a, x', v', sn)"
      using call Inr by (simp add: dump_and_write_def Let_def del: mark_Cons split: if_splits)
    then show ?thesis
    proof cases
      case 1
      from stage_os[OF 1, unfolded v, OF q1 p1 n1] show ?thesis by simp
    next
      case 2
      from stream_os[OF 2] v n1 show ?thesis by simp
    qed
  qed
  have rr: "only_buffers ?sd s1 (wo_os v') \<and> no_file (wo_os v') ?t"
    if "run_resolved wi q resolution watch x v = (x', e, v')" "wo_os v = s1" for resolution watch x v x' e v'
    using that n1 unfolding run_resolved_def Let_def
    by (auto split: sum.splits prod.splits dest!: finish_run_os dest: dw)
  have "only_buffers ?sd s1 (wo_os w') \<and> no_file (wo_os w') ?t"
    using rl pg n1 unfolding run_locked_def Let_def by (auto split: option.splits sum.splits dest: rr)
  then show "only_buffers ?sd (wo_os w) (wo_os w')" "no_file (wo_os w') ?t"
    using only_buffers_trans[OF b1] by blast+
qed

text \<open>
  C10. A job leaves neither its lock nor its buffer behind (BKP-18, E-051): on a machine where no system
  call fails, whatever the ports, the packer and the destinations answer, and whether the job succeeds
  or fails, no lock of the database and no staging file of the job is left when it ends, and the files
  of the machine other than buffers are as they were.
\<close>

theorem nothing_is_left_behind:
  assumes "run wi q w = (r, failed, w')" "quiet (wo_os w)"
    and "dirs_free (wo_os w) (place_join (wi_state_directory wi) lock_directory)"
    and "node_at (wo_os w) (lock_place (wi_state_directory wi) (rq_database q)) \<noteq> Some Dir"
    and "held_by (wo_os w) (lock_place (wi_state_directory wi) (rq_database q)) = None"
    and "no_file (wo_os w) (staging_place (wi_state_directory wi) (os_pid (wo_os w)) (rq_job q))"
  shows "node_at (wo_os w') (lock_place (wi_state_directory wi) (rq_database q)) = None
    \<and> no_file (wo_os w') (staging_place (wi_state_directory wi) (os_pid (wo_os w)) (rq_job q))
    \<and> (\<forall>p c m. p \<noteq> lock_place (wi_state_directory wi) (rq_database q)
        \<longrightarrow> (\<forall>name. has_suffix name staging_suffix \<longrightarrow> p \<noteq> place_join (staging_dir_place (wi_state_directory wi)) name)
        \<longrightarrow> (node_at (wo_os w') p = Some (File c m) \<longleftrightarrow> node_at (wo_os w) p = Some (File c m)))"
proof -
  let ?sd = "wi_state_directory wi"
  let ?l = "lock_place ?sd (rq_database q)" and ?t = "staging_place ?sd (os_pid (wo_os w)) (rq_job q)"
  from acquire_free[OF assms(2-5), of "rq_job q" "rq_at q"] obtain s1 where
    ac: "acquire ?sd (rq_database q) (rq_job q) (rq_at q) (wo_os w) = (Inr ?l, s1)"
    and l1: "node_at s1 ?l = Some (File (lock_contents (rq_database q) (rq_job q) (os_pid (wo_os w)) (rq_at q)) (os_now (wo_os w)))"
    and k1: "\<And>x c m. x \<noteq> ?l \<Longrightarrow> node_at s1 x = Some (File c m) \<longleftrightarrow> node_at (wo_os w) x = Some (File c m)"
    and m1: "same_machine (wo_os w) s1" by blast
  have tl: "?l \<noteq> ?t" unfolding staging_place_def by (rule lock_not_buffer[OF staging_suffixed])
  have q1: "quiet s1" by (rule quiet_same[OF m1 assms(2)])
  have n1: "no_file s1 ?t" using k1[of ?t] tl assms(6) unfolding no_file_def by metis
  obtain r1 f1 w1 where rl: "run_locked wi q (on_os s1 w) = (r1, f1, w1)" by (metis prod_cases3)
  have p1: "os_pid s1 = os_pid (wo_os w)" using m1 by (simp add: same_machine_def)
  have b: "only_buffers ?sd s1 (wo_os w1)" "no_file (wo_os w1) ?t"
    using run_locked_os[OF rl] q1 n1 p1 by simp_all
  have q2: "quiet (wo_os w1)" using b(1) quiet_same[OF _ q1] by (simp add: only_buffers_def)
  have l2: "node_at (wo_os w1) ?l \<noteq> Some Dir"
    using b(1) l1 lock_not_buffer unfolding only_buffers_def by (metis node.distinct(1) option.inject)
  obtain e s2 where rm: "os_remove ?l (wo_os w1) = (e, s2)" by fastforce
  have w': "wo_os w' = s2" using assms(1) ac rl rm
    by (auto simp: run_def release_def split: option.splits prod.splits if_splits)
  have l3: "node_at s2 ?l = None" using rm q2 l2 by (auto simp: os_remove_def split: option.splits if_splits)
  have k3: "node_at s2 x = node_at (wo_os w1) x" if "x \<noteq> ?l" for x using remove_frame(2)[OF rm that] .
  have n3: "no_file s2 ?t" using k3[of ?t] tl b(2) unfolding no_file_def by metis
  have "node_at s2 x = Some (File c m) \<longleftrightarrow> node_at (wo_os w) x = Some (File c m)"
    if "x \<noteq> ?l" "\<forall>name. has_suffix name staging_suffix \<longrightarrow> x \<noteq> place_join (staging_dir_place ?sd) name" for x c m
    using k3[OF that(1)] k1[OF that(1)] b(1) that(2) unfolding only_buffers_def by simp
  with l3 n3 show ?thesis unfolding w' by blast
qed

end
