(* ===== verification/Backup_Ready.thy ===== *)
theory Backup_Ready
  imports Backup_Failure
begin

text \<open>
  A job with everything it needs succeeds: the other direction of the safety properties. The machine and
  the disks answer every call, the ports do their work, the lock is free or names a process that is gone,
  and the run returns without an error, staged or streamed, on any number of destinations; what a killed
  job left behind is taken over.
\<close>

section \<open>The path of a result\<close>

lemma mark_path: "jr_path (mark ss r) = jr_path r"
  by (induction ss arbitrary: r) (simp_all add: set_step_def)

lemma dump_died_path: "dump_died q e r w = (a, r', w') \<Longrightarrow> jr_path r' = jr_path r"
  by (auto simp: dump_died_def unmark_def set_step_def split: option.splits)

lemma stage_filled_path: "stage_filled wi q dump watch path temp r w = (a, r', w', seen) \<Longrightarrow> jr_path r' = jr_path r"
  by (auto simp: stage_filled_def Let_def mark_path simp del: mark_Cons dest!: dump_died_path
      split: prod.splits option.splits sum.splits)

lemma stream_end_path: "stream_end q dump k e seen r w = (a, r', w', seen') \<Longrightarrow> jr_path r' = jr_path r"
  by (auto simp: stream_end_def mark_path simp del: mark_Cons dest!: dump_died_path
      split: prod.splits option.splits sum.splits)

lemma dump_and_write_path:
  "dump_and_write wi q resolution watch md path r w = (a, r', w', seen) \<Longrightarrow> jr_path r' = jr_path r"
  by (auto simp: dump_and_write_def stage_def stream_def Let_def mark_path simp del: mark_Cons
      dest!: stage_filled_path stream_end_path split: sum.splits prod.splits if_splits list.splits)

section \<open>A machine a job can start on\<close>

text \<open>
  The lock names no process that runs, no file stands where the directories are to be made, and the
  buffers of dead jobs, if any, are files.
\<close>

definition machine_ready :: "place \<Rightarrow> string \<Rightarrow> os \<Rightarrow> bool" where
  "machine_ready sd database s \<longleftrightarrow>
     quiet s \<and> 0 < os_pid s \<and> os_pid s < 2 ^ 63 \<and> running s (os_pid s)
     \<and> dirs_free s (place_join sd lock_directory)
     \<and> node_at s (lock_place sd database) \<noteq> Some Dir \<and> held_by s (lock_place sd database) = None
     \<and> no_file s (staging_dir_place sd)
     \<and> list_all (\<lambda>name. abandoned_buffer s name \<longrightarrow> simple_name name
           \<and> node_at s (place_join (staging_dir_place sd) name) \<noteq> Some Dir) (children s (staging_dir_place sd))"

definition buffer_ready :: "place \<Rightarrow> string \<Rightarrow> os \<Rightarrow> bool" where
  "buffer_ready sd job s \<longleftrightarrow> dirs_free s (staging_dir_place sd)
     \<and> node_at s (staging_place sd (os_pid s) job) \<noteq> Some Dir"

lemma staging_dir_eq: "staging_dir_place sd = (fst sd, snd sd @ [staging_directory])"
  by (simp add: staging_dir_place_def staging_directory_def place_join_simple simple_name_def)

lemma quiet_purge:
  assumes "quiet s" "no_file s (staging_dir_place sd)"
    and "list_all (\<lambda>name. abandoned_buffer s name \<longrightarrow> node_at s (place_join (staging_dir_place sd) name) \<noteq> Some Dir)
      (children s (staging_dir_place sd))"
  obtains t where "purge_staging sd s = (None, t)"
    "node_at s (staging_dir_place sd) = Some Dir \<longrightarrow> (\<forall>name \<in> set (children s (staging_dir_place sd)). abandoned_buffer s name
        \<longrightarrow> node_at t (place_join (staging_dir_place sd) name) = None)"
proof (cases "node_at s (staging_dir_place sd)")
  case None
  with assms(1) have "purge_staging sd s = (None, s)"
    by (simp add: purge_staging_def os_read_dir_def not_exist_def path_error_def staging_dir_eq)
  with None that show thesis by simp
next
  case (Some n)
  with assms(2) have d: "n = Dir" by (cases n) (auto simp: no_file_def)
  have rd: "os_read_dir (staging_dir_place sd) s = (Inr (children s (staging_dir_place sd)), s)"
    using assms(1) Some d by (simp add: os_read_dir_def)
  with quiet_purge_entries[of s "children s (staging_dir_place sd)" "staging_dir_place sd"] assms(1,3) that show thesis
    by (auto simp: purge_staging_def list_all_iff)
qed

lemma acquire_ready:
  assumes "machine_ready sd database s"
  obtains t where "acquire sd database job at s = (Inr (lock_place sd database), t)" "same_machine s t"
    "\<And>x. x \<noteq> lock_place sd database \<Longrightarrow> \<not> prefix (snd x) (snd sd @ [lock_directory]) \<Longrightarrow> node_at t x = node_at s x"
    "\<And>x c m. x \<noteq> lock_place sd database \<Longrightarrow> node_at t x = Some (File c m) \<longleftrightarrow> node_at s x = Some (File c m)"
proof -
  obtain t where t: "acquire sd database job at s = (Inr (lock_place sd database), t)" "same_machine s t"
    "\<forall>x. x \<noteq> lock_place sd database \<longrightarrow> \<not> prefix (snd x) (snd sd @ [lock_directory]) \<longrightarrow> node_at t x = node_at s x"
    "\<forall>x c m. x \<noteq> lock_place sd database \<longrightarrow> (node_at t x = Some (File c m) \<longleftrightarrow> node_at s x = Some (File c m))"
    using assms acquire_free[of s sd database job at] unfolding machine_ready_def by blast
  show thesis by (rule that[OF t(1,2)]) (use t(3,4) in blast)+
qed

text \<open>The lock is taken, over a dead one if there is one, and the buffers of dead jobs go.\<close>

lemma start_ready:
  assumes m: "machine_ready sd database s"
  obtains s1 s2 where "acquire sd database job at s = (Inr (lock_place sd database), s1)"
    "purge_staging sd s1 = (None, s2)" "same_machine s s2" "quiet s2" "0 < os_pid s2"
    "buffer_ready sd j s \<Longrightarrow> buffer_ready sd j s2"
    "\<And>name. node_at s (staging_dir_place sd) = Some Dir \<Longrightarrow> name \<in> set (children s (staging_dir_place sd))
      \<Longrightarrow> abandoned_buffer s name \<Longrightarrow> node_at s2 (place_join (staging_dir_place sd) name) = None"
proof -
  let ?d = "staging_dir_place sd"
  obtain s1 where ac: "acquire sd database job at s = (Inr (lock_place sd database), s1)" and sm: "same_machine s s1"
    and keep: "\<And>x. x \<noteq> lock_place sd database \<Longrightarrow> \<not> prefix (snd x) (snd sd @ [lock_directory]) \<Longrightarrow> node_at s1 x = node_at s x"
    and files: "\<And>x c m. x \<noteq> lock_place sd database \<Longrightarrow> node_at s1 x = Some (File c m) \<longleftrightarrow> node_at s x = Some (File c m)"
    by (rule acquire_ready[OF m, of job at]) (rule that)
  have q1: "quiet s1" by (rule quiet_same[OF sm]) (use m in \<open>simp add: machine_ready_def\<close>)
  have other: "staging_directory \<noteq> lock_directory" by (simp add: staging_directory_def lock_directory_def)
  have dir: "node_at s1 ?d = node_at s ?d" by (rule keep) (use other in \<open>auto simp: staging_dir_eq lock_place_eq\<close>)
  have below: "node_at s1 (fst ?d, snd ?d @ [name]) = node_at s (fst ?d, snd ?d @ [name])" for name
    by (rule keep) (use other in \<open>auto simp: staging_dir_eq lock_place_eq\<close>)
  have same: "set (children s1 ?d) = set (children s ?d)" using below by (auto simp: children_iff)
  have ab: "abandoned_buffer s1 name = abandoned_buffer s name" for name by (rule abandoned_same[OF sm])
  have "list_all (\<lambda>name. abandoned_buffer s1 name \<longrightarrow> node_at s1 (place_join ?d name) \<noteq> Some Dir) (children s1 ?d)"
    using m same below by (auto simp: machine_ready_def list_all_iff ab place_join_simple)
  moreover have "no_file s1 ?d" using m dir by (simp add: machine_ready_def no_file_def)
  ultimately obtain s2 where pu: "purge_staging sd s1 = (None, s2)"
    and gone: "node_at s1 ?d = Some Dir \<longrightarrow> (\<forall>name \<in> set (children s1 ?d). abandoned_buffer s1 name \<longrightarrow> node_at s2 (place_join ?d name) = None)"
    using quiet_purge[OF q1] by blast
  have sm2: "same_machine s s2" by (rule same_machine_trans[OF sm purge_frame(1)[OF pu]])
  have q2: "quiet s2" by (rule quiet_same[OF purge_frame(1)[OF pu] q1])
  have br: "buffer_ready sd j s2" if b: "buffer_ready sd j s"
  proof -
    have f2: "\<exists>c m. node_at s x = Some (File c m)" if "length (snd x) \<le> length (snd ?d)" "node_at s2 x = Some (File c m)" for x c m
    proof -
      have "x \<noteq> lock_place sd database" using that(1) by (auto simp: lock_place_eq staging_dir_eq)
      moreover have "node_at s1 x = Some (File c m)" using purge_frame(2)[OF pu, of x] that(2) by auto
      ultimately show ?thesis using files by blast
    qed
    have "dirs_free s2 ?d" by (rule dirs_free_mono[OF _ f2]) (use b in \<open>auto simp: buffer_ready_def\<close>)
    moreover have p: "0 < os_pid s" "os_pid s2 = os_pid s" using m sm2 by (simp_all add: machine_ready_def same_machine_def)
    moreover have "node_at s2 (staging_place sd (os_pid s) j) \<noteq> Some Dir"
    proof -
      have "staging_place sd (os_pid s) j = (fst ?d, snd ?d @ [staging_file_name (os_pid s) j])"
        unfolding staging_place_def by (rule place_join_simple[OF simple_staging_name[OF p(1)]])
      then show ?thesis using purge_frame(2)[OF pu, of "staging_place sd (os_pid s) j"] below b
        by (auto simp: buffer_ready_def)
    qed
    ultimately show ?thesis by (simp add: buffer_ready_def)
  qed
  have "0 < os_pid s2" using m sm2 by (simp add: machine_ready_def same_machine_def)
  then show thesis by (rule that[OF ac pu sm2 q2 _ br]) (use gone same ab dir in auto)
qed

section \<open>A destination that takes an archive\<close>

definition takes_archive :: "string \<Rightarrow> os destination \<Rightarrow> bool" where
  "takes_archive path d \<longleftrightarrow> (\<exists>root. ds_store d = filesystem root \<and> quiet (ds_state d)
     \<and> dirs_free (ds_state d) (place_dir (resolve root path))
     \<and> node_at (ds_state d) (resolve root path) \<noteq> Some Dir
     \<and> node_at (ds_state d) (resolve root (path @ manifest_suffix)) \<noteq> Some Dir)"

text \<open>A path of an archive: its manifest lies beside it, and neither is a name of a file being written.\<close>

definition archive_pair :: "string \<Rightarrow> bool" where
  "archive_pair path \<longleftrightarrow> fair_name path \<and> fair_name (path @ manifest_suffix)
     \<and> (\<forall>root. place_dir (resolve root (path @ manifest_suffix)) = place_dir (resolve root path)
          \<and> length (snd (resolve root (path @ manifest_suffix))) = length (snd (resolve root path))
          \<and> snd (resolve root path) \<noteq> [] \<and> resolve root (path @ manifest_suffix) \<noteq> resolve root path)"

lemma archive_pair_path:
  assumes "segment_ok dump"
  shows "archive_pair (archive_path database at ident (archive_extension dump pipeline))"
proof -
  have "place_dir (resolve root (path @ manifest_suffix)) = place_dir (resolve root path)
    \<and> length (snd (resolve root (path @ manifest_suffix))) = length (snd (resolve root path))
    \<and> snd (resolve root path) \<noteq> []"
    if "path = archive_path database at ident (archive_extension dump pipeline)" for path root
    unfolding that resolve_def manifest_suffix_def archive_segments[OF segment_ok_extension[OF assms]]
      archive_segments_json[OF segment_ok_extension[OF assms]]
    by (simp add: place_dir_def butlast_append)
  then show ?thesis using archive_fair[OF assms] by (simp add: archive_pair_def)
qed

text \<open>How a destination moves under the writes of a job.\<close>

definition moves :: "string \<Rightarrow> os destination \<Rightarrow> os destination \<Rightarrow> bool" where
  "moves path d d' \<longleftrightarrow> (\<exists>t. d' = d\<lparr>ds_state := t\<rparr>) \<and> takes_archive path d'"

lemma moves_trans: "moves path a b \<Longrightarrow> moves path b c \<Longrightarrow> moves path a c"
  by (auto simp: moves_def)

lemma all_moves_trans: "list_all2 (moves path) a b \<Longrightarrow> list_all2 (moves path) b c \<Longrightarrow> list_all2 (moves path) a c"
  by (rule list_all2_trans[of "moves path" "moves path"]) (rule moves_trans)

lemma all_moves_takes: "list_all2 (moves path) ds ds' \<Longrightarrow> \<forall>d \<in> set ds'. takes_archive path d"
  by (induction rule: list_all2_induct) (auto simp: moves_def)

lemma takes_on_directory: "takes_archive path d \<Longrightarrow> on_directory d"
  by (auto simp: takes_archive_def on_directory_def)

lemma takes_write:
  assumes "archive_pair path" "takes_archive path d" "name = path \<or> name = path @ manifest_suffix"
  obtains t where "so_write (ds_store d) name (b, None) (ds_state d) = ((Inr (int (length b)), length b), t)"
    "moves path d (d\<lparr>ds_state := t\<rparr>)"
proof -
  from assms(2) obtain root where d: "ds_store d = filesystem root" "quiet (ds_state d)"
      "dirs_free (ds_state d) (place_dir (resolve root path))" "node_at (ds_state d) (resolve root path) \<noteq> Some Dir"
      "node_at (ds_state d) (resolve root (path @ manifest_suffix)) \<noteq> Some Dir" by (auto simp: takes_archive_def)
  note pair = assms(1)[unfolded archive_pair_def]
  have dir: "place_dir (resolve root name) = place_dir (resolve root path)" "snd (resolve root name) \<noteq> []"
    "length (snd (resolve root name)) = length (snd (resolve root path))"
    using assms(3) pair by (auto simp del: length_0_conv) (metis length_0_conv)
  obtain t where w: "fs_write root name (b, None) (ds_state d) = ((Inr (int (length b)), length b), t)" and q: "quiet t"
    and keep: "\<And>x. x \<noteq> resolve root name \<Longrightarrow> length (snd x) = length (snd (resolve root name))
      \<Longrightarrow> node_at (ds_state d) x \<noteq> Some Dir \<Longrightarrow> node_at t x \<noteq> Some Dir"
    and f: "dirs_free t (place_dir (resolve root name))"
    by (rule quiet_fs_write[of "ds_state d" root name b]) (use d dir assms(3) in auto)
  have "\<not> own_name (resolve root name)" using assms(3) pair by (auto simp: fair_name_def)
  from fs_write_result(2)[OF w this] have "node_at t (resolve root name) \<noteq> Some Dir" by (auto simp: held_file_def)
  then have "node_at t x \<noteq> Some Dir" if "x = resolve root path \<or> x = resolve root (path @ manifest_suffix)" for x
    using keep[of x] that d(4,5) dir(3) pair by (cases "x = resolve root name") auto
  then have "takes_archive path (d\<lparr>ds_state := t\<rparr>)"
    unfolding takes_archive_def using d(1) q f dir(1) by (intro exI[of _ root]) simp
  with that w d(1) show thesis by (auto simp: moves_def filesystem_def)
qed


section \<open>Every step of such a job\<close>

lemma send_staged_ready:
  assumes "archive_pair path"
  shows "\<forall>d \<in> set ds. takes_archive path d \<Longrightarrow> quiet s \<Longrightarrow> node_at s temp = Some (File c m)
    \<Longrightarrow> \<exists>ds' s'. send_staged path temp ds s = (None, ds', s') \<and> list_all2 (moves path) ds ds'"
proof (induction ds arbitrary: s)
  case Nil
  then show ?case by simp
next
  case (Cons d ds)
  have e: "os_touch s = (None, s)" "staged_reader temp s = ((c, None), s)"
    using Cons.prems(2,3) by (simp_all add: os_touch_def staged_reader_def)
  have d: "takes_archive path d" using Cons.prems(1) by simp
  obtain t where w: "so_write (ds_store d) path (c, None) (ds_state d) = ((Inr (int (length c)), length c), t)"
    "moves path d (d\<lparr>ds_state := t\<rparr>)" by (rule takes_write[OF assms d, of path c]) auto
  obtain ds' s' where "send_staged path temp ds s = (None, ds', s')" "list_all2 (moves path) ds ds'"
    using Cons.IH[OF _ Cons.prems(2,3)] Cons.prems(1) by auto
  with e w show ?case by simp
qed

lemma deposit_ready:
  assumes "archive_pair path"
  shows "\<forall>d \<in> set ds. takes_archive path d
    \<Longrightarrow> \<exists>ds'. deposit (path @ manifest_suffix) m ds = (None, ds') \<and> list_all2 (moves path) ds ds'"
proof (induction ds)
  case Nil
  then show ?case by simp
next
  case (Cons d ds)
  have d: "takes_archive path d" using Cons.prems by simp
  obtain t where "so_write (ds_store d) (path @ manifest_suffix) (m, None) (ds_state d) = ((Inr (int (length m)), length m), t)"
    "moves path d (d\<lparr>ds_state := t\<rparr>)" by (rule takes_write[OF assms d, of "path @ manifest_suffix" m]) auto
  moreover obtain ds' where "deposit (path @ manifest_suffix) m ds = (None, ds')" "list_all2 (moves path) ds ds'"
    using Cons by auto
  ultimately show ?case by simp
qed

text \<open>A dump that is read to its end without an error, which the watcher lets through and the packer packs.\<close>

definition packs_whole :: "wiring \<Rightarrow> watcher \<Rightarrow> dump_handle \<Rightarrow> string \<Rightarrow> packed \<Rightarrow> bool" where
  "packs_whole wi wt dump bytes p \<longleftrightarrow> dh_reader dump = (bytes, None) \<and> dh_close dump True = None
     \<and> wt_refuses wt bytes = None
     \<and> pr_answer (wi_pack wi (bytes, None) None) = Inr p"

definition archive_of :: "wiring \<Rightarrow> string \<Rightarrow> string" where
  "archive_of wi bytes = pr_written (wi_pack wi (bytes, None) None)"

lemma packs_drained:
  assumes "packs_whole wi wt dump bytes p" "wi_pack wi = pipeline_pack codec (wi_sha256 wi) to"
  shows "pr_drained (wi_pack wi (bytes, None) None)" "pr_taken (wi_pack wi (bytes, None) None) = length bytes"
  using assms piped.pack_whole[of codec "wi_sha256 wi" to bytes None None p] by (auto simp: packs_whole_def)

lemma watched_whole: "packs_whole wi wt dump bytes p \<Longrightarrow> watched (Some wt) (dh_reader dump) = (bytes, None)"
  by (simp add: packs_whole_def watched_def)

lemma stage_ready:
  assumes "archive_pair path" "packs_whole wi wt dump bytes p" "quiet (wo_os w)" and pid: "0 < os_pid (wo_os w)"
    and "buffer_ready (wi_state_directory wi) (rq_job q) (wo_os w)"
    and "\<forall>d \<in> set (wo_destinations w). takes_archive path d"
    and packs: "wi_pack wi = pipeline_pack codec (wi_sha256 wi) to"
  shows "\<exists>r' w'. stage wi q dump (Some wt) path r w = (Inr p, r', w', bytes)
    \<and> list_all2 (moves path) (wo_destinations w) (wo_destinations w')"
proof -
  let ?sd = "wi_state_directory wi"
  let ?d = "staging_dir_place ?sd" and ?t = "staging_place ?sd (os_pid (wo_os w)) (rq_job q)"
  have t: "?t = (fst ?d, snd ?d @ [staging_file_name (os_pid (wo_os w)) (rq_job q)])"
    unfolding staging_place_def by (rule place_join_simple[OF simple_staging_name[OF pid]])
  obtain s1 where mk: "os_mkdir_all ?d (wo_os w) = (Inr (), s1)"
    by (rule quiet_mkdir[OF assms(3)]) (use assms(5) in \<open>auto simp: buffer_ready_def\<close>)
  have q1: "quiet s1" by (rule quiet_same[OF mkdir_frame(1)[OF mk] assms(3)])
  have p1: "os_pid s1 = os_pid (wo_os w)" using mkdir_frame(1)[OF mk] by (simp add: same_machine_def)
  have "parent_ok s1 ?t" using mkdir_frame(3)[OF mk] by (simp add: t parent_ok_def place_dir_def staging_dir_eq butlast_append)
  moreover have "node_at s1 ?t \<noteq> Some Dir"
    using mkdir_below[OF mk, of ?t] assms(5) by (simp add: t buffer_ready_def)
  ultimately have "os_create_trunc ?t s1 = (Inr (), set_node ?t (File [] (os_now s1)) s1)"
    using q1 by (simp add: os_create_trunc_def)
  with mk p1 obtain s2 where sf: "staging_file ?sd (rq_job q) (wo_os w) = (Inr ?t, s2)" and q2: "quiet s2"
    and n2: "node_at s2 ?t = Some (File [] (os_now s1))"
    using q1 by (auto simp: staging_file_def Let_def)
  let ?s3 = "append_node ?t (archive_of wi bytes) s2"
  have q3: "quiet ?s3" and n3: "node_at ?s3 ?t = Some (File (archive_of wi bytes) (os_now s2))"
    using q2 n2 by (simp_all add: append_node_def)
  obtain ds' s' where sd: "send_staged path ?t (wo_destinations w) ?s3 = (None, ds', s')" "list_all2 (moves path) (wo_destinations w) ds'"
    using send_staged_ready[OF assms(1,6) q3 n3] by blast
  have "\<exists>r' w'. stage_filled wi q dump (Some wt) path ?t r (on_os s2 w) = (Inr p, r', w', bytes) \<and> wo_destinations w' = ds'"
    using assms(2) watched_whole[OF assms(2)] packs_drained[OF assms(2) packs] q2 sd(1)
    by (auto simp: stage_filled_def Let_def packs_whole_def archive_of_def dump_died_def on_os_def journal_packed_def journal_def)
  with sf sd(2) show ?thesis by (auto simp: stage_def discard_staging_def on_os_def split: prod.splits)
qed

lemma stream_ready:
  assumes "archive_pair path" "packs_whole wi wt dump bytes p" "takes_archive path d" "wo_destinations w = [d]"
    and packs: "wi_pack wi = pipeline_pack codec (wi_sha256 wi) to"
  shows "\<exists>r' w'. stream wi q dump (Some wt) path r w = (Inr p, r', w', bytes)
    \<and> list_all2 (moves path) (wo_destinations w) (wo_destinations w')"
proof -
  obtain t where "so_write (ds_store d) path (archive_of wi bytes, None) (ds_state d)
      = ((Inr (int (length (archive_of wi bytes))), length (archive_of wi bytes)), t)" "moves path d (d\<lparr>ds_state := t\<rparr>)"
    by (rule takes_write[OF assms(1,3), of path]) auto
  then show ?thesis using assms(2,4) watched_whole[OF assms(2)] packs_drained[OF assms(2) packs]
    by (simp add: stream_def Let_def packs_whole_def archive_of_def piped_run_def err_of_def stream_end_def dump_died_def journal_packed_def)
qed

lemma dump_and_write_ready:
  assumes "archive_pair path" "packs_whole wi wt dump bytes p" "wi_dumper wi resolution q = Inr dump"
    and "\<forall>d \<in> set (wo_destinations w). takes_archive path d"
    and "md = Stage \<Longrightarrow> quiet (wo_os w) \<and> 0 < os_pid (wo_os w)
      \<and> buffer_ready (wi_state_directory wi) (rq_job q) (wo_os w)"
    and "md \<noteq> Stage \<Longrightarrow> \<exists>d. wo_destinations w = [d]"
    and packs: "wi_pack wi = pipeline_pack codec (wi_sha256 wi) to"
  shows "\<exists>r' w'. dump_and_write wi q resolution (Some wt) md path r w = (Inr p, r', w', bytes)
    \<and> list_all2 (moves path) (wo_destinations w) (wo_destinations w')"
proof -
  let ?v = "journal q StepDump None [(''staging'', FString (mode_name md)),
        (''staging_reason'', FString (jr_staging_reason r)), (''tool'', FString (rs_tool_path resolution))] w"
  have v: "wo_os ?v = wo_os w" "wo_destinations ?v = wo_destinations w" by simp_all
  have "\<exists>r' w'. (if md = Stage then stage wi q dump (Some wt) path (mark [StepDump] r) ?v
      else stream wi q dump (Some wt) path (mark [StepDump] r) ?v) = (Inr p, r', w', bytes)
    \<and> list_all2 (moves path) (wo_destinations w) (wo_destinations w')"
  proof (cases "md = Stage")
    case True
    with stage_ready[OF assms(1,2), of ?v q codec to "mark [StepDump] r"] assms(4,5) packs v show ?thesis by simp
  next
    case False
    with assms(6) obtain d where d: "wo_destinations w = [d]" by blast
    with stream_ready[OF assms(1,2), of d ?v codec to q "mark [StepDump] r"] assms(4) packs v False show ?thesis by simp
  qed
  then show ?thesis using assms(3) by (simp add: dump_and_write_def Let_def del: mark_Cons)
qed

lemma read_back:
  assumes "takes_archive path d" "lies d path (Some b)"
  shows "so_read (ds_store d) path (ds_state d) = (Inr (b, None), ds_state d)"
proof -
  from assms(1) obtain root where d: "ds_store d = filesystem root" "quiet (ds_state d)" by (auto simp: takes_archive_def)
  from assms(2) obtain root' where "ds_store d = filesystem root'" "held_file (ds_state d) (resolve root' path) = Some b"
    by (auto simp: lies_def)
  then show ?thesis using d(2) by (auto simp: filesystem_def fs_read_def held_file_def split: option.splits node.splits)
qed

lemma finish_run_ready:
  assumes "archive_pair (jr_path r)" "\<forall>d \<in> set (wo_destinations w). takes_archive (jr_path r) d \<and> lies d (jr_path r) (Some b)"
    and "wo_destinations w \<noteq> []" "wt_conclude wt bytes = (True, detail)" "wi_sha256 wi b = pk_sha_stored p"
    and "wi_manifester wi = Some render" "\<And>r. ok (render r)"
  shows "\<exists>r' w'. finish_run wi q (Some (wt, bytes)) p r w = (r', None, w') \<and> jr_duration r' = wi_elapsed wi
    \<and> list_all2 (moves (jr_path r)) (wo_destinations w) (wo_destinations w')"
proof -
  define r1 where "r1 = r\<lparr>jr_raw_bytes := pk_raw_bytes p, jr_stored_bytes := pk_stored_bytes p, jr_sha_raw := pk_sha_raw p,
      jr_sha_stored := pk_sha_stored p, jr_pipeline := pk_pipeline p, jr_destinations := destination_ids w\<rparr>"
  define w1 where "w1 = journal q StepWrite None
      [(''path'', FString (jr_path r1)), (''destinations'', FString (join_with '','' (jr_destinations r1))),
       (''raw_bytes'', FInt (jr_raw_bytes r1)), (''stored_bytes'', FInt (jr_stored_bytes r1)),
       (''sha256_raw'', FString (jr_sha_raw r1)), (''sha256_stored'', FString (jr_sha_stored r1))] w"
  have r1: "jr_path r1 = jr_path r" "jr_sha_stored r1 = pk_sha_stored p" by (simp_all add: r1_def)
  have w1: "wo_destinations w1 = wo_destinations w" by (simp add: w1_def)
  obtain d ds where ds: "wo_destinations w = d # ds" using assms(3) by (cases "wo_destinations w") auto
  have rd: "so_read (ds_store d) (jr_path r) (ds_state d) = (Inr (b, None), ds_state d)"
    by (rule read_back) (use assms(2) ds in auto)
  obtain r2 w2 where v: "verify_archive wi q (Some (wt, bytes)) r1 w1 = (None, r2, w2)"
    and same: "jr_path r2 = jr_path r" "wo_destinations w2 = wo_destinations w"
    using rd ds assms(4,5) r1 w1
    by (auto simp: verify_archive_def Let_def reread_checksum_def conclude_verification_def verdict_sound_def)
  let ?r2 = "r2\<lparr>jr_duration := wi_elapsed wi\<rparr>"
  obtain m where m: "render ?r2 = Inr m" using assms(7)[of ?r2] by (auto simp: ok_def split: sum.splits)
  have "\<forall>d \<in> set (wo_destinations w). takes_archive (jr_path r) d" using assms(2) by blast
  from deposit_ready[OF assms(1) this, of m] obtain ds' where
    dp: "deposit (jr_path r @ manifest_suffix) m (wo_destinations w) = (None, ds')"
      "list_all2 (moves (jr_path r)) (wo_destinations w) ds'" by blast
  then have "\<exists>r' w'. deposit_manifest wi q ?r2 w2 = (None, r', w') \<and> jr_duration r' = wi_elapsed wi \<and> wo_destinations w' = ds'"
    using m same assms(6) by (simp add: deposit_manifest_def set_step_def Let_def)
  then obtain r3 w3 where "deposit_manifest wi q ?r2 w2 = (None, r3, w3)" "jr_duration r3 = wi_elapsed wi" "wo_destinations w3 = ds'"
    by blast
  then show ?thesis
    unfolding finish_run_def Let_def r1_def[symmetric] w1_def[symmetric] using v dp(2) by simp
qed

section \<open>A job with all it needs succeeds\<close>

text \<open>What the ports of a job answer when nothing goes wrong with the database and its tools.\<close>

definition ports_answer ::
  "wiring \<Rightarrow> request \<Rightarrow> nat \<Rightarrow> resolution \<Rightarrow> string \<Rightarrow> packed \<Rightarrow> staging_decision \<Rightarrow> bool" where
  "ports_answer wi q destinations resolution bytes p d \<longleftrightarrow>
     wi_resolver wi (rq_database q) = Inr resolution \<and> segment_ok (rs_extension resolution)
     \<and> decide_for wi destinations (rq_database q) resolution = Inr d
     \<and> (\<exists>vf wt detail dump. wi_verifier wi = Some vf \<and> vf resolution = Inr wt \<and> wt_conclude wt bytes = (True, detail)
          \<and> wi_dumper wi resolution q = Inr dump \<and> packs_whole wi wt dump bytes p)
     \<and> (\<exists>render. wi_manifester wi = Some render \<and> (\<forall>r. ok (render r)))"

lemma run_resolved_ready:
  assumes ports: "ports_answer wi q (length (wo_destinations w)) resolution bytes p d"
    and watch: "wi_verifier wi = Some vf" "vf resolution = Inr wt"
    and ds: "wo_destinations w \<noteq> []" "\<forall>d \<in> set (wo_destinations w). takes_archive (path_for wi q resolution) d"
    and machine: "sd_mode d = Stage \<Longrightarrow> quiet (wo_os w) \<and> 0 < os_pid (wo_os w)
      \<and> buffer_ready (wi_state_directory wi) (rq_job q) (wo_os w)"
    and packs: "wi_pack wi = pipeline_pack codec (wi_sha256 wi) to"
  shows "\<exists>r' w'. run_resolved wi q resolution (Some wt) r w = (r', None, w') \<and> jr_duration r' = wi_elapsed wi
    \<and> list_all2 (moves (path_for wi q resolution)) (wo_destinations w) (wo_destinations w')"
proof -
  let ?path = "path_for wi q resolution"
  from ports watch obtain detail dump render where dump: "wi_dumper wi resolution q = Inr dump" "packs_whole wi wt dump bytes p"
    and said: "wt_conclude wt bytes = (True, detail)" and render: "wi_manifester wi = Some render" "\<And>r. ok (render r)"
    by (auto simp: ports_answer_def)
  have sg: "segment_ok (rs_extension resolution)"
    and dc: "decide_for wi (length (wo_destinations w)) (rq_database q) resolution = Inr d"
    using ports by (auto simp: ports_answer_def)
  have pair: "archive_pair ?path" unfolding path_for_def by (rule archive_pair_path[OF sg])
  have one: "\<exists>e. wo_destinations w = [e]" if "sd_mode d \<noteq> Stage"
  proof -
    have "length (wo_destinations w) \<le> 1"
      using dc that by (auto simp: decide_for_def dest!: decide_staging_answers split: sum.splits)
    with ds(1) show ?thesis by (cases "wo_destinations w") auto
  qed
  let ?v = "journal q StepResolution None
      [(''engine'', FString (rs_engine resolution)), (''server_version'', FString (rs_server_version resolution)),
       (''tool'', FString (rs_tool_path resolution)), (''tool_version'', FString (rs_tool_version resolution)),
       (''tool_source'', FString (rs_tool_source resolution))] w"
  have v: "wo_destinations ?v = wo_destinations w" "wo_os ?v = wo_os w" by simp_all
  let ?r = "decided d ?path r"
  have jp: "jr_path ?r = ?path" by (simp add: decided_def)
  obtain r1 w1 where dw: "dump_and_write wi q resolution (Some wt) (sd_mode d) ?path ?r ?v = (Inr p, r1, w1, bytes)"
    and mv: "list_all2 (moves ?path) (wo_destinations w) (wo_destinations w1)"
    using dump_and_write_ready[OF pair dump(2,1), of ?v "sd_mode d" codec to ?r] ds(2) machine one packs v by auto
  have dirs: "\<forall>d \<in> set (wo_destinations ?v). on_directory d" using ds(2) takes_on_directory v(1) by auto
  obtain archive where la: "\<forall>d \<in> set (wo_destinations w1). lies d ?path (Some archive)" "wi_sha256 wi archive = pk_sha_stored p"
  proof (rule dump_and_write_lies[OF dw dirs])
    show "fair_name ?path" using pair by (simp add: archive_pair_def)
  next
    fix dump into
    let ?from = "watched (Some wt) (dh_reader dump)"
    assume "pr_answer (wi_pack wi ?from into) = Inr p"
      and lie: "\<forall>d \<in> set (wo_destinations w1). on_directory d \<and> lies d ?path (Some (pr_written (wi_pack wi ?from into)))"
    then have "wi_sha256 wi (pr_written (wi_pack wi ?from into)) = pk_sha_stored p"
      using piped.pack_whole[of codec "wi_sha256 wi" to "fst ?from" "snd ?from" into p] unfolding packs by simp
    with lie that show thesis by blast
  qed
  have "jr_path r1 = ?path" using dump_and_write_path[OF dw] jp by simp
  moreover have "wo_destinations w1 \<noteq> []" using mv ds(1) by auto
  moreover have "\<forall>d \<in> set (wo_destinations w1). takes_archive ?path d" by (rule all_moves_takes[OF mv])
  ultimately obtain r2 w2 where fr: "finish_run wi q (Some (wt, bytes)) p r1 w1 = (r2, None, w2)" "jr_duration r2 = wi_elapsed wi"
      "list_all2 (moves ?path) (wo_destinations w1) (wo_destinations w2)"
    using finish_run_ready[of r1 w1 archive wt bytes detail wi p render q] pair la said render by auto
  have "run_resolved wi q resolution (Some wt) r w = (r2, None, w2)"
    unfolding run_resolved_def Let_def using dc dw fr(1) jp v by simp
  with fr(2) all_moves_trans[OF mv fr(3)] show ?thesis by blast
qed

text \<open>What a job does not touch on its machine once the buffers of dead jobs are gone.\<close>

lemma stage_leaves:
  assumes st: "stage wi q dump watch path r w = (a, r', w', seen)"
    and x: "x \<noteq> staging_place (wi_state_directory wi) (os_pid (wo_os w)) (rq_job q)"
      "length (snd (staging_dir_place (wi_state_directory wi))) < length (snd x)"
  shows "node_at (wo_os w') x = node_at (wo_os w) x"
proof -
  let ?sd = "wi_state_directory wi" and ?t = "staging_place (wi_state_directory wi) (os_pid (wo_os w)) (rq_job q)"
  obtain mr s0 where mk: "os_mkdir_all (staging_dir_place ?sd) (wo_os w) = (mr, s0)" by fastforce
  have p0: "os_pid s0 = os_pid (wo_os w)" using mkdir_frame(1)[OF mk] by (simp add: same_machine_def)
  obtain cr s1 where tr: "os_create_trunc ?t s0 = (cr, s1)" by fastforce
  have n1: "node_at s0 x = node_at (wo_os w) x" "node_at s1 x = node_at (wo_os w) x"
    using mkdir_below[OF mk x(2)] trunc_frame(2)[OF tr x(1)] by simp_all
  show ?thesis
  proof (cases "\<exists>e. mr = Inl e \<or> cr = Inl e")
    case True
    with st mk tr p0 n1 show ?thesis by (auto simp: stage_def staging_file_def Let_def split: sum.splits)
  next
    case False
    then obtain u v where ok: "mr = Inr u" "cr = Inr v" by (cases mr; cases cr) auto
    obtain a2 r2 w2 seen2 where fl: "stage_filled wi q dump watch path ?t r (on_os s1 w) = (a2, r2, w2, seen2)"
      by (metis prod_cases4)
    have w': "w' = discard_staging ?t w2" using st mk tr ok p0 fl by (auto simp: stage_def staging_file_def Let_def)
    obtain e3 s3 where t3: "os_touch (wo_os w2) = (e3, s3)" by fastforce
    obtain e4 s4 where t4: "os_remove ?t s3 = (e4, s4)" by fastforce
    have "wo_os w' = s4" using w' t3 t4 by (simp add: discard_staging_def)
    then show ?thesis using stage_filled_os(2)[OF fl x(1)] touch_frame(2)[OF t3] remove_frame(2)[OF t4 x(1)] n1(2) by simp
  qed
qed

lemma run_resolved_leaves:
  assumes "run_resolved wi q resolution watch r w = (r', failed, w')"
    and x: "x \<noteq> staging_place (wi_state_directory wi) (os_pid (wo_os w)) (rq_job q)"
      "length (snd (staging_dir_place (wi_state_directory wi))) < length (snd x)"
  shows "node_at (wo_os w') x = node_at (wo_os w) x"
proof -
  have dw: "node_at (wo_os v') x = node_at (wo_os w) x"
    if "dump_and_write wi q resolution watch md path y v = (a, y', v', sn)" "wo_os v = wo_os w" for md path y v a y' v' sn
  proof (cases "wi_dumper wi resolution q")
    case (Inl e)
    with that show ?thesis by (auto simp: dump_and_write_def)
  next
    case (Inr dump)
    let ?v = "journal q StepDump None [(''staging'', FString (mode_name md)),
        (''staging_reason'', FString (jr_staging_reason y)), (''tool'', FString (rs_tool_path resolution))] v"
    have v: "wo_os ?v = wo_os w" using that(2) by simp
    note call = that(1)
    consider "stage wi q dump watch path (mark [StepDump] y) ?v = (a, y', v', sn)"
      | "stream wi q dump watch path (mark [StepDump] y) ?v = (a, y', v', sn)"
      using call Inr by (simp add: dump_and_write_def Let_def del: mark_Cons split: if_splits)
    then show ?thesis
    proof cases
      case 1
      from stage_leaves[OF 1, unfolded v, OF x] show ?thesis .
    next
      case 2
      from stream_os[OF 2] v show ?thesis by simp
    qed
  qed
  show ?thesis
    using assms(1) unfolding run_resolved_def Let_def
    by (auto split: sum.splits prod.splits dest!: finish_run_os dest: dw)
qed

text \<open>The lock of a dead job is taken over, and its buffers are gone when the job ends.\<close>

lemma job_succeeds:
  assumes machine: "machine_ready (wi_state_directory wi) (rq_database q) (wo_os w)"
    and ports: "ports_answer wi q (length (wo_destinations w)) resolution bytes p d"
    and ds: "wo_destinations w \<noteq> []" "\<forall>d \<in> set (wo_destinations w). takes_archive (path_for wi q resolution) d"
    and buffer: "sd_mode d = Stage \<Longrightarrow> buffer_ready (wi_state_directory wi) (rq_job q) (wo_os w)"
    and packs: "wi_pack wi = pipeline_pack codec (wi_sha256 wi) to"
  shows "\<exists>r w'. run wi q w = (r, None, w') \<and> jr_duration r = wi_elapsed wi
    \<and> list_all2 (moves (path_for wi q resolution)) (wo_destinations w) (wo_destinations w')
    \<and> (node_at (wo_os w) (staging_dir_place (wi_state_directory wi)) = Some Dir
        \<longrightarrow> (\<forall>name \<in> set (children (wo_os w) (staging_dir_place (wi_state_directory wi))). abandoned_buffer (wo_os w) name
              \<longrightarrow> node_at (wo_os w') (place_join (staging_dir_place (wi_state_directory wi)) name) = None))"
proof -
  let ?sd = "wi_state_directory wi"
  let ?d = "staging_dir_place ?sd"
  obtain s1 s2 where ac: "acquire ?sd (rq_database q) (rq_job q) (rq_at q) (wo_os w) = (Inr (lock_place ?sd (rq_database q)), s1)"
    and pu: "purge_staging ?sd s1 = (None, s2)" and q2: "quiet s2" "0 < os_pid s2"
    and br: "buffer_ready ?sd (rq_job q) (wo_os w) \<Longrightarrow> buffer_ready ?sd (rq_job q) s2" and sm: "same_machine (wo_os w) s2"
    and gone: "\<And>name. node_at (wo_os w) ?d = Some Dir \<Longrightarrow> name \<in> set (children (wo_os w) ?d)
      \<Longrightarrow> abandoned_buffer (wo_os w) name \<Longrightarrow> node_at s2 (place_join ?d name) = None"
    by (rule start_ready[OF machine, of "rq_job q" "rq_at q" "rq_job q"]) (rule that)
  from ports obtain vf wt where watch: "wi_verifier wi = Some vf" "vf resolution = Inr wt"
    and rs: "wi_resolver wi (rq_database q) = Inr resolution"
    by (auto simp: ports_answer_def)
  let ?w = "on_os s2 (on_os s1 w)"
  let ?r = "mark [StepResolution] ((new_result q)\<lparr>jr_warnings := rs_warnings resolution, jr_resolution := resolution\<rparr>)"
  have w: "wo_destinations ?w = wo_destinations w" "wo_os ?w = s2" by (simp_all add: on_os_def)
  obtain r w1 where rr: "run_resolved wi q resolution (Some wt) ?r ?w = (r, None, w1)" "jr_duration r = wi_elapsed wi"
      "list_all2 (moves (path_for wi q resolution)) (wo_destinations w) (wo_destinations w1)"
    using run_resolved_ready[of wi q ?w resolution bytes p d vf wt codec to ?r] ports watch ds buffer br q2 packs w by auto
  have "run_locked wi q (on_os s1 w) = (r, None, w1)"
    unfolding run_locked_def Let_def using pu rs watch rr(1) by (simp add: on_os_def)
  moreover obtain e p s3 where rl: "release (Some (lock_place ?sd (rq_database q))) (wo_os w1) = (e, p, s3)" by (metis prod_cases3)
  ultimately have run: "run wi q w = (r, None, on_os s3 w1)" using ac by (simp add: run_def)
  have clean: "node_at s3 (place_join ?d name) = None"
    if dead: "node_at (wo_os w) ?d = Some Dir" "name \<in> set (children (wo_os w) ?d)" "abandoned_buffer (wo_os w) name" for name
  proof -
    have sn: "simple_name name" using machine dead(2,3) by (auto simp: machine_ready_def list_all_iff)
    have live: "0 < os_pid (wo_os w)" "os_pid (wo_os w) < 2 ^ 63" "running (wo_os w) (os_pid (wo_os w))"
      using machine by (simp_all add: machine_ready_def)
    have "name \<noteq> staging_file_name (os_pid (wo_os w)) (rq_job q)"
      using owner_cases[OF live(1,2), of "wo_os w" "rq_job q"] live(3) dead(3) by auto
    then have "place_join ?d name \<noteq> staging_place ?sd (os_pid s2) (rq_job q)"
      using sm simple_staging_name[OF live(1), of "rq_job q"] sn by (simp add: staging_place_def place_join_simple same_machine_def)
    then have "node_at (wo_os w1) (place_join ?d name) = node_at s2 (place_join ?d name)"
      using run_resolved_leaves[OF rr(1), of "place_join ?d name"] sn w(2) by (simp add: place_join_simple)
    then have "node_at (wo_os w1) (place_join ?d name) = None" using gone[OF dead] by simp
    moreover have "lock_place ?sd (rq_database q) \<noteq> place_join ?d name" by (rule lock_not_buffer[OF abandoned_suffix[OF dead(3)]])
    ultimately show ?thesis using rl remove_frame(2)[of "lock_place ?sd (rq_database q)" "wo_os w1"]
      by (auto simp: release_def split: option.splits prod.splits if_splits)
  qed
  show ?thesis using run rr(2,3) clean by (intro exI[of _ r] exI[of _ "on_os s3 w1"]) (simp add: on_os_def)
qed

end
