(* ===== verification/Backup_Success.thy ===== *)
theory Backup_Success
  imports Backup_Ready
begin

text \<open>
  The liveness of a job, and the properties of a run applied to jobs on concrete values: one that streams to
  one destination, and one that stages to two after another job of the same database was killed.
\<close>

section \<open>A job with all it needs succeeds\<close>

declare split_paired_All [simp del] split_paired_Ex [simp del]

text \<open>
  C15. A job with all it needs succeeds, also after another one was killed (BKP-17, BKP-18): on a machine that
  answers every call, where the lock is free or names a process that is gone, when the ports of the job
  answer, the watcher accepts the dump, the pipeline can start its encoders and nothing is in the way on the
  directories it is sent to, a job, staged or streamed, returns without an error, and the buffers that dead
  jobs left in the staging directory are gone.
\<close>

theorem job_with_all_it_needs_succeeds:
  assumes "machine_ready (wi_state_directory wi) (rq_database q) (wo_os w)"
    and "ports_answer wi q (length (wo_destinations w)) resolution bytes p d"
    and "wo_destinations w \<noteq> []" "\<forall>d \<in> set (wo_destinations w). takes_archive (path_for wi q resolution) d"
    and "sd_mode d = Stage \<Longrightarrow> buffer_ready (wi_state_directory wi) (rq_job q) (wo_os w)"
    and "wi_pack wi = pipeline_pack codec (wi_sha256 wi) to"
  shows "\<exists>r w'. run wi q w = (r, None, w') \<and> jr_duration r = wi_elapsed wi
    \<and> (node_at (wo_os w) (staging_dir_place (wi_state_directory wi)) = Some Dir
        \<longrightarrow> (\<forall>name \<in> set (children (wo_os w) (staging_dir_place (wi_state_directory wi))). abandoned_buffer (wo_os w) name
              \<longrightarrow> node_at (wo_os w') (place_join (staging_dir_place (wi_state_directory wi)) name) = None))"
  using job_succeeds [OF assms] by blast

section \<open>A job on concrete values\<close>

definition plain_codec :: "(unit, unit) codec" where
  "plain_codec = \<lparr>zs_start = \<lambda>_. Inr (), zs_write = \<lambda>_ b. (b, ()), zs_close = \<lambda>_. [],
     ag_start = \<lambda>_. Inr ([], ()), ag_write = \<lambda>_ b. (b, ()), ag_close = \<lambda>_. []\<rparr>"

definition sample_request :: request where
  "sample_request = \<lparr>rq_database = ''ab'', rq_job = ''j'', rq_at = 0\<rparr>"

definition sample_resolution :: resolution where
  "sample_resolution = no_resolution\<lparr>rs_extension := ''pgc''\<rparr>"

definition sample_keys :: recipients where
  "sample_keys = \<lparr>rc_keys = [''k''], rc_from = ''r''\<rparr>"

definition sample_wiring :: "(bool \<Rightarrow> gerr option) \<Rightarrow> wiring" where
  "sample_wiring close =
     \<lparr>wi_state_directory = (True, [''k'']), wi_staging = Stream, wi_resolver = \<lambda>_. Inr sample_resolution,
      wi_dumper = \<lambda>_ _. Inr \<lparr>dh_reader = (''dump'', None), dh_close = close\<rparr>,
      wi_pack = pipeline_pack plain_codec (\<lambda>s. s) sample_keys, wi_pipeline = pipeline_steps,
      wi_free_bytes = Inr 0, wi_database_bytes = \<lambda>_. Inr 0, wi_last_successful = \<lambda>_. Inr None,
      wi_verifier = Some (\<lambda>_. Inr \<lparr>wt_refuses = \<lambda>_. None, wt_conclude = \<lambda>_. (True, ''sound'')\<rparr>),
      wi_manifester = Some (\<lambda>_. Inr ''{}''), wi_structural = False, wi_sha256 = \<lambda>s. s, wi_elapsed = 1\<rparr>"

definition sample_world :: "os world" where
  "sample_world = \<lparr>wo_os = one_process 7 [],
     wo_destinations = [\<lparr>ds_id = ''disk'', ds_store = filesystem (True, [''srv'']), ds_state = one_process 7 []\<rparr>],
     wo_journal = []\<rparr>"

lemma sample_packs: "\<exists>p. pr_answer (pipeline_pack plain_codec (\<lambda>s. s) sample_keys (''dump'', None) None) = Inr p"
  by (simp add: pipeline_pack_def Let_def pipeline_run_def encrypt_into_def sample_keys_def plain_codec_def write_out_def pipeline_copy_def
      blocks.simps[of "''dump''"] blocks.simps[of "[]"] copy_block_def write_raw_def write_sealed_def close_all_def
      close_sealed_def)

lemma sample_decision:
  "\<exists>d. decide_for (sample_wiring close) (Suc 0) ''ab'' sample_resolution = Inr d \<and> sd_mode d = Stream"
  by (simp add: decide_for_def sample_wiring_def sample_resolution_def no_resolution_def decide_staging_def
      stage_imposed_def Let_def)

lemma sample_world_simps [simp]:
  "wo_os sample_world = one_process 7 []" "wo_journal sample_world = []"
  "wo_destinations sample_world = [\<lparr>ds_id = ''disk'', ds_store = filesystem (True, [''srv'']), ds_state = one_process 7 []\<rparr>]"
  by (simp_all add: sample_world_def)

lemma empty_machine [simp]: "dirs_free (one_process 7 []) p" "held_by (one_process 7 []) p = None"
  by (simp_all add: dirs_free_def held_by_def)

lemma sample_extension: "segment_ok (rs_extension sample_resolution)"
  using segment_ok_known(3) by (simp add: sample_resolution_def)

lemma sample_pack: "wi_pack (sample_wiring close) = pipeline_pack plain_codec (wi_sha256 (sample_wiring close)) sample_keys"
  by (simp add: sample_wiring_def)

lemma sample_ports:
  assumes "decide_for (sample_wiring (\<lambda>_. None)) n ''ab'' sample_resolution = Inr d"
  obtains p where "ports_answer (sample_wiring (\<lambda>_. None)) sample_request n sample_resolution ''dump'' p d"
proof -
  let ?wi = "sample_wiring (\<lambda>_. None)"
  obtain p where p: "pr_answer (pipeline_pack plain_codec (\<lambda>s. s) sample_keys (''dump'', None) None) = Inr p"
    using sample_packs by blast
  have "ports_answer ?wi sample_request n sample_resolution ''dump'' p d"
    using assms p sample_extension
    by (simp add: ports_answer_def packs_whole_def sample_wiring_def sample_request_def ok_def)
  with that show thesis .
qed

lemma empty_disk_takes: "takes_archive path \<lparr>ds_id = name, ds_store = filesystem root, ds_state = one_process 7 []\<rparr>"
  unfolding takes_archive_def by (intro exI[of _ root]) simp

lemma empty_machine_ready: "machine_ready sd database (one_process 7 [])"
  by (simp add: machine_ready_def no_file_def children_def one_process_def[of 7 "[]"])
    (simp add: one_process_def[symmetric])

lemma sample_run:
  "\<exists>r w'. run (sample_wiring (\<lambda>_. None)) sample_request sample_world = (r, None, w')"
proof -
  obtain d where d: "decide_for (sample_wiring (\<lambda>_. None)) (Suc 0) ''ab'' sample_resolution = Inr d" "sd_mode d = Stream"
    using sample_decision by blast
  obtain p where p: "ports_answer (sample_wiring (\<lambda>_. None)) sample_request (Suc 0) sample_resolution ''dump'' p d"
    by (rule sample_ports[OF d(1)])
  show ?thesis
    using job_succeeds[of "sample_wiring (\<lambda>_. None)" sample_request sample_world sample_resolution "''dump''" p d plain_codec sample_keys]
      p d(2) sample_pack empty_machine_ready empty_disk_takes by (auto simp: sample_wiring_def)
qed

section \<open>A job after a killed one\<close>

text \<open>
  The process 9 was killed while it backed the same database up: its lock and its buffer are there. The next
  job has two destinations, so it stages.
\<close>

definition dead_lock :: string where
  "dead_lock = lock_contents ''ab'' ''old'' 9 0"

definition dead_buffer :: string where
  "dead_buffer = staging_file_name 9 ''old''"

definition killed_machine :: os where
  "killed_machine = one_process 7
     [((True, [''k'']), Dir), ((True, [''k'', lock_directory]), Dir), (lock_place (True, [''k'']) ''ab'', File dead_lock 0),
      ((True, [''k'', staging_directory]), Dir), ((True, [''k'', staging_directory, dead_buffer]), File ''half'' 0)]"

definition killed_world :: "os world" where
  "killed_world = \<lparr>wo_os = killed_machine,
     wo_destinations = [\<lparr>ds_id = ''disk'', ds_store = filesystem (True, [''srv'']), ds_state = one_process 7 []\<rparr>,
       \<lparr>ds_id = ''nas'', ds_store = filesystem (True, [''nas'']), ds_state = one_process 7 []\<rparr>],
     wo_journal = []\<rparr>"

lemma killed_decision:
  "\<exists>d. decide_for (sample_wiring close) 2 ''ab'' sample_resolution = Inr d \<and> sd_mode d = Stage"
  by (simp add: decide_for_def sample_wiring_def sample_resolution_def no_resolution_def decide_staging_def
      stage_imposed_def estimate_stored_def needed_def int64_quot_def Let_def)

lemma dead_buffer_simple: "simple_name dead_buffer" and dead_buffer_abandoned: "abandoned_buffer (one_process 7 fs) dead_buffer"
  by (simp_all add: dead_buffer_def simple_staging_name owner_cases)

lemma killed_places:
  "lock_place (True, [''k'']) ''ab'' = (True, [''k'', lock_directory, safe_segment ''ab'' @ ''.lock''])"
  "staging_dir_place (True, [''k'']) = (True, [''k'', staging_directory])"
  "place_join (True, [''k'']) lock_directory = (True, [''k'', lock_directory])"
  "place_join (True, [''k'', staging_directory]) dead_buffer = (True, [''k'', staging_directory, dead_buffer])"
  by (simp_all add: lock_place_eq staging_dir_eq place_join_simple simple_lock_names dead_buffer_simple)

lemma killed_nodes:
  "node_at killed_machine (True, [''k'', staging_directory]) = Some Dir"
  "node_at killed_machine (lock_place (True, [''k'']) ''ab'') = Some (File dead_lock 0)"
  "node_at killed_machine (True, [''k'', staging_directory, dead_buffer]) = Some (File ''half'' 0)"
  "node_at killed_machine (True, [''k'', staging_directory, other]) \<noteq> Some Dir"
  by (simp_all add: killed_machine_def killed_places staging_directory_def lock_directory_def)

lemma killed_children: "children killed_machine (True, [''k'', staging_directory]) = [dead_buffer]"
  by (simp add: children_def killed_machine_def one_process_def place_dir_def delete_conv killed_places
      staging_directory_def lock_directory_def)

lemma killed_ready: "machine_ready (True, [''k'']) ''ab'' killed_machine" "buffer_ready (True, [''k'']) ''j'' killed_machine"
proof -
  have pid: "os_pid killed_machine = 7" "quiet killed_machine" "running killed_machine 7" "\<not> running killed_machine 9"
    by (simp_all add: killed_machine_def)
  have "read_holder dead_lock = Some \<lparr>h_database = ''ab'', h_job = ''old'', h_pid = 9, h_acquired_at = format_rfc3339 utc 0\<rparr>"
    unfolding dead_lock_def by (rule lock_contents_read) code_simp+
  then have "held_by killed_machine (lock_place (True, [''k'']) ''ab'') = None"
    by (simp add: held_by_def killed_nodes pid)
  moreover have "dirs_free killed_machine (True, [''k'', x])" if "x = lock_directory \<or> x = staging_directory" for x
    using that by (auto simp: dirs_free_def killed_machine_def less_Suc_eq killed_places staging_directory_def lock_directory_def)
  ultimately show "machine_ready (True, [''k'']) ''ab'' killed_machine" "buffer_ready (True, [''k'']) ''j'' killed_machine"
    using pid dead_buffer_simple
    by (simp_all add: machine_ready_def buffer_ready_def killed_places killed_children killed_nodes no_file_def
        staging_place_def place_join_simple simple_staging_name killed_nodes(2)[unfolded killed_places])
qed

theorem job_with_all_it_needs_succeeds_witness:
  "\<exists>r w'. run (sample_wiring (\<lambda>_. None)) sample_request killed_world = (r, None, w')
    \<and> node_at (wo_os w') (True, [''k'', staging_directory, dead_buffer]) = None"
proof -
  let ?wi = "sample_wiring (\<lambda>_. None)"
  obtain d where d: "decide_for ?wi 2 ''ab'' sample_resolution = Inr d" "sd_mode d = Stage" using killed_decision by blast
  obtain p where p: "ports_answer ?wi sample_request 2 sample_resolution ''dump'' p d" by (rule sample_ports[OF d(1)])
  have at: "wi_state_directory ?wi = (True, [''k''])" "rq_database sample_request = ''ab''" "rq_job sample_request = ''j''"
    by (simp_all add: sample_wiring_def sample_request_def)
  have world: "wo_os killed_world = killed_machine" "length (wo_destinations killed_world) = 2" "wo_destinations killed_world \<noteq> []"
    "\<forall>d \<in> set (wo_destinations killed_world). takes_archive path d" for path
    using empty_disk_takes by (auto simp: killed_world_def)
  obtain r w' where "run ?wi sample_request killed_world = (r, None, w')"
    and "node_at (wo_os w') (place_join (True, [''k'', staging_directory]) dead_buffer) = None"
    using job_with_all_it_needs_succeeds[of ?wi sample_request killed_world sample_resolution "''dump''" p d plain_codec sample_keys]
      p world killed_ready sample_pack killed_nodes(1) killed_children dead_buffer_abandoned
    by (auto simp: at killed_places killed_machine_def)
  then show ?thesis by (auto simp: killed_places)
qed

section \<open>The properties of a run, applied to it\<close>

theorem run_steps_are_a_prefix_witness:
  "\<exists>r w'. run (sample_wiring (\<lambda>_. None)) sample_request sample_world = (r, None, w')
    \<and> jr_steps r = map (\<lambda>s. (s, True)) steps"
proof -
  obtain r w' where r: "run (sample_wiring (\<lambda>_. None)) sample_request sample_world = (r, None, w')"
    using sample_run by blast
  from run_steps_are_a_prefix[OF r] have "jr_steps r = map (\<lambda>(i, s). (s, i < 7)) (enumerate 0 steps)"
    by (auto simp: sample_wiring_def)
  with r show ?thesis by (simp add: steps_def)
qed

theorem journal_stops_where_the_job_stops_witness:
  "\<exists>r w'. run (sample_wiring (\<lambda>_. None)) sample_request sample_world = (r, None, w')
    \<and> map js_step (wo_journal w') = steps"
proof -
  obtain r w' where r: "run (sample_wiring (\<lambda>_. None)) sample_request sample_world = (r, None, w')"
    using sample_run by blast
  from journal_stops_where_the_job_stops[OF r] have
    "map (\<lambda>e. (js_step e, js_failed e = None)) (wo_journal w') = map (\<lambda>s. (s, True)) (take 7 steps)"
    by (auto simp: sample_wiring_def)
  from arg_cong[OF this, where f = "map fst"] have "map js_step (wo_journal w') = take 7 steps" by (simp add: comp_def)
  with r show ?thesis by (simp add: steps_def)
qed

theorem success_is_verified_witness:
  "\<exists>r w' st t. run (sample_wiring (\<lambda>_. None)) sample_request sample_world = (r, None, w')
    \<and> fs_read (True, [''srv'']) (jr_path r) st = (Inr (jr_sha_stored r, None), t)"
proof -
  obtain r w' where r: "run (sample_wiring (\<lambda>_. None)) sample_request sample_world = (r, None, w')"
    using sample_run by blast
  from success_is_verified[OF r] show ?thesis using r by (auto simp: sample_wiring_def filesystem_def)
qed

theorem success_is_a_backup_witness:
  "\<exists>r w'. run (sample_wiring (\<lambda>_. None)) sample_request sample_world = (r, None, w')
    \<and> jr_raw_bytes r = 4 \<and> jr_sha_raw r = ''dump''"
proof -
  obtain r w' where r: "run (sample_wiring (\<lambda>_. None)) sample_request sample_world = (r, None, w')"
    using sample_run by blast
  have "\<exists>resolution dump vf wt detail archive.
      wi_resolver (sample_wiring (\<lambda>_. None)) (rq_database sample_request) = Inr resolution
      \<and> wi_dumper (sample_wiring (\<lambda>_. None)) resolution sample_request = Inr dump
      \<and> jr_raw_bytes r = int (length (fst (dh_reader dump)))
      \<and> jr_sha_raw r = wi_sha256 (sample_wiring (\<lambda>_. None)) (fst (dh_reader dump))"
    using success_is_a_backup[OF r, of plain_codec sample_keys] segment_ok_known(3)
    by (fastforce simp: sample_wiring_def on_directory_def sample_resolution_def)
  with r show ?thesis by (auto simp: sample_wiring_def)
qed

theorem plan_predicts_the_run_witness:
  "\<exists>r p w'. run (sample_wiring (\<lambda>_. None)) sample_request sample_world = (r, None, w')
    \<and> plan (sample_wiring (\<lambda>_. None)) sample_request sample_world = (p, None) \<and> jr_path p = jr_path r"
proof -
  obtain r w' where r: "run (sample_wiring (\<lambda>_. None)) sample_request sample_world = (r, None, w')"
    using sample_run by blast
  from plan_predicts_the_run[OF r] r show ?thesis by blast
qed

theorem dead_dump_is_never_a_backup_witness:
  "\<exists>r e w'. run (sample_wiring (\<lambda>_. Some (errors_new ''exit status 1''))) sample_request sample_world = (r, Some e, w')"
proof -
  let ?wi = "sample_wiring (\<lambda>_. Some (errors_new ''exit status 1''))"
  obtain r f w' where r: "run ?wi sample_request sample_world = (r, f, w')" by (metis prod_cases3)
  have "f \<noteq> None" by (rule dead_dump_is_never_a_backup[OF r]) (auto simp: sample_wiring_def)
  with r show ?thesis by auto
qed

theorem refused_job_touches_nothing_witness:
  "\<exists>s r e w'. run (sample_wiring (\<lambda>_. None)) sample_request (on_os s sample_world) = (r, Some e, w') \<and> wo_journal w' = []"
proof -
  let ?wi = "sample_wiring (\<lambda>_. None)" and ?sd = "(True, [''k''])"
  obtain s where s: "acquire ?sd ''ab'' ''jj'' 0 (one_process 7 []) = (Inr (lock_place ?sd ''ab''), s)"
    using acquire_free[of "one_process 7 []" ?sd "''ab''" "''jj''" 0] by auto
  obtain h where h: "held_by s (lock_place ?sd ''ab'') = Some h" using acquire_held_by[OF s] by auto
  obtain r f w' where r: "run ?wi sample_request (on_os s sample_world) = (r, f, w')" by (metis prod_cases3)
  have "f \<noteq> None \<and> wo_journal w' = wo_journal (on_os s sample_world)"
    using refused_job_touches_nothing[OF r, of h] h by (simp add: sample_wiring_def sample_request_def on_os_def)
  with r show ?thesis by (auto simp: on_os_def)
qed

theorem nothing_is_left_behind_witness:
  "\<exists>r w'. run (sample_wiring (\<lambda>_. None)) sample_request sample_world = (r, None, w')
    \<and> node_at (wo_os w') (lock_place (True, [''k'']) ''ab'') = None"
proof -
  obtain r w' where r: "run (sample_wiring (\<lambda>_. None)) sample_request sample_world = (r, None, w')"
    using sample_run by blast
  from nothing_is_left_behind[OF r] have "node_at (wo_os w') (lock_place (True, [''k'']) ''ab'') = None"
    by (simp add: sample_wiring_def sample_request_def no_file_def)
  with r show ?thesis by blast
qed

end
