(* ===== verification/Backup_Others.thy ===== *)
theory Backup_Others
  imports Backup_Success
begin

text \<open>
  What a backup becomes: a job writes the two names of its own archive on its destinations and no other,
  two jobs never share a name, so the archive of a job that succeeded is still on every destination after
  any number of later jobs, whether they succeed or fail.
\<close>

section \<open>Two jobs never share a name\<close>

definition another_archive :: "request \<Rightarrow> request \<Rightarrow> bool" where
  "another_archive q p \<longleftrightarrow> safe_segment (rq_database p) \<noteq> safe_segment (rq_database q)
     \<or> format_stamp (civil_of (rq_at p)) \<noteq> format_stamp (civil_of (rq_at q))
     \<or> safe_segment (rq_job p) \<noteq> safe_segment (rq_job q)"

text \<open>The identifier of a job is a ULID: it holds no dot.\<close>

definition dotless_job :: "request \<Rightarrow> bool" where
  "dotless_job q \<longleftrightarrow> CHR ''.'' \<notin> set (safe_segment (rq_job q))"

definition names_of :: "wiring \<Rightarrow> request \<Rightarrow> resolution \<Rightarrow> string set" where
  "names_of wi q resolution = {path_for wi q resolution, path_for wi q resolution @ manifest_suffix}"

lemma names_resolve:
  assumes "segment_ok (rs_extension resolution)" "name \<in> names_of wi q resolution"
  obtains e where "resolve root name = (fst root, snd root @ [safe_segment (rq_database q),
      pad_int 4 (c_year (civil_of (rq_at q))), pad_int 2 (c_month (civil_of (rq_at q))),
      safe_segment (rq_database q) @ ''_'' @ format_stamp (civil_of (rq_at q)) @ ''_'' @ safe_segment (rq_job q) @ ''.'' @ e])"
proof -
  note e = segment_ok_extension[OF assms(1), of "wi_pipeline wi"]
  from assms(2) show thesis
    using that[of "archive_extension (rs_extension resolution) (wi_pipeline wi)"]
      that[of "archive_extension (rs_extension resolution) (wi_pipeline wi) @ ''.json''"]
    by (auto simp: names_of_def path_for_def manifest_suffix_def resolve_def archive_segments[OF e]
        archive_segments_json[OF e] archive_name_def)
qed

lemma names_apart:
  assumes "segment_ok (rs_extension r1)" "segment_ok (rs_extension r2)"
    and "dotless_job q" "dotless_job p" "another_archive q p"
    and "a \<in> names_of w1 q r1" "b \<in> names_of w2 p r2"
  shows "resolve root b \<noteq> resolve root a"
proof
  assume same: "resolve root b = resolve root a"
  obtain e1 where e1: "resolve root a = (fst root, snd root @ [safe_segment (rq_database q),
      pad_int 4 (c_year (civil_of (rq_at q))), pad_int 2 (c_month (civil_of (rq_at q))),
      safe_segment (rq_database q) @ ''_'' @ format_stamp (civil_of (rq_at q)) @ ''_'' @ safe_segment (rq_job q) @ ''.'' @ e1])"
    by (rule names_resolve[OF assms(1,6)])
  obtain e2 where e2: "resolve root b = (fst root, snd root @ [safe_segment (rq_database p),
      pad_int 4 (c_year (civil_of (rq_at p))), pad_int 2 (c_month (civil_of (rq_at p))),
      safe_segment (rq_database p) @ ''_'' @ format_stamp (civil_of (rq_at p)) @ ''_'' @ safe_segment (rq_job p) @ ''.'' @ e2])"
    by (rule names_resolve[OF assms(2,7)])
  let ?t = "\<lambda>q. format_stamp (civil_of (rq_at q))"
  from same have d: "safe_segment (rq_database p) = safe_segment (rq_database q)"
    and n: "?t p @ CHR ''_'' # safe_segment (rq_job p) @ CHR ''.'' # e2
      = ?t q @ CHR ''_'' # safe_segment (rq_job q) @ CHR ''.'' # e1"
    unfolding e1 e2 by (auto simp only: prod.inject append_same_eq same_append_eq list.inject append_Cons append_Nil)
  from arg_cong[OF n, of "cut (CHR ''_'')"] have t: "?t p = ?t q"
    and j: "safe_segment (rq_job p) @ CHR ''.'' # e2 = safe_segment (rq_job q) @ CHR ''.'' # e1"
    using stamp_no_separator(1) by simp_all
  from arg_cong[OF j, of "cut (CHR ''.'')"] have "safe_segment (rq_job p) = safe_segment (rq_job q)"
    using assms(3,4) by (simp add: dotless_job_def)
  with d t assms(5) show False by (simp add: another_archive_def)
qed

lemma names_fair: "segment_ok (rs_extension resolution) \<Longrightarrow> a \<in> names_of wi q resolution \<Longrightarrow> fair_name a"
  using archive_fair(1,2)[of "rs_extension resolution" "rq_database q" "rq_at q" "rq_job q" "wi_pipeline wi"]
  by (auto simp: names_of_def path_for_def)

section \<open>What a step of a job keeps\<close>

text \<open>The destinations as they were, but for what they hold under other names.\<close>

definition kept_on :: "string \<Rightarrow> os destination \<Rightarrow> os destination \<Rightarrow> bool" where
  "kept_on other d d' \<longleftrightarrow> ds_store d' = ds_store d \<and> (\<forall>b. lies d other b \<longrightarrow> lies d' other b)"

definition all_kept :: "string \<Rightarrow> os destination list \<Rightarrow> os destination list \<Rightarrow> bool" where
  "all_kept other = list_all2 (kept_on other)"

definition elsewhere :: "string \<Rightarrow> string \<Rightarrow> bool" where
  "elsewhere other path \<longleftrightarrow> fair_name path \<and> fair_name other \<and> (\<forall>root. resolve root path \<noteq> resolve root other)"

lemma kept_on_refl [simp]: "kept_on other d d"
  by (simp add: kept_on_def)

lemma all_kept_refl [simp]: "all_kept other ds ds"
  by (simp add: all_kept_def list_all2_refl)

lemma all_kept_Cons [simp]:
  "all_kept other (d # ds) (d' # ds') \<longleftrightarrow> kept_on other d d' \<and> all_kept other ds ds'"
  by (simp add: all_kept_def)

lemma all_kept_trans: "all_kept other a b \<Longrightarrow> all_kept other b c \<Longrightarrow> all_kept other a c"
  unfolding all_kept_def by (rule list_all2_trans[of "kept_on other" "kept_on other"]) (auto simp: kept_on_def)

lemma all_kept_directories:
  "all_kept other ds ds' \<Longrightarrow> \<forall>d \<in> set ds. on_directory d \<Longrightarrow> \<forall>d \<in> set ds'. on_directory d"
  unfolding all_kept_def by (induction rule: list_all2_induct) (auto simp: kept_on_def on_directory_def)

lemma all_kept_lies:
  "all_kept other ds ds' \<Longrightarrow> \<forall>d \<in> set ds. lies d other b \<Longrightarrow> \<forall>d \<in> set ds'. lies d other b"
  unfolding all_kept_def by (induction rule: list_all2_induct) (auto simp: kept_on_def)

lemma write_kept:
  "so_write (ds_store d) path src (ds_state d) = (answer, t) \<Longrightarrow> on_directory d \<Longrightarrow> elsewhere other path
    \<Longrightarrow> kept_on other d (d\<lparr>ds_state := t\<rparr>)"
  unfolding elsewhere_def kept_on_def by (auto intro: written_keeps)

lemma read_kept:
  "so_read (ds_store d) path (ds_state d) = (got, t) \<Longrightarrow> on_directory d \<Longrightarrow> kept_on other d (d\<lparr>ds_state := t\<rparr>)"
  unfolding kept_on_def using read_keeps by simp

lemma send_staged_kept:
  "send_staged path temp ds s = (failed, ds', s') \<Longrightarrow> \<forall>d \<in> set ds. on_directory d \<Longrightarrow> elsewhere other path
    \<Longrightarrow> all_kept other ds ds'"
proof (induction ds arbitrary: s failed ds' s')
  case Nil
  then show ?case by simp
next
  case (Cons d ds)
  obtain e s1 where t: "os_touch s = (e, s1)" by fastforce
  obtain b s2 where r: "staged_reader temp s1 = (b, s2)" by fastforce
  obtain a k st where w: "so_write (ds_store d) path b (ds_state d) = ((a, k), st)" by (metis surj_pair)
  obtain f3 ds3 s3 where rec: "send_staged path temp ds s2 = (f3, ds3, s3)" by (metis prod_cases3)
  have "kept_on other d (d\<lparr>ds_state := st\<rparr>)" using write_kept[OF w] Cons.prems(2,3) by simp
  moreover have "all_kept other ds ds3" using Cons.IH[OF rec] Cons.prems(2,3) by simp
  ultimately show ?case using Cons.prems(1) t r w rec by (auto split: option.splits sum.splits)
qed

lemma deposit_kept:
  "deposit path m ds = (failed, ds') \<Longrightarrow> \<forall>d \<in> set ds. on_directory d \<Longrightarrow> elsewhere other path
    \<Longrightarrow> all_kept other ds ds'"
proof (induction ds arbitrary: failed ds')
  case Nil
  then show ?case by simp
next
  case (Cons d ds)
  obtain a k st where w: "so_write (ds_store d) path (m, None) (ds_state d) = ((a, k), st)" by (metis surj_pair)
  obtain f3 ds3 where rec: "deposit path m ds = (f3, ds3)" by fastforce
  have "kept_on other d (d\<lparr>ds_state := st\<rparr>)" using write_kept[OF w] Cons.prems(2,3) by simp
  moreover have "all_kept other ds ds3" using Cons.IH[OF rec] Cons.prems(2,3) by simp
  ultimately show ?case using Cons.prems(1) w rec by (auto split: sum.splits)
qed

lemma stage_filled_kept:
  assumes "stage_filled wi q dump watch path temp r w = (a, r', w', seen)"
    and "\<forall>d \<in> set (wo_destinations w). on_directory d" "elsewhere other path"
  shows "all_kept other (wo_destinations w) (wo_destinations w')"
  using assms by (auto simp: stage_filled_def Let_def dest!: dump_died_world send_staged_kept
      split: prod.splits option.splits sum.splits)

lemma stream_kept:
  assumes "stream wi q dump watch path r w = (a, r', w', seen)"
    and "\<forall>d \<in> set (wo_destinations w). on_directory d" "elsewhere other path"
  shows "all_kept other (wo_destinations w) (wo_destinations w')"
  using assms by (auto simp: stream_def Let_def dest!: stream_end_world intro: write_kept split: list.splits prod.splits)

lemma dump_and_write_kept:
  assumes "dump_and_write wi q resolution watch md path r w = (a, r', w', seen)"
    and "\<forall>d \<in> set (wo_destinations w). on_directory d" "elsewhere other path"
  shows "all_kept other (wo_destinations w) (wo_destinations w')"
  using assms(1) stage_filled_kept[OF _ _ assms(3)] stream_kept[OF _ _ assms(3)] assms(2)
  by (fastforce simp: dump_and_write_def stage_def Let_def split: sum.splits prod.splits if_splits)

lemma verify_archive_kept:
  assumes "verify_archive wi q watch r w = (a, r', w')" and "\<forall>d \<in> set (wo_destinations w). on_directory d"
  shows "all_kept other (wo_destinations w) (wo_destinations w')" "jr_path r' = jr_path r"
  using assms by (auto simp: verify_archive_def conclude_verification_def reread_checksum_def set_step_def Let_def
      intro: read_kept split: option.splits prod.splits list.splits sum.splits if_splits)

lemma deposit_manifest_kept:
  assumes "deposit_manifest wi q r w = (a, r', w')" and "\<forall>d \<in> set (wo_destinations w). on_directory d"
    and "elsewhere other (jr_path r @ manifest_suffix)"
  shows "all_kept other (wo_destinations w) (wo_destinations w')"
  using assms deposit_kept[OF _ assms(2,3)]
  by (auto simp: deposit_manifest_def Let_def split: option.splits sum.splits prod.splits)

lemma finish_run_kept:
  assumes "finish_run wi q watch p r w = (r', a, w')" and "\<forall>d \<in> set (wo_destinations w). on_directory d"
    and "elsewhere other (jr_path r @ manifest_suffix)"
  shows "all_kept other (wo_destinations w) (wo_destinations w')"
proof -
  obtain r1 w1 f r2 w2 where v: "verify_archive wi q watch r1 w1 = (f, r2, w2)"
    and same: "jr_path r1 = jr_path r" "wo_destinations w1 = wo_destinations w"
    and fr: "(case f of Some e \<Rightarrow> (r2, Some e, w2)
        | None \<Rightarrow> (case deposit_manifest wi q (r2\<lparr>jr_duration := wi_elapsed wi\<rparr>) w2 of (failed, r3, w3) \<Rightarrow> (r3, failed, w3)))
      = (r', a, w')"
    using assms(1) unfolding finish_run_def Let_def by (auto split: prod.splits)
  have dirs: "\<forall>d \<in> set (wo_destinations w1). on_directory d" using assms(2) same(2) by simp
  note k = verify_archive_kept(1)[OF v dirs, of other] verify_archive_kept(2)[OF v dirs]
  have dirs2: "\<forall>d \<in> set (wo_destinations w2). on_directory d" by (rule all_kept_directories[OF k(1) dirs])
  have "all_kept other (wo_destinations w2) (wo_destinations w')"
  proof (cases f)
    case None
    with fr have "deposit_manifest wi q (r2\<lparr>jr_duration := wi_elapsed wi\<rparr>) w2 = (a, r', w')" by (auto split: prod.splits)
    from deposit_manifest_kept[OF this dirs2] assms(3) k(2) same(1) show ?thesis by simp
  qed (use fr in auto)
  with k(1) same(2) show ?thesis using all_kept_trans by metis
qed

text \<open>A job touches nothing on its destinations but the two names of its archive, however it ends.\<close>

lemma run_resolved_kept:
  assumes "run_resolved wi q resolution watch r w = (r', a, w')" and "\<forall>d \<in> set (wo_destinations w). on_directory d"
    and "\<And>path. path \<in> names_of wi q resolution \<Longrightarrow> elsewhere other path"
  shows "all_kept other (wo_destinations w) (wo_destinations w')"
proof -
  let ?path = "path_for wi q resolution"
  have el: "elsewhere other ?path" "elsewhere other (?path @ manifest_suffix)" using assms(3) by (simp_all add: names_of_def)
  let ?v = "journal q StepResolution None
      [(''engine'', FString (rs_engine resolution)), (''server_version'', FString (rs_server_version resolution)),
       (''tool'', FString (rs_tool_path resolution)), (''tool_version'', FString (rs_tool_version resolution)),
       (''tool_source'', FString (rs_tool_source resolution))] w"
  have v: "wo_destinations ?v = wo_destinations w" by simp
  consider (undecided) "wo_destinations w' = wo_destinations w"
    | (decided) d v ans r2 w2 seen where "wo_destinations v = wo_destinations w"
        "dump_and_write wi q resolution watch (sd_mode d) ?path (decided d ?path r) v = (ans, r2, w2, seen)"
        "(case ans of Inl e \<Rightarrow> (r2, Some e, w2) | Inr p \<Rightarrow> finish_run wi q (map_option (\<lambda>wt. (wt, seen)) watch) p r2 w2) = (r', a, w')"
  proof (cases "decide_for wi (length (wo_destinations w)) (rq_database q) resolution")
    case (Inl e)
    with assms(1) show ?thesis by (intro that(1)) (auto simp: run_resolved_def Let_def)
  next
    case (Inr d)
    obtain ans r2 w2 seen where
      dw: "dump_and_write wi q resolution watch (sd_mode d) ?path (decided d ?path r) ?v = (ans, r2, w2, seen)"
      by (metis prod_cases4)
    have "jr_path (decided d ?path r) = ?path" by (simp add: decided_def)
    with assms(1) Inr dw v have
      "(case ans of Inl e \<Rightarrow> (r2, Some e, w2) | Inr p \<Rightarrow> finish_run wi q (map_option (\<lambda>wt. (wt, seen)) watch) p r2 w2) = (r', a, w')"
      by (simp add: run_resolved_def Let_def split: sum.splits)
    with that(2)[OF v dw] show ?thesis by simp
  qed
  then show ?thesis
  proof cases
    case undecided
    then show ?thesis by simp
  next
    case decided
    have dirs: "\<forall>d \<in> set (wo_destinations v). on_directory d" using assms(2) decided(1) by simp
    note k = dump_and_write_kept[OF decided(2) dirs el(1)]
    have dirs2: "\<forall>d \<in> set (wo_destinations w2). on_directory d" by (rule all_kept_directories[OF k dirs])
    have path: "jr_path r2 = ?path" using dump_and_write_path[OF decided(2)] by (simp add: decided_def)
    have "all_kept other (wo_destinations w2) (wo_destinations w')"
    proof (cases ans)
      case (Inr p)
      with decided(3) have "finish_run wi q (map_option (\<lambda>wt. (wt, seen)) watch) p r2 w2 = (r', a, w')" by simp
      from finish_run_kept[OF this dirs2] el(2) path show ?thesis by simp
    qed (use decided(3) in auto)
    with k decided(1) show ?thesis using all_kept_trans by metis
  qed
qed

lemma run_locked_kept:
  assumes "run_locked wi q w = (r, failed, w')" and "\<forall>d \<in> set (wo_destinations w). on_directory d"
    and "\<And>resolution path. wi_resolver wi (rq_database q) = Inr resolution \<Longrightarrow> path \<in> names_of wi q resolution
      \<Longrightarrow> elsewhere other path"
  shows "all_kept other (wo_destinations w) (wo_destinations w')"
proof -
  obtain e s1 where pg: "purge_staging (wi_state_directory wi) (wo_os w) = (e, s1)" by fastforce
  have on: "wo_destinations (on_os s1 w) = wo_destinations w" by (simp add: on_os_def)
  have "wo_destinations w' = wo_destinations w
    \<or> (\<exists>resolution watch x v. wi_resolver wi (rq_database q) = Inr resolution \<and> wo_destinations v = wo_destinations w
        \<and> run_resolved wi q resolution watch x v = (r, failed, w'))"
    using assms(1) pg on unfolding run_locked_def Let_def
    by (auto split: option.splits sum.splits)
  then consider (unresolved) "wo_destinations w' = wo_destinations w"
    | (resolved) resolution watch x v where "wi_resolver wi (rq_database q) = Inr resolution" "wo_destinations v = wo_destinations w"
        "run_resolved wi q resolution watch x v = (r, failed, w')" by blast
  then show ?thesis
  proof cases
    case unresolved
    then show ?thesis by simp
  next
    case resolved
    with run_resolved_kept[OF resolved(3)] assms(2,3) show ?thesis by simp
  qed
qed

lemma run_kept:
  assumes "run wi q w = (r, failed, w')" and "\<forall>d \<in> set (wo_destinations w). on_directory d"
    and "\<And>resolution path. wi_resolver wi (rq_database q) = Inr resolution \<Longrightarrow> path \<in> names_of wi q resolution
      \<Longrightarrow> elsewhere other path"
  shows "all_kept other (wo_destinations w) (wo_destinations w')"
proof -
  from assms(1) consider (refused) "wo_destinations w' = wo_destinations w"
    | (locked) s w1 where "run_locked wi q (on_os s w) = (r, failed, w1)" "wo_destinations w' = wo_destinations w1"
    unfolding run_def by (auto simp: on_os_def split: sum.splits prod.splits)
  then show ?thesis
  proof cases
    case refused
    then show ?thesis by simp
  next
    case locked
    with run_locked_kept[OF locked(1) _ assms(3)] assms(2) show ?thesis by (simp add: on_os_def)
  qed
qed

section \<open>After a backup\<close>

text \<open>
  What may happen once the job of \<open>q\<close> has ended: other jobs, with whatever ports, that succeed or fail;
  destinations that are read or listed; anything at all on the machine of the agent, whose journal starts
  anew with each command.
\<close>

inductive afterwards :: "request \<Rightarrow> os world \<Rightarrow> os world \<Rightarrow> bool" for q w where
  now: "afterwards q w w"
| job: "afterwards q w u \<Longrightarrow> another_archive q p \<Longrightarrow> dotless_job p
    \<Longrightarrow> (\<And>resolution. wi_resolver wi (rq_database p) = Inr resolution \<Longrightarrow> segment_ok (rs_extension resolution))
    \<Longrightarrow> run wi p u = (r, failed, v) \<Longrightarrow> afterwards q w v"
| read_back: "afterwards q w u \<Longrightarrow> wo_destinations u = ds @ d # es \<Longrightarrow> so_read (ds_store d) path (ds_state d) = (got, t)
    \<Longrightarrow> afterwards q w (u\<lparr>wo_destinations := ds @ d\<lparr>ds_state := t\<rparr> # es\<rparr>)"
| listed: "afterwards q w u \<Longrightarrow> wo_destinations u = ds @ d # es \<Longrightarrow> so_list (ds_store d) path (ds_state d) = (found, t)
    \<Longrightarrow> afterwards q w (u\<lparr>wo_destinations := ds @ d\<lparr>ds_state := t\<rparr> # es\<rparr>)"
| elsewhere_on_the_machine: "afterwards q w u \<Longrightarrow> afterwards q w (u\<lparr>wo_os := s, wo_journal := js\<rparr>)"

lemma list_kept:
  assumes "so_list (ds_store d) path (ds_state d) = (found, t)" "on_directory d"
  shows "kept_on other d (d\<lparr>ds_state := t\<rparr>)"
proof -
  from assms(2) obtain root where root: "ds_store d = filesystem root" by (auto simp: on_directory_def)
  with assms(1) have "fs_list root path (ds_state d) = (found, t)" by (simp add: filesystem_def)
  then have "node_at t x = node_at (ds_state d) x" for x
    by (auto simp: fs_list_def os_call_frame(3) split: prod.splits option.splits)
  then have "held_file t x = held_file (ds_state d) x" for x by (simp add: held_file_def)
  then show ?thesis by (auto simp: kept_on_def lies_def)
qed

lemma all_kept_at:
  "kept_on other d d' \<Longrightarrow> all_kept other (ds @ d # es) (ds @ d' # es)"
  by (simp add: all_kept_def list_all2_append list_all2_refl)

lemma afterwards_kept:
  assumes "afterwards q w v" and "\<forall>d \<in> set (wo_destinations w). on_directory d"
    and "dotless_job q" "segment_ok (rs_extension resolution)" "other \<in> names_of wi q resolution"
  shows "all_kept other (wo_destinations w) (wo_destinations v)"
  using assms(1)
proof induction
  case now
  then show ?case by simp
next
  case (job u p wi' r failed v)
  have away: "elsewhere other path"
    if "wi_resolver wi' (rq_database p) = Inr res" "path \<in> names_of wi' p res" for res path
    unfolding elsewhere_def
    using names_fair[OF job.hyps(4)[OF that(1)] that(2)] names_fair[OF assms(4,5)]
      names_apart[OF assms(4) job.hyps(4)[OF that(1)] assms(3) job.hyps(3,2) assms(5) that(2)] by simp
  have "all_kept other (wo_destinations u) (wo_destinations v)"
    by (rule run_kept[OF job.hyps(5) all_kept_directories[OF job.IH assms(2)]]) (rule away)
  with job.IH show ?case by (rule all_kept_trans)
next
  case (read_back u ds d es path got t)
  have "on_directory d" using all_kept_directories[OF read_back.IH assms(2)] read_back.hyps(2) by simp
  from all_kept_at[OF read_kept[OF read_back.hyps(3) this]] read_back.IH read_back.hyps(2) show ?case
    using all_kept_trans by fastforce
next
  case (listed u ds d es path found t)
  have "on_directory d" using all_kept_directories[OF listed.IH assms(2)] listed.hyps(2) by simp
  from all_kept_at[OF list_kept[OF listed.hyps(3) this]] listed.IH listed.hyps(2) show ?case
    using all_kept_trans by fastforce
next
  case (elsewhere_on_the_machine u s js)
  then show ?case by simp
qed

lemma later_jobs_leave_it:
  assumes "run wi q w = (r, None, w')" and "afterwards q w' v"
    and "wi_pack wi = pipeline_pack codec (wi_sha256 wi) to" and "wi_manifester wi \<noteq> None"
    and "\<forall>d \<in> set (wo_destinations w). on_directory d" and "dotless_job q"
    and "\<And>resolution. wi_resolver wi (rq_database q) = Inr resolution \<Longrightarrow> segment_ok (rs_extension resolution)"
  shows "\<exists>archive. jr_sha_stored r = wi_sha256 wi archive \<and> jr_stored_bytes r = int (length archive)
    \<and> map ds_store (wo_destinations v) = map ds_store (wo_destinations w) \<and> wo_destinations v \<noteq> []
    \<and> (\<forall>d \<in> set (wo_destinations v). lies d (jr_path r) (Some archive)
        \<and> lies d (jr_path r @ manifest_suffix) (Some (jr_manifest r)))"
proof -
  obtain resolution where rs: "wi_resolver wi (rq_database q) = Inr resolution" "jr_path r = path_for wi q resolution"
    by (rule run_success_parts[OF assms(1)]) (rule that)
  from run_leaves_a_backup[OF assms(1,3,4,5)] assms(7) obtain archive where
    archive: "jr_stored_bytes r = int (length archive)" "jr_sha_stored r = wi_sha256 wi archive" "wo_destinations w' \<noteq> []"
      "\<forall>d \<in> set (wo_destinations w'). lies d (jr_path r) (Some archive)
        \<and> lies d (jr_path r @ manifest_suffix) (Some (jr_manifest r))" by blast
  have dirs: "\<forall>d \<in> set (wo_destinations w'). on_directory d"
    using archive(4) by (auto simp: lies_def on_directory_def)
  note kept = afterwards_kept[OF assms(2) dirs assms(6) assms(7)[OF rs(1)], of _ wi]
  have names: "jr_path r \<in> names_of wi q resolution" "jr_path r @ manifest_suffix \<in> names_of wi q resolution"
    by (simp_all add: names_of_def rs(2))
  have "\<forall>d \<in> set (wo_destinations v). lies d (jr_path r) (Some archive)"
    by (rule all_kept_lies[OF kept[OF names(1)]]) (use archive(4) in blast)
  moreover have "\<forall>d \<in> set (wo_destinations v). lies d (jr_path r @ manifest_suffix) (Some (jr_manifest r))"
    by (rule all_kept_lies[OF kept[OF names(2)]]) (use archive(4) in blast)
  moreover have "map ds_store (wo_destinations v) = map ds_store (wo_destinations w')"
    using kept[OF names(1)] unfolding all_kept_def
    by (induction rule: list_all2_induct) (auto simp: kept_on_def)
  moreover have "map ds_store (wo_destinations w') = map ds_store (wo_destinations w)"
    using arg_cong[OF success_wiring[OF assms(1)], of "map snd"] by (simp add: wiring_of_def comp_def)
  ultimately show ?thesis using archive(1-3) by (intro exI[of _ archive]) auto
qed

text \<open>
  C4. A backup stays a backup (P4, BKP-11): once a job has succeeded on destinations that are directories, its
  archive, with the fingerprint of its result, and its manifest are on every destination after any
  sequence of other jobs, of any database and with whatever ports, that succeed or fail half way, and
  whatever is read or listed meanwhile; another job is one of another database, second or identifier.
\<close>

theorem a_backup_survives_later_jobs:
  assumes "run wi q w = (r, None, w')" and "afterwards q w' v"
    and "wi_pack wi = pipeline_pack codec (wi_sha256 wi) to" and "wi_manifester wi \<noteq> None"
    and "\<forall>d \<in> set (wo_destinations w). on_directory d" and "dotless_job q"
    and "\<And>resolution. wi_resolver wi (rq_database q) = Inr resolution \<Longrightarrow> segment_ok (rs_extension resolution)"
  shows "\<exists>archive. jr_sha_stored r = wi_sha256 wi archive \<and> jr_stored_bytes r = int (length archive)
    \<and> map ds_store (wo_destinations v) = map ds_store (wo_destinations w) \<and> wo_destinations v \<noteq> []
    \<and> (\<forall>d \<in> set (wo_destinations v). lies d (jr_path r) (Some archive)
        \<and> lies d (jr_path r @ manifest_suffix) (Some (jr_manifest r)))"
  using later_jobs_leave_it[OF assms(1-6)] assms(7) by blast

text \<open>The same database is dumped again in the same second, by a job with another identifier.\<close>

theorem a_backup_survives_later_jobs_witness:
  "\<exists>r w' x f v. run (sample_wiring (\<lambda>_. None)) sample_request sample_world = (r, None, w')
    \<and> run (sample_wiring (\<lambda>_. None)) (sample_request\<lparr>rq_job := ''k''\<rparr>) w' = (x, f, v)
    \<and> wo_destinations v \<noteq> [] \<and> (\<forall>d \<in> set (wo_destinations v). lies d (jr_path r) (Some (jr_sha_stored r)))"
proof -
  let ?wi = "sample_wiring (\<lambda>_. None)" and ?p = "sample_request\<lparr>rq_job := ''k''\<rparr>"
  obtain r w' where r: "run ?wi sample_request sample_world = (r, None, w')" using sample_run by blast
  obtain x f v where v: "run ?wi ?p w' = (x, f, v)" by (metis prod_cases3)
  have j: "safe_segment ''j'' = ''j''" "safe_segment ''k'' = ''k''" by code_simp+
  have "afterwards sample_request w' v"
  proof (rule afterwards.job[OF afterwards.now _ _ _ v])
    show "another_archive sample_request ?p" by (simp add: another_archive_def sample_request_def j)
    show "dotless_job ?p" by (simp add: dotless_job_def j)
    show "segment_ok (rs_extension resolution)" if "wi_resolver ?wi (rq_database ?p) = Inr resolution" for resolution
      using that segment_ok_known(3) by (auto simp: sample_wiring_def sample_resolution_def)
  qed
  from a_backup_survives_later_jobs[OF r this, of plain_codec sample_keys] r v segment_ok_known(3)
  show ?thesis
    by (auto simp: sample_wiring_def on_directory_def sample_resolution_def dotless_job_def sample_request_def j)
qed

end
