(* ===== verification/Lock_Race.thy ===== *)
theory Lock_Race
  imports Lock
begin

text \<open>
  \<open>Acquire\<close> and \<open>Release\<close> of \<open>internal/domain/backup/lock.go\<close>, several processes interleaved system
  call by system call on the lock file of one database. A process keeps writing to the file it
  created even when the name has since been given to another file, so a file is an inode and the
  name points to one. Calls do not fail otherwise, and what a process writes is \<open>text p\<close>: the
  contents \<open>lock_contents\<close> gives its lock.
\<close>

text \<open>Where a process stands; the number counts the attempts it has left.\<close>

datatype pc = Opening nat | Writing nat | Reading nat | Removing nat | Holding | Refused | Left

record race =
  ra_name :: "nat option"
  ra_inode :: "nat \<Rightarrow> string"
  ra_next :: nat
  ra_pc :: "int \<Rightarrow> pc"
  ra_alive :: "int \<Rightarrow> bool"

definition at_pc :: "int \<Rightarrow> pc \<Rightarrow> race \<Rightarrow> race" where
  "at_pc p c r = r\<lparr>ra_pc := (ra_pc r)(p := c)\<rparr>"

datatype act = Create | Blocked | Fill | Inspect | Clear | Leave | Die

text \<open>What \<open>clearIfAbandoned\<close> makes of the contents it read.\<close>

definition abandoned :: "race \<Rightarrow> string \<Rightarrow> bool" where
  "abandoned r contents =
     (case read_holder contents of None \<Rightarrow> True | Some h \<Rightarrow> \<not> (0 < h_pid h \<and> ra_alive r (h_pid h)))"

inductive lock_step :: "(int \<Rightarrow> string) \<Rightarrow> race \<Rightarrow> int \<times> act \<Rightarrow> race \<Rightarrow> bool" for "text" where
  create: "ra_alive r p \<Longrightarrow> ra_pc r p = Opening (Suc left) \<Longrightarrow> ra_name r = None
    \<Longrightarrow> lock_step text r (p, Create)
      (at_pc p (Writing (ra_next r))
        (r\<lparr>ra_name := Some (ra_next r), ra_inode := (ra_inode r)(ra_next r := []), ra_next := Suc (ra_next r)\<rparr>))"
| blocked: "ra_alive r p \<Longrightarrow> ra_pc r p = Opening (Suc left) \<Longrightarrow> ra_name r = Some i
    \<Longrightarrow> lock_step text r (p, Blocked) (at_pc p (if left = 0 then Refused else Reading left) r)"
| fill: "ra_alive r p \<Longrightarrow> ra_pc r p = Writing i
    \<Longrightarrow> lock_step text r (p, Fill) (at_pc p Holding (r\<lparr>ra_inode := (ra_inode r)(i := text p)\<rparr>))"
| inspect_gone: "ra_alive r p \<Longrightarrow> ra_pc r p = Reading left \<Longrightarrow> ra_name r = None
    \<Longrightarrow> lock_step text r (p, Inspect) (at_pc p (Opening left) r)"
| inspect: "ra_alive r p \<Longrightarrow> ra_pc r p = Reading left \<Longrightarrow> ra_name r = Some i
    \<Longrightarrow> lock_step text r (p, Inspect)
      (at_pc p (if abandoned r (ra_inode r i) then Removing left else Refused) r)"
| clear: "ra_alive r p \<Longrightarrow> ra_pc r p = Removing left
    \<Longrightarrow> lock_step text r (p, Clear) (at_pc p (Opening left) (r\<lparr>ra_name := None\<rparr>))"
| leave: "ra_alive r p \<Longrightarrow> ra_pc r p = Holding
    \<Longrightarrow> lock_step text r (p, Leave) (at_pc p Left (r\<lparr>ra_name := None\<rparr>))"
| die: "ra_alive r p \<Longrightarrow> lock_step text r (p, Die) (r\<lparr>ra_alive := (ra_alive r)(p := False)\<rparr>)"

inductive_cases lock_stepE: "lock_step text r (p, a) r'"

text \<open>Any number of steps, each allowed where it is taken.\<close>

inductive lock_run :: "(race \<Rightarrow> int \<times> act \<Rightarrow> bool) \<Rightarrow> (int \<Rightarrow> string) \<Rightarrow> race \<Rightarrow> (int \<times> act) list \<Rightarrow> race \<Rightarrow> bool"
  for allowed "text" where
  start: "lock_run allowed text r [] r"
| step: "lock_run allowed text r as s \<Longrightarrow> allowed s a \<Longrightarrow> lock_step text s a t \<Longrightarrow> lock_run allowed text r (as @ [a]) t"

text \<open>Every process is about to make its first attempt, and no lock file is there.\<close>

definition fresh_race :: race where
  "fresh_race = \<lparr>ra_name = None, ra_inode = (\<lambda>_. []), ra_next = 0, ra_pc = (\<lambda>_. Opening 2),
     ra_alive = (\<lambda>_. True)\<rparr>"

text \<open>The same, but for a lock file that was left with some contents, when only the processes 1 and 2 live.\<close>

definition left_behind :: "string \<Rightarrow> race" where
  "left_behind contents =
     \<lparr>ra_name = Some 0, ra_inode = (\<lambda>_. contents), ra_next = 1, ra_pc = (\<lambda>_. Opening 2),
      ra_alive = (\<lambda>p. p = 1 \<or> p = 2)\<rparr>"

definition holds :: "race \<Rightarrow> int \<Rightarrow> bool" where
  "holds r p \<longleftrightarrow> ra_alive r p \<and> ra_pc r p = Holding"

lemma at_pc_simps [simp]:
  "ra_name (at_pc p c r) = ra_name r" "ra_inode (at_pc p c r) = ra_inode r" "ra_next (at_pc p c r) = ra_next r"
  "ra_alive (at_pc p c r) = ra_alive r" "ra_pc (at_pc p c r) q = (if q = p then c else ra_pc r q)"
  by (simp_all add: at_pc_def)

section \<open>When one process holds the lock\<close>

text \<open>
  The two gaps of \<open>Acquire\<close>: a lock file found abandoned is removed by its name, which another process may have
  given to a new file; and a lock file that is created but not written yet names nobody.
\<close>

definition nobody_removes :: "race \<Rightarrow> int \<times> act \<Rightarrow> bool" where
  "nobody_removes s x \<longleftrightarrow>
     (snd x = Create \<longrightarrow> (\<forall>q left. ra_alive s q \<longrightarrow> ra_pc s q \<noteq> Removing left))"

definition nobody_writes :: "race \<Rightarrow> int \<times> act \<Rightarrow> bool" where
  "nobody_writes s x \<longleftrightarrow>
     (snd x = Inspect \<longrightarrow> (\<forall>q i. ra_alive s q \<longrightarrow> ra_pc s q \<noteq> Writing i))"

definition apart :: "race \<Rightarrow> int \<times> act \<Rightarrow> bool" where
  "apart s x \<longleftrightarrow> nobody_removes s x \<and> nobody_writes s x"















section \<open>Runs on concrete values\<close>

text \<open>The steps as a function, to run a schedule.\<close>

fun race_do :: "(int \<Rightarrow> string) \<Rightarrow> race \<Rightarrow> int \<times> act \<Rightarrow> race option" where
  "race_do text r (p, a) =
     (if \<not> ra_alive r p then None
      else case (a, ra_pc r p, ra_name r) of
        (Create, Opening (Suc left), None) \<Rightarrow>
          Some (at_pc p (Writing (ra_next r))
            (r\<lparr>ra_name := Some (ra_next r), ra_inode := (ra_inode r)(ra_next r := []), ra_next := Suc (ra_next r)\<rparr>))
      | (Blocked, Opening (Suc left), Some i) \<Rightarrow> Some (at_pc p (if left = 0 then Refused else Reading left) r)
      | (Fill, Writing i, _) \<Rightarrow> Some (at_pc p Holding (r\<lparr>ra_inode := (ra_inode r)(i := text p)\<rparr>))
      | (Inspect, Reading left, None) \<Rightarrow> Some (at_pc p (Opening left) r)
      | (Inspect, Reading left, Some i) \<Rightarrow>
          Some (at_pc p (if abandoned r (ra_inode r i) then Removing left else Refused) r)
      | (Clear, Removing left, _) \<Rightarrow> Some (at_pc p (Opening left) (r\<lparr>ra_name := None\<rparr>))
      | (Leave, Holding, _) \<Rightarrow> Some (at_pc p Left (r\<lparr>ra_name := None\<rparr>))
      | (Die, _, _) \<Rightarrow> Some (r\<lparr>ra_alive := (ra_alive r)(p := False)\<rparr>)
      | _ \<Rightarrow> None)"

lemma lock_step_decided:
  assumes "ra_alive r p" "ra_name r = Some i"
  shows "ra_pc r p = Opening (Suc 0) \<Longrightarrow> lock_step text r (p, Blocked) (at_pc p Refused r)"
    "ra_pc r p = Opening (Suc left) \<Longrightarrow> 0 < left \<Longrightarrow> lock_step text r (p, Blocked) (at_pc p (Reading left) r)"
    "ra_pc r p = Reading left \<Longrightarrow> abandoned r (ra_inode r i) \<Longrightarrow> lock_step text r (p, Inspect) (at_pc p (Removing left) r)"
    "ra_pc r p = Reading left \<Longrightarrow> \<not> abandoned r (ra_inode r i) \<Longrightarrow> lock_step text r (p, Inspect) (at_pc p Refused r)"
  using assms lock_step.blocked[of r p 0 i "text"] lock_step.blocked[of r p left i "text"]
    lock_step.inspect[of r p left i "text"] by simp_all

lemma race_do_step: "race_do text r a = Some s \<Longrightarrow> lock_step text r a s"
  by (cases a) (auto split: if_splits act.splits pc.splits nat.splits option.splits
      intro: lock_step.intros lock_step_decided)

lemma lock_run_Cons:
  "lock_run allowed text s as t \<Longrightarrow> allowed r a \<Longrightarrow> lock_step text r a s \<Longrightarrow> lock_run allowed text r (a # as) t"
proof (induction rule: lock_run.induct)
  case (start s)
  from lock_run.step [of allowed "text" r "[]" r a s] lock_run.start start.prems show ?case by simp
next
  case (step s as u b t)
  from lock_run.step [OF step.IH [OF step.prems] step.hyps(2,3)] show ?case by simp
qed

text \<open>A schedule, run as long as its steps are allowed.\<close>

fun race_all :: "(race \<Rightarrow> int \<times> act \<Rightarrow> bool) \<Rightarrow> (int \<Rightarrow> string) \<Rightarrow> race \<Rightarrow> (int \<times> act) list \<Rightarrow> race option" where
  "race_all allowed text r [] = Some r"
| "race_all allowed text r (a # as) =
     (if \<not> allowed r a then None
      else case race_do text r a of None \<Rightarrow> None | Some s \<Rightarrow> race_all allowed text s as)"

lemma race_all_run: "race_all allowed text r as = Some s \<Longrightarrow> lock_run allowed text r as s"
  by (induction as arbitrary: r)
    (auto intro: lock_run.start lock_run_Cons race_do_step split: option.splits if_splits)

lemma if_not_eq: "(if c then x else y) \<noteq> z \<longleftrightarrow> (c \<longrightarrow> x \<noteq> z) \<and> (\<not> c \<longrightarrow> y \<noteq> z)"
  by simp

lemma two_alive: "(\<forall>q. q = 1 \<or> q = 2 \<longrightarrow> P q) \<longleftrightarrow> P 1 \<and> P (2::int)"
  by auto

lemma abandoned_simps:
  "abandoned (at_pc p c r) = abandoned r" "abandoned (r\<lparr>ra_name := n\<rparr>) = abandoned r"
  "abandoned (r\<lparr>ra_inode := f\<rparr>) = abandoned r" "abandoned (r\<lparr>ra_next := k\<rparr>) = abandoned r"
  by (simp_all add: abandoned_def fun_eq_iff split: option.split)

lemma left_behind_simps:
  "ra_name (left_behind c) = Some 0" "ra_inode (left_behind c) i = c" "ra_next (left_behind c) = 1"
  "ra_pc (left_behind c) p = Opening (Suc (Suc 0))" "ra_alive (left_behind c) p \<longleftrightarrow> p = 1 \<or> p = 2"
  by (simp_all add: left_behind_def numeral_2_eq_2)

lemmas race_simps = apart_def nobody_removes_def nobody_writes_def holds_def numeral_2_eq_2 abandoned_simps
  left_behind_simps two_alive if_not_eq


section \<open>When two processes hold it\<close>

lemma read_empty: "read_holder [] = None"
  by (simp add: read_holder_def parse_json_def read_value.simps(2) skip_space_def)

text \<open>
  C31. Two jobs can hold the lock of one database (against E-051), through either gap of \<open>Acquire\<close> alone, with no
  process that dies and no system call that fails. When two processes find the same abandoned lock, both judge it
  before either removes it: the first one removes it, creates its own and holds the lock, the second removes that
  one by its name and takes the lock as well. And when the lock is free, a job leaves an empty file between
  creating its lock and writing it, which names nobody: a second one that reads it then takes it for abandoned,
  removes it and takes the lock, while the first goes on to write its file and believes it holds it.
\<close>

theorem two_holders:
  assumes "abandoned (left_behind contents) contents"
  shows "(\<exists>as r. lock_run nobody_writes text (left_behind contents) as r \<and> holds r 1 \<and> holds r 2
      \<and> list_all (\<lambda>x. snd x \<noteq> Die) as)
    \<and> (\<exists>as r. lock_run nobody_removes text fresh_race as r \<and> holds r 1 \<and> holds r 2 \<and> list_all (\<lambda>x. snd x \<noteq> Die) as)"
proof
  let ?as = "[(1, Blocked), (2, Blocked), (1, Inspect), (2, Inspect), (1, Clear), (1, Create), (1, Fill), (2, Clear), (2, Create), (2, Fill)]"
  obtain r where r: "race_all nobody_writes text (left_behind contents) ?as = Some r" and h: "holds r 1" "holds r 2"
    by (simp add: race_simps assms)
  have "list_all (\<lambda>x. snd x \<noteq> Die) ?as" by simp
  with race_all_run [OF r] h show "\<exists>as r. lock_run nobody_writes text (left_behind contents) as r \<and> holds r 1 \<and> holds r 2
      \<and> list_all (\<lambda>x. snd x \<noteq> Die) as" by blast
next
  let ?as = "[(1, Create), (2, Blocked), (2, Inspect), (2, Clear), (1, Fill), (2, Create), (2, Fill)]"
  obtain r where r: "race_all nobody_removes text fresh_race ?as = Some r" and h: "holds r 1" "holds r 2"
    by (simp add: race_simps fresh_race_def abandoned_def read_empty)
  have "list_all (\<lambda>x. snd x \<noteq> Die) ?as" by simp
  with race_all_run [OF r] h show "\<exists>as r. lock_run nobody_removes text fresh_race as r \<and> holds r 1 \<and> holds r 2
      \<and> list_all (\<lambda>x. snd x \<noteq> Die) as" by blast
qed

text \<open>The lock of process 7, which is gone.\<close>

theorem two_holders_witness:
  "\<exists>as r. lock_run nobody_writes (\<lambda>_. []) (left_behind (lock_contents ''ab'' ''j'' 7 0)) as r \<and> holds r 1 \<and> holds r 2"
proof -
  have "abandoned (left_behind (lock_contents ''ab'' ''j'' 7 0)) (lock_contents ''ab'' ''j'' 7 0)"
    using lock_contents_read [of "''ab''" "''j''" 7 0] by (simp add: abandoned_def left_behind_def ascii_valid_utf8)
  from two_holders [OF this, of "\<lambda>_. []"] show ?thesis by blast
qed

end
