(* ===== verification/State_Open.thy ===== *)
theory State_Open
  imports Go_OS
begin

text \<open>
  Opening the local state: \<open>internal/state/open.go\<close> and the migrations of \<open>internal/state/migrate.go\<close>. What a
  migration does to the schema is a parameter, the effect of its SQL; so is the answer of the driver to
  \<open>sql.Open\<close> and \<open>Ping\<close>. A statement may fail, the failures to come being part of the database.
\<close>

section \<open>Migrations\<close>

record migration =
  mg_version :: int
  mg_name :: string
  mg_sql :: string

text \<open>
  \<open>loadMigrations\<close> panics on a file whose name does not start with a number; \<open>None\<close> is the panic.
\<close>

fun read_migrations :: "(string \<times> string) list \<Rightarrow> migration list option" where
  "read_migrations [] = Some []"
| "read_migrations ((name, body) # files) =
     (case atoi (fst (cut (CHR ''_'') name)) of
        None \<Rightarrow> None
      | Some version \<Rightarrow>
          map_option ((#) \<lparr>mg_version = version, mg_name = name, mg_sql = body\<rparr>) (read_migrations files))"

definition load_migrations :: "(string \<times> string) list \<Rightarrow> migration list option" where
  "load_migrations files = map_option (sort_by (\<lambda>a b. mg_version a < mg_version b)) (read_migrations files)"

record 's ledger =
  lg_schema :: 's
  lg_versions :: "int list"
  lg_faults :: "gerr option list"

definition lg_call :: "'s ledger \<Rightarrow> gerr option \<times> 's ledger" where
  "lg_call l = (case lg_faults l of [] \<Rightarrow> (None, l) | f # fs \<Rightarrow> (f, l\<lparr>lg_faults := fs\<rparr>))"

text \<open>\<open>COALESCE(MAX(version), 0)\<close>\<close>

definition current_version :: "'s ledger \<Rightarrow> int" where
  "current_version l = (if lg_versions l = [] then 0 else Max (set (lg_versions l)))"

definition undone :: "'s ledger \<Rightarrow> 's ledger \<Rightarrow> 's ledger" where
  "undone before now = before\<lparr>lg_faults := lg_faults now\<rparr>"

definition apply_migration ::
  "(string \<Rightarrow> 's \<Rightarrow> gerr + 's) \<Rightarrow> migration \<Rightarrow> 's ledger \<Rightarrow> gerr option \<times> 's ledger" where
  "apply_migration exec step l =
     (case lg_call l of
        (Some e, l1) \<Rightarrow> (Some (errorf (''begin migration '' @ mg_name step) e), l1)
      | (None, l1) \<Rightarrow>
          (case lg_call l1 of
             (Some e, l2) \<Rightarrow> (Some (errorf (''apply migration '' @ mg_name step) e), undone l l2)
           | (None, l2) \<Rightarrow>
               (case exec (mg_sql step) (lg_schema l2) of
                  Inl e \<Rightarrow> (Some (errorf (''apply migration '' @ mg_name step) e), undone l l2)
                | Inr schema \<Rightarrow>
                    (case lg_call l2 of
                       (Some e, l3) \<Rightarrow> (Some (errorf (''record migration '' @ mg_name step) e), undone l l3)
                     | (None, l3) \<Rightarrow>
                         if mg_version step \<in> set (lg_versions l3)
                         then (Some (errorf (''record migration '' @ mg_name step) (errors_new ''constraint failed'')), undone l l3)
                         else (case lg_call l3 of
                             (Some e, l4) \<Rightarrow> (Some (errorf (''commit migration '' @ mg_name step) e), undone l l4)
                           | (None, l4) \<Rightarrow>
                               (None, l4\<lparr>lg_schema := schema, lg_versions := lg_versions l4 @ [mg_version step]\<rparr>))))))"

fun apply_all ::
  "(string \<Rightarrow> 's \<Rightarrow> gerr + 's) \<Rightarrow> int \<Rightarrow> migration list \<Rightarrow> 's ledger \<Rightarrow> gerr option \<times> 's ledger" where
  "apply_all exec current [] l = (None, l)"
| "apply_all exec current (step # ms) l =
     (if mg_version step \<le> current then apply_all exec current ms l
      else case apply_migration exec step l of
        (Some e, l1) \<Rightarrow> (Some e, l1)
      | (None, l1) \<Rightarrow> apply_all exec current ms l1)"

definition newer_state :: "int \<Rightarrow> nat \<Rightarrow> gerr" where
  "newer_state current latest =
     errors_new (''the state is at schema version '' @ dec_int current @ '' and this koffr knows '' @ dec latest @
       '': it was written by a newer version, and koffr does not downgrade a backup catalogue'')"

definition migrate ::
  "(string \<Rightarrow> 's \<Rightarrow> gerr + 's) \<Rightarrow> migration list \<Rightarrow> 's ledger \<Rightarrow> gerr option \<times> 's ledger" where
  "migrate exec ms l =
     (case lg_call l of
        (Some e, l1) \<Rightarrow> (Some (errorf ''prepare the migration ledger'' e), l1)
      | (None, l1) \<Rightarrow>
          (case lg_call l1 of
             (Some e, l2) \<Rightarrow> (Some (errorf ''read the schema version'' e), l2)
           | (None, l2) \<Rightarrow>
               if int (length ms) < current_version l2 then (Some (newer_state (current_version l2) (length ms)), l2)
               else apply_all exec (current_version l2) ms l2))"

section \<open>The state directory\<close>

definition tools_dir :: string where "tools_dir = ''tools''"

definition tmp_dir :: string where "tmp_dir = ''tmp''"

text \<open>\<open>os.RemoveAll\<close>: the path and everything under it; nothing there is not an error.\<close>

definition os_remove_all :: "place \<Rightarrow> os \<Rightarrow> gerr option \<times> os" where
  "os_remove_all p s0 =
     (case os_call s0 of
        (Some (e, _), s) \<Rightarrow> (Some e, s)
      | (None, s) \<Rightarrow>
          (None, s\<lparr>os_files := filter (\<lambda>(q, _). \<not> (fst q = fst p \<and> prefix (snd p) (snd q))) (os_files s)\<rparr>))"

fun clear_entries :: "place \<Rightarrow> string list \<Rightarrow> os \<Rightarrow> gerr option \<times> os" where
  "clear_entries tmp [] s = (None, s)"
| "clear_entries tmp (name # names) s =
     (case os_remove_all (place_join tmp name) s of
        (Some e, s1) \<Rightarrow> (Some (errorf ''clear the working directory'' e), s1)
      | (None, s1) \<Rightarrow> clear_entries tmp names s1)"

definition clear_tmp :: "place \<Rightarrow> os \<Rightarrow> gerr option \<times> os" where
  "clear_tmp dir s =
     (let tmp = place_join dir tmp_dir
      in case os_read_dir tmp s of
           (Inl e, s1) \<Rightarrow> (Some (errorf ''read the working directory'' e), s1)
         | (Inr names, s1) \<Rightarrow> clear_entries tmp names s1)"

fun prepare_dirs :: "place list \<Rightarrow> os \<Rightarrow> gerr option \<times> os" where
  "prepare_dirs [] s = (None, s)"
| "prepare_dirs (d # ds) s =
     (case os_mkdir_all d s of
        (Inl e, s1) \<Rightarrow> (Some (errorf ''prepare the state directory'' e), s1)
      | (Inr _, s1) \<Rightarrow> prepare_dirs ds s1)"

definition open_state ::
  "gerr option \<Rightarrow> gerr option \<Rightarrow> (string \<Rightarrow> 's \<Rightarrow> gerr + 's) \<Rightarrow> migration list \<Rightarrow> place \<Rightarrow> os \<Rightarrow> 's ledger
    \<Rightarrow> gerr option \<times> os \<times> 's ledger" where
  "open_state opened ping exec ms dir s l =
     (case prepare_dirs [dir, place_join dir tools_dir, place_join dir tmp_dir] s of
        (Some e, s1) \<Rightarrow> (Some e, s1, l)
      | (None, s1) \<Rightarrow>
          (case errors_join [opened, ping] of
             Some e \<Rightarrow> (Some (errorf ''open the state database'' (case opened of Some f \<Rightarrow> f | None \<Rightarrow> e)), s1, l)
           | None \<Rightarrow>
               (case migrate exec ms l of
                  (Some e, l1) \<Rightarrow> (Some e, s1, l1)
                | (None, l1) \<Rightarrow> (case clear_tmp dir s1 of (failed, s2) \<Rightarrow> (failed, s2, l1)))))"

section \<open>What migrating promises\<close>

lemma lg_call_rest:
  assumes "lg_call l = (f, k)"
  shows "lg_schema k = lg_schema l" "lg_versions k = lg_versions l"
  using assms by (auto simp: lg_call_def split: list.splits)

definition runs :: "(string \<Rightarrow> 's \<Rightarrow> gerr + 's) \<Rightarrow> migration list \<Rightarrow> 's \<Rightarrow> gerr + 's" where
  "runs exec ms s = fold (\<lambda>m r. case r of Inl e \<Rightarrow> Inl e | Inr s \<Rightarrow> exec (mg_sql m) s) ms (Inr s)"

lemma runs_Cons: "runs exec (m # ms) s = (case exec (mg_sql m) s of Inl e \<Rightarrow> Inl e | Inr t \<Rightarrow> runs exec ms t)"
proof -
  have "fold (\<lambda>m r. case r of Inl e \<Rightarrow> Inl e | Inr s \<Rightarrow> exec (mg_sql m) s) ms (Inl e) = Inl e" for e
    by (induction ms) simp_all
  then show ?thesis by (simp add: runs_def split: sum.split)
qed

lemma apply_migration_cases:
  assumes "apply_migration exec step l = (f, k)"
  shows "case f of
      None \<Rightarrow> exec (mg_sql step) (lg_schema l) = Inr (lg_schema k) \<and> lg_versions k = lg_versions l @ [mg_version step]
        \<and> mg_version step \<notin> set (lg_versions l)
    | Some e \<Rightarrow> lg_schema k = lg_schema l \<and> lg_versions k = lg_versions l"
proof -
  obtain f1 l1 where c1: "lg_call l = (f1, l1)" by fastforce
  obtain f2 l2 where c2: "lg_call l1 = (f2, l2)" by fastforce
  obtain f3 l3 where c3: "lg_call l2 = (f3, l3)" by fastforce
  obtain f4 l4 where c4: "lg_call l3 = (f4, l4)" by fastforce
  note rest = lg_call_rest[OF c1] lg_call_rest[OF c2] lg_call_rest[OF c3] lg_call_rest[OF c4]
  show ?thesis using assms rest c1 c2 c3 c4
    by (auto simp: apply_migration_def undone_def split: option.splits sum.splits if_splits)
qed

lemma apply_all_prefix:
  assumes "apply_all exec current ms l = (f, k)"
  shows "\<exists>done. prefix done (filter (\<lambda>m. current < mg_version m) ms) \<and> runs exec done (lg_schema l) = Inr (lg_schema k)
    \<and> lg_versions k = lg_versions l @ map mg_version done
    \<and> (f = None \<longrightarrow> done = filter (\<lambda>m. current < mg_version m) ms)"
  using assms
proof (induction exec current ms l rule: apply_all.induct)
  case (1 exec current l)
  then show ?case by (auto simp: runs_def)
next
  case (2 exec current step ms l)
  show ?case
  proof (cases "mg_version step \<le> current")
    case True
    with 2 show ?thesis by auto
  next
    case False
    obtain g l1 where a: "apply_migration exec step l = (g, l1)" by fastforce
    note ac = apply_migration_cases[OF a]
    show ?thesis
    proof (cases g)
      case (Some e)
      with "2.prems" False a have "f = g" "k = l1" by simp_all
      with ac Some have "lg_schema k = lg_schema l \<and> lg_versions k = lg_versions l \<and> f \<noteq> None" by simp
      then show ?thesis by (intro exI[of _ "[]"]) (auto simp: runs_def)
    next
      case None
      with "2.prems" False a have r: "apply_all exec current ms l1 = (f, k)" by simp
      from "2.IH"(2)[OF False a[symmetric] None r] obtain p where
        p: "prefix p (filter (\<lambda>m. current < mg_version m) ms)" "runs exec p (lg_schema l1) = Inr (lg_schema k)"
          "lg_versions k = lg_versions l1 @ map mg_version p"
          "f = None \<longrightarrow> p = filter (\<lambda>m. current < mg_version m) ms" by blast
      show ?thesis using p ac None False by (intro exI[of _ "step # p"]) (auto simp: runs_Cons)
    qed
  qed
qed

lemma migrate_cases:
  assumes "migrate exec ms l = (f, k)"
  shows "lg_schema k = lg_schema l \<and> lg_versions k = lg_versions l \<and> f \<noteq> None
    \<or> (\<exists>l2. lg_schema l2 = lg_schema l \<and> lg_versions l2 = lg_versions l \<and> current_version l \<le> int (length ms)
        \<and> apply_all exec (current_version l) ms l2 = (f, k))"
proof -
  obtain f1 l1 where c1: "lg_call l = (f1, l1)" by fastforce
  obtain f2 l2 where c2: "lg_call l1 = (f2, l2)" by fastforce
  note rest = lg_call_rest[OF c1] lg_call_rest[OF c2]
  then have v: "current_version l2 = current_version l" by (simp add: current_version_def)
  show ?thesis using assms rest c1 c2 v by (auto simp: migrate_def split: option.splits if_splits)
qed

text \<open>
  C38. Migrating applies what the schema lacks, in order and once (ADR-0006): a schema is only ever the old one
  with the first of its missing migrations applied, one after the other, and the ledger names exactly
  those; when migrating succeeds none is missing, when it fails what was applied stays applied and
  the rest is untouched, and a state newer than the binary is left as it is.
\<close>

theorem migrate_applies_what_is_missing:
  assumes "migrate exec ms l = (failed, k)"
  shows "\<exists>applied. prefix applied (filter (\<lambda>m. current_version l < mg_version m) ms)
    \<and> runs exec applied (lg_schema l) = Inr (lg_schema k)
    \<and> lg_versions k = lg_versions l @ map mg_version applied
    \<and> (failed = None \<longrightarrow> applied = filter (\<lambda>m. current_version l < mg_version m) ms)
    \<and> (int (length ms) < current_version l \<longrightarrow> failed \<noteq> None \<and> applied = [])"
  using migrate_cases[OF assms]
proof
  assume "lg_schema k = lg_schema l \<and> lg_versions k = lg_versions l \<and> failed \<noteq> None"
  then show ?thesis by (intro exI[of _ "[]"]) (auto simp: runs_def)
next
  assume "\<exists>l2. lg_schema l2 = lg_schema l \<and> lg_versions l2 = lg_versions l \<and> current_version l \<le> int (length ms)
        \<and> apply_all exec (current_version l) ms l2 = (failed, k)"
  then obtain l2 where l2: "lg_schema l2 = lg_schema l" "lg_versions l2 = lg_versions l" "current_version l \<le> int (length ms)"
    and a: "apply_all exec (current_version l) ms l2 = (failed, k)" by blast
  from apply_all_prefix[OF a] l2 show ?thesis by auto
qed

lemma current_at_least: "v \<in> set (lg_versions l) \<Longrightarrow> v \<le> current_version l"
  by (auto simp: current_version_def)

lemma settled_migrations:
  assumes "lg_versions k = lg_versions l @ map mg_version (filter (\<lambda>m. current_version l < mg_version m) ms)" "m \<in> set ms"
  shows "mg_version m \<le> current_version k"
proof (cases "current_version l < mg_version m")
  case True
  with assms have "mg_version m \<in> set (lg_versions k)" by auto
  then show ?thesis by (rule current_at_least)
next
  case False
  have "current_version l \<le> current_version k"
  proof (cases "lg_versions l = []")
    case True
    then have c: "current_version l = 0" by (simp add: current_version_def)
    then have "\<forall>v \<in> set (lg_versions k). 0 < v" using assms(1) True by auto
    then show ?thesis unfolding c by (auto simp: current_version_def intro: Max_in order_less_imp_le)
  next
    case False
    then have "current_version l \<in> set (lg_versions l)" by (simp add: current_version_def)
    then show ?thesis using assms(1) by (intro current_at_least) simp
  qed
  with False show ?thesis by simp
qed

text \<open>
  Migrating settles: after a migration that succeeded, migrating again on a database where no statement
  fails changes neither the schema nor the ledger, unless the state is newer than the binary, which is
  then said.
\<close>

lemma migrating_again_changes_nothing:
  assumes "migrate exec ms l = (None, k)" "lg_faults k = []"
  shows "snd (migrate exec ms k) = k \<and> (current_version k \<le> int (length ms) \<longrightarrow> fst (migrate exec ms k) = None)"
proof -
  from assms(1) migrate_cases[OF assms(1)] obtain l2 where l2: "lg_versions l2 = lg_versions l"
    and a: "apply_all exec (current_version l) ms l2 = (None, k)" by blast
  from apply_all_prefix[OF a] l2 have v: "lg_versions k = lg_versions l @ map mg_version (filter (\<lambda>m. current_version l < mg_version m) ms)"
    by auto
  have "apply_all exec (current_version k) xs k = (None, k)" if "set xs \<subseteq> set ms" for xs
    using that settled_migrations[OF v] by (induction xs) auto
  then show ?thesis using assms(2) by (simp add: migrate_def lg_call_def)
qed

definition sample_migrations :: "migration list" where
  "sample_migrations = [\<lparr>mg_version = 1, mg_name = ''0001'', mg_sql = ''a''\<rparr>, \<lparr>mg_version = 2, mg_name = ''0002'', mg_sql = ''b''\<rparr>]"

definition sample_ledger :: "string ledger" where
  "sample_ledger = \<lparr>lg_schema = [], lg_versions = [], lg_faults = []\<rparr>"

lemma sample_migrated:
  "migrate (\<lambda>sql s. Inr (s @ sql)) sample_migrations sample_ledger
    = (None, \<lparr>lg_schema = ''ab'', lg_versions = [1, 2], lg_faults = []\<rparr>)"
  by (simp add: migrate_def lg_call_def sample_migrations_def sample_ledger_def current_version_def apply_migration_def)

theorem migrate_applies_what_is_missing_witness:
  "\<exists>k. migrate (\<lambda>sql s. Inr (s @ sql)) sample_migrations sample_ledger = (None, k) \<and> lg_versions k = [1, 2]"
  using migrate_applies_what_is_missing[OF sample_migrated] sample_migrated
  by (auto simp: current_version_def sample_ledger_def sample_migrations_def)

theorem migrating_again_changes_nothing_witness:
  "snd (migrate (\<lambda>sql s. Inr (s @ sql)) sample_migrations \<lparr>lg_schema = ''ab'', lg_versions = [1, 2], lg_faults = []\<rparr>)
    = \<lparr>lg_schema = ''ab'', lg_versions = [1, 2], lg_faults = []\<rparr>"
  using migrating_again_changes_nothing[OF sample_migrated] by simp

end
