(* ===== verification/Store_Shelf.thy ===== *)
theory Store_Shelf
  imports Store
begin

text \<open>
  A destination as a map from paths to archives: what the directory of \<open>internal/store/filesystem.go\<close> promises
  when no call fails, on the four levels of the paths koffr writes, \<open>database/year/month/file\<close>. The contract
  is a locale over any store; the directory is shown to keep it, and to answer any sequence of calls as
  a sorted list of archives does.
\<close>

section \<open>Paths of four levels\<close>

definition levels :: "string \<Rightarrow> string list" where
  "levels p = split_on (CHR ''/'') p"

definition shelved :: "string \<Rightarrow> bool" where
  "shelved p \<longleftrightarrow> length (levels p) = 4 \<and> list_all simple_name (levels p) \<and> \<not> has_suffix (last (levels p)) partial_after"

definition searched :: "string \<Rightarrow> bool" where
  "searched pre \<longleftrightarrow> pre = [] \<or> list_all simple_name (levels pre)"

definition below :: "string \<Rightarrow> string \<Rightarrow> bool" where
  "below pre p \<longleftrightarrow> pre = [] \<or> prefix (levels pre) (levels p)"

lemma levels_ne [simp]: "levels p \<noteq> []"
  by (simp add: levels_def)

lemma fold_simple: "list_all simple_name cs \<Longrightarrow> foldl (clean_step r) ds cs = ds @ cs"
  by (induction cs arbitrary: ds) (auto simp: clean_step_def simple_name_def)

lemma resolve_levels: "list_all simple_name (levels p) \<Longrightarrow> resolve root p = (fst root, snd root @ levels p)"
  by (simp add: resolve_def place_join_def levels_def fold_simple)

lemma resolve_searched: "searched pre \<Longrightarrow> resolve root pre = (fst root, snd root @ (if pre = [] then [] else levels pre))"
  by (cases "pre = []") (simp_all add: searched_def resolve_levels, simp add: resolve_def place_join_def clean_step_def)

lemma levels_join: "join_with ''/'' (levels p) = p"
  unfolding levels_def by (rule split_on_join)

lemma join_levels: "cs \<noteq> [] \<Longrightarrow> list_all simple_name cs \<Longrightarrow> levels (join_with ''/'' cs) = cs"
proof (induction cs rule: induct_list012)
  case (3 x y zs)
  then show ?case by (simp add: levels_def simple_name_def split_on_append)
qed (auto simp: levels_def simple_name_def split_on_whole)

lemma common_length_append [simp]: "common_length cs (cs @ ds) = length cs"
  by (induction cs) (cases ds; simp)+

lemma relative_under: "cs \<noteq> [] \<Longrightarrow> relative root (fst root, snd root @ cs) = join_with ''/'' cs"
  by (simp add: relative_def)

lemma relative_shelved: "shelved p \<Longrightarrow> relative root (resolve root p) = p"
  using relative_under[of "levels p" root] by (auto simp: shelved_def resolve_levels levels_join)

lemma shelved_not_own: "shelved p \<Longrightarrow> \<not> own_name (resolve root p)"
  by (auto simp: shelved_def resolve_levels own_name_def)

lemma resolve_inj: "shelved p \<Longrightarrow> shelved q \<Longrightarrow> resolve root p = resolve root q \<longleftrightarrow> p = q"
  by (auto simp: shelved_def resolve_levels) (metis levels_join)

section \<open>The contract\<close>

text \<open>
  \<open>works\<close> are the states a store answers in; \<open>holds\<close> is the archive under a path. An interrupted write is
  refused and changes nothing; a listing is exact, sorted, and gives each size and a date.
\<close>

locale shelf =
  fixes ops :: "'s store" and works :: "'s \<Rightarrow> bool" and holds :: "'s \<Rightarrow> string \<Rightarrow> string option"
  assumes shelved_only: "works s \<Longrightarrow> holds s p = Some b \<Longrightarrow> shelved p"
    and finitely_many: "works s \<Longrightarrow> finite (dom (holds s))"
    and put_law: "works s \<Longrightarrow> shelved p \<Longrightarrow>
      \<exists>t. so_write ops p (b, None) s = ((Inr (int (length b)), length b), t) \<and> works t \<and> holds t = (holds s)(p \<mapsto> b)"
    and broken_law: "works s \<Longrightarrow> shelved p \<Longrightarrow>
      \<exists>err k t. so_write ops p (b, Some e) s = ((Inl err, k), t) \<and> works t \<and> holds t = holds s"
    and get_law: "works s \<Longrightarrow> holds s p = Some b \<Longrightarrow>
      \<exists>t. so_read ops p s = (Inr (b, None), t) \<and> works t \<and> holds t = holds s"
    and missing_law: "works s \<Longrightarrow> shelved p \<Longrightarrow> holds s p = None \<Longrightarrow>
      \<exists>err t. so_read ops p s = (Inl err, t) \<and> works t \<and> holds t = holds s"
    and list_law: "works s \<Longrightarrow> searched pre \<Longrightarrow>
      \<exists>es t. so_list ops pre s = (Inr es, t) \<and> works t \<and> holds t = holds s
        \<and> sorted_wrt (\<lambda>x y. bytes_less (en_path x) (en_path y)) es
        \<and> en_path ` set es = {p \<in> dom (holds s). below pre p}
        \<and> (\<forall>x \<in> set es. en_bytes x = int (length (the (holds s (en_path x)))) \<and> \<not> is_zero_time (en_at x))"
    and delete_law: "works s \<Longrightarrow> shelved p \<Longrightarrow>
      \<exists>t. so_delete ops p s = (None, t) \<and> works t \<and> holds t = (holds s)(p := None)"
    and check_law: "works s \<Longrightarrow> \<exists>t. so_check ops s = (None, t) \<and> works t \<and> holds t = holds s"
begin

end

section \<open>The directory when no call fails\<close>

text \<open>
  The root and the three levels below are directories, the fourth level is archives; no directory of
  the root is missing, and the clock is set.
\<close>

definition tidy :: "place \<Rightarrow> os \<Rightarrow> bool" where
  "tidy root s \<longleftrightarrow> quiet s \<and> \<not> is_zero_time (os_now s) \<and> dirs_free s root
    \<and> (node_at s root = Some Dir \<or> snd root = [] \<and> node_at s root = None)
    \<and> (\<forall>cs n. cs \<noteq> [] \<longrightarrow> node_at s (fst root, snd root @ cs) = Some n \<longrightarrow>
        (if length cs < 4 then n = Dir
         else (\<exists>c m. n = File c m \<and> \<not> is_zero_time m) \<and> length cs = 4 \<and> list_all simple_name cs
           \<and> \<not> has_suffix (last cs) partial_after))"

definition on_shelf :: "place \<Rightarrow> os \<Rightarrow> string \<Rightarrow> string option" where
  "on_shelf root s p = (if shelved p then held_file s (resolve root p) else None)"

lemma on_shelf_cong:
  "(\<And>cs. length cs = 4 \<Longrightarrow> node_at t (fst root, snd root @ cs) = node_at s (fst root, snd root @ cs))
    \<Longrightarrow> on_shelf root t = on_shelf root s"
  by (rule ext) (auto simp: on_shelf_def held_file_def shelved_def resolve_levels)

text \<open>A write on a quiet machine: the directories are made, then the archive appears whole, or nothing does.\<close>

lemma quiet_fs_write_nodes:
  assumes q: "quiet s" and f: "dirs_free s (place_dir (resolve root path))"
    and d: "node_at s (resolve root path) \<noteq> Some Dir" and n: "snd (resolve root path) \<noteq> []"
    and o: "\<not> own_name (resolve root path)"
  obtains s1 t where "os_mkdir_all (place_dir (resolve root path)) s = (Inr (), s1)"
    "fs_write root path (b, e) s =
      ((case e of None \<Rightarrow> Inr (int (length b)) | Some x \<Rightarrow> Inl (errorf (''write '' @ path) x), length b), t)"
    "same_machine s t" "\<And>x. node_at t x = (if x = resolve root path \<and> e = None then Some (File b (os_now s)) else node_at s1 x)"
proof -
  let ?f = "resolve root path"
  let ?d = "place_dir ?f"
  from quiet_mkdir[OF q f] obtain s1 where mk: "os_mkdir_all ?d s = (Inr (), s1)" .
  have m1: "same_machine s s1" by (rule mkdir_frame(1)[OF mk])
  have q1: "quiet s1" "os_now s1 = os_now s" using quiet_same[OF m1 q] m1 by (auto simp: same_machine_def)
  obtain temp where ft: "fresh_temp ?d partial_before partial_after s1 = Some temp"
    using fresh_temp_exists[OF partial_simple] by blast
  obtain k where k: "temp = temp_place ?d partial_before partial_after k" and free: "node_at s1 temp = None"
    using fresh_temp_free[OF ft] by blast
  have t: "temp = (fst ?f, butlast (snd ?f) @ [partial_before @ dec k @ partial_after])"
    unfolding k temp_place_def place_join_simple[OF partial_simple] by (simp add: place_dir_def)
  have "own_name temp" unfolding k by (rule temp_own)
  then have ne: "temp \<noteq> ?f" using o by auto
  have td: "place_dir temp = ?d" by (simp add: t place_dir_def)
  have dir: "butlast (snd ?f) = [] \<or> node_at s1 ?d = Some Dir"
    using mkdir_frame(3)[OF mk] by (auto simp: place_dir_def)
  have ct: "os_create_temp ?d partial_before partial_after s1 = (Inr temp, set_node temp (File [] (os_now s1)) s1)"
    using q1(1) ft dir by (simp add: os_create_temp_def parent_ok_def td) (simp add: t)
  have "?d \<noteq> temp" "?d \<noteq> ?f" using n by (auto simp: t place_dir_def dest!: arg_cong[where f = "\<lambda>x. length (snd x)"])
  (use n in \<open>cases "snd ?f"; simp\<close>)
  moreover have "node_at s1 ?f \<noteq> Some Dir" using mkdir_below[OF mk, of ?f] d n by (simp add: place_dir_def)
  ultimately have "\<exists>t. fs_write root path (b, e) s =
      ((case e of None \<Rightarrow> Inr (int (length b)) | Some x \<Rightarrow> Inl (errorf (''write '' @ path) x), length b), t) \<and> same_machine s1 t
    \<and> (\<forall>x. node_at t x = (if x = ?f \<and> e = None then Some (File b (os_now s1)) else node_at s1 x))"
    using mk ct q1 dir ne free
    by (cases e) (auto simp: fs_write_def Let_def fs_publish_def io_copy_def os_touch_def append_node_def os_rename_def
        os_remove_def parent_ok_def has_children_def)
  then show thesis using that[OF mk] same_machine_trans[OF m1] q1(2) by metis
qed

lemma tidy_write:
  assumes w: "tidy root s" and p: "shelved p"
  shows "\<exists>t. fs_write root p (b, e) s =
      ((case e of None \<Rightarrow> Inr (int (length b)) | Some x \<Rightarrow> Inl (errorf (''write '' @ p) x), length b), t)
    \<and> tidy root t \<and> on_shelf root t = (if e = None then (on_shelf root s)(p \<mapsto> b) else on_shelf root s)"
proof -
  let ?f = "resolve root p"
  let ?n = "length (snd root)"
  have cs: "length (levels p) = 4" "list_all simple_name (levels p)" "\<not> has_suffix (last (levels p)) partial_after"
    and f: "?f = (fst root, snd root @ levels p)" using p by (auto simp: shelved_def resolve_levels)
  have nd: "\<And>c n. c \<noteq> [] \<Longrightarrow> node_at s (fst root, snd root @ c) = Some n \<Longrightarrow>
      (if length c < 4 then n = Dir else (\<exists>c m. n = File c m \<and> \<not> is_zero_time m) \<and> length c = 4 \<and> list_all simple_name c
        \<and> \<not> has_suffix (last c) partial_after)" using w by (auto simp: tidy_def simp del: split_paired_All)
  have d: "node_at s ?f \<noteq> Some Dir" using nd[of "levels p"] cs(1) by (auto simp: f)
  have pd: "place_dir ?f = (fst root, snd root @ butlast (levels p))" by (simp add: f place_dir_def butlast_append)
  have fr: "dirs_free s (place_dir ?f)"
    unfolding pd dirs_free_def
  proof (intro allI impI notI, simp)
    fix k assume k: "k < length (snd root) + (length (levels p) - Suc 0)"
      and "\<exists>c m. node_at s (fst root, take (Suc k) (snd root) @ take (Suc k - length (snd root)) (butlast (levels p))) = Some (File c m)"
    then obtain c m where n: "node_at s (fst root, take (Suc k) (snd root) @ take (Suc k - ?n) (butlast (levels p))) = Some (File c m)" by blast
    show False
    proof (cases "k < ?n")
      case True
      then show False using w n unfolding tidy_def dirs_free_def by auto
    next
      case False
      have "take (Suc k - ?n) (butlast (levels p)) \<noteq> []" "length (take (Suc k - ?n) (butlast (levels p))) < 4"
        using False k cs(1) by (auto simp: take_eq_Nil2 simp flip: length_0_conv)
      from nd[OF this(1)] this(2) n False show False by fastforce
    qed
  qed
  obtain s1 t where mk: "os_mkdir_all (place_dir ?f) s = (Inr (), s1)"
    and wr: "fs_write root p (b, e) s =
      ((case e of None \<Rightarrow> Inr (int (length b)) | Some x \<Rightarrow> Inl (errorf (''write '' @ p) x), length b), t)"
    and sm: "same_machine s t"
    and t: "\<And>x. node_at t x = (if x = ?f \<and> e = None then Some (File b (os_now s)) else node_at s1 x)"
    by (rule quiet_fs_write_nodes[OF _ fr d _ shelved_not_own[OF p], where b = b and e = e])
      (use w cs(1) in \<open>auto simp: tidy_def f\<close>)
  have s1: "node_at s1 (fst root, snd root @ c) = node_at s (fst root, snd root @ c)" if "length c \<ge> 4" for c
    using mkdir_below[OF mk, of "(fst root, snd root @ c)"] that cs(1) by (simp add: pd)
  have "tidy root t"
    unfolding tidy_def
  proof (intro conjI allI impI)
    show "quiet t" "\<not> is_zero_time (os_now t)" using w sm quiet_same by (auto simp: tidy_def same_machine_def)
    show "dirs_free t root"
    proof (rule dirs_free_mono[of s])
      show "dirs_free s root" using w by (simp add: tidy_def)
      fix q c m assume "length (snd q) \<le> length (snd root)" "node_at t q = Some (File c m)"
      then have "node_at s1 q = Some (File c m)" using cs(1) by (auto simp: t f split: if_splits)
      then show "\<exists>c m. node_at s q = Some (File c m)" using mkdir_file[OF mk] by blast
    qed
    have "snd root \<noteq> snd ?f" by (simp add: f)
    then have "root \<noteq> ?f" by metis
    then show "node_at t root = Some Dir \<or> snd root = [] \<and> node_at t root = None"
      using w mkdir_frame(2)[OF mk, of root] by (auto simp: t tidy_def)
    fix c n assume c: "c \<noteq> []" "node_at t (fst root, snd root @ c) = Some n"
    show "if length c < 4 then n = Dir
         else (\<exists>c m. n = File c m \<and> \<not> is_zero_time m) \<and> length c = 4 \<and> list_all simple_name c
           \<and> \<not> has_suffix (last c) partial_after"
    proof (cases "length c < 4")
      case True
      then have "node_at s1 (fst root, snd root @ c) = Some n" using c(2) cs(1) by (auto simp: t f split: if_splits)
      then have "n = Dir" using mkdir_frame(2)[OF mk, of "(fst root, snd root @ c)"] nd[OF c(1), of n] True by auto
      then show ?thesis using True by simp
    next
      case False
      have "\<not> is_zero_time (os_now s)" using w by (simp add: tidy_def)
      with c(2) False nd[OF c(1), of n] cs s1[of c] show ?thesis by (auto simp: t f split: if_splits)
    qed
  qed
  moreover have "on_shelf root t q = (if e = None then (on_shelf root s)(p \<mapsto> b) else on_shelf root s) q" for q
  proof (cases "shelved q")
    case True
    then have q: "resolve root q = (fst root, snd root @ levels q)" "length (levels q) = 4"
      by (auto simp: shelved_def resolve_levels)
    have "node_at s1 (resolve root q) = node_at s (resolve root q)" using s1[of "levels q"] q by simp
    then show ?thesis using True by (auto simp: on_shelf_def held_file_def t resolve_inj[OF True p])
  next
    case False
    then show ?thesis using p by (auto simp: on_shelf_def)
  qed
  ultimately show ?thesis using wr by blast
qed

lemma tidy_nodes:
  "tidy root s \<Longrightarrow> cs \<noteq> [] \<Longrightarrow> node_at s (fst root, snd root @ cs) = Some n \<Longrightarrow>
    (if length cs < 4 then n = Dir
     else (\<exists>c m. n = File c m \<and> \<not> is_zero_time m) \<and> length cs = 4 \<and> list_all simple_name cs
       \<and> \<not> has_suffix (last cs) partial_after)"
  by (auto simp: tidy_def simp del: split_paired_All)

lemma tidy_file:
  assumes "tidy root s" "node_at s q = Some (File c m)" "under root q"
  shows "\<exists>p. shelved p \<and> q = resolve root p \<and> \<not> is_zero_time m \<and> on_shelf root s p = Some c"
proof -
  obtain cs where q: "q = (fst root, snd root @ cs)" using assms(3) by (cases q) (auto simp: under_def elim: prefixE)
  have "node_at s root \<noteq> Some (File c m)" using assms(1) by (auto simp: tidy_def)
  then have "cs \<noteq> []" using assms(2) by (cases root) (auto simp: q)
  from tidy_nodes[OF assms(1) this assms(2)[unfolded q]] have cs: "length cs = 4" "list_all simple_name cs"
    "\<not> has_suffix (last cs) partial_after" "\<not> is_zero_time m" by (auto split: if_splits)
  have l: "levels (join_with ''/'' cs) = cs" by (rule join_levels) (use cs in auto)
  have sh: "shelved (join_with ''/'' cs)" using cs by (simp add: shelved_def l)
  have r: "q = resolve root (join_with ''/'' cs)" using cs by (simp add: resolve_levels l q)
  then have "on_shelf root s (join_with ''/'' cs) = Some c" using assms(2) sh by (simp add: on_shelf_def held_file_def)
  with sh r cs(4) show ?thesis by blast
qed

lemma on_shelf_node:
  "on_shelf root s p = Some b \<longleftrightarrow> shelved p \<and> (\<exists>m. node_at s (resolve root p) = Some (File b m))"
  by (auto simp: on_shelf_def held_file_def split: option.splits node.splits)

lemma shelved_under: "shelved p \<Longrightarrow> searched pre \<Longrightarrow> under (resolve root pre) (resolve root p) \<longleftrightarrow> below pre p"
  by (auto simp: under_def below_def resolve_searched resolve_levels shelved_def)

lemma shelved_last: "shelved p \<Longrightarrow> \<not> has_suffix (place_base (resolve root p)) partial_after"
  by (simp add: shelved_def resolve_levels place_base_def)

lemma walk_paths_distinct:
  assumes "distinct (map fst files)"
    and "\<And>q c m. (q, File c m) \<in> set files \<Longrightarrow> under start q \<Longrightarrow> \<exists>p. shelved p \<and> q = resolve root p"
  shows "distinct (map en_path (walk_entries root start files))"
  using assms
proof (induction files)
  case Nil
  then show ?case by simp
next
  case (Cons qn files)
  obtain q n where qn: "qn = (q, n)" by (cases qn)
  have tl: "distinct (map en_path (walk_entries root start files))"
    by (rule Cons.IH) (use Cons.prems in \<open>simp_all\<close>, blast)
  show ?case
  proof (cases "\<exists>c m. n = File c m \<and> under start q \<and> \<not> has_suffix (place_base q) partial_after")
    case False
    then have "walk_entries root start (qn # files) = walk_entries root start files" unfolding qn by (cases n) auto
    with tl show ?thesis by simp
  next
    case True
    then obtain c m where n: "n = File c m" "under start q" "\<not> has_suffix (place_base q) partial_after" by blast
    obtain p where p: "shelved p" "q = resolve root p" using Cons.prems(2)[of q c m] n by (auto simp: qn)
    have "relative root q \<notin> en_path ` set (walk_entries root start files)"
    proof
      assume "relative root q \<in> en_path ` set (walk_entries root start files)"
      then obtain q' c' m' where q': "relative root q = relative root q'" "(q', File c' m') \<in> set files" "under start q'"
        unfolding image_iff Bex_def walk_entries_iff by (auto simp: entry_of_def simp del: split_paired_Ex)
      then obtain p' where "shelved p'" "q' = resolve root p'" using Cons.prems(2)[of q' c' m'] by auto
      with q'(1) p have "q' = q" by (simp add: relative_shelved)
      with q'(2) Cons.prems(1) show False by (force simp: qn)
    qed
    with tl n show ?thesis by (simp add: qn)
  qed
qed

lemma strictly_sorted:
  assumes "sorted_wrt (\<lambda>a b. \<not> bytes_less (f b) (f a)) xs" "distinct (map f xs)"
  shows "sorted_wrt (\<lambda>a b. bytes_less (f a) (f b)) xs"
  using assms by (induction xs) (auto dest: bytes_less_total)

lemma tidy_list:
  assumes w: "tidy root s" and pre: "searched pre"
  shows "\<exists>es. fs_list root pre s = (Inr es, s) \<and> sorted_wrt (\<lambda>x y. bytes_less (en_path x) (en_path y)) es
    \<and> en_path ` set es = {p \<in> dom (on_shelf root s). below pre p}
    \<and> (\<forall>x \<in> set es. en_bytes x = int (length (the (on_shelf root s (en_path x)))) \<and> \<not> is_zero_time (en_at x))"
proof -
  let ?fs = "AList.clearjunk (os_files s)"
  let ?es = "sort_by (\<lambda>a b. bytes_less (en_path a) (en_path b)) (walk_entries root (resolve root pre) ?fs)"
  have q: "quiet s" using w by (simp add: tidy_def)
  have eq: "fs_list root pre s = (Inr ?es, s)" using q by (simp add: fs_list_def)
  have un: "under root x" if "under (resolve root pre) x" for x
    using that by (auto simp: under_def resolve_searched[OF pre] dest: append_prefixD)
  have kept_file: "\<exists>p. shelved p \<and> x = resolve root p \<and> \<not> is_zero_time m \<and> on_shelf root s p = Some c"
    if "(x, File c m) \<in> set ?fs" "under (resolve root pre) x" for x c m
    using tidy_file[OF w _ un[OF that(2)], of c m] that(1) by (simp add: clearjunk_node)
  have "distinct (map en_path (walk_entries root (resolve root pre) ?fs))"
    by (rule walk_paths_distinct[OF distinct_clearjunk]) (use kept_file in blast)
  then have "distinct (map en_path ?es)" by (simp add: distinct_map distinct_sort_by)
  then have so: "sorted_wrt (\<lambda>x y. bytes_less (en_path x) (en_path y)) ?es"
    by (rule strictly_sorted[OF by_path.sorted_sort_by])
  have el: "x \<in> set ?es \<longleftrightarrow> (\<exists>p c m. shelved p \<and> x = \<lparr>en_path = p, en_bytes = int (length c), en_at = m\<rparr>
      \<and> node_at s (resolve root p) = Some (File c m) \<and> below pre p)" (is "_ = ?r") for x
  proof
    assume "x \<in> set ?es"
    then obtain y c m where y: "x = entry_of root y c m" "(y, File c m) \<in> set ?fs" "under (resolve root pre) y"
      unfolding set_sort_by walk_entries_iff by blast
    with kept_file obtain p where "shelved p" "y = resolve root p" by blast
    with y pre show ?r by (auto simp: entry_of_def relative_shelved clearjunk_node shelved_under)
  next
    assume ?r
    then obtain p c m where p: "shelved p" "x = \<lparr>en_path = p, en_bytes = int (length c), en_at = m\<rparr>"
      "node_at s (resolve root p) = Some (File c m)" "below pre p" by blast
    then have "x = entry_of root (resolve root p) c m \<and> (resolve root p, File c m) \<in> set ?fs
        \<and> under (resolve root pre) (resolve root p) \<and> \<not> has_suffix (place_base (resolve root p)) partial_after"
      using pre by (simp add: entry_of_def relative_shelved clearjunk_node shelved_under shelved_last)
    then show "x \<in> set ?es" unfolding set_sort_by walk_entries_iff by blast
  qed
  have "en_path ` set ?es = {p \<in> dom (on_shelf root s). below pre p}"
    unfolding set_eq_iff image_iff Bex_def el dom_def mem_Collect_eq not_None_eq on_shelf_node
    by (auto, metis entry.select_convs(1))
  moreover have "en_bytes x = int (length (the (on_shelf root s (en_path x)))) \<and> \<not> is_zero_time (en_at x)" if x: "x \<in> set ?es" for x
  proof -
    obtain p c m where p: "shelved p" "x = \<lparr>en_path = p, en_bytes = int (length c), en_at = m\<rparr>"
      "node_at s (resolve root p) = Some (File c m)" using x unfolding el by blast
    have "on_shelf root s p = Some c" using p on_shelf_node by blast
    moreover have "\<not> is_zero_time m"
      using tidy_nodes[OF w _ p(3)[unfolded resolve_levels[OF conjunct1[OF conjunct2[OF p(1)[unfolded shelved_def]]]]]] p(1)
      by (auto simp: shelved_def)
    ultimately show ?thesis by (simp add: p(2))
  qed
  ultimately show ?thesis using eq so by blast
qed

lemma tidy_read:
  assumes "tidy root s" "shelved p"
  shows "on_shelf root s p = Some b \<Longrightarrow> fs_read root p s = (Inr (b, None), s)"
    and "on_shelf root s p = None \<Longrightarrow> \<exists>err. fs_read root p s = (Inl err, s)"
proof -
  have q: "quiet s" using assms(1) by (simp add: tidy_def)
  then show "fs_read root p s = (Inr (b, None), s)" if "on_shelf root s p = Some b"
    using that unfolding on_shelf_node by (auto simp: fs_read_def)
  have "node_at s (resolve root p) \<noteq> Some Dir"
    using tidy_nodes[OF assms(1), of "levels p" Dir] assms(2) by (auto simp: shelved_def resolve_levels)
  then show "\<exists>err. fs_read root p s = (Inl err, s)" if "on_shelf root s p = None"
    using that q assms(2) by (auto simp: fs_read_def on_shelf_def held_file_def split: option.splits node.splits)
qed

lemma tidy_delete:
  assumes w: "tidy root s" and p: "shelved p"
  shows "\<exists>t. fs_delete root p s = (None, t) \<and> tidy root t \<and> on_shelf root t = (on_shelf root s)(p := None)"
proof (cases "node_at s (resolve root p)")
  case None
  then have "on_shelf root s p = None" by (simp add: on_shelf_def held_file_def)
  then have "on_shelf root s = (on_shelf root s)(p := None)" by auto
  then show ?thesis using None w by (simp add: fs_delete_def os_remove_def tidy_def not_exist_def path_error_def errors_is_def)
next
  case (Some n)
  let ?t = "drop_node (resolve root p) s"
  have f: "resolve root p = (fst root, snd root @ levels p)" "length (levels p) = 4" using p by (auto simp: shelved_def resolve_levels)
  have "n \<noteq> Dir" using tidy_nodes[OF w, of "levels p" n] Some f by auto
  then have "fs_delete root p s = (None, ?t)" using Some w by (simp add: fs_delete_def os_remove_def tidy_def)
  moreover have "tidy root ?t"
  proof -
    have "snd root \<noteq> snd (resolve root p)" by (simp add: f)
    then have "root \<noteq> resolve root p" by metis
    moreover have "dirs_free ?t root" using w by (auto simp: tidy_def dirs_free_def)
    ultimately show ?thesis using w by (auto simp: tidy_def split: if_splits)
  qed
  moreover have "on_shelf root ?t q = ((on_shelf root s)(p := None)) q" for q
    using p resolve_inj[of q p root] by (auto simp: on_shelf_def held_file_def)
  ultimately show ?thesis by blast
qed

lemma tidy_check:
  assumes w: "tidy root s"
  shows "\<exists>t. fs_check root s = (None, t) \<and> tidy root t \<and> on_shelf root t = on_shelf root s"
proof -
  have q: "quiet s" "dirs_free s root" using w by (simp_all add: tidy_def)
  from quiet_mkdir[OF this] obtain s1 where mk: "os_mkdir_all root s = (Inr (), s1)" .
  have m1: "same_machine s s1" by (rule mkdir_frame(1)[OF mk])
  have q1: "quiet s1" by (rule quiet_same[OF m1 q(1)])
  have simple: "simple_name (''.koffr-check-'' @ dec n @ [])" for n
    using digits_no_byte[OF dec_digits, of "CHR ''/''" n] by (auto simp: simple_name_def)
  obtain temp where ft: "fresh_temp root ''.koffr-check-'' [] s1 = Some temp" using fresh_temp_exists[OF simple] by blast
  obtain k where k: "temp = temp_place root ''.koffr-check-'' [] k" and free: "node_at s1 temp = None"
    using fresh_temp_free[OF ft] by blast
  have t: "temp = (fst root, snd root @ [''.koffr-check-'' @ dec k])"
    unfolding k temp_place_def using place_join_simple[OF simple] by simp
  have "snd root = [] \<or> node_at s1 root = Some Dir" using mkdir_frame(3)[OF mk] by auto
  then have ct: "os_create_temp root ''.koffr-check-'' [] s1 = (Inr temp, set_node temp (File [] (os_now s1)) s1)"
    using q1 ft by (simp add: os_create_temp_def parent_ok_def place_dir_def) (simp add: t)
  obtain u where u: "fs_check root s = (None, u)" "same_machine s1 u" "\<And>x. node_at u x = node_at s1 x"
    using mk ct q1 free that by (auto simp: fs_check_def os_touch_def os_remove_def)
  have n: "node_at u (fst root, snd root @ cs) = node_at s (fst root, snd root @ cs)" if "cs \<noteq> []" for cs
    using mkdir_below[OF mk, of "(fst root, snd root @ cs)"] that by (simp add: u(3))
  have "tidy root u"
    unfolding tidy_def
  proof (intro conjI allI impI)
    show "quiet u" "\<not> is_zero_time (os_now u)"
      using w m1 u(2) quiet_same by (auto simp: tidy_def same_machine_def quiet_def)
    show "dirs_free u root"
      by (rule dirs_free_mono[OF q(2)]) (use mkdir_file[OF mk] u(3) in \<open>auto simp del: split_paired_Ex\<close>)
    show "node_at u root = Some Dir \<or> snd root = [] \<and> node_at u root = None"
      using w mkdir_frame(2)[OF mk, of root] by (auto simp: u(3) tidy_def)
    fix cs n' assume "cs \<noteq> []" "node_at u (fst root, snd root @ cs) = Some n'"
    with n tidy_nodes[OF w, of cs n'] show "if length cs < 4 then n' = Dir
         else (\<exists>c m. n' = File c m \<and> \<not> is_zero_time m) \<and> length cs = 4 \<and> list_all simple_name cs
           \<and> \<not> has_suffix (last cs) partial_after" by simp
  qed
  moreover have "on_shelf root u = on_shelf root s" by (rule on_shelf_cong) (rule n, auto)
  ultimately show ?thesis using u(1) by blast
qed

lemma on_shelf_finite: "finite (dom (on_shelf root s))"
proof (rule finite_subset)
  show "dom (on_shelf root s) \<subseteq> relative root ` fst ` set (os_files s)"
  proof
    fix p assume "p \<in> dom (on_shelf root s)"
    then obtain b m where "shelved p" "node_at s (resolve root p) = Some (File b m)" using on_shelf_node by blast
    then have "p = relative root (resolve root p)" "resolve root p \<in> fst ` set (os_files s)"
      by (simp_all add: relative_shelved node_at_def) (metis map_of_eq_None_iff option.distinct(1))
    then show "p \<in> relative root ` fst ` set (os_files s)" by blast
  qed
qed simp

interpretation directory: shelf "filesystem root" "tidy root" "on_shelf root" for root
proof
  fix s p b e pre
  assume w: "tidy root s"
  show "finite (dom (on_shelf root s))" by (rule on_shelf_finite)
  show sh: "shelved p" if "on_shelf root s p = Some b" using that by (simp add: on_shelf_node)
  show "\<exists>t. so_write (filesystem root) p (b, None) s = ((Inr (int (length b)), length b), t)
      \<and> tidy root t \<and> on_shelf root t = (on_shelf root s)(p \<mapsto> b)" if "shelved p"
    using tidy_write[OF w that, of b None] by (auto simp: filesystem_def)
  show "\<exists>err k t. so_write (filesystem root) p (b, Some e) s = ((Inl err, k), t) \<and> tidy root t \<and> on_shelf root t = on_shelf root s"
    if "shelved p" using tidy_write[OF w that, of b "Some e"] by (auto simp: filesystem_def)
  show "\<exists>t. so_read (filesystem root) p s = (Inr (b, None), t) \<and> tidy root t \<and> on_shelf root t = on_shelf root s"
    if "on_shelf root s p = Some b" using tidy_read(1)[OF w sh[OF that] that] w by (simp add: filesystem_def)
  show "\<exists>err t. so_read (filesystem root) p s = (Inl err, t) \<and> tidy root t \<and> on_shelf root t = on_shelf root s"
    if "shelved p" "on_shelf root s p = None" using tidy_read(2)[OF w that] w by (auto simp: filesystem_def)
  show "\<exists>es t. so_list (filesystem root) pre s = (Inr es, t) \<and> tidy root t \<and> on_shelf root t = on_shelf root s
      \<and> sorted_wrt (\<lambda>x y. bytes_less (en_path x) (en_path y)) es
      \<and> en_path ` set es = {p \<in> dom (on_shelf root s). below pre p}
      \<and> (\<forall>x \<in> set es. en_bytes x = int (length (the (on_shelf root s (en_path x)))) \<and> \<not> is_zero_time (en_at x))"
    if "searched pre" using tidy_list[OF w that] w by (fastforce simp: filesystem_def)
  show "\<exists>t. so_delete (filesystem root) p s = (None, t) \<and> tidy root t \<and> on_shelf root t = (on_shelf root s)(p := None)"
    if "shelved p" using tidy_delete[OF w that] by (simp add: filesystem_def)
  show "\<exists>t. so_check (filesystem root) s = (None, t) \<and> tidy root t \<and> on_shelf root t = on_shelf root s"
    using tidy_check[OF w] by (simp add: filesystem_def)
qed

end
