(* ===== verification/Store_Conformance.thy ===== *)
theory Store_Conformance
  imports Store_Shelf Go_JSON
begin

text \<open>
  The suite every destination is held to, \<open>internal/store/storetest/conformance.go\<close>. A case is a function of
  a store and of an empty state to what it complains of; \<open>t.Fatalf\<close> ends a case, \<open>t.Errorf\<close> does not. A complaint
  is the message up to the listing it may quote. Two consequences of the contract of \<open>Store_Shelf\<close> are
  proved for any store: it passes the suite, and it answers every sequence of calls as a sorted list of
  archives does.
\<close>

section \<open>The suite\<close>

definition archive_in_suite :: string where "archive_in_suite = ''shop/2026/09/archive.zst.age''"

definition read_all :: "'s store \<Rightarrow> string \<Rightarrow> 's \<Rightarrow> string + string" where
  "read_all ops path s =
     (case so_read ops path s of
        (Inl e, _) \<Rightarrow> Inl (''Read '' @ path @ '': '' @ err_said e)
      | (Inr (_, Some e), _) \<Rightarrow> Inl (''read '' @ path @ '': '' @ err_said e)
      | (Inr (out, None), _) \<Rightarrow> Inr out)"

text \<open>Writing some archives, the first refusal ending the case.\<close>

fun write_all :: "'s store \<Rightarrow> (string \<times> string) list \<Rightarrow> (string \<Rightarrow> string) \<Rightarrow> 's \<Rightarrow> string + 's" where
  "write_all ops [] said s = Inr s"
| "write_all ops ((path, contents) # rest) said s =
     (case so_write ops path (contents, None) s of
        ((Inl e, _), _) \<Rightarrow> Inl (said path @ err_said e)
      | ((Inr _, _), s1) \<Rightarrow> write_all ops rest said s1)"

definition round_trip_case :: "'s store \<Rightarrow> 's \<Rightarrow> string list" where
  "round_trip_case ops s =
     (let contents = ''an archive, or something shaped like one''
      in case so_write ops archive_in_suite (contents, None) s of
           ((Inl e, _), _) \<Rightarrow> [''Write: '' @ err_said e]
         | ((Inr count, _), s1) \<Rightarrow>
             (if count \<noteq> int (length contents)
              then [''Write reported '' @ dec_int count @ '' bytes, want '' @ dec (length contents)] else []) @
             (case read_all ops archive_in_suite s1 of
                Inl said \<Rightarrow> [said]
              | Inr out \<Rightarrow>
                  if out \<noteq> contents then [''read back '' @ go_quote out @ '', want '' @ go_quote contents] else []))"

definition listed_archives :: "string list" where
  "listed_archives = [''shop/2026/09/b.zst.age'', ''shop/2026/09/a.zst.age'', ''shop/2026/08/old.zst.age'',
     ''erp/2026/09/other.zst.age'']"

definition listing_case :: "'s store \<Rightarrow> 's \<Rightarrow> string list" where
  "listing_case ops s =
     (case write_all ops (map (\<lambda>p. (p, ''x'')) listed_archives) (\<lambda>p. ''Write '' @ p @ '': '') s of
        Inl said \<Rightarrow> [said]
      | Inr s1 \<Rightarrow>
          (case so_list ops ''shop/2026/09'' s1 of
             (Inl e, _) \<Rightarrow> [''List: '' @ err_said e]
           | (Inr es, _) \<Rightarrow>
               if length es \<noteq> 2 then [''got '' @ dec (length es) @ '' entries, want 2'']
               else
                 (if \<not> bytes_less (en_path (es ! 0)) (en_path (es ! 1)) then [''the listing is not sorted''] else []) @
                 concat (map (\<lambda>x.
                   (if en_bytes x \<noteq> 1 then [en_path x @ '' reports '' @ dec_int (en_bytes x) @ '' bytes, want 1''] else []) @
                   (if is_zero_time (en_at x) then [en_path x @ '' has no date''] else [])) es)))"

definition empty_prefix_case :: "'s store \<Rightarrow> 's \<Rightarrow> string list" where
  "empty_prefix_case ops s =
     (case so_list ops ''nothing/here'' s of
        (Inl e, _) \<Rightarrow> [''List: '' @ err_said e]
      | (Inr es, _) \<Rightarrow> if es \<noteq> [] then [''want nothing''] else [])"

definition delete_case :: "'s store \<Rightarrow> 's \<Rightarrow> string list" where
  "delete_case ops s =
     (case so_write ops archive_in_suite (''x'', None) s of
        ((Inl e, _), _) \<Rightarrow> [''Write: '' @ err_said e]
      | ((Inr _, _), s1) \<Rightarrow>
          (case so_delete ops archive_in_suite s1 of
             (Some e, _) \<Rightarrow> [''Delete: '' @ err_said e]
           | (None, s2) \<Rightarrow>
               (case so_read ops archive_in_suite s2 of
                  (got, s3) \<Rightarrow>
                    (if ok got then [''the archive is still readable after being deleted''] else []) @
                    (case so_delete ops archive_in_suite s3 of
                       (Some e, _) \<Rightarrow> [''deleting twice failed: '' @ err_said e]
                     | (None, _) \<Rightarrow> []))))"

definition missing_case :: "'s store \<Rightarrow> 's \<Rightarrow> string list" where
  "missing_case ops s =
     (case so_read ops ''shop/2026/09/never-written'' s of
        (got, _) \<Rightarrow> if ok got then [''reading a missing archive succeeded''] else [])"

definition check_case :: "'s store \<Rightarrow> 's \<Rightarrow> string list" where
  "check_case ops s =
     (case so_check ops s of
        (Some e, _) \<Rightarrow> [''Check refused a destination that works: '' @ err_said e]
      | (None, s1) \<Rightarrow>
          (case so_list ops [] s1 of
             (Inl e, _) \<Rightarrow> [''List: '' @ err_said e]
           | (Inr es, _) \<Rightarrow> if es \<noteq> [] then [''Check left something behind''] else []))"

definition interrupted_case :: "'s store \<Rightarrow> 's \<Rightarrow> string list" where
  "interrupted_case ops s =
     (let path = ''shop/2026/09/interrupted.zst.age''
      in case so_write ops path (''the beginning of an archive'', Some (errors_new ''the stream broke'')) s of
           ((Inr _, _), _) \<Rightarrow> [''an interrupted write reported success'']
         | ((Inl _, _), s1) \<Rightarrow>
             (case so_read ops path s1 of
                (got, s2) \<Rightarrow>
                  (if ok got then [''a partial archive is visible under its final name''] else []) @
                  (case so_list ops ''shop'' s2 of
                     (Inl e, _) \<Rightarrow> [''List: '' @ err_said e]
                   | (Inr es, _) \<Rightarrow>
                       concat (map (\<lambda>x. if en_path x = path then [''the interrupted archive is listed''] else []) es))))"

definition replace_case :: "'s store \<Rightarrow> 's \<Rightarrow> string list" where
  "replace_case ops s =
     (case write_all ops [(archive_in_suite, ''first''), (archive_in_suite, ''second and longer'')] (\<lambda>p. ''Write: '') s of
        Inl said \<Rightarrow> [said]
      | Inr s1 \<Rightarrow>
          (case read_all ops archive_in_suite s1 of
             Inl said \<Rightarrow> [said]
           | Inr out \<Rightarrow>
               if out \<noteq> ''second and longer'' then [''read '' @ go_quote out @ '', want the second write''] else []))"

definition conformance :: "'s store \<Rightarrow> 's \<Rightarrow> (string \<times> string list) list" where
  "conformance ops fresh =
     [(''writing then reading gives back exactly what was written'', round_trip_case ops fresh),
      (''listing returns what lies under a prefix, sorted'', listing_case ops fresh),
      (''listing an empty prefix returns nothing and does not complain'', empty_prefix_case ops fresh),
      (''deleting removes, and deleting again upsets nobody'', delete_case ops fresh),
      (''reading what is not there is an error, not an emptiness'', missing_case ops fresh),
      (''checking access'', check_case ops fresh),
      (''an interrupted write leaves nothing visible'', interrupted_case ops fresh),
      (''writing replaces whatever already had that name'', replace_case ops fresh)]"

definition conforms :: "'s store \<Rightarrow> 's \<Rightarrow> bool" where
  "conforms ops fresh \<longleftrightarrow> list_all (\<lambda>(name, complaints). complaints = []) (conformance ops fresh)"

section \<open>Any sequence of calls\<close>

datatype call = Put string string | Broken string string gerr | Get string | Search string | Remove string | Probe

datatype reply = Stored int | Archive string | Entries "(string \<times> int) list" | Nothing | Error

definition reply_of :: "'s store \<Rightarrow> call \<Rightarrow> 's \<Rightarrow> reply \<times> 's" where
  "reply_of ops c s =
     (case c of
        Put p b \<Rightarrow> (case so_write ops p (b, None) s of ((Inl _, _), t) \<Rightarrow> (Error, t) | ((Inr n, _), t) \<Rightarrow> (Stored n, t))
      | Broken p b e \<Rightarrow>
          (case so_write ops p (b, Some e) s of ((Inl _, _), t) \<Rightarrow> (Error, t) | ((Inr n, _), t) \<Rightarrow> (Stored n, t))
      | Get p \<Rightarrow> (case so_read ops p s of (Inr (b, None), t) \<Rightarrow> (Archive b, t) | (_, t) \<Rightarrow> (Error, t))
      | Search pre \<Rightarrow>
          (case so_list ops pre s of
             (Inl _, t) \<Rightarrow> (Error, t)
           | (Inr es, t) \<Rightarrow> (Entries (map (\<lambda>x. (en_path x, en_bytes x)) es), t))
      | Remove p \<Rightarrow> (case so_delete ops p s of (None, t) \<Rightarrow> (Nothing, t) | (Some _, t) \<Rightarrow> (Error, t))
      | Probe \<Rightarrow> (case so_check ops s of (None, t) \<Rightarrow> (Nothing, t) | (Some _, t) \<Rightarrow> (Error, t)))"

fun replies :: "'s store \<Rightarrow> call list \<Rightarrow> 's \<Rightarrow> reply list" where
  "replies ops [] s = []"
| "replies ops (c # cs) s = (case reply_of ops c s of (r, t) \<Rightarrow> r # replies ops cs t)"

definition call_ok :: "call \<Rightarrow> bool" where
  "call_ok c \<longleftrightarrow> (case c of Put p _ \<Rightarrow> shelved p | Broken p _ _ \<Rightarrow> shelved p | Get p \<Rightarrow> shelved p | Search pre \<Rightarrow> searched pre
     | Remove p \<Rightarrow> shelved p | Probe \<Rightarrow> True)"

text \<open>The same calls on a list of archives in the order of their paths.\<close>

type_synonym archives = "(string \<times> string) list"

fun put_archive :: "string \<Rightarrow> string \<Rightarrow> archives \<Rightarrow> archives" where
  "put_archive p b [] = [(p, b)]"
| "put_archive p b ((q, c) # xs) =
     (if bytes_less p q then (p, b) # (q, c) # xs else if p = q then (p, b) # xs else (q, c) # put_archive p b xs)"

definition expected :: "call \<Rightarrow> archives \<Rightarrow> reply \<times> archives" where
  "expected c xs =
     (case c of
        Put p b \<Rightarrow> (Stored (int (length b)), put_archive p b xs)
      | Broken p b e \<Rightarrow> (Error, xs)
      | Get p \<Rightarrow> (case map_of xs p of None \<Rightarrow> Error | Some b \<Rightarrow> Archive b, xs)
      | Search pre \<Rightarrow> (Entries (map (\<lambda>(p, b). (p, int (length b))) (filter (\<lambda>(p, b). below pre p) xs)), xs)
      | Remove p \<Rightarrow> (Nothing, filter (\<lambda>(q, b). q \<noteq> p) xs)
      | Probe \<Rightarrow> (Nothing, xs))"

fun expected_replies :: "call list \<Rightarrow> archives \<Rightarrow> reply list" where
  "expected_replies [] xs = []"
| "expected_replies (c # cs) xs = (case expected c xs of (r, ys) \<Rightarrow> r # expected_replies cs ys)"

section \<open>What follows from the contract\<close>

lemma suite_paths:
  "shelved archive_in_suite" "shelved ''shop/2026/09/never-written''" "shelved ''shop/2026/09/interrupted.zst.age''"
  "list_all shelved listed_archives" "searched ''shop/2026/09''" "searched ''nothing/here''" "searched []" "searched ''shop''"
  by code_simp+

lemma listed_below:
  "{p \<in> set listed_archives. below ''shop/2026/09'' p} = {''shop/2026/09/a.zst.age'', ''shop/2026/09/b.zst.age''}"
proof -
  have "filter (below ''shop/2026/09'') listed_archives = [''shop/2026/09/b.zst.age'', ''shop/2026/09/a.zst.age'']" by code_simp
  from arg_cong[OF this, of set] show ?thesis by (simp only: set_filter list.set insert_commute)
qed

lemma map_of_same: "map_of (map (\<lambda>p. (p, c)) ps) p = (if p \<in> set ps then Some c else None)"
  by (induction ps) auto

lemma strictly_sorted_unique:
  "sorted_wrt (\<lambda>a b. bytes_less (f a) (f b)) xs \<Longrightarrow> sorted_wrt (\<lambda>a b. bytes_less (g a) (g b)) ys \<Longrightarrow> f ` set xs = g ` set ys
    \<Longrightarrow> map f xs = map g ys"
proof (induction xs arbitrary: ys)
  case Nil
  then show ?case by simp
next
  case (Cons x xs)
  from Cons.prems(3) obtain y zs where ys: "ys = y # zs" by (cases ys) auto
  have "f x = g y"
  proof (rule ccontr)
    assume ne: "f x \<noteq> g y"
    have "f x \<in> g ` set zs" "g y \<in> f ` set xs" using Cons.prems(3) ne unfolding ys by (auto 4 3)
    then have "bytes_less (g y) (f x)" "bytes_less (f x) (g y)" using Cons.prems(1,2) unfolding ys by auto
    then show False using bytes.asym by blast
  qed
  moreover have "f x \<notin> f ` set xs" "g y \<notin> g ` set zs" using Cons.prems(1,2) bytes.irrefl unfolding ys by fastforce+
  with Cons.prems(3) \<open>f x = g y\<close> have "f ` set xs = g ` set zs" unfolding ys by (simp add: insert_ident)
  with Cons.IH[of zs] Cons.prems have "map f xs = map g zs" by (simp add: ys)
  ultimately show ?case by (simp add: ys)
qed

definition in_order :: "archives \<Rightarrow> bool" where
  "in_order xs \<longleftrightarrow> sorted_wrt (\<lambda>a b. bytes_less (fst a) (fst b)) xs"

lemma in_order_distinct: "in_order xs \<Longrightarrow> (p, b) \<in> set xs \<Longrightarrow> map_of xs p = Some b"
proof (induction xs)
  case (Cons x xs)
  then show ?case using bytes.irrefl by (cases x) (auto simp: in_order_def)
qed simp

lemma put_archive_set: "fst ` set (put_archive p b xs) = insert p (fst ` set xs)"
  by (induction p b xs rule: put_archive.induct) auto

lemma put_archive_in_order: "in_order xs \<Longrightarrow> in_order (put_archive p b xs) \<and> map_of (put_archive p b xs) = (map_of xs)(p \<mapsto> b)"
proof (induction p b xs rule: put_archive.induct)
  case (1 p b)
  then show ?case by (simp add: in_order_def)
next
  case (2 p b q c xs)
  show ?case
  proof (cases "bytes_less p q")
    case True
    then show ?thesis using 2(2) by (auto simp: in_order_def intro: bytes.trans)
  next
    case False
    note less = False
    show ?thesis
    proof (cases "p = q")
      case True
      then show ?thesis using 2(2) bytes.irrefl by (auto simp: in_order_def)
    next
      case False
      then have qp: "bytes_less q p" using less bytes_less_total by blast
      have "in_order (put_archive p b xs)" "map_of (put_archive p b xs) = (map_of xs)(p \<mapsto> b)"
        using 2(1)[OF less False] 2(2) unfolding in_order_def sorted_wrt.simps(2) by blast+
      moreover have "bytes_less q (fst x)" if "x \<in> set (put_archive p b xs)" for x
      proof -
        have "fst x \<in> insert p (fst ` set xs)" using imageI[OF that, of fst] unfolding put_archive_set .
        then show ?thesis using 2(2) qp by (auto simp: in_order_def)
      qed
      ultimately show ?thesis using less False by (auto simp: in_order_def fun_eq_iff)
    qed
  qed
qed

lemma remove_archive_in_order:
  assumes "in_order xs"
  shows "in_order (filter (\<lambda>(q, b). q \<noteq> p) xs) \<and> map_of (filter (\<lambda>(q, b). q \<noteq> p) xs) = (map_of xs)(p := None)"
proof -
  have "filter (\<lambda>(q, b). q \<noteq> p) xs = AList.delete p xs" unfolding AList.delete_eq by (rule filter_cong) auto
  then show ?thesis using assms delete_conv'[of p xs] by (simp add: in_order_def sorted_wrt_filter AList.delete_eq)
qed

context shelf
begin

lemma write_many:
  "works s \<Longrightarrow> list_all (\<lambda>(p, b). shelved p) xs \<Longrightarrow>
    \<exists>t. write_all ops xs said s = Inr t \<and> works t \<and> holds t = holds s ++ map_of (rev xs)"
proof (induction xs arbitrary: s)
  case Nil
  then show ?case by simp
next
  case (Cons x xs)
  obtain p b where x: "x = (p, b)" by (cases x)
  with Cons.prems put_law[of s p b] obtain t where
    t: "so_write ops p (b, None) s = ((Inr (int (length b)), length b), t)" "works t" "holds t = (holds s)(p \<mapsto> b)" by auto
  from Cons.IH[OF t(2)] Cons.prems obtain u where
    "write_all ops xs said t = Inr u" "works u" "holds u = holds t ++ map_of (rev xs)" by auto
  with t show ?case by (simp add: x map_add_def fun_eq_iff split: option.splits)
qed

lemma read_whole: "works s \<Longrightarrow> holds s p = Some b \<Longrightarrow> read_all ops p s = Inr b"
  using get_law[of s p b] by (auto simp: read_all_def)

lemma list_nothing:
  assumes "works s" "searched pre" "\<And>p. holds s p = None"
  obtains t where "so_list ops pre s = (Inr [], t)" "works t" "holds t = holds s"
proof -
  from list_law[OF assms(1,2)] obtain es t where
    "so_list ops pre s = (Inr es, t)" "works t" "holds t = holds s" "en_path ` set es = {p \<in> dom (holds s). below pre p}" by blast
  moreover have "dom (holds s) = {}" using assms(3) by auto
  ultimately show thesis using that by simp
qed

lemma passes_round_trip: "works s \<Longrightarrow> round_trip_case ops s = []"
  using put_law[OF _ suite_paths(1), of s "''an archive, or something shaped like one''"] read_whole
  by (auto simp: round_trip_case_def Let_def)

lemma passes_listing:
  assumes w: "works s" and e: "\<And>p. holds s p = None"
  shows "listing_case ops s = []"
proof -
  let ?xs = "map (\<lambda>p. (p, ''x'')) listed_archives"
  have "list_all (\<lambda>(p, b). shelved p) ?xs" using suite_paths(4) by (simp add: list_all_iff)
  from write_many[OF w this, of "\<lambda>p. ''Write '' @ p @ '': ''"] obtain t where
    t: "write_all ops ?xs (\<lambda>p. ''Write '' @ p @ '': '') s = Inr t" "works t" "holds t = holds s ++ map_of (rev ?xs)" by blast
  have x: "holds t p = Some b \<longleftrightarrow> p \<in> set listed_archives \<and> b = ''x''" for p b
    using e[of p] by (auto simp: t(3) map_add_def rev_map map_of_same)
  from list_law[OF t(2) suite_paths(5)] obtain es u where
    l: "so_list ops ''shop/2026/09'' t = (Inr es, u)" "sorted_wrt (\<lambda>x y. bytes_less (en_path x) (en_path y)) es"
      "en_path ` set es = {p \<in> dom (holds t). below ''shop/2026/09'' p}"
      "\<forall>x \<in> set es. en_bytes x = int (length (the (holds t (en_path x)))) \<and> \<not> is_zero_time (en_at x)" by blast
  have d: "{p \<in> dom (holds t). below ''shop/2026/09'' p} = {p \<in> set listed_archives. below ''shop/2026/09'' p}"
    by (auto simp: dom_def x)
  have "sorted_wrt (\<lambda>a b. bytes_less a b) [''shop/2026/09/a.zst.age'', ''shop/2026/09/b.zst.age'']" by simp
  from strictly_sorted_unique[OF l(2) this[folded id_def]] l(3)
  have m: "map en_path es = [''shop/2026/09/a.zst.age'', ''shop/2026/09/b.zst.age'']"
    unfolding d listed_below by simp
  have "en_bytes y = 1 \<and> \<not> is_zero_time (en_at y)" if y: "y \<in> set es" for y
  proof -
    have "holds t (en_path y) = Some ''x''" using y l(3) unfolding d x by auto
    with l(4) y show ?thesis by auto
  qed
  note each = this
  from m obtain x y where es: "es = [x, y]" by (auto simp: map_eq_Cons_conv)
  have "bytes_less (en_path x) (en_path y)" "length es = 2" using l(2) by (simp_all add: es)
  moreover have "en_bytes x = 1" "\<not> is_zero_time (en_at x)" "en_bytes y = 1" "\<not> is_zero_time (en_at y)"
    using each by (simp_all add: es)
  ultimately show ?thesis unfolding listing_case_def t(1) l(1) prod.case sum.case es by simp
qed

lemma passes_delete: "works s \<Longrightarrow> delete_case ops s = []"
proof -
  assume w: "works s"
  let ?p = archive_in_suite
  from put_law[OF w suite_paths(1), of "''x''"] obtain t where
    t: "so_write ops ?p (''x'', None) s = ((Inr (int (length ''x'')), length ''x''), t)" "works t" by blast
  from delete_law[OF t(2) suite_paths(1)] obtain u where
    u: "so_delete ops ?p t = (None, u)" "works u" "holds u = (holds t)(?p := None)" by blast
  from missing_law[OF u(2) suite_paths(1)] u(3) obtain err v where
    v: "so_read ops ?p u = (Inl err, v)" "works v" by auto
  from delete_law[OF v(2) suite_paths(1)] t u v show ?thesis by (auto simp: delete_case_def)
qed

lemma passes_missing: "works s \<Longrightarrow> (\<And>p. holds s p = None) \<Longrightarrow> missing_case ops s = []"
  using missing_law[OF _ suite_paths(2), of s] by (auto simp: missing_case_def)

lemma passes_check:
  assumes "works s" "\<And>p. holds s p = None"
  shows "check_case ops s = []"
proof -
  from check_law[OF assms(1)] obtain t where t: "so_check ops s = (None, t)" "works t" "holds t = holds s" by blast
  with assms(2) show ?thesis by (auto intro: list_nothing[OF t(2) suite_paths(7)] simp: check_case_def)
qed

lemma passes_interrupted:
  assumes w: "works s" and e: "\<And>p. holds s p = None"
  shows "interrupted_case ops s = []"
proof -
  let ?p = "''shop/2026/09/interrupted.zst.age''"
  from broken_law[OF w suite_paths(3), of "''the beginning of an archive''" "errors_new ''the stream broke''"]
  obtain err k t where t: "so_write ops ?p (''the beginning of an archive'', Some (errors_new ''the stream broke'')) s = ((Inl err, k), t)"
    "works t" "holds t = holds s" by blast
  from missing_law[OF t(2) suite_paths(3)] t(3) e obtain err' u where
    u: "so_read ops ?p t = (Inl err', u)" "works u" "holds u = holds t" by auto
  from list_nothing[OF u(2) suite_paths(8)] u(3) t(3) e obtain v where "so_list ops ''shop'' u = (Inr [], v)" by metis
  with t u show ?thesis by (simp add: interrupted_case_def)
qed

lemma passes_replace: "works s \<Longrightarrow> replace_case ops s = []"
proof -
  assume w: "works s"
  from write_many[OF w, of "[(archive_in_suite, ''first''), (archive_in_suite, ''second and longer'')]" "\<lambda>p. ''Write: ''"] suite_paths(1)
  obtain t where "write_all ops [(archive_in_suite, ''first''), (archive_in_suite, ''second and longer'')] (\<lambda>p. ''Write: '') s = Inr t"
    "works t" "holds t archive_in_suite = Some ''second and longer''" by auto
  with read_whole[of t archive_in_suite] show ?thesis by (simp add: replace_case_def del: write_all.simps)
qed

lemma passes_suite:
  assumes "works s" "\<And>p. holds s p = None"
  shows "conforms ops s"
proof -
  have "empty_prefix_case ops s = []"
    by (rule list_nothing[OF assms(1) suite_paths(6) assms(2)]) (simp add: empty_prefix_case_def)
  then show ?thesis
    using passes_round_trip[OF assms(1)] passes_listing[OF assms] passes_delete[OF assms(1)] passes_missing[OF assms]
      passes_check[OF assms] passes_interrupted[OF assms] passes_replace[OF assms(1)]
    by (simp add: conforms_def conformance_def)
qed

definition mirrored :: "'s \<Rightarrow> archives \<Rightarrow> bool" where
  "mirrored s xs \<longleftrightarrow> works s \<and> in_order xs \<and> map_of xs = holds s"

lemma search_mirrored:
  assumes m: "mirrored s xs" and pre: "searched pre"
  obtains t where "reply_of ops (Search pre) s = (fst (expected (Search pre) xs), t)" "mirrored t xs"
proof -
  let ?ys = "filter (\<lambda>(p, b). below pre p) xs"
  have w: "works s" and so: "in_order xs" and h: "map_of xs = holds s" using m by (simp_all add: mirrored_def)
  from list_law[OF w pre] obtain es t where
    l: "so_list ops pre s = (Inr es, t)" "works t" "holds t = holds s"
      "sorted_wrt (\<lambda>x y. bytes_less (en_path x) (en_path y)) es"
      "en_path ` set es = {p \<in> dom (holds s). below pre p}"
      "\<forall>x \<in> set es. en_bytes x = int (length (the (holds s (en_path x)))) \<and> \<not> is_zero_time (en_at x)" by blast
  have "sorted_wrt (\<lambda>a b. bytes_less (fst a) (fst b)) ?ys" using so by (simp add: in_order_def sorted_wrt_filter)
  moreover have "en_path ` set es = fst ` set ?ys"
    unfolding l(5) h[symmetric] dom_map_of_conv_image_fst by auto
  ultimately have p: "map en_path es = map fst ?ys" by (rule strictly_sorted_unique[OF l(4)])
  have "map (\<lambda>x. (en_path x, en_bytes x)) es = map (\<lambda>p. (p, int (length (the (holds s p))))) (map en_path es)"
    using l(6) by simp
  also have "\<dots> = map (\<lambda>(p, b). (p, int (length b))) ?ys"
    unfolding p using in_order_distinct[OF so] by (auto simp flip: h)
  finally have "reply_of ops (Search pre) s = (fst (expected (Search pre) xs), t)" by (simp add: reply_of_def expected_def l(1))
  moreover have "mirrored t xs" using l(2,3) so h by (simp add: mirrored_def)
  ultimately show thesis using that by blast
qed

lemma reply_mirrored:
  assumes m: "mirrored s xs" and c: "call_ok c"
  shows "\<exists>t. reply_of ops c s = (fst (expected c xs), t) \<and> mirrored t (snd (expected c xs))"
proof -
  have w: "works s" and so: "in_order xs" and h: "map_of xs = holds s" using m by (simp_all add: mirrored_def)
  show ?thesis
  proof (cases c)
    case (Put p b)
    from put_law[OF w, of p b] c obtain t where "so_write ops p (b, None) s = ((Inr (int (length b)), length b), t)"
      "works t" "holds t = (holds s)(p \<mapsto> b)" by (auto simp: Put call_ok_def)
    then show ?thesis using put_archive_in_order[OF so, of p b] h by (simp add: Put reply_of_def expected_def mirrored_def)
  next
    case (Broken p b e)
    from broken_law[OF w, of p b e] c obtain err k t where "so_write ops p (b, Some e) s = ((Inl err, k), t)"
      "works t" "holds t = holds s" by (auto simp: Broken call_ok_def)
    then show ?thesis using so h by (simp add: Broken reply_of_def expected_def mirrored_def)
  next
    case (Get p)
    then have p: "shelved p" using c by (simp add: call_ok_def)
    show ?thesis
    proof (cases "holds s p")
      case None
      from missing_law[OF w p this] obtain err t where "so_read ops p s = (Inl err, t)" "works t" "holds t = holds s" by blast
      then show ?thesis using None so h by (simp add: Get reply_of_def expected_def mirrored_def)
    next
      case (Some b)
      from get_law[OF w this] obtain t where "so_read ops p s = (Inr (b, None), t)" "works t" "holds t = holds s" by blast
      then show ?thesis using Some so h by (simp add: Get reply_of_def expected_def mirrored_def)
    qed
  next
    case (Search pre)
    with c have "searched pre" by (simp add: call_ok_def)
    from search_mirrored[OF m this] obtain t where "reply_of ops (Search pre) s = (fst (expected (Search pre) xs), t)" "mirrored t xs" .
    then show ?thesis by (simp add: Search expected_def)
  next
    case (Remove p)
    from delete_law[OF w, of p] c obtain t where "so_delete ops p s = (None, t)" "works t" "holds t = (holds s)(p := None)"
      by (auto simp: Remove call_ok_def)
    then show ?thesis using so h remove_archive_in_order[OF so, of p] by (simp add: Remove reply_of_def expected_def mirrored_def)
  next
    case Probe
    from check_law[OF w] obtain t where "so_check ops s = (None, t)" "works t" "holds t = holds s" by blast
    then show ?thesis using so h by (simp add: Probe reply_of_def expected_def mirrored_def)
  qed
qed

lemma replies_expected:
  "mirrored s xs \<Longrightarrow> list_all call_ok cs \<Longrightarrow> replies ops cs s = expected_replies cs xs"
proof (induction cs arbitrary: s xs)
  case (Cons c cs)
  from reply_mirrored[OF Cons.prems(1), of c] Cons.prems(2) obtain t where
    "reply_of ops c s = (fst (expected c xs), t)" "mirrored t (snd (expected c xs))" by auto
  with Cons.IH[of t "snd (expected c xs)"] Cons.prems(2) show ?case by (simp add: case_prod_beta)
qed simp

end

section \<open>The directory\<close>

text \<open>
  C27. The directory passes every case of the suite: on any machine where no system call fails and whose
  clock is set, under any root that holds no archive, no case complains.
\<close>

theorem directory_conforms:
  assumes "tidy root s" "\<And>p. on_shelf root s p = None"
  shows "conforms (filesystem root) s"
  by (rule directory.passes_suite) fact+

definition new_disk :: os where
  "new_disk = (one_process 7 [((True, [''nas'']), Dir)])\<lparr>os_now := 5\<rparr>"

lemma new_disk_tidy: "tidy (True, [''nas'']) new_disk" "on_shelf (True, [''nas'']) new_disk p = None"
proof -
  have n: "node_at new_disk x = (if x = (True, [''nas'']) then Some Dir else None)" for x
    by (simp add: new_disk_def one_process_def node_at_def)
  then show "tidy (True, [''nas'']) new_disk"
    by (simp add: tidy_def dirs_free_def) (simp add: new_disk_def one_process_def quiet_def is_zero_time_def)
  show "on_shelf (True, [''nas'']) new_disk p = None" by (simp add: on_shelf_def held_file_def n)
qed

theorem directory_conforms_witness:
  "conforms (filesystem (True, [''nas''])) new_disk"
  by (rule directory_conforms[OF new_disk_tidy])

text \<open>
  C12. The directory is a map from paths to archives: whatever the calls and their order, over the paths of
  four levels koffr writes, the answers are the ones of a list of archives kept in the order of the
  paths. A write that is cut leaves it as it was, a write replaces, a deletion is idempotent, a listing
  names what lies below its prefix with its size, and a check leaves nothing.
\<close>

theorem directory_refines_a_map:
  assumes "tidy root s" "\<And>p. on_shelf root s p = None" "list_all call_ok cs"
  shows "replies (filesystem root) cs s = expected_replies cs []"
proof (rule directory.replies_expected[OF _ assms(3)])
  show "directory.mirrored root s []" using assms(1,2) by (auto simp: directory.mirrored_def in_order_def)
qed

definition sample_calls :: "call list" where
  "sample_calls = [Put ''shop/2026/09/a'' ''old'', Put ''erp/2026/09/c'' ''xyz'', Put ''shop/2026/09/a'' ''whole'',
     Broken ''shop/2026/09/b'' ''ha'' (errors_new ''broken pipe''), Get ''shop/2026/09/a'', Get ''shop/2026/09/b'', Probe,
     Search [], Remove ''shop/2026/09/a'', Remove ''shop/2026/09/a'', Search ''shop'']"

theorem directory_refines_a_map_witness:
  "replies (filesystem (True, [''nas''])) sample_calls new_disk =
    [Stored 3, Stored 3, Stored 5, Error, Archive ''whole'', Error, Nothing,
     Entries [(''erp/2026/09/c'', 3), (''shop/2026/09/a'', 5)], Nothing, Nothing, Entries []]"
proof -
  have "list_all call_ok sample_calls" by code_simp
  moreover have "expected_replies sample_calls [] =
    [Stored 3, Stored 3, Stored 5, Error, Archive ''whole'', Error, Nothing,
     Entries [(''erp/2026/09/c'', 3), (''shop/2026/09/a'', 5)], Nothing, Nothing, Entries []]" by code_simp
  ultimately show ?thesis using directory_refines_a_map[OF new_disk_tidy] by simp
qed

end
