(* ===== verification/Config.thy ===== *)
theory Config
  imports Go_OS Go_JSON
begin

text \<open>
  The configuration: the packages under \<open>internal/config\<close>. Decoding and encoding YAML belong to \<open>yaml.v3\<close>
  and are parameters; what koffr decodes by hand, what it makes of the decoder's complaints and the values it
  hands to the encoder are here. The environment, the files and the zones of the machine are functions.
\<close>

section \<open>Secrets\<close>

datatype secret = Secret (expose: string)

definition is_set :: "secret \<Rightarrow> bool" where
  "is_set s \<longleftrightarrow> expose s \<noteq> []"

definition redacted_mark :: string where "redacted_mark = ''[redacted]''"

definition secret_string :: "secret \<Rightarrow> string" where
  "secret_string s = (if \<not> is_set s then [] else redacted_mark)"

section \<open>The document\<close>

record agent_conf =
  ag_id :: string
  ag_timezone :: string
  ag_max_parallel_jobs :: int

record encryption_conf =
  en_recipients_file :: string

record tools_conf =
  to_auto :: bool
  to_strategy :: string
  to_container :: string

record retention_conf =
  rc_last :: int
  rc_daily :: int
  rc_weekly :: int
  rc_monthly :: int

record database_conf =
  dc_id :: string
  dc_engine :: string
  dc_host :: string
  dc_port :: int
  dc_name :: string
  dc_user :: string
  dc_password :: secret
  dc_password_env :: string
  dc_password_file :: string
  dc_recipients_file :: string
  dc_tools :: tools_conf
  dc_staging :: string
  dc_schedule :: string
  dc_min_interval :: string
  dc_allow_remote_schedule :: bool
  dc_allow_restore :: bool
  dc_destinations :: "string list"
  dc_retention :: retention_conf

record destination_conf =
  dt_id :: string
  dt_type :: string
  dt_path :: string
  dt_endpoint :: string
  dt_region :: string
  dt_bucket :: string
  dt_access_key_id :: secret
  dt_access_key_id_env :: string
  dt_access_key_id_file :: string
  dt_secret_access_key :: secret
  dt_secret_access_key_env :: string
  dt_secret_access_key_file :: string
  dt_host :: string
  dt_port :: int
  dt_user :: string
  dt_private_key_file :: string

record smtp_conf =
  sp_host :: string
  sp_port :: int
  sp_user :: string
  sp_password :: secret
  sp_password_env :: string
  sp_password_file :: string

record channel_conf =
  ch_id :: string
  ch_type :: string
  ch_to :: "string list"
  ch_smtp :: smtp_conf
  ch_url :: string

record rule_conf =
  ru_on :: "string list"
  ru_channels :: "string list"

record alerts_conf =
  al_channels :: "channel_conf list"
  al_rules :: "rule_conf list"

record server_conf =
  sr_enabled :: bool
  sr_url :: string
  sr_token_file :: string
  sr_delegate_alerts :: bool
  sr_fallback_after :: string

record config =
  cg_agent :: agent_conf
  cg_encryption :: encryption_conf
  cg_databases :: "database_conf list"
  cg_destinations :: "destination_conf list"
  cg_alerts :: alerts_conf
  cg_server :: server_conf
  cg_location :: location

section \<open>The sensitive fields\<close>

text \<open>A pointer to a secret of the document is where it stands.\<close>

datatype secret_place = DatabasePassword nat | AccessKeyId nat | SecretAccessKey nat | ChannelPassword nat

fun get_secret :: "secret_place \<Rightarrow> config \<Rightarrow> secret" where
  "get_secret (DatabasePassword i) c = dc_password (cg_databases c ! i)"
| "get_secret (AccessKeyId i) c = dt_access_key_id (cg_destinations c ! i)"
| "get_secret (SecretAccessKey i) c = dt_secret_access_key (cg_destinations c ! i)"
| "get_secret (ChannelPassword i) c = sp_password (ch_smtp (al_channels (cg_alerts c) ! i))"

definition change_at :: "nat \<Rightarrow> ('a \<Rightarrow> 'a) \<Rightarrow> 'a list \<Rightarrow> 'a list" where
  "change_at i f xs = (if i < length xs then xs[i := f (xs ! i)] else xs)"

fun set_secret :: "secret_place \<Rightarrow> secret \<Rightarrow> config \<Rightarrow> config" where
  "set_secret (DatabasePassword i) s c =
     c\<lparr>cg_databases := change_at i (dc_password_update (\<lambda>_. s)) (cg_databases c)\<rparr>"
| "set_secret (AccessKeyId i) s c =
     c\<lparr>cg_destinations := change_at i (dt_access_key_id_update (\<lambda>_. s)) (cg_destinations c)\<rparr>"
| "set_secret (SecretAccessKey i) s c =
     c\<lparr>cg_destinations := change_at i (dt_secret_access_key_update (\<lambda>_. s)) (cg_destinations c)\<rparr>"
| "set_secret (ChannelPassword i) s c =
     c\<lparr>cg_alerts := (cg_alerts c)\<lparr>al_channels :=
        change_at i (ch_smtp_update (sp_password_update (\<lambda>_. s))) (al_channels (cg_alerts c))\<rparr>\<rparr>"

record secret_field =
  sf_where :: string
  sf_key :: string
  sf_target :: secret_place
  sf_env :: string
  sf_file :: string

definition indexed :: "string \<Rightarrow> nat \<Rightarrow> string \<Rightarrow> string" where
  "indexed section i ident = section @ ''['' @ dec i @ ''] '' @ ident"

definition database_field :: "nat \<times> database_conf \<Rightarrow> secret_field" where
  "database_field d =
     \<lparr>sf_where = indexed ''databases'' (fst d) (dc_id (snd d)), sf_key = ''password'',
      sf_target = DatabasePassword (fst d), sf_env = dc_password_env (snd d), sf_file = dc_password_file (snd d)\<rparr>"

definition destination_fields :: "nat \<times> destination_conf \<Rightarrow> secret_field list" where
  "destination_fields d =
     [\<lparr>sf_where = indexed ''destinations'' (fst d) (dt_id (snd d)), sf_key = ''access_key_id'',
       sf_target = AccessKeyId (fst d), sf_env = dt_access_key_id_env (snd d), sf_file = dt_access_key_id_file (snd d)\<rparr>,
      \<lparr>sf_where = indexed ''destinations'' (fst d) (dt_id (snd d)), sf_key = ''secret_access_key'',
       sf_target = SecretAccessKey (fst d), sf_env = dt_secret_access_key_env (snd d),
       sf_file = dt_secret_access_key_file (snd d)\<rparr>]"

definition channel_field :: "nat \<times> channel_conf \<Rightarrow> secret_field" where
  "channel_field d =
     \<lparr>sf_where = indexed ''alerts.channels'' (fst d) (ch_id (snd d)) @ '': smtp'', sf_key = ''password'',
      sf_target = ChannelPassword (fst d), sf_env = sp_password_env (ch_smtp (snd d)),
      sf_file = sp_password_file (ch_smtp (snd d))\<rparr>"

definition secret_fields :: "config \<Rightarrow> secret_field list" where
  "secret_fields c =
     map database_field (enumerate 0 (cg_databases c)) @
     concat (map destination_fields (enumerate 0 (cg_destinations c))) @
     map channel_field (enumerate 0 (al_channels (cg_alerts c)))"

definition forms_given :: "config \<Rightarrow> secret_field \<Rightarrow> string list" where
  "forms_given c f =
     (if is_set (get_secret (sf_target f) c) then [sf_key f] else []) @
     (if sf_env f \<noteq> [] then [sf_key f @ ''_env''] else []) @
     (if sf_file f \<noteq> [] then [sf_key f @ ''_file''] else [])"

fun check_forms :: "config \<Rightarrow> secret_field list \<Rightarrow> gerr option" where
  "check_forms c [] = None"
| "check_forms c (f # fs) =
     (if 1 < length (forms_given c f)
      then Some (errors_new (sf_where f @ '': '' @ join_with '' and '' (forms_given c f) @ '' are given together; keep one''))
      else check_forms c fs)"

definition check_secret_forms :: "config \<Rightarrow> gerr option" where
  "check_secret_forms c = check_forms c (secret_fields c)"

definition line_end :: "char \<Rightarrow> bool" where
  "line_end b \<longleftrightarrow> b = CHR 0x0D \<or> b = newline"

fun resolve_fields ::
  "(string \<Rightarrow> string option) \<Rightarrow> (string \<Rightarrow> string result) \<Rightarrow> secret_field list \<Rightarrow> config \<Rightarrow> gerr option \<times> config" where
  "resolve_fields env file [] c = (None, c)"
| "resolve_fields env file (f # fs) c =
     (if sf_env f \<noteq> [] then
        (case env (sf_env f) of
           None \<Rightarrow> (Some (errors_new (sf_where f @ '': '' @ sf_key f @ ''_env reads '' @ sf_env f @ '', which is not set'')), c)
         | Some v \<Rightarrow> resolve_fields env file fs (set_secret (sf_target f) (Secret v) c))
      else if sf_file f \<noteq> [] then
        (case file (sf_file f) of
           Inl e \<Rightarrow> (Some (errorf (sf_where f @ '': '' @ sf_key f @ ''_file'') e), c)
         | Inr raw \<Rightarrow> resolve_fields env file fs (set_secret (sf_target f) (Secret (trim_right_by line_end raw)) c))
      else resolve_fields env file fs c)"

definition resolve_secrets ::
  "(string \<Rightarrow> string option) \<Rightarrow> (string \<Rightarrow> string result) \<Rightarrow> config \<Rightarrow> gerr option \<times> config" where
  "resolve_secrets env file c = resolve_fields env file (secret_fields c) c"

section \<open>YAML nodes\<close>

datatype node_kind = DocumentNode | SequenceNode | MappingNode | ScalarNode | AliasNode

datatype yaml_node = Node (yn_kind: node_kind) (yn_line: int) (yn_value: string) (yn_content: "yaml_node list")

definition unknown_key :: "int \<Rightarrow> string \<Rightarrow> string \<Rightarrow> gerr" where
  "unknown_key line key section =
     errors_new (''line '' @ dec_int line @ '': unknown key '' @ go_quote key @ '' in '' @ section)"

definition unknown_key_in :: "string \<Rightarrow> yaml_node \<Rightarrow> gerr" where
  "unknown_key_in section node = unknown_key (yn_line node) (yn_value node) section"

fun tools_entries :: "yaml_node list \<Rightarrow> tools_conf \<Rightarrow> tools_conf result" where
  "tools_entries (key # node # rest) t =
     (if yn_value key = ''strategy'' then tools_entries rest (t\<lparr>to_strategy := yn_value node\<rparr>)
      else if yn_value key = ''container'' then tools_entries rest (t\<lparr>to_container := yn_value node\<rparr>)
      else Inl (unknown_key_in ''tools'' key))"
| "tools_entries _ t = Inr t"

definition unmarshal_tools :: "yaml_node \<Rightarrow> tools_conf \<Rightarrow> tools_conf result" where
  "unmarshal_tools node t =
     (if yn_kind node = ScalarNode then
        (if yn_value node \<noteq> ''auto'' then
           Inl (errors_new (''line '' @ dec_int (yn_line node) @ '': tools: '' @ go_quote (yn_value node) @
             '' is not known; expected '' @ [CHR 0x22] @ ''auto'' @ [CHR 0x22] @ '' or a mapping of strategy and container''))
         else Inr (t\<lparr>to_auto := True\<rparr>))
      else if yn_kind node \<noteq> MappingNode then
        Inl (errors_new (''line '' @ dec_int (yn_line node) @ '': tools: expected '' @ [CHR 0x22] @ ''auto'' @ [CHR 0x22] @
          '' or a mapping of strategy and container''))
      else tools_entries (yn_content node) t)"

definition path_join :: "string \<Rightarrow> string \<Rightarrow> string" where
  "path_join path name = (if path = [] then name else path @ ''.'' @ name)"

fun find_key :: "yaml_node \<Rightarrow> string \<Rightarrow> int \<Rightarrow> string \<Rightarrow> string option"
  and find_in_mapping :: "yaml_node list \<Rightarrow> string \<Rightarrow> int \<Rightarrow> string \<Rightarrow> string option"
  and find_in_sequence :: "yaml_node list \<Rightarrow> nat \<Rightarrow> string \<Rightarrow> int \<Rightarrow> string \<Rightarrow> string option" where
  "find_key (Node kind l v content) path line key =
     (if kind = MappingNode then find_in_mapping content path line key
      else if kind = SequenceNode then find_in_sequence content 0 path line key
      else None)"
| "find_in_mapping (name # node # rest) path line key =
     (if yn_value name = key \<and> yn_line name = line then Some path
      else case find_key node (path_join path (yn_value name)) line key of
        Some found \<Rightarrow> Some found
      | None \<Rightarrow> find_in_mapping rest path line key)"
| "find_in_mapping _ path line key = None"
| "find_in_sequence (item # items) i path line key =
     (case find_key item (path @ ''['' @ dec i @ '']'') line key of
        Some found \<Rightarrow> Some found
      | None \<Rightarrow> find_in_sequence items (Suc i) path line key)"
| "find_in_sequence [] i path line key = None"

definition section_of :: "yaml_node option \<Rightarrow> int \<Rightarrow> string \<Rightarrow> string" where
  "section_of document line key =
     (case document of
        None \<Rightarrow> ''this file''
      | Some d \<Rightarrow>
          (let root = (if yn_kind d = DocumentNode \<and> yn_content d \<noteq> [] then hd (yn_content d) else d)
           in case find_key root [] line key of
                Some path \<Rightarrow> if path = [] then ''the root'' else path
              | None \<Rightarrow> ''this file''))"

end
