(* ===== verification/Config_Load.thy ===== *)
theory Config_Load
  imports Config
begin

text \<open>
  Reading, checking and showing a configuration: \<open>internal/config/load.go\<close>, \<open>unknownkey.go\<close>, \<open>timezone.go\<close>,
  \<open>validate.go\<close>, \<open>redact.go\<close> and \<open>paths.go\<close>.
\<close>

section \<open>What the decoder complains of\<close>

text \<open>An error of \<open>yaml.v3\<close>: a list of complaints, the end of an empty document, or anything else.\<close>

datatype decode_error = TypeError "string list" gerr | EndOfFile | OtherDecode gerr

text \<open>The expression \<open>^line (\d+): field (\S+) not found in type \<close>.\<close>

definition is_blank :: "char \<Rightarrow> bool" where
  "is_blank c \<longleftrightarrow> c = CHR 0x09 \<or> c = CHR 0x0A \<or> c = CHR 0x0C \<or> c = CHR 0x0D \<or> c = CHR '' ''"

definition match_unknown_key :: "string \<Rightarrow> (string \<times> string) option" where
  "match_unknown_key s =
     (let a = drop 5 s; digits = takeWhile is_digit a; b = dropWhile is_digit a;
          c = drop 8 b; key = takeWhile (\<lambda>x. \<not> is_blank x) c
      in if has_prefix s ''line '' \<and> digits \<noteq> [] \<and> has_prefix b '': field '' \<and> key \<noteq> []
            \<and> has_prefix (dropWhile (\<lambda>x. \<not> is_blank x) c) '' not found in type ''
         then Some (digits, key) else None)"

fun first_unknown :: "yaml_node option \<Rightarrow> string list \<Rightarrow> gerr option" where
  "first_unknown document [] = None"
| "first_unknown document (said # rest) =
     (case match_unknown_key said of
        None \<Rightarrow> first_unknown document rest
      | Some (digits, key) \<Rightarrow>
          (case atoi digits of
             None \<Rightarrow> first_unknown document rest
           | Some line \<Rightarrow> Some (unknown_key line key (section_of document line key))))"

definition end_of_file :: gerr where "end_of_file = Gerr [ErrEOF] ''EOF''"

fun translate_unknown_keys :: "decode_error \<Rightarrow> yaml_node option \<Rightarrow> gerr" where
  "translate_unknown_keys (TypeError complaints e) document =
     (case first_unknown document complaints of Some known \<Rightarrow> known | None \<Rightarrow> e)"
| "translate_unknown_keys EndOfFile document = end_of_file"
| "translate_unknown_keys (OtherDecode e) document = e"

section \<open>Checks\<close>

definition exec_strategy :: string where "exec_strategy = ''exec''"

fun check_tools_from :: "nat \<Rightarrow> database_conf list \<Rightarrow> gerr option" where
  "check_tools_from i [] = None"
| "check_tools_from i (d # ds) =
     (if to_auto (dc_tools d) \<or> to_strategy (dc_tools d) = [] then check_tools_from (Suc i) ds
      else if to_strategy (dc_tools d) \<noteq> exec_strategy then
        Some (errors_new (indexed ''databases'' i (dc_id d) @ '': tools.strategy '' @ go_quote (to_strategy (dc_tools d)) @
          '' is not known; the only strategy is '' @ go_quote exec_strategy))
      else if to_container (dc_tools d) = [] then
        Some (errors_new (indexed ''databases'' i (dc_id d) @ '': tools.strategy '' @ go_quote exec_strategy @
          '' needs the container it should dump through; add tools.container''))
      else check_tools_from (Suc i) ds)"

definition check_tools :: "config \<Rightarrow> gerr option" where
  "check_tools c = check_tools_from 0 (cg_databases c)"

definition resolve_timezone :: "(string \<Rightarrow> location result) \<Rightarrow> config \<Rightarrow> config result" where
  "resolve_timezone zone c =
     (if ag_timezone (cg_agent c) = [] then
        Inl (errors_new (''agent.timezone is required: koffr reads schedules in a zone you declare, never in the '' @
          ''one of the host''))
      else case zone (ag_timezone (cg_agent c)) of
        Inl e \<Rightarrow> Inl (errorf (''agent.timezone '' @ go_quote (ag_timezone (cg_agent c)) @ '' is not a known zone'') e)
      | Inr found \<Rightarrow> Inr (c\<lparr>cg_location := found\<rparr>))"

section \<open>Parsing and loading\<close>

text \<open>\<open>decode\<close> fills a configuration, in part when it complains; \<open>nodes\<close> is the document, when it can be read.\<close>

record reading =
  rd_decode :: "string \<Rightarrow> decode_error option \<times> config"
  rd_nodes :: "string \<Rightarrow> yaml_node option"
  rd_zone :: "string \<Rightarrow> location result"
  rd_env :: "string \<Rightarrow> string option"
  rd_file :: "string \<Rightarrow> string result"

definition parse_config :: "reading \<Rightarrow> string \<Rightarrow> string \<Rightarrow> config result" where
  "parse_config m raw name =
     (case rd_decode m raw of
        (failed, c) \<Rightarrow>
          if failed \<noteq> None \<and> failed \<noteq> Some EndOfFile
          then Inl (errorf name (translate_unknown_keys (the failed) (rd_nodes m raw)))
          else case resolve_timezone (rd_zone m) c of
            Inl e \<Rightarrow> Inl (errorf name e)
          | Inr located \<Rightarrow>
              (case check_secret_forms located of
                 Some e \<Rightarrow> Inl (errorf name e)
               | None \<Rightarrow>
                   (case check_tools located of
                      Some e \<Rightarrow> Inl (errorf name e)
                    | None \<Rightarrow> Inr located)))"

definition load_config :: "reading \<Rightarrow> string \<Rightarrow> config result" where
  "load_config m path =
     (case rd_file m path of
        Inl e \<Rightarrow> Inl (errorf ''read the configuration'' e)
      | Inr raw \<Rightarrow>
          (case parse_config m raw path of
             Inl e \<Rightarrow> Inl e
           | Inr c \<Rightarrow>
               (case resolve_secrets (rd_env m) (rd_file m) c of
                  (Some e, _) \<Rightarrow> Inl (errorf path e)
                | (None, resolved) \<Rightarrow> Inr resolved)))"

section \<open>Showing\<close>

text \<open>The value handed to the encoder: fields in order, a secret with its \<open>IsZero\<close> and \<open>MarshalYAML\<close>.\<close>

datatype yaml_value =
    YStr string | YInt int | YBool bool | YSeq "yaml_value list" | YMap "(string \<times> yaml_value) list"

definition strings_yaml :: "string list \<Rightarrow> yaml_value" where
  "strings_yaml ss = YSeq (map YStr ss)"

definition secret_yaml :: "string \<Rightarrow> secret \<Rightarrow> (string \<times> yaml_value) list" where
  "secret_yaml key s = (if \<not> is_set s then [] else [(key, YStr redacted_mark)])"

definition tools_yaml :: "tools_conf \<Rightarrow> yaml_value" where
  "tools_yaml t =
     YMap [(''auto'', YBool (to_auto t)), (''strategy'', YStr (to_strategy t)), (''container'', YStr (to_container t))]"

definition retention_yaml :: "retention_conf \<Rightarrow> yaml_value" where
  "retention_yaml r =
     YMap [(''last'', YInt (rc_last r)), (''daily'', YInt (rc_daily r)), (''weekly'', YInt (rc_weekly r)),
       (''monthly'', YInt (rc_monthly r))]"

definition database_yaml :: "database_conf \<Rightarrow> yaml_value" where
  "database_yaml d =
     YMap ([(''id'', YStr (dc_id d)), (''engine'', YStr (dc_engine d)), (''host'', YStr (dc_host d)),
        (''port'', YInt (dc_port d)), (''database'', YStr (dc_name d)), (''user'', YStr (dc_user d))] @
       secret_yaml ''password'' (dc_password d) @
       [(''password_env'', YStr (dc_password_env d)), (''password_file'', YStr (dc_password_file d)),
        (''recipients_file'', YStr (dc_recipients_file d)), (''tools'', tools_yaml (dc_tools d)),
        (''staging'', YStr (dc_staging d)), (''schedule'', YStr (dc_schedule d)),
        (''min_interval'', YStr (dc_min_interval d)), (''allow_remote_schedule'', YBool (dc_allow_remote_schedule d)),
        (''allow_restore'', YBool (dc_allow_restore d)), (''destinations'', strings_yaml (dc_destinations d)),
        (''retention'', retention_yaml (dc_retention d))])"

definition destination_yaml :: "destination_conf \<Rightarrow> yaml_value" where
  "destination_yaml d =
     YMap ([(''id'', YStr (dt_id d)), (''type'', YStr (dt_type d)), (''path'', YStr (dt_path d)),
        (''endpoint'', YStr (dt_endpoint d)), (''region'', YStr (dt_region d)), (''bucket'', YStr (dt_bucket d))] @
       secret_yaml ''access_key_id'' (dt_access_key_id d) @
       [(''access_key_id_env'', YStr (dt_access_key_id_env d)), (''access_key_id_file'', YStr (dt_access_key_id_file d))] @
       secret_yaml ''secret_access_key'' (dt_secret_access_key d) @
       [(''secret_access_key_env'', YStr (dt_secret_access_key_env d)),
        (''secret_access_key_file'', YStr (dt_secret_access_key_file d)),
        (''host'', YStr (dt_host d)), (''port'', YInt (dt_port d)), (''user'', YStr (dt_user d)),
        (''private_key_file'', YStr (dt_private_key_file d))])"

definition smtp_yaml :: "smtp_conf \<Rightarrow> yaml_value" where
  "smtp_yaml s =
     YMap ([(''host'', YStr (sp_host s)), (''port'', YInt (sp_port s)), (''user'', YStr (sp_user s))] @
       secret_yaml ''password'' (sp_password s) @
       [(''password_env'', YStr (sp_password_env s)), (''password_file'', YStr (sp_password_file s))])"

definition channel_yaml :: "channel_conf \<Rightarrow> yaml_value" where
  "channel_yaml c =
     YMap [(''id'', YStr (ch_id c)), (''type'', YStr (ch_type c)), (''to'', strings_yaml (ch_to c)),
       (''smtp'', smtp_yaml (ch_smtp c)), (''url'', YStr (ch_url c))]"

definition rule_yaml :: "rule_conf \<Rightarrow> yaml_value" where
  "rule_yaml r = YMap [(''on'', strings_yaml (ru_on r)), (''channels'', strings_yaml (ru_channels r))]"

definition server_yaml :: "server_conf \<Rightarrow> yaml_value" where
  "server_yaml s =
     YMap [(''enabled'', YBool (sr_enabled s)), (''url'', YStr (sr_url s)), (''token_file'', YStr (sr_token_file s)),
       (''delegate_alerts'', YBool (sr_delegate_alerts s)), (''fallback_after'', YStr (sr_fallback_after s))]"

definition config_yaml :: "config \<Rightarrow> yaml_value" where
  "config_yaml c =
     YMap [(''agent'', YMap [(''id'', YStr (ag_id (cg_agent c))), (''timezone'', YStr (ag_timezone (cg_agent c))),
         (''max_parallel_jobs'', YInt (ag_max_parallel_jobs (cg_agent c)))]),
       (''encryption'', YMap [(''recipients_file'', YStr (en_recipients_file (cg_encryption c)))]),
       (''databases'', YSeq (map database_yaml (cg_databases c))),
       (''destinations'', YSeq (map destination_yaml (cg_destinations c))),
       (''alerts'', YMap [(''channels'', YSeq (map channel_yaml (al_channels (cg_alerts c)))),
         (''rules'', YSeq (map rule_yaml (al_rules (cg_alerts c))))]),
       (''server'', server_yaml (cg_server c))]"

definition redacted_config :: "(yaml_value \<Rightarrow> string result) \<Rightarrow> config \<Rightarrow> string result" where
  "redacted_config encode c = map_sum (errorf ''render the configuration'') (\<lambda>out. out) (encode (config_yaml c))"

section \<open>Paths\<close>

record paths =
  pa_config_file :: string
  pa_state_dir :: string
  pa_log_dir :: string

definition default_paths :: paths where
  "default_paths = \<lparr>pa_config_file = ''/etc/koffr/koffr.yaml'', pa_state_dir = ''/var/lib/koffr'',
     pa_log_dir = ''/var/log/koffr''\<rparr>"

definition recipients_file :: "paths \<Rightarrow> string" where
  "recipients_file p = filepath_join [filepath_dir (pa_config_file p), ''recipients.txt'']"

definition database_file :: "paths \<Rightarrow> string" where
  "database_file p = filepath_join [pa_state_dir p, ''koffr.db'']"

definition paths_tools_dir :: "paths \<Rightarrow> string" where
  "paths_tools_dir p = filepath_join [pa_state_dir p, ''tools'']"

definition paths_tmp_dir :: "paths \<Rightarrow> string" where
  "paths_tmp_dir p = filepath_join [pa_state_dir p, ''tmp'']"

definition log_file :: "paths \<Rightarrow> string" where
  "log_file p = filepath_join [pa_log_dir p, ''koffr.log'']"

section \<open>What showing reveals\<close>

text \<open>The same document with other secrets.\<close>

definition map_secrets :: "(secret \<Rightarrow> secret) \<Rightarrow> config \<Rightarrow> config" where
  "map_secrets f c =
     c\<lparr>cg_databases := map (dc_password_update f) (cg_databases c),
       cg_destinations := map (dt_access_key_id_update f \<circ> dt_secret_access_key_update f) (cg_destinations c),
       cg_alerts := (cg_alerts c)\<lparr>al_channels := map (ch_smtp_update (sp_password_update f)) (al_channels (cg_alerts c))\<rparr>\<rparr>"

text \<open>
  C36. Showing a configuration tells of a secret whether it is set and nothing else (E-115, CFG-06): two documents
  that differ in the values of their passwords and keys alone are shown as the same text, whatever the
  encoder does with what it is given, and a secret prints as nothing or as the mark.
\<close>

theorem showing_reveals_no_secret:
  assumes "\<And>s. is_set (f s) = is_set s"
  shows "redacted_config encode (map_secrets f c) = redacted_config encode c
    \<and> secret_string (f s) = secret_string s"
proof -
  have s: "secret_yaml key (f x) = secret_yaml key x" for key x
    using assms by (simp add: secret_yaml_def)
  have "database_yaml (dc_password_update f d) = database_yaml d" for d
    by (simp add: database_yaml_def s)
  moreover have "destination_yaml (dt_access_key_id_update f (dt_secret_access_key_update f d)) = destination_yaml d" for d
    by (simp add: destination_yaml_def s)
  moreover have "channel_yaml (ch_smtp_update (sp_password_update f) d) = channel_yaml d" for d
    by (simp add: channel_yaml_def smtp_yaml_def s)
  ultimately have "config_yaml (map_secrets f c) = config_yaml c"
    by (simp add: config_yaml_def map_secrets_def comp_def)
  then show ?thesis
    using assms by (simp add: redacted_config_def secret_string_def)
qed

section \<open>What resolving does\<close>

definition given_secret ::
  "(string \<Rightarrow> string option) \<Rightarrow> (string \<Rightarrow> string result) \<Rightarrow> config \<Rightarrow> secret_field \<Rightarrow> secret option" where
  "given_secret env file c f =
     (if sf_env f \<noteq> [] then map_option Secret (env (sf_env f))
      else if sf_file f \<noteq> [] then
        (case file (sf_file f) of Inl e \<Rightarrow> None | Inr raw \<Rightarrow> Some (Secret (trim_right_by line_end raw)))
      else Some (get_secret (sf_target f) c))"

fun place_valid :: "config \<Rightarrow> secret_place \<Rightarrow> bool" where
  "place_valid c (DatabasePassword i) = (i < length (cg_databases c))"
| "place_valid c (AccessKeyId i) = (i < length (cg_destinations c))"
| "place_valid c (SecretAccessKey i) = (i < length (cg_destinations c))"
| "place_valid c (ChannelPassword i) = (i < length (al_channels (cg_alerts c)))"

definition erased :: "config \<Rightarrow> config" where
  "erased c = map_secrets (\<lambda>_. Secret []) c"

lemma length_change_at [simp]: "length (change_at i f xs) = length xs"
  by (simp add: change_at_def)

lemma nth_change_at: "j < length xs \<Longrightarrow> change_at i f xs ! j = (if j = i then f (xs ! j) else xs ! j)"
  by (simp add: change_at_def nth_list_update)

lemma map_change_at: "(\<And>x. g (f x) = g x) \<Longrightarrow> map g (change_at i f xs) = map g xs"
  by (rule nth_equalityI) (simp_all add: nth_change_at)

lemma valid_set [simp]: "place_valid (set_secret p s c) q = place_valid c q"
  by (cases p; cases q) simp_all

lemma get_set: "place_valid c q \<Longrightarrow> get_secret q (set_secret p s c) = (if q = p then s else get_secret q c)"
  by (cases p; cases q) (simp_all add: nth_change_at)

lemma erased_set [simp]: "erased (set_secret p s c) = erased c"
  by (cases p) (simp_all add: erased_def map_secrets_def map_change_at comp_def)

lemma resolve_fields_cases:
  assumes "distinct (map sf_target fs)" and "list_all (place_valid c) (map sf_target fs)"
  shows "(\<exists>r. resolve_fields env file fs c = (None, r) \<and> list_all (\<lambda>f. given_secret env file c f = Some (get_secret (sf_target f) r)) fs
      \<and> erased r = erased c \<and> (\<forall>p. place_valid c p \<longrightarrow> p \<notin> sf_target ` set fs \<longrightarrow> get_secret p r = get_secret p c))
    \<or> (\<exists>e r. resolve_fields env file fs c = (Some e, r) \<and> (\<exists>f \<in> set fs. given_secret env file c f = None))"
  using assms
proof (induction fs arbitrary: c)
  case Nil
  then show ?case by simp
next
  case (Cons f fs)
  let ?set = "\<lambda>s. set_secret (sf_target f) s c"
  have same: "given_secret env file (?set s) g = given_secret env file c g" if "g \<in> set fs" for s g
  proof -
    have "sf_target g \<noteq> sf_target f"
    proof
      assume "sf_target g = sf_target f"
      moreover from that have "sf_target g \<in> sf_target ` set fs" by simp
      ultimately show False using Cons.prems(1) by simp
    qed
    moreover from that Cons.prems(2) have "place_valid c (sf_target g)" by (simp add: list_all_iff)
    ultimately show ?thesis by (simp add: given_secret_def get_set)
  qed
  have step: ?case
    if g: "given_secret env file c f = Some s" and r: "resolve_fields env file (f # fs) c = resolve_fields env file fs d"
      and d: "\<And>q. place_valid d q = place_valid c q" "erased d = erased c"
        "\<And>q. place_valid c q \<Longrightarrow> get_secret q d = (if q = sf_target f then s else get_secret q c)"
        "\<And>g. g \<in> set fs \<Longrightarrow> given_secret env file d g = given_secret env file c g" for s d
  proof -
    have prems: "distinct (map sf_target fs)" "list_all (place_valid d) (map sf_target fs)"
      using Cons.prems d(1) by (simp_all add: list_all_iff)
    from Cons.IH [OF prems] consider
        (fine) r' where "resolve_fields env file fs d = (None, r')"
          "list_all (\<lambda>g. given_secret env file d g = Some (get_secret (sf_target g) r')) fs" "erased r' = erased d"
          "\<forall>p. place_valid d p \<longrightarrow> p \<notin> sf_target ` set fs \<longrightarrow> get_secret p r' = get_secret p d"
      | (bad) e r' where "resolve_fields env file fs d = (Some e, r')" "\<exists>g \<in> set fs. given_secret env file d g = None"
      by blast
    then show ?thesis
    proof cases
      case fine
      have "get_secret (sf_target f) r' = s"
        using fine(4) d Cons.prems by simp
      moreover have "list_all (\<lambda>g. given_secret env file c g = Some (get_secret (sf_target g) r')) fs"
        using fine(2) d(4) by (simp add: list_all_iff)
      moreover have "\<forall>p. place_valid c p \<longrightarrow> p \<notin> sf_target ` set (f # fs) \<longrightarrow> get_secret p r' = get_secret p c"
        using fine(4) d by simp
      ultimately show ?thesis using r fine(1,3) d(2) g by simp
    next
      case bad
      then show ?thesis using r d(4) by (metis list.set_intros(2))
    qed
  qed
  show ?case
  proof (cases "given_secret env file c f")
    case None
    then have "\<exists>e. resolve_fields env file (f # fs) c = (Some e, c)"
      by (auto simp: given_secret_def split: if_splits sum.splits option.splits)
    with None show ?thesis by auto
  next
    case (Some s)
    show ?thesis
    proof (cases "sf_env f = [] \<and> sf_file f = []")
      case True
      with Some have "s = get_secret (sf_target f) c" by (simp add: given_secret_def)
      with True Some show ?thesis by (intro step [of s c]) simp_all
    next
      case False
      with Some have "resolve_fields env file (f # fs) c = resolve_fields env file fs (?set s)"
        by (auto simp: given_secret_def split: if_splits sum.splits option.splits)
      with Some same show ?thesis
        by (intro step [of s "?set s"]) (simp_all add: get_set)
    qed
  qed
qed

lemma fields_distinct: "distinct (map sf_target (secret_fields c))"
proof -
  have "distinct (map f (enumerate n xs))" if "\<And>i x j y. f (i, x) = f (j, y) \<Longrightarrow> i = j" for f :: "nat \<times> 'a \<Rightarrow> secret_place" and n xs
    using that by (induction xs arbitrary: n) (auto simp: in_set_enumerate_eq, fastforce)
  note one = this
  have two: "distinct (map sf_target (concat (map destination_fields (enumerate n xs))))
      \<and> sf_target ` set (concat (map destination_fields (enumerate n xs)))
        \<subseteq> {p. \<exists>i \<ge> n. p = AccessKeyId i \<or> p = SecretAccessKey i}" for n xs
  proof (induction xs arbitrary: n)
    case (Cons x xs)
    define rest where "rest = concat (map destination_fields (enumerate (Suc n) xs))"
    note IH = Cons.IH [of "Suc n", folded rest_def]
    note later = conjunct2 [OF IH]
    have "p \<notin> sf_target ` set rest" if "p = AccessKeyId n \<or> p = SecretAccessKey n" for p
    proof
      assume "p \<in> sf_target ` set rest"
      from subsetD [OF later this] that show False by auto
    qed
    moreover have "sf_target ` set rest \<subseteq> {p. \<exists>i \<ge> n. p = AccessKeyId i \<or> p = SecretAccessKey i}"
      by (rule subset_trans [OF later]) (use Suc_leD in blast)
    moreover have whole: "concat (map destination_fields (enumerate n (x # xs))) = destination_fields (n, x) @ rest"
      by (simp add: rest_def)
    ultimately show ?case
      unfolding whole using IH by (simp add: destination_fields_def)
  qed simp
  show ?thesis
    using one [of "sf_target \<circ> database_field"] one [of "sf_target \<circ> channel_field"] two [of 0]
    by (fastforce simp: secret_fields_def database_field_def channel_field_def)
qed

lemma fields_valid: "list_all (place_valid c) (map sf_target (secret_fields c))"
  by (auto simp: list_all_iff secret_fields_def in_set_enumerate_eq database_field_def destination_fields_def channel_field_def)

text \<open>
  Resolving reads every secret of the document or stops (CFG-03): it succeeds exactly when each variable a
  field names is set and each file can be read, and then every field holds the value of its variable, the
  contents of its file without the line end, or what the document said; nothing else has changed.
\<close>

lemma resolving_reads_every_secret:
  "(case resolve_secrets env file c of
      (None, r) \<Rightarrow>
        list_all (\<lambda>f. given_secret env file c f = Some (get_secret (sf_target f) r)) (secret_fields c) \<and> erased r = erased c
    | (Some e, r) \<Rightarrow> list_ex (\<lambda>f. given_secret env file c f = None) (secret_fields c))"
  using resolve_fields_cases [OF fields_distinct fields_valid [of c], of env "file"]
  by (auto simp: resolve_secrets_def list_ex_iff) (blast)

section \<open>What parsing accepts\<close>

lemma check_forms_none: "check_forms c fs = None \<longleftrightarrow> list_all (\<lambda>f. length (forms_given c f) \<le> 1) fs"
  by (induction fs) auto

lemma check_tools_none:
  "check_tools_from i ds = None
    \<longleftrightarrow> list_all (\<lambda>d. to_auto (dc_tools d) \<or> to_strategy (dc_tools d) = []
          \<or> to_strategy (dc_tools d) = exec_strategy \<and> to_container (dc_tools d) \<noteq> []) ds"
  by (induction ds arbitrary: i) auto

text \<open>
  C35. A configuration that parses is one koffr can act on: its zone was declared and is known, no secret is
  given in two forms, and a database on another strategy than the default is on \<open>exec\<close> with its container.
\<close>

theorem parsed_configuration_is_usable:
  assumes "parse_config m raw name = Inr c"
  shows "ag_timezone (cg_agent c) \<noteq> [] \<and> rd_zone m (ag_timezone (cg_agent c)) = Inr (cg_location c)
    \<and> list_all (\<lambda>f. length (forms_given c f) \<le> 1) (secret_fields c)
    \<and> filter (\<lambda>d. \<not> (to_auto (dc_tools d) \<or> to_strategy (dc_tools d) = []
          \<or> to_strategy (dc_tools d) = exec_strategy \<and> to_container (dc_tools d) \<noteq> [])) (cg_databases c) = []"
proof -
  from assms obtain d where "resolve_timezone (rd_zone m) d = Inr c" "check_secret_forms c = None" "check_tools c = None"
    by (auto simp: parse_config_def split: prod.splits if_splits sum.splits option.splits)
  then show ?thesis
    by (auto simp: resolve_timezone_def check_secret_forms_def check_forms_none check_tools_def check_tools_none
        list_all_iff filter_empty_conv split: if_splits sum.splits)
qed

section \<open>A configuration\<close>

definition sample_database_conf :: database_conf where
  "sample_database_conf =
     \<lparr>dc_id = ''shop'', dc_engine = ''postgresql'', dc_host = ''db'', dc_port = 5432, dc_name = ''shop'',
      dc_user = ''koffr'', dc_password = Secret ''s3cret'', dc_password_env = [], dc_password_file = [],
      dc_recipients_file = [], dc_tools = \<lparr>to_auto = True, to_strategy = [], to_container = []\<rparr>,
      dc_staging = ''auto'', dc_schedule = [], dc_min_interval = [], dc_allow_remote_schedule = False,
      dc_allow_restore = False, dc_destinations = [''nas''],
      dc_retention = \<lparr>rc_last = 3, rc_daily = 7, rc_weekly = 0, rc_monthly = 0\<rparr>\<rparr>"

definition sample_destination_conf :: destination_conf where
  "sample_destination_conf =
     \<lparr>dt_id = ''nas'', dt_type = ''filesystem'', dt_path = ''/backup'', dt_endpoint = [], dt_region = [], dt_bucket = [],
      dt_access_key_id = Secret [], dt_access_key_id_env = [], dt_access_key_id_file = [],
      dt_secret_access_key = Secret [], dt_secret_access_key_env = [], dt_secret_access_key_file = [],
      dt_host = [], dt_port = 0, dt_user = [], dt_private_key_file = []\<rparr>"

definition sample_config :: config where
  "sample_config =
     \<lparr>cg_agent = \<lparr>ag_id = ''a'', ag_timezone = ''UTC'', ag_max_parallel_jobs = 1\<rparr>,
      cg_encryption = \<lparr>en_recipients_file = ''/etc/koffr/recipients.txt''\<rparr>,
      cg_databases = [sample_database_conf], cg_destinations = [sample_destination_conf],
      cg_alerts = \<lparr>al_channels = [], al_rules = []\<rparr>,
      cg_server = \<lparr>sr_enabled = False, sr_url = [], sr_token_file = [], sr_delegate_alerts = False, sr_fallback_after = []\<rparr>,
      cg_location = utc\<rparr>"

definition sample_reading :: reading where
  "sample_reading = \<lparr>rd_decode = (\<lambda>_. (None, sample_config)), rd_nodes = (\<lambda>_. None), rd_zone = (\<lambda>_. Inr utc),
     rd_env = (\<lambda>_. None), rd_file = (\<lambda>_. Inr [])\<rparr>"

lemmas sample_configuration = sample_config_def sample_database_conf_def sample_destination_conf_def

lemma sample_parsed: "parse_config sample_reading raw name = Inr sample_config"
  by (simp add: parse_config_def sample_reading_def resolve_timezone_def check_secret_forms_def secret_fields_def
      sample_configuration database_field_def destination_fields_def forms_given_def is_set_def check_tools_def)

theorem parsed_configuration_is_usable_witness:
  "ag_timezone (cg_agent sample_config) \<noteq> [] \<and> list_all (\<lambda>f. length (forms_given sample_config f) \<le> 1) (secret_fields sample_config)"
  using parsed_configuration_is_usable [OF sample_parsed [of "[]" "''koffr.yaml''"]] by simp

theorem showing_reveals_no_secret_witness:
  "redacted_config (\<lambda>shown. Inr (if shown = YSeq [] then [] else redacted_mark)) (map_secrets (\<lambda>s. if is_set s then Secret ''other'' else s) sample_config)
    = redacted_config (\<lambda>shown. Inr (if shown = YSeq [] then [] else redacted_mark)) sample_config"
  by (rule conjunct1 [OF showing_reveals_no_secret]) (simp add: is_set_def)

end
