(* ===== verification/Resolve.thy ===== *)
theory Resolve
  imports Go_Strings
begin

text \<open>
  \<open>internal/domain/resolve\<close>: the versions a server or a tool announces (\<open>model.go\<close>), the tools koffr
  found (\<open>candidate.go\<close>), the compatibility matrix and the choice of a tool (\<open>matrix.go\<close>). A family or
  a provenance is a Go string type; the last constructor stands for any string koffr does not know.
\<close>

section \<open>Families, versions, servers\<close>

datatype family = PostgreSQL | MySQL | MariaDB | UnknownFamily string

fun family_name :: "family \<Rightarrow> string" where
  "family_name PostgreSQL = ''postgresql''"
| "family_name MySQL = ''mysql''"
| "family_name MariaDB = ''mariadb''"
| "family_name (UnknownFamily s) = s"

definition family_of_name :: "string \<Rightarrow> family" where
  "family_of_name s =
     (if s = ''postgresql'' then PostgreSQL else if s = ''mysql'' then MySQL
      else if s = ''mariadb'' then MariaDB else UnknownFamily s)"

record version =
  v_major :: int
  v_minor :: int
  v_patch :: int
  v_raw :: string

definition version_string :: "version \<Rightarrow> string" where
  "version_string v =
     (if v_patch v \<noteq> 0 then dec_int (v_major v) @ ''.'' @ dec_int (v_minor v) @ ''.'' @ dec_int (v_patch v)
      else dec_int (v_major v) @ ''.'' @ dec_int (v_minor v))"

definition version_is_zero :: "version \<Rightarrow> bool" where
  "version_is_zero v \<longleftrightarrow> v_major v = 0 \<and> v_minor v = 0 \<and> v_patch v = 0"

text \<open>The leftmost match of \<open>\d+(?:\.\d+){0,2}\<close>, greedy, and the empty string when there is none.\<close>

fun match_groups :: "nat \<Rightarrow> string \<Rightarrow> string" where
  "match_groups 0 s = takeWhile is_digit s"
| "match_groups (Suc k) s =
     takeWhile is_digit s @
     (case dropWhile is_digit s of
        p # c # r \<Rightarrow> if p = CHR ''.'' \<and> is_digit c then CHR ''.'' # match_groups k (c # r) else []
      | _ \<Rightarrow> [])"

definition find_numbers :: "string \<Rightarrow> string" where
  "find_numbers s =
     (case dropWhile (\<lambda>c. \<not> is_digit c) s of [] \<Rightarrow> [] | c # r \<Rightarrow> match_groups 2 (c # r))"

text \<open>The loop over the fields stops at the first one that is not a number.\<close>

fun read_fields :: "nat \<Rightarrow> string list \<Rightarrow> version \<Rightarrow> version" where
  "read_fields i [] v = v"
| "read_fields i (part # parts) v =
     (case atoi part of
        None \<Rightarrow> v
      | Some n \<Rightarrow> read_fields (Suc i) parts
          (if i = 0 then v\<lparr>v_major := n\<rparr> else if i = 1 then v\<lparr>v_minor := n\<rparr>
           else if i = 2 then v\<lparr>v_patch := n\<rparr> else v))"

definition parse_version :: "string \<Rightarrow> version" where
  "parse_version raw =
     (let said = trim_space raw
      in read_fields 0 (split_on (CHR ''.'') (find_numbers said))
           \<lparr>v_major = 0, v_minor = 0, v_patch = 0, v_raw = said\<rparr>)"

record target =
  t_engine :: family
  t_host :: string
  t_port :: int
  t_database :: string
  t_user :: string
  t_password :: string

definition target_string :: "target \<Rightarrow> string" where
  "target_string t =
     family_name (t_engine t) @ ''://'' @ t_user t @ ''@'' @ t_host t @ '':'' @ dec_int (t_port t) @ ''/'' @ t_database t"

record server_info =
  si_reachable :: bool
  si_family :: family
  si_version :: version
  si_myisam_tables :: "string list"
  si_database_bytes :: int
  si_myisam_unknown :: string

definition myisam_warning :: "server_info \<Rightarrow> string" where
  "myisam_warning s =
     (if si_myisam_unknown s \<noteq> [] then
        ''koffr could not check this database for MyISAM tables, so the consistency of '' @
        ''its archives is unknown: '' @ si_myisam_unknown s
      else if 0 < length (si_myisam_tables s) then
        dec (length (si_myisam_tables s)) @ '' table(s) of this database use MyISAM ('' @
        join_with '', '' (si_myisam_tables s) @ ''): --single-transaction '' @
        ''does not cover them, so an archive may catch them mid-change''
      else [])"

section \<open>Candidates and the compatibility matrix\<close>

datatype source = Host | Managed | Container | UnknownSource string

fun source_name :: "source \<Rightarrow> string" where
  "source_name Host = ''host''"
| "source_name Managed = ''managed''"
| "source_name Container = ''container''"
| "source_name (UnknownSource s) = s"

datatype tool = Dump | Restore

fun tool_name :: "tool \<Rightarrow> string" where
  "tool_name Dump = ''dump''"
| "tool_name Restore = ''restore''"

record candidate =
  ca_family :: family
  ca_tool :: tool
  ca_path :: string
  ca_version :: version
  ca_source :: source

definition candidate_string :: "candidate \<Rightarrow> string" where
  "candidate_string c =
     family_name (ca_family c) @ '' '' @ version_string (ca_version c) @ '' ('' @
     source_name (ca_source c) @ '', '' @ ca_path c @ '')''"

text \<open>\<open>compare\<close> subtracts; the parts of a version are never negative, so the difference fits.\<close>

definition compare_versions :: "version \<Rightarrow> version \<Rightarrow> int" where
  "compare_versions a b =
     (if v_major a - v_major b \<noteq> 0 then v_major a - v_major b
      else if v_minor a - v_minor b \<noteq> 0 then v_minor a - v_minor b
      else v_patch a - v_patch b)"

definition fits :: "candidate \<Rightarrow> server_info \<Rightarrow> tool \<Rightarrow> bool" where
  "fits c reference tool =
     (if ca_family c \<noteq> si_family reference then False
      else if ca_tool c \<noteq> tool then False
      else if ca_family c = PostgreSQL then v_major (si_version reference) \<le> v_major (ca_version c)
      else 0 \<le> compare_versions (ca_version c) (si_version reference))"

definition warn_if_downward :: "version \<Rightarrow> version \<Rightarrow> string" where
  "warn_if_downward origin target =
     (if v_major origin \<le> v_major target then []
      else ''the archive comes from PostgreSQL '' @ dec_int (v_major origin) @ '' and the target runs '' @
           dec_int (v_major target) @ '': restoring into an older major is not guaranteed'')"

fun source_rank :: "source \<Rightarrow> int" where
  "source_rank Host = 0"
| "source_rank Managed = 1"
| "source_rank Container = 2"
| "source_rank (UnknownSource s) = 3"

definition candidate_order :: "candidate \<Rightarrow> candidate \<Rightarrow> int" where
  "candidate_order a b =
     (if compare_versions (ca_version a) (ca_version b) \<noteq> 0
      then compare_versions (ca_version a) (ca_version b)
      else source_rank (ca_source a) - source_rank (ca_source b))"

definition candidate_before :: "candidate \<Rightarrow> candidate \<Rightarrow> bool" where
  "candidate_before a b \<longleftrightarrow> candidate_order a b < 0"

fun versions_seen :: "candidate list \<Rightarrow> string list \<Rightarrow> string list" where
  "versions_seen [] seen = seen"
| "versions_seen (c # cs) seen =
     (let rendered = family_name (ca_family c) @ '' '' @ version_string (ca_version c) @ '' ('' @
                     source_name (ca_source c) @ '')''
      in versions_seen cs (if rendered \<in> set seen then seen else seen @ [rendered]))"

definition versions_of :: "candidate list \<Rightarrow> string" where
  "versions_of cs = join_with '', '' (versions_seen cs [])"

definition no_compatible_tool :: "candidate list \<Rightarrow> server_info \<Rightarrow> tool \<Rightarrow> gerr" where
  "no_compatible_tool cs reference tool =
     (let versions = versions_of cs; found = (if versions \<noteq> [] then versions else ''none'')
      in Gerr [ErrNoCompatibleTool]
           (''no compatible tool to '' @ tool_name tool @ '' '' @ family_name (si_family reference) @ '' '' @
            version_string (si_version reference) @ '': expected a '' @ family_name (si_family reference) @
            '' client of version '' @ dec_int (v_major (si_version reference)) @ '' or later, found '' @ found))"

text \<open>
  Which of several tools alike in version and provenance comes first is not fixed by \<open>slices.SortFunc\<close>; here it is
  the one found first, and nothing below depends on it.
\<close>

definition choose_tool :: "candidate list \<Rightarrow> server_info \<Rightarrow> tool \<Rightarrow> candidate result" where
  "choose_tool cs reference tool =
     (let fitting = filter (\<lambda>c. fits c reference tool) cs
      in if length fitting = 0 then Inl (no_compatible_tool cs reference tool)
         else Inr (hd (sort_by candidate_before fitting)))"

definition warn_if_ahead :: "candidate \<Rightarrow> server_info \<Rightarrow> string" where
  "warn_if_ahead c server =
     (if version_is_zero (si_version server) \<or> v_major (ca_version c) \<le> v_major (si_version server) then []
      else ca_path c @ '' is '' @ version_string (ca_version c) @ '' and the server runs '' @
           version_string (si_version server) @ '': the archives it writes carry directives that '' @
           ''a '' @ dec_int (v_major (si_version server)) @
           '' server does not know, so restoring them there reports errors it then ignores. '' @
           ''Install the client of major '' @ dec_int (v_major (si_version server)) @ '' to avoid it'')"

section \<open>The order of versions\<close>

definition version_le :: "version \<Rightarrow> version \<Rightarrow> bool" where
  "version_le a b \<longleftrightarrow> v_major a < v_major b \<or> (v_major a = v_major b \<and>
     (v_minor a < v_minor b \<or> (v_minor a = v_minor b \<and> v_patch a \<le> v_patch b)))"

lemma compare_versions_le: "compare_versions a b \<le> 0 \<longleftrightarrow> version_le a b"
  by (auto simp: compare_versions_def version_le_def)

lemma compare_versions_ge: "0 \<le> compare_versions a b \<longleftrightarrow> version_le b a"
  by (auto simp: compare_versions_def version_le_def)

lemma version_le_refl [simp]: "version_le a a"
  by (simp add: version_le_def)

lemma version_le_trans: "version_le a b \<Longrightarrow> version_le b c \<Longrightarrow> version_le a c"
  by (auto simp: version_le_def)

lemma version_le_total: "version_le a b \<or> version_le b a"
  by (auto simp: version_le_def)

interpretation choice: strict_order candidate_before
proof
  show "\<not> candidate_before x x" for x
    by (simp add: candidate_before_def candidate_order_def compare_versions_def)
  show "candidate_before x y \<Longrightarrow> candidate_before y z \<Longrightarrow> candidate_before x z" for x y z
    by (auto simp: candidate_before_def candidate_order_def compare_versions_def split: if_splits)
  show "candidate_before x z \<Longrightarrow> candidate_before x y \<or> candidate_before y z" for x y z
    by (auto simp: candidate_before_def candidate_order_def compare_versions_def split: if_splits)
qed

lemma not_before_iff:
  "\<not> candidate_before b a \<longleftrightarrow> version_le (ca_version a) (ca_version b) \<and>
     (version_le (ca_version b) (ca_version a) \<longrightarrow> source_rank (ca_source a) \<le> source_rank (ca_source b))"
  by (auto simp: candidate_before_def candidate_order_def compare_versions_def version_le_def split: if_splits)

lemma choose_Inr:
  assumes "choose_tool cs reference tool = Inr c"
  shows "c \<in> set cs" "fits c reference tool"
    and "c' \<in> set cs \<Longrightarrow> fits c' reference tool \<Longrightarrow> \<not> candidate_before c' c"
proof -
  let ?f = "filter (\<lambda>c. fits c reference tool) cs"
  have ne: "?f \<noteq> []" and c: "c = hd (sort_by candidate_before ?f)"
    using assms by (auto simp: choose_tool_def Let_def split: if_splits)
  then have "c \<in> set ?f" by (metis hd_in_set set_sort_by sort_by_Nil_iff)
  then show "c \<in> set cs" "fits c reference tool" by simp_all
  show "\<not> candidate_before c' c" if "c' \<in> set cs" "fits c' reference tool"
    using choice.hd_sort_by_minimal[of c' ?f] that c by simp
qed

lemma choose_Inl_iff: "(\<exists>e. choose_tool cs reference tool = Inl e) \<longleftrightarrow> (\<forall>c \<in> set cs. \<not> fits c reference tool)"
  by (auto simp: choose_tool_def Let_def filter_empty_conv)

lemma choose_Inl:
  assumes "choose_tool cs reference tool = Inl e"
  shows "errors_is e ErrNoCompatibleTool" "\<forall>c \<in> set cs. \<not> fits c reference tool"
  using assms choose_Inl_iff[of cs reference tool]
  by (auto simp: choose_tool_def Let_def no_compatible_tool_def split: if_splits)

section \<open>The choice is the one the matrix asks for\<close>

text \<open>
  What the matrix of the specification says of a tool: the family of the server and never another, the operation
  asked for, and a release that knows the server, by the major alone for PostgreSQL, by the whole version for MySQL
  and MariaDB, whose 10.6 and 10.11 differ.
\<close>

definition compatible :: "server_info \<Rightarrow> tool \<Rightarrow> candidate \<Rightarrow> bool" where
  "compatible reference tool c \<longleftrightarrow>
     ca_family c = si_family reference \<and> ca_tool c = tool
     \<and> (if si_family reference = PostgreSQL then v_major (si_version reference) \<le> v_major (ca_version c)
        else version_le (si_version reference) (ca_version c))"

lemma fits_compatible: "fits c reference tool \<longleftrightarrow> compatible reference tool c"
  by (auto simp: fits_def compatible_def compare_versions_ge)

text \<open>
  C33. Compatibility comes before provenance, and koffr never falls back: the tool chosen is one that was found and
  that the matrix calls compatible; no compatible one found is closer from above, and provenance (host, managed,
  container) only separates tools of the same version; the choice fails, with the error an operator is told about,
  exactly when no tool found is compatible.
\<close>

theorem choose_closest_compatible:
  "case choose_tool cs reference tool of
     Inl e \<Rightarrow> errors_is e ErrNoCompatibleTool \<and> list_all (\<lambda>c. \<not> compatible reference tool c) cs
   | Inr c \<Rightarrow> c \<in> set cs \<and> compatible reference tool c
       \<and> list_all (\<lambda>c'. compatible reference tool c' \<longrightarrow> version_le (ca_version c) (ca_version c')
            \<and> (version_le (ca_version c') (ca_version c) \<longrightarrow> source_rank (ca_source c) \<le> source_rank (ca_source c'))) cs"
proof (cases "choose_tool cs reference tool")
  case (Inl e)
  with choose_Inl [OF Inl] show ?thesis by (simp add: list_all_iff fits_compatible)
next
  case (Inr c)
  note ch = choose_Inr [OF Inr, unfolded fits_compatible]
  then show ?thesis using Inr not_before_iff by (simp add: list_all_iff)
qed

abbreviation tool_at :: "family \<Rightarrow> int \<Rightarrow> source \<Rightarrow> string \<Rightarrow> candidate" where
  "tool_at f major src path \<equiv>
     \<lparr>ca_family = f, ca_tool = Dump, ca_path = path,
      ca_version = \<lparr>v_major = major, v_minor = 0, v_patch = 0, v_raw = []\<rparr>, ca_source = src\<rparr>"

abbreviation server_at :: "family \<Rightarrow> int \<Rightarrow> server_info" where
  "server_at f major \<equiv>
     \<lparr>si_reachable = True, si_family = f,
      si_version = \<lparr>v_major = major, v_minor = 0, v_patch = 0, v_raw = []\<rparr>,
      si_myisam_tables = [], si_database_bytes = 0, si_myisam_unknown = []\<rparr>"

theorem choose_closest_compatible_witness:
  "choose_tool [tool_at PostgreSQL 14 Host ''/usr/bin/pg_dump'', tool_at PostgreSQL 18 Host ''/opt/pg_dump'',
           tool_at PostgreSQL 16 Managed ''/var/lib/koffr/pg_dump'']
     (server_at PostgreSQL 16) Dump = Inr (tool_at PostgreSQL 16 Managed ''/var/lib/koffr/pg_dump'')
   \<and> v_major (si_version (server_at PostgreSQL 16)) \<le> 16"
proof -
  have h: "choose_tool [tool_at PostgreSQL 14 Host ''/usr/bin/pg_dump'', tool_at PostgreSQL 18 Host ''/opt/pg_dump'',
           tool_at PostgreSQL 16 Managed ''/var/lib/koffr/pg_dump'']
     (server_at PostgreSQL 16) Dump = Inr (tool_at PostgreSQL 16 Managed ''/var/lib/koffr/pg_dump'')"
    by code_simp
  show ?thesis
    using h choose_closest_compatible[of "server_at PostgreSQL 16" Dump "[tool_at PostgreSQL 14 Host ''/usr/bin/pg_dump'',
        tool_at PostgreSQL 18 Host ''/opt/pg_dump'', tool_at PostgreSQL 16 Managed ''/var/lib/koffr/pg_dump'']"] by (simp add: compatible_def)
qed

text \<open>
  koffr never falls back: the choice fails exactly when no candidate fits, and then the error is
  the one an operator is told about. A MySQL server is never dumped by a MariaDB tool, nor the
  reverse, even when that tool is the only one found.
\<close>

lemma choose_never_falls_back:
  "(case choose_tool cs reference tool of
      Inl e \<Rightarrow> errors_is e ErrNoCompatibleTool \<and> (\<forall>c \<in> set cs. \<not> fits c reference tool)
    | Inr c \<Rightarrow> ca_family c = si_family reference \<and> (\<exists>c' \<in> set cs. fits c' reference tool))"
proof (cases "choose_tool cs reference tool")
  case (Inl e)
  then show ?thesis using choose_Inl by auto
next
  case (Inr c)
  have "fits c reference tool" by (rule choose_Inr(2)[OF Inr])
  moreover have "c \<in> set cs" by (rule choose_Inr(1)[OF Inr])
  ultimately show ?thesis using Inr by (auto simp: fits_def split: if_splits)
qed

theorem choose_never_falls_back_witness:
  "\<exists>e. choose_tool [tool_at MariaDB 11 Host ''/usr/bin/mysqldump''] (server_at MySQL 8) Dump = Inl e
     \<and> errors_is e ErrNoCompatibleTool"
proof -
  obtain e where e: "choose_tool [tool_at MariaDB 11 Host ''/usr/bin/mysqldump''] (server_at MySQL 8) Dump = Inl e"
    using choose_Inl_iff by (fastforce simp: fits_def)
  with choose_never_falls_back[of "[tool_at MariaDB 11 Host ''/usr/bin/mysqldump'']" "server_at MySQL 8" Dump]
  show ?thesis by simp
qed

section \<open>Reading back a version\<close>

lemma takeWhile_dec: "list_all is_digit s \<Longrightarrow> takeWhile is_digit (s @ CHR ''.'' # r) = s
   \<and> dropWhile is_digit (s @ CHR ''.'' # r) = CHR ''.'' # r"
  by (induction s) (auto simp: is_digit_def byte_in_def)

lemma takeWhile_all_digits: "list_all is_digit s \<Longrightarrow> takeWhile is_digit s = s \<and> dropWhile is_digit s = []"
  by (induction s) auto

lemma hd_dec_digit: "\<exists>c r. dec n = c # r \<and> is_digit c"
  using dec_digits[of n] dec_ne[of n] by (cases "dec n") auto

lemma match_dec: "match_groups k (dec n) = dec n"
proof -
  have t: "takeWhile is_digit (dec n) = dec n" and d: "dropWhile is_digit (dec n) = []"
    using takeWhile_all_digits[OF dec_digits[of n]] by blast+
  show ?thesis by (cases k) (simp_all add: t d del: takeWhile_eq_all_conv dropWhile_eq_Nil_conv)
qed

lemma match_dec_dot:
  assumes "\<exists>c t. r = c # t \<and> is_digit c"
  shows "match_groups (Suc k) (dec n @ CHR ''.'' # r) = dec n @ CHR ''.'' # match_groups k r"
  using takeWhile_dec[OF dec_digits[of n], of r] assms by auto

lemma find_numbers_digit: "\<exists>c t. s = c # t \<and> is_digit c \<Longrightarrow> find_numbers s = match_groups 2 s"
  by (auto simp: find_numbers_def)

lemma hd_dec_append_digit: "\<exists>c t. dec n @ r = c # t \<and> is_digit c"
  using hd_dec_digit[of n] by auto

lemma trim_space_digits:
  assumes "\<exists>c t. s = c # t \<and> is_digit c" "is_digit (last s)"
  shows "trim_space s = s"
  unfolding trim_space_def
  by (rule trim_by_id) (use assms in \<open>auto simp: is_space_def is_digit_def byte_in_def\<close>)

lemma last_dec_digit: "is_digit (last (a @ dec n))"
  using dec_digits[of n] by (simp add: list_all_iff)

lemma dec_no_dot: "CHR ''.'' \<notin> set (dec n)"
  by (rule digits_no_byte[OF dec_digits]) simp

text \<open>
  What koffr prints of a version is what it reads back: the three numbers survive
  \<open>Version.String\<close> followed by \<open>ParseVersion\<close>, as long as they fit Go's \<open>int\<close>.
\<close>

lemma parse_version_string:
  assumes "0 \<le> v_major v" "v_major v < 2 ^ 63" "0 \<le> v_minor v" "v_minor v < 2 ^ 63"
    "0 \<le> v_patch v" "v_patch v < 2 ^ 63"
  shows "v_major (parse_version (version_string v)) = v_major v
    \<and> v_minor (parse_version (version_string v)) = v_minor v
    \<and> v_patch (parse_version (version_string v)) = v_patch v"
proof -
  define a b c where "a = nat (v_major v)" and "b = nat (v_minor v)" and "c = nat (v_patch v)"
  have at: "atoi (dec a) = Some (v_major v)" "atoi (dec b) = Some (v_minor v)" "atoi (dec c) = Some (v_patch v)"
    using assms by (simp_all add: a_def b_def c_def)
  have d: "dec_int (v_major v) = dec a" "dec_int (v_minor v) = dec b" "dec_int (v_patch v) = dec c"
    using assms by (simp_all add: dec_int_def a_def b_def c_def)
  note digits = hd_dec_append_digit last_dec_digit hd_dec_digit
  show ?thesis
  proof (cases "v_patch v = 0")
    case True
    let ?s = "dec a @ CHR ''.'' # dec b"
    have s: "version_string v = ?s" using True d by (simp add: version_string_def)
    have "trim_space ?s = ?s"
      by (rule trim_space_digits) (use last_dec_digit[of "dec a @ ''.''" b] hd_dec_append_digit in auto)
    moreover have "find_numbers ?s = ?s"
      using find_numbers_digit[of ?s] match_dec_dot[of "dec b" 1 a] match_dec[of 1 b] digits
      by (simp add: numeral_2_eq_2)
    ultimately show ?thesis using at True dec_no_dot
      by (simp add: s parse_version_def Let_def split_on_append split_on_whole)
  next
    case False
    let ?s = "dec a @ CHR ''.'' # dec b @ CHR ''.'' # dec c"
    have s: "version_string v = ?s" using False d by (simp add: version_string_def)
    have "trim_space ?s = ?s"
      by (rule trim_space_digits) (use last_dec_digit[of "dec a @ ''.'' @ dec b @ ''.''" c] hd_dec_append_digit in auto)
    moreover have "find_numbers ?s = ?s"
      using find_numbers_digit[of ?s] match_dec_dot[of "dec b @ CHR ''.'' # dec c" 1 a]
        match_dec_dot[of "dec c" 0 b] match_dec[of 0 c] digits
      by (simp add: numeral_2_eq_2)
    ultimately show ?thesis using at dec_no_dot
      by (simp add: s parse_version_def Let_def split_on_append split_on_whole)
  qed
qed

theorem parse_version_string_witness:
  "v_minor (parse_version (version_string \<lparr>v_major = 11, v_minor = 4, v_patch = 8, v_raw = []\<rparr>)) = 4"
  using parse_version_string[of "\<lparr>v_major = 11, v_minor = 4, v_patch = 8, v_raw = []\<rparr>"] by simp

end
