(* ===== verification/Engine_Dump.thy ===== *)
theory Engine_Dump
  imports Resolve Backup_Service
begin

text \<open>
  Running a dump: \<open>internal/engine/dump.go\<close> and \<open>dump_container.go\<close>. The command line and the
  environment of the sub-process are computed here; the process itself, what it writes and how it ends,
  is a value a parameter gives, as is the Docker client. A reader of the dump is followed answer by
  answer of its pipe.
\<close>

section \<open>The request\<close>

datatype dump_format = UnsetFormat | CustomFormat | DirectoryFormat | OtherFormat string

fun format_name :: "dump_format \<Rightarrow> string" where
  "format_name UnsetFormat = []"
| "format_name CustomFormat = ''custom''"
| "format_name DirectoryFormat = ''directory''"
| "format_name (OtherFormat s) = s"

record dump_request =
  dq_target :: target
  dq_tool :: candidate
  dq_format :: dump_format
  dq_container :: string
  dq_timeout :: int

definition request_format :: "dump_request \<Rightarrow> dump_format" where
  "request_format r = (if dq_format r = UnsetFormat then CustomFormat else dq_format r)"

definition is_mysql :: "family \<Rightarrow> bool" where
  "is_mysql f \<longleftrightarrow> f = MySQL \<or> f = MariaDB"

definition archive_options :: "dump_request \<Rightarrow> string list" where
  "archive_options r =
     (if ca_family (dq_tool r) = PostgreSQL then
        [''--format='' @ format_name (request_format r), ''--no-owner'', ''--no-privileges'', ''--compress=0'']
      else if is_mysql (ca_family (dq_tool r)) then
        [''--single-transaction'', ''--routines'', ''--triggers'', ''--events'']
      else [])"

definition loopback :: string where "loopback = ''127.0.0.1''"

definition default_port :: "family \<Rightarrow> int" where
  "default_port f = (if f = PostgreSQL then 5432 else 3306)"

definition connection_options :: "dump_request \<Rightarrow> string list" where
  "connection_options r =
     (let inside = dq_container r \<noteq> [];
          host = (if inside then loopback else t_host (dq_target r));
          port = (if inside then default_port (ca_family (dq_tool r)) else t_port (dq_target r))
      in if ca_family (dq_tool r) = PostgreSQL then
           [ca_path (dq_tool r), ''--host='' @ host, ''--port='' @ dec_int port,
            ''--username='' @ t_user (dq_target r), ''--no-password'']
         else if is_mysql (ca_family (dq_tool r)) then
           [ca_path (dq_tool r), ''--host='' @ host, ''--port='' @ dec_int port, ''--user='' @ t_user (dq_target r)]
         else [])"

definition dump_command :: "dump_request \<Rightarrow> string list" where
  "dump_command r =
     (if connection_options r = [] then []
      else connection_options r @ archive_options r @ [t_database (dq_target r)])"

text \<open>A nil slice is \<open>None\<close>.\<close>

definition password_environment :: "dump_request \<Rightarrow> string list option" where
  "password_environment r =
     (if t_password (dq_target r) = [] then None
      else if ca_family (dq_tool r) = PostgreSQL then Some [''PGPASSWORD='' @ t_password (dq_target r)]
      else Some [''MYSQL_PWD='' @ t_password (dq_target r)])"

definition check_dump :: "dump_request \<Rightarrow> gerr option" where
  "check_dump r =
     (if \<not> (ca_family (dq_tool r) = PostgreSQL \<or> is_mysql (ca_family (dq_tool r))) then
        Some (Gerr [ErrUnsupportedEngine]
          (''koffr does not know this engine: '' @ go_quote (family_name (ca_family (dq_tool r)))))
      else if ca_path (dq_tool r) = [] then Some (errors_new ''no tool was resolved for this dump'')
      else if request_format r = DirectoryFormat then
        (if ca_family (dq_tool r) \<noteq> PostgreSQL then
           Some (errors_new (''the directory format belongs to pg_dump, not to '' @ family_name (ca_family (dq_tool r))))
         else if dq_container r \<noteq> [] then
           Some (Gerr [ErrDirectoryInExec]
             (''the directory format is not available through the exec strategy: '' @ ca_path (dq_tool r) @
              '' runs inside the container '' @ dq_container r @ '', where koffr cannot read back '' @
              ''a directory as one archive '' @ [CHR 0xE2, CHR 0x80, CHR 0x94] @ '' use the custom format for this database''))
         else
           Some (Gerr [ErrDirectoryNeedsStaging]
             (''the directory format writes a directory, not a stream: it is written to a staging directory and packed '' @
              ''afterwards, which is why it requires the stage mode'')))
      else None)"

section \<open>What is kept of what a tool says\<close>

record tail =
  tl_kept :: string
  tl_limit :: nat
  tl_head :: bool

definition kept_from_stderr :: nat where "kept_from_stderr = 4 * 2 ^ 10"

definition new_tail :: tail where
  "new_tail = \<lparr>tl_kept = [], tl_limit = 0, tl_head = False\<rparr>"

definition tail_limit :: "tail \<Rightarrow> nat" where
  "tail_limit t = (if tl_limit t = 0 then kept_from_stderr else tl_limit t)"

definition tail_write :: "string \<Rightarrow> tail \<Rightarrow> tail" where
  "tail_write p t =
     (if tl_head t then
        (if length (tl_kept t) < tail_limit t
         then t\<lparr>tl_kept := tl_kept t @ take (tail_limit t - length (tl_kept t)) p\<rparr> else t)
      else
        (let kept = tl_kept t @ p
         in t\<lparr>tl_kept := (if tail_limit t < length kept then drop (length kept - tail_limit t) kept else kept)\<rparr>))"

definition tail_suffix :: "tail \<Rightarrow> string" where
  "tail_suffix t = (let said = trim_space (tl_kept t) in if said = [] then [] else newline # said)"

text \<open>What is kept after every write: the last bytes of it all, or the first ones.\<close>

definition ends_of :: "nat \<Rightarrow> string \<Rightarrow> string" where
  "ends_of n s = drop (length s - n) s"

lemma tail_limit_write [simp]: "tail_limit (tail_write p t) = tail_limit t"
  by (simp add: tail_write_def tail_limit_def Let_def)

lemma tail_head_write [simp]: "tl_head (tail_write p t) = tl_head t"
  by (simp add: tail_write_def Let_def)

lemma ends_of_append: "ends_of n (ends_of n a @ b) = ends_of n (a @ b)"
  by (cases "n \<le> length a") (simp_all add: ends_of_def add.commute)

lemma ends_of_ends [simp]: "ends_of n (ends_of n s) = ends_of n s"
  by (simp add: ends_of_def)

lemma length_ends_of: "length (ends_of n s) = min n (length s)"
  by (simp add: ends_of_def)

lemma tail_write_end:
  "\<not> tl_head t \<Longrightarrow> tl_kept (tail_write p t) = ends_of (tail_limit t) (tl_kept t @ p)"
  by (simp add: tail_write_def ends_of_def Let_def)

lemma tail_write_head:
  "tl_head t \<Longrightarrow> length (tl_kept t) \<le> tail_limit t
    \<Longrightarrow> tl_kept (tail_write p t) = take (tail_limit t) (tl_kept t @ p)"
  by (auto simp: tail_write_def)

lemma tail_fold_end:
  assumes "\<not> tl_head t" and "ends_of (tail_limit t) (tl_kept t) = tl_kept t"
  shows "tl_kept (fold tail_write ps t) = ends_of (tail_limit t) (tl_kept t @ concat ps)"
  using assms
proof (induction ps arbitrary: t)
  case (Cons p ps)
  have k: "tl_kept (tail_write p t) = ends_of (tail_limit t) (tl_kept t @ p)"
    by (rule tail_write_end [OF Cons.prems(1)])
  have "tl_kept (fold tail_write ps (tail_write p t)) = ends_of (tail_limit t) (tl_kept (tail_write p t) @ concat ps)"
    using Cons.IH [of "tail_write p t"] Cons.prems(1) k by simp
  also have "\<dots> = ends_of (tail_limit t) (tl_kept t @ p @ concat ps)"
    by (simp add: k ends_of_append)
  finally show ?case by simp
qed simp

lemma tail_fold_head:
  "tl_head t \<Longrightarrow> length (tl_kept t) \<le> tail_limit t
    \<Longrightarrow> tl_kept (fold tail_write ps t) = take (tail_limit t) (tl_kept t @ concat ps)"
proof (induction ps arbitrary: t)
  case (Cons p ps)
  have k: "tl_kept (tail_write p t) = take (tail_limit t) (tl_kept t @ p)"
    by (rule tail_write_head [OF Cons.prems])
  then have "length (tl_kept (tail_write p t)) \<le> tail_limit t"
    by simp
  then have "tl_kept (fold tail_write ps (tail_write p t)) = take (tail_limit t) (tl_kept (tail_write p t) @ concat ps)"
    using Cons.IH [of "tail_write p t"] Cons.prems(1) by simp
  also have "\<dots> = take (tail_limit t) (tl_kept t @ p @ concat ps)"
    using Cons.prems(2) by (cases "tail_limit t \<le> length (tl_kept t @ p)") (simp_all add: k min_absorb1)
  finally show ?case by simp
qed simp

section \<open>The process and its stream\<close>

text \<open>
  A sub-process is what it writes on its standard output, with what reading the pipe ends with, what it
  says on the other one, and how \<open>Wait\<close> finds it once it has ended by itself.
\<close>

record process =
  pc_reader :: reader
  pc_said :: "string list"
  pc_exit :: "gerr option"

text \<open>\<open>os/exec\<close> gives the process the environment of its parent when \<open>Env\<close> is nil.\<close>

definition command_environment :: "string list \<Rightarrow> string list option \<Rightarrow> string list" where
  "command_environment environ env = (case env of None \<Rightarrow> environ | Some vars \<Rightarrow> vars)"

record dump_stream =
  sm_what :: string
  sm_reader :: reader
  sm_said :: tail
  sm_wait :: "gerr option"
  sm_drained :: bool
  sm_closed :: bool

definition dump_on_host ::
  "(string list \<Rightarrow> string list \<Rightarrow> process result) \<Rightarrow> gerr option \<Rightarrow> string list \<Rightarrow> dump_request \<Rightarrow> dump_stream result" where
  "dump_on_host start pipe environ r =
     (let argv = dump_command r
      in case pipe of
           Some e \<Rightarrow> Inl (errorf (''read the output of '' @ hd argv) e)
         | None \<Rightarrow>
             (case start argv (command_environment environ (password_environment r)) of
                Inl e \<Rightarrow> Inl (errorf (''start '' @ hd argv) e)
              | Inr p \<Rightarrow>
                  Inr \<lparr>sm_what = hd argv, sm_reader = pc_reader p, sm_said = fold tail_write (pc_said p) new_tail,
                       sm_wait = pc_exit p, sm_drained = False, sm_closed = False\<rparr>))"

text \<open>One \<open>Read\<close>, given the answer of the pipe.\<close>

definition stream_read :: "string \<times> gerr option \<Rightarrow> dump_stream \<Rightarrow> (string \<times> gerr option) \<times> dump_stream" where
  "stream_read answer d =
     (answer, if (case snd answer of None \<Rightarrow> False | Some e \<Rightarrow> errors_is e ErrEOF) then d\<lparr>sm_drained := True\<rparr> else d)"

definition stream_close :: "dump_stream \<Rightarrow> gerr option \<times> dump_stream" where
  "stream_close d =
     (if sm_closed d then (None, d)
      else (if \<not> sm_drained d then None
            else map_option (\<lambda>e. errorf_at (errorf (sm_what d @ '' failed'') e) (tail_suffix (sm_said d))) (sm_wait d),
            d\<lparr>sm_closed := True\<rparr>))"

section \<open>Docker\<close>

text \<open>
  What koffr asks of the Docker client: to be built and to answer, to look at a container, to run a command
  in it, to read its outputs once demultiplexed, how the execution ended when asked for the nth time, and how many
  nanoseconds that question took.
\<close>

record session =
  ss_reader :: reader
  ss_said :: "string list"

record docker =
  dk_client :: "string \<Rightarrow> gerr option"
  dk_ping :: "string \<Rightarrow> gerr option"
  dk_inspect :: "string \<Rightarrow> gerr option"
  dk_exec :: "string \<Rightarrow> string list \<Rightarrow> string list option \<Rightarrow> string result"
  dk_attach :: "string \<Rightarrow> session result"
  dk_ended :: "string \<Rightarrow> nat \<Rightarrow> (bool \<times> int) result"
  dk_took :: "string \<Rightarrow> nat \<Rightarrow> nat"

definition docker_name :: "string \<Rightarrow> string" where
  "docker_name socket = (if socket \<noteq> [] then socket else ''of this machine'')"

definition docker_connect :: "docker \<Rightarrow> string \<Rightarrow> gerr option" where
  "docker_connect dk socket =
     (case dk_client dk socket of
        Some e \<Rightarrow> Some (errorf (''the Docker socket '' @ docker_name socket) e)
      | None \<Rightarrow>
          map_option (errorf (''the Docker socket '' @ docker_name socket @ '' did not answer'')) (dk_ping dk socket))"

record container_dump =
  cd_what :: string
  cd_reader :: reader
  cd_said :: tail
  cd_execution :: string
  cd_drained :: bool
  cd_closed :: bool

definition dump_in_container :: "docker \<Rightarrow> string \<Rightarrow> dump_request \<Rightarrow> container_dump result" where
  "dump_in_container dk socket r =
     (let argv = dump_command r; inside = hd argv @ '' in '' @ dq_container r
      in case docker_connect dk socket of
           Some e \<Rightarrow> Inl (errorf (''reach Docker to dump inside '' @ dq_container r) e)
         | None \<Rightarrow>
             (case dk_inspect dk (dq_container r) of
                Some e \<Rightarrow> Inl (errorf (''look inside the container '' @ dq_container r) e)
              | None \<Rightarrow>
                  (case dk_exec dk (dq_container r) argv (password_environment r) of
                     Inl e \<Rightarrow> Inl (errorf (''start '' @ inside) e)
                   | Inr execution \<Rightarrow>
                       (case dk_attach dk execution of
                          Inl e \<Rightarrow> Inl (errorf (''read the output of '' @ inside) e)
                        | Inr s \<Rightarrow>
                            Inr \<lparr>cd_what = inside, cd_reader = ss_reader s,
                                 cd_said = fold tail_write (ss_said s) new_tail, cd_execution = execution,
                                 cd_drained = False, cd_closed = False\<rparr>))))"

definition container_read :: "string \<times> gerr option \<Rightarrow> container_dump \<Rightarrow> (string \<times> gerr option) \<times> container_dump" where
  "container_read answer c =
     (answer, if (case snd answer of None \<Rightarrow> False | Some e \<Rightarrow> errors_is e ErrEOF) then c\<lparr>cd_drained := True\<rparr> else c)"

text \<open>
  \<open>exitCode\<close> asks at once and then after every pause, until the context it asks under is done: after an answer
  that found the execution running, \<open>select\<close> takes the deadline when it comes before the end of the pause. The
  answers are those of the client, also of a question the deadline cuts short. \<open>None\<close> would be a loop that
  never ends.
\<close>

definition default_timeout :: int where "default_timeout = 5 * 1000000000"

definition poll_pause :: int where "poll_pause = 50 * 1000000"

partial_function (option) exit_code ::
  "string \<Rightarrow> (nat \<Rightarrow> (bool \<times> int) result) \<Rightarrow> (nat \<Rightarrow> nat) \<Rightarrow> nat \<Rightarrow> int \<Rightarrow> int result option" where
  "exit_code what ended took i now =
     (case ended i of
        Inl e \<Rightarrow> Some (Inl (errorf (''ask Docker how '' @ what @ '' ended'') e))
      | Inr (still_running, code) \<Rightarrow>
          if \<not> still_running then Some (Inr code)
          else if default_timeout \<le> now + int (took i) + poll_pause
          then Some (Inl (errors_new (what @ '' did not report an exit code'')))
          else exit_code what ended took (Suc i) (now + int (took i) + poll_pause))"

definition container_close :: "docker \<Rightarrow> container_dump \<Rightarrow> (gerr option \<times> container_dump) option" where
  "container_close dk c =
     (if cd_closed c then Some (None, c)
      else if \<not> cd_drained c then Some (None, c\<lparr>cd_closed := True\<rparr>)
      else map_option
        (\<lambda>answer.
           (case answer of
              Inl e \<Rightarrow> Some e
            | Inr code \<Rightarrow>
                if code \<noteq> 0
                then Some (errors_new (cd_what c @ '' exited with '' @ dec_int code @ tail_suffix (cd_said c)))
                else None,
            c\<lparr>cd_closed := True\<rparr>))
        (exit_code (cd_what c) (dk_ended dk (cd_execution c)) (dk_took dk (cd_execution c)) 0 0))"

section \<open>The dump of the engine, behind the port of the domain\<close>

record machine =
  mc_start :: "string list \<Rightarrow> string list \<Rightarrow> process result"
  mc_pipe :: "gerr option"
  mc_environ :: "string list"
  mc_docker :: docker

definition stream_handle :: "dump_stream \<Rightarrow> dump_handle" where
  "stream_handle d =
     \<lparr>dh_reader = sm_reader d, dh_close = (\<lambda>drained. fst (stream_close (d\<lparr>sm_drained := drained\<rparr>)))\<rparr>"

text \<open>The wait always returns: \<open>container_close_returns\<close>.\<close>

definition container_handle :: "docker \<Rightarrow> container_dump \<Rightarrow> dump_handle" where
  "container_handle dk c =
     \<lparr>dh_reader = cd_reader c, dh_close = (\<lambda>drained. fst (the (container_close dk (c\<lparr>cd_drained := drained\<rparr>))))\<rparr>"

definition engine_dump :: "machine \<Rightarrow> string \<Rightarrow> dump_request \<Rightarrow> dump_handle result" where
  "engine_dump m socket r =
     (case check_dump r of
        Some e \<Rightarrow> Inl e
      | None \<Rightarrow>
          if dq_container r \<noteq> [] then map_sum (\<lambda>e. e) (container_handle (mc_docker m)) (dump_in_container (mc_docker m) socket r)
          else map_sum (\<lambda>e. e) stream_handle (dump_on_host (mc_start m) (mc_pipe m) (mc_environ m) r))"

section \<open>What a dump promises\<close>

text \<open>How long the wait has lasted when it asks for the kth time, from zero.\<close>

definition waited_before :: "(nat \<Rightarrow> nat) \<Rightarrow> nat \<Rightarrow> int" where
  "waited_before took k = (\<Sum>j<k. int (took j) + poll_pause)"

lemma waited_before_simps [simp]:
  "waited_before took 0 = 0" "waited_before took (Suc k) = waited_before took k + int (took k) + poll_pause"
  by (simp_all add: waited_before_def)

lemma waited_before_pauses: "int k * poll_pause \<le> waited_before took k"
  by (induction k) (auto simp: algebra_simps)

definition found_running :: "(nat \<Rightarrow> (bool \<times> int) result) \<Rightarrow> nat \<Rightarrow> bool" where
  "found_running ended k \<longleftrightarrow> (\<exists>c. ended k = Inr (True, c))"

definition told_of :: "string \<Rightarrow> (bool \<times> int) result \<Rightarrow> int result" where
  "told_of what answer =
     (case answer of
        Inl e \<Rightarrow> Inl (errorf (''ask Docker how '' @ what @ '' ended'') e)
      | Inr (still_running, code) \<Rightarrow>
          if still_running then Inl (errors_new (what @ '' did not report an exit code'')) else Inr code)"

lemma exit_code_returns:
  "\<exists>k \<ge> i. (k = i \<or> waited_before took k < default_timeout) \<and> list_all (found_running ended) [i..<k]
    \<and> (found_running ended k \<longrightarrow> default_timeout \<le> waited_before took (Suc k))
    \<and> exit_code what ended took i (waited_before took i) = Some (told_of what (ended k))"
proof (induction "nat (default_timeout - waited_before took i)" arbitrary: i rule: less_induct)
  case less
  have unfolded: "exit_code what ended took i (waited_before took i) =
    (if \<not> found_running ended i \<or> default_timeout \<le> waited_before took (Suc i) then Some (told_of what (ended i))
     else exit_code what ended took (Suc i) (waited_before took (Suc i)))"
    by (subst exit_code.simps) (auto simp: told_of_def found_running_def split: sum.splits prod.splits)
  show ?case
  proof (cases "\<not> found_running ended i \<or> default_timeout \<le> waited_before took (Suc i)")
    case True
    with unfolded show ?thesis by (intro exI [of _ i]) auto
  next
    case False
    then have "nat (default_timeout - waited_before took (Suc i)) < nat (default_timeout - waited_before took i)"
      by (simp add: poll_pause_def)
    from less [OF this] obtain k where k: "Suc i \<le> k" "k = Suc i \<or> waited_before took k < default_timeout"
      "list_all (found_running ended) [Suc i..<k]" "found_running ended k \<longrightarrow> default_timeout \<le> waited_before took (Suc k)"
      "exit_code what ended took (Suc i) (waited_before took (Suc i)) = Some (told_of what (ended k))" by blast
    moreover have "[i..<k] = i # [Suc i..<k]" using k(1) by (simp add: upt_conv_Cons)
    ultimately show ?thesis using False unfolded by (intro exI [of _ k]) auto
  qed
qed

lemma exit_code_ends:
  obtains k where "waited_before took k < default_timeout" "k < 100" "list_all (found_running ended) [0..<k]"
    "found_running ended k \<Longrightarrow> default_timeout \<le> waited_before took (Suc k)"
    "exit_code what ended took 0 0 = Some (told_of what (ended k))"
proof -
  from exit_code_returns [of 0 took ended what] obtain k where k: "k = 0 \<or> waited_before took k < default_timeout"
    "list_all (found_running ended) [0..<k]" "found_running ended k \<longrightarrow> default_timeout \<le> waited_before took (Suc k)"
    "exit_code what ended took 0 0 = Some (told_of what (ended k))" by auto
  then have early: "waited_before took k < default_timeout" by (auto simp: default_timeout_def)
  with waited_before_pauses [of k took] have "k < 100" by (simp add: default_timeout_def poll_pause_def)
  with that k early show thesis by blast
qed

lemma container_close_returns: "container_close dk c \<noteq> None"
  by (rule exit_code_ends [of "dk_took dk (cd_execution c)" "dk_ended dk (cd_execution c)" "cd_what c"])
    (simp add: container_close_def)

text \<open>
  C26. Waiting for a dump inside a container ends, whatever Docker answers and however long it takes to: after a
  hundred questions at most, the last of them asked before the deadline, the wait returns what the first answer
  that did not find the execution running says, its exit code or the error of the client; when every answer found
  it running the deadline has come, and it returns an error and never a code.
\<close>

theorem waiting_for_the_exit_code_ends:
  "\<exists>k < 100. waited_before took k < default_timeout \<and> list_all (found_running ended) [0..<k]
    \<and> (found_running ended k \<longrightarrow> default_timeout \<le> waited_before took (Suc k))
    \<and> exit_code what ended took 0 0 =
        Some (case ended k of
          Inl e \<Rightarrow> Inl (errorf (''ask Docker how '' @ what @ '' ended'') e)
        | Inr (still_running, code) \<Rightarrow>
            if still_running then Inl (errors_new (what @ '' did not report an exit code'')) else Inr code)"
  unfolding told_of_def [symmetric] by (rule exit_code_ends [of took ended what]) blast

text \<open>An execution that never ends, and one that ends at the third question.\<close>

theorem waiting_for_the_exit_code_ends_witness:
  "exit_code ''pg_dump'' (\<lambda>_. Inr (True, 0)) (\<lambda>_. 7) 0 0 = Some (Inl (errors_new ''pg_dump did not report an exit code''))
    \<and> exit_code ''pg_dump'' (\<lambda>i. Inr (i < 2, 3)) (\<lambda>_. 7) 0 0 = Some (Inr 3)"
proof
  show "exit_code ''pg_dump'' (\<lambda>_. Inr (True, 0)) (\<lambda>_. 7) 0 0 = Some (Inl (errors_new ''pg_dump did not report an exit code''))"
    using waiting_for_the_exit_code_ends [of "\<lambda>_. 7" "\<lambda>_. Inr (True, 0)" "''pg_dump''"] by auto
next
  obtain k where k: "list_all (found_running (\<lambda>i. Inr (i < 2, 3))) [0..<k]"
      "found_running (\<lambda>i. Inr (i < 2, 3)) k \<longrightarrow> default_timeout \<le> waited_before (\<lambda>_. 7) (Suc k)"
    and said: "exit_code ''pg_dump'' (\<lambda>i. Inr (i < 2, 3)) (\<lambda>_. 7) 0 0 =
      Some (if k < 2 then Inl (errors_new (''pg_dump'' @ '' did not report an exit code'')) else Inr 3)"
    using waiting_for_the_exit_code_ends [of "\<lambda>_. 7" "\<lambda>i. Inr (i < 2, 3)" "''pg_dump''"] by auto
  have "\<not> k < 2"
  proof
    assume "k < 2"
    then have "default_timeout \<le> waited_before (\<lambda>_. 7) (Suc k)" using k(2) by (simp add: found_running_def)
    moreover from \<open>k < 2\<close> have "k = 0 \<or> k = 1" by auto
    ultimately show False by (auto simp: default_timeout_def poll_pause_def)
  qed
  with said show "exit_code ''pg_dump'' (\<lambda>i. Inr (i < 2, 3)) (\<lambda>_. 7) 0 0 = Some (Inr 3)" by simp
qed

text \<open>
  C24. The password of a database is nowhere but in the environment of the dump (E-115, E-059): the command
  line is the same whatever the password, and the options the manifest shows depend on nothing but the
  family of the tool and the format, neither on the server nor on the container.
\<close>

theorem password_only_in_the_environment:
  "dump_command (r\<lparr>dq_target := (dq_target r)\<lparr>t_password := p\<rparr>\<rparr>) = dump_command r
    \<and> archive_options (r\<lparr>dq_target := t, dq_container := c\<rparr>) = archive_options r
    \<and> (if p = [] then password_environment (r\<lparr>dq_target := (dq_target r)\<lparr>t_password := p\<rparr>\<rparr>) = None
       else \<exists>name. password_environment (r\<lparr>dq_target := (dq_target r)\<lparr>t_password := p\<rparr>\<rparr>) = Some [name @ CHR ''='' # p]
         \<and> CHR ''='' \<notin> set name)"
proof -
  let ?q = "r\<lparr>dq_target := (dq_target r)\<lparr>t_password := p\<rparr>\<rparr>"
  have "dump_command ?q = dump_command r"
    by (simp add: dump_command_def connection_options_def archive_options_def request_format_def Let_def)
  moreover have "archive_options (r\<lparr>dq_target := t, dq_container := c\<rparr>) = archive_options r"
    by (simp add: archive_options_def request_format_def)
  moreover have "password_environment ?q = Some [(if ca_family (dq_tool r) = PostgreSQL then ''PGPASSWORD'' else ''MYSQL_PWD'') @ CHR ''='' # p]"
    if "p \<noteq> []" using that by (simp add: password_environment_def)
  moreover have "password_environment ?q = None" if "p = []"
    using that by (simp add: password_environment_def)
  ultimately show ?thesis by auto
qed

text \<open>
  A dump without a password runs in the whole environment of koffr: \<open>passwordEnvironment\<close> answers nil
  there, and \<open>os/exec\<close> takes a nil \<open>Env\<close> for the environment of the parent, so a \<open>PGPASSWORD\<close> of koffr's own
  reaches \<open>pg_dump\<close> although the comment says that it never does. With a password, that variable is all the
  process gets.
\<close>

lemma empty_password_inherits_the_environment:
  "command_environment environ (password_environment (r\<lparr>dq_target := (dq_target r)\<lparr>t_password := []\<rparr>\<rparr>)) = environ
    \<and> length (command_environment environ (password_environment (r\<lparr>dq_target := (dq_target r)\<lparr>t_password := c # cs\<rparr>\<rparr>))) = 1"
  by (simp add: command_environment_def password_environment_def)

text \<open>
  What koffr keeps of a tool's output is the end of all it wrote, or its beginning when asked, whatever
  the sizes of the writes it came in, and never more than the limit.
\<close>

lemma tail_is_the_end_of_everything:
  "tl_kept (fold tail_write ps \<lparr>tl_kept = [], tl_limit = n, tl_head = head\<rparr>)
      = (let limit = (if n = 0 then 4096 else n); all = concat ps
         in if head then take limit all else drop (length all - limit) all)"
proof -
  let ?t = "\<lparr>tl_kept = [], tl_limit = n, tl_head = head\<rparr>"
  have "tl_kept (fold tail_write ps ?t) = ends_of (tail_limit ?t) (concat ps)" if "\<not> head"
    using tail_fold_end [of ?t ps] that by (simp add: ends_of_def)
  moreover
  have "tl_kept (fold tail_write ps ?t) = take (tail_limit ?t) (concat ps)" if "head"
    using tail_fold_head [of ?t ps] that by simp
  ultimately show ?thesis
    by (simp add: ends_of_def Let_def tail_limit_def kept_from_stderr_def)
qed

lemma engine_handle_reports:
  assumes "engine_dump m socket r = Inr dump"
    and "dh_close dump True = None"
  shows "if dq_container r = []
    then \<exists>p. mc_start m (dump_command r) (command_environment (mc_environ m) (password_environment r)) = Inr p
      \<and> dh_reader dump = pc_reader p \<and> pc_exit p = None
    else \<exists>execution x k. dk_exec (mc_docker m) (dq_container r) (dump_command r) (password_environment r) = Inr execution
      \<and> dk_attach (mc_docker m) execution = Inr x \<and> dh_reader dump = ss_reader x
      \<and> list_all (found_running (dk_ended (mc_docker m) execution)) [0..<k]
      \<and> dk_ended (mc_docker m) execution k = Inr (False, 0)"
proof (cases "dq_container r = []")
  case True
  with assms obtain d where d: "dump_on_host (mc_start m) (mc_pipe m) (mc_environ m) r = Inr d" "dump = stream_handle d"
    by (cases "dump_on_host (mc_start m) (mc_pipe m) (mc_environ m) r") (auto simp: engine_dump_def split: option.splits)
  from d(1) obtain p where p: "mc_start m (dump_command r) (command_environment (mc_environ m) (password_environment r)) = Inr p"
      "sm_wait d = pc_exit p" "\<not> sm_closed d" "sm_reader d = pc_reader p"
    by (auto simp: dump_on_host_def Let_def split: option.splits sum.splits)
  with assms(2) d(2) have "pc_exit p = None" by (simp add: stream_handle_def stream_close_def)
  with p d(2) True show ?thesis by (simp add: stream_handle_def)
next
  case False
  let ?run = "dump_in_container (mc_docker m) socket r"
  from False assms obtain c where c: "?run = Inr c" "dump = container_handle (mc_docker m) c"
    by (cases ?run) (auto simp: engine_dump_def split: option.splits)
  from c(1) obtain x where x: "dk_exec (mc_docker m) (dq_container r) (dump_command r) (password_environment r) = Inr (cd_execution c)"
      "dk_attach (mc_docker m) (cd_execution c) = Inr x" "cd_reader c = ss_reader x" "\<not> cd_closed c"
    by (auto simp: dump_in_container_def Let_def split: option.splits sum.splits)
  let ?ended = "dk_ended (mc_docker m) (cd_execution c)"
  obtain k where k: "list_all (found_running ?ended) [0..<k]"
      "exit_code (cd_what c) ?ended (dk_took (mc_docker m) (cd_execution c)) 0 0 = Some (told_of (cd_what c) (?ended k))"
    by (rule exit_code_ends) (rule that)
  with assms(2) c(2) x(4) have "told_of (cd_what c) (?ended k) = Inr 0"
    by (auto simp: container_handle_def container_close_def split: sum.splits if_splits)
  then have "?ended k = Inr (False, 0)" by (auto simp: told_of_def split: sum.splits prod.splits if_splits)
  with False k(1) x c(2) show ?thesis by (auto simp: container_handle_def)
qed

end
