(* ===== verification/Engine_Structure.thy ===== *)
theory Engine_Structure
  imports Engine_Dump
begin

text \<open>
  Watching the structure of a dump as it streams past: \<open>internal/engine/structure.go\<close> and the verdicts of
  \<open>internal/domain/verify/structure.go\<close>. \<open>pg_restore --list\<close> is a parameter: how much of what it is fed it
  takes, what it lists and says, and how it ends.
\<close>

section \<open>Verdicts\<close>

record structure_verdict =
  sv_checked :: bool
  sv_ok :: bool
  sv_detail :: string

definition not_checked :: "string \<Rightarrow> structure_verdict" where
  "not_checked why = \<lparr>sv_checked = False, sv_ok = False, sv_detail = why\<rparr>"

definition structure_sound :: "string \<Rightarrow> structure_verdict" where
  "structure_sound detail = \<lparr>sv_checked = True, sv_ok = True, sv_detail = detail\<rparr>"

definition structure_refused :: "string \<Rightarrow> structure_verdict" where
  "structure_refused why = \<lparr>sv_checked = True, sv_ok = False, sv_detail = why\<rparr>"

section \<open>The end marker of MySQL and MariaDB\<close>

definition end_marker :: string where "end_marker = ''-- Dump completed''"

definition kept_tail :: nat where "kept_tail = 4 * 2 ^ 10"

record marker_watcher =
  mw_tail :: string
  mw_seen :: nat

definition new_marker :: marker_watcher where
  "new_marker = \<lparr>mw_tail = [], mw_seen = 0\<rparr>"

definition marker_write :: "string \<Rightarrow> marker_watcher \<Rightarrow> marker_watcher" where
  "marker_write p e =
     (let held = mw_tail e @ p
      in \<lparr>mw_tail = (if kept_tail < length held then drop (length held - kept_tail) held else held),
          mw_seen = mw_seen e + length p\<rparr>)"

definition marker_kept :: "marker_watcher \<Rightarrow> nat" where
  "marker_kept e = length (mw_tail e)"

definition last_line :: "string \<Rightarrow> string" where
  "last_line s = trim_space (last (split_on newline (trim_right_by ((=) newline) s)))"

definition marker_conclude :: "marker_watcher \<Rightarrow> structure_verdict" where
  "marker_conclude e =
     (if mw_seen e = 0 then structure_refused ''the dump is empty''
      else if \<not> contains (mw_tail e) end_marker then
        structure_refused (''the dump does not end with '' @ go_quote end_marker @ '': it was cut before its last line'')
      else structure_sound (last_line (mw_tail e)))"

section \<open>The table of contents of PostgreSQL\<close>

text \<open>
  A restore tool: whether it starts, how many bytes its standard input takes of a write once it was fed some,
  and, of everything it was fed, what it lists, what it says and how it ends.
\<close>

record restore_process =
  rt_pipe :: "gerr option"
  rt_start :: "gerr option"
  rt_takes :: "string \<Rightarrow> string \<Rightarrow> nat"
  rt_listing :: "string \<Rightarrow> string list"
  rt_said :: "string \<Rightarrow> string list"
  rt_exit :: "string \<Rightarrow> gerr option"

record contents_watcher =
  tw_path :: string
  tw_process :: restore_process
  tw_fed :: string
  tw_closed :: bool
  tw_seen :: nat

definition kept_listing :: nat where "kept_listing = 64 * 2 ^ 10"

definition new_contents :: "(string \<Rightarrow> restore_process) \<Rightarrow> candidate \<Rightarrow> contents_watcher result" where
  "new_contents spawn restore =
     (if ca_path restore = [] then
        Inl (errors_new (''no '' @ tool_name Restore @ '' tool was resolved, so the table of contents cannot be read''))
      else case rt_pipe (spawn (ca_path restore)) of
        Some e \<Rightarrow> Inl (errorf (''feed '' @ ca_path restore) e)
      | None \<Rightarrow>
          (case rt_start (spawn (ca_path restore)) of
             Some e \<Rightarrow> Inl (errorf (''start '' @ ca_path restore) e)
           | None \<Rightarrow>
               Inr \<lparr>tw_path = ca_path restore, tw_process = spawn (ca_path restore), tw_fed = [], tw_closed = False,
                    tw_seen = 0\<rparr>))"

definition contents_write :: "string \<Rightarrow> contents_watcher \<Rightarrow> contents_watcher" where
  "contents_write p t0 =
     (let t = t0\<lparr>tw_seen := tw_seen t0 + length p\<rparr>
      in if tw_closed t then t
         else let taken = min (length p) (rt_takes (tw_process t) (tw_fed t) p)
              in t\<lparr>tw_fed := tw_fed t @ take taken p, tw_closed := (taken < length p)\<rparr>)"

definition contents_kept :: "contents_watcher \<Rightarrow> nat" where
  "contents_kept t = 0"

definition entry_line :: "string \<Rightarrow> bool" where
  "entry_line line = (case trim_space line of [] \<Rightarrow> False | c # cs \<Rightarrow> is_digit c)"

definition summarise :: "string \<Rightarrow> string" where
  "summarise listing =
     dec (length (filter entry_line (split_on newline listing))) @ '' table-of-contents entries''"

definition contents_conclude :: "contents_watcher \<Rightarrow> structure_verdict" where
  "contents_conclude t =
     (let p = tw_process t;
          out = fold tail_write (rt_listing p (tw_fed t)) \<lparr>tl_kept = [], tl_limit = kept_listing, tl_head = True\<rparr>;
          said = fold tail_write (rt_said p (tw_fed t)) \<lparr>tl_kept = [], tl_limit = kept_from_stderr, tl_head = False\<rparr>;
          listing = trim_space (tl_kept out)
      in if tw_seen t = 0 then structure_refused ''the dump is empty''
         else case rt_exit p (tw_fed t) of
           Some e \<Rightarrow> structure_refused (tw_path t @ '' refused it: '' @ err_said e @ tail_suffix said)
         | None \<Rightarrow>
             if \<not> contains listing ''TOC Entries''
             then structure_refused (tw_path t @ '' read no table of contents from it'' @ tail_suffix said)
             else structure_sound (summarise listing))"

section \<open>The watcher of a family\<close>

datatype structure_watcher = EndMarker marker_watcher | TableOfContents contents_watcher

definition watch_structure :: "(string \<Rightarrow> restore_process) \<Rightarrow> family \<Rightarrow> candidate \<Rightarrow> structure_watcher result" where
  "watch_structure spawn f restore =
     (if f = PostgreSQL then map_sum (\<lambda>e. e) TableOfContents (new_contents spawn restore)
      else if is_mysql f then Inr (EndMarker new_marker)
      else Inl (Gerr [ErrUnsupportedEngine] (''koffr does not know this engine: '' @ go_quote (family_name f))))"

fun watcher_write :: "string \<Rightarrow> structure_watcher \<Rightarrow> structure_watcher" where
  "watcher_write p (EndMarker e) = EndMarker (marker_write p e)"
| "watcher_write p (TableOfContents t) = TableOfContents (contents_write p t)"

fun watcher_kept :: "structure_watcher \<Rightarrow> nat" where
  "watcher_kept (EndMarker e) = marker_kept e"
| "watcher_kept (TableOfContents t) = contents_kept t"

fun watcher_conclude :: "structure_watcher \<Rightarrow> structure_verdict" where
  "watcher_conclude (EndMarker e) = marker_conclude e"
| "watcher_conclude (TableOfContents t) = contents_conclude t"

section \<open>What a watcher promises\<close>

lemma marker_fold_seen: "mw_seen (fold marker_write ps e) = mw_seen e + length (concat ps)"
  by (induction ps arbitrary: e) (simp_all add: marker_write_def Let_def)

lemma marker_fold_tail:
  "ends_of kept_tail (mw_tail e) = mw_tail e
    \<Longrightarrow> mw_tail (fold marker_write ps e) = ends_of kept_tail (mw_tail e @ concat ps)"
proof (induction ps arbitrary: e)
  case (Cons p ps)
  have tail: "mw_tail (marker_write p e) = ends_of kept_tail (mw_tail e @ p)"
    by (simp add: marker_write_def ends_of_def Let_def)
  have "mw_tail (fold marker_write ps (marker_write p e)) = ends_of kept_tail (mw_tail (marker_write p e) @ concat ps)"
    by (rule Cons.IH) (simp add: tail)
  then show ?case by (simp add: tail ends_of_append)
qed simp

lemma marker_dump:
  "fold marker_write ps new_marker = \<lparr>mw_tail = ends_of kept_tail (concat ps), mw_seen = length (concat ps)\<rparr>"
  using marker_fold_seen [of ps new_marker] marker_fold_tail [of new_marker ps]
  by (cases "fold marker_write ps new_marker") (simp add: new_marker_def ends_of_def)

lemma contents_fold:
  "tw_seen (fold contents_write ps t) = tw_seen t + length (concat ps)"
  "tw_process (fold contents_write ps t) = tw_process t"
  "tw_path (fold contents_write ps t) = tw_path t"
  by (induction ps arbitrary: t) (simp_all add: contents_write_def Let_def)

text \<open>What the tool was fed: everything, or all up to the write in which it stopped reading.\<close>

definition fed_of_dump :: "restore_process \<Rightarrow> string list \<Rightarrow> string \<Rightarrow> bool" where
  "fed_of_dump proc ps fed \<longleftrightarrow>
     fed = concat ps \<or> (\<exists>before p after. ps = before @ p # after \<and> rt_takes proc (concat before) p < length p
       \<and> fed = concat before @ take (rt_takes proc (concat before) p) p)"

lemma contents_closed_keeps: "tw_closed t \<Longrightarrow> tw_fed (fold contents_write ps t) = tw_fed t"
proof (induction ps arbitrary: t)
  case (Cons p ps)
  then show ?case by (simp add: contents_write_def Let_def)
qed simp

lemma contents_fed:
  assumes "\<not> tw_closed t" "tw_fed t = concat before"
  shows "fed_of_dump (tw_process t) (before @ ps) (tw_fed (fold contents_write ps t))"
  using assms
proof (induction ps arbitrary: t before)
  case Nil
  then show ?case by (simp add: fed_of_dump_def)
next
  case (Cons p ps)
  let ?t = "contents_write p t"
  have proc: "tw_process ?t = tw_process t" by (simp add: contents_write_def Let_def)
  show ?case
  proof (cases "rt_takes (tw_process t) (concat before) p < length p")
    case True
    with Cons.prems have "tw_closed ?t" "tw_fed ?t = concat before @ take (rt_takes (tw_process t) (concat before) p) p"
      by (simp_all add: contents_write_def Let_def)
    with contents_closed_keeps [of ?t ps] have
      "tw_fed (fold contents_write (p # ps) t) = concat before @ take (rt_takes (tw_process t) (concat before) p) p" by simp
    with True show ?thesis unfolding fed_of_dump_def by blast
  next
    case False
    with Cons.prems have "\<not> tw_closed ?t" "tw_fed ?t = concat (before @ [p])"
      by (simp_all add: contents_write_def Let_def)
    from Cons.IH [OF this] show ?thesis by (simp add: proc)
  qed
qed

text \<open>
  C25. A PostgreSQL dump is called sound exactly when \<open>pg_restore --list\<close>, fed the dump up to where it stopped
  reading, ended without an error and the beginning of its listing that koffr keeps, 64 KiB of it, says that it is
  a table of contents, and the dump was not empty; what is then told of the listing is how many entries it has,
  none of its words (A-29).
\<close>

theorem sound_contents_were_listed:
  assumes "new_contents spawn restore = Inr t0"
  shows "\<exists>fed. fed_of_dump (spawn (ca_path restore)) ps fed
    \<and> (let v = contents_conclude (fold contents_write ps t0);
           listing = trim_space (take (64 * 1024) (concat (rt_listing (spawn (ca_path restore)) fed)))
       in sv_checked v
         \<and> (sv_ok v \<longleftrightarrow> concat ps \<noteq> [] \<and> rt_exit (spawn (ca_path restore)) fed = None \<and> contains listing ''TOC Entries'')
         \<and> (sv_ok v \<longrightarrow> sv_detail v =
              dec (length (filter entry_line (split_on newline listing))) @ '' table-of-contents entries''))"
proof -
  let ?t = "fold contents_write ps t0" and ?proc = "spawn (ca_path restore)"
  from assms have t0: "tw_process t0 = ?proc" "tw_seen t0 = 0" "tw_fed t0 = concat []" "\<not> tw_closed t0"
    by (auto simp: new_contents_def split: if_splits option.splits)
  have fed: "fed_of_dump ?proc ps (tw_fed ?t)" using contents_fed [OF t0(4,3), of ps] t0(1) by simp
  have seen: "tw_seen ?t = 0 \<longleftrightarrow> concat ps = []" and process: "tw_process ?t = ?proc"
    using contents_fold [of ps t0] t0 by auto
  have kept: "tl_kept (fold tail_write (rt_listing ?proc (tw_fed ?t)) \<lparr>tl_kept = [], tl_limit = kept_listing, tl_head = True\<rparr>)
      = take (64 * 1024) (concat (rt_listing ?proc (tw_fed ?t)))"
    by (subst tail_fold_head) (simp_all add: tail_limit_def kept_listing_def)
  show ?thesis
    by (intro exI [of _ "tw_fed ?t"] conjI fed)
      (simp add: contents_conclude_def Let_def process kept seen structure_refused_def structure_sound_def summarise_def
        split: option.splits)
qed

definition sample_restore :: restore_process where
  "sample_restore = \<lparr>rt_pipe = None, rt_start = None, rt_takes = (\<lambda>fed p. 3),
     rt_listing = (\<lambda>fed. [''; TOC Entries: 1'', newline # ''5; TABLE shop koffr'']), rt_said = (\<lambda>fed. []), rt_exit = (\<lambda>fed. None)\<rparr>"

definition sample_tool :: candidate where
  "sample_tool = \<lparr>ca_family = PostgreSQL, ca_tool = Restore, ca_path = ''/usr/bin/pg_restore'',
     ca_version = parse_version ''16.2'', ca_source = Host\<rparr>"

text \<open>The tool takes three bytes of the first write and stops in the second one.\<close>

theorem sound_contents_were_listed_witness:
  "\<exists>t0. new_contents (\<lambda>_. sample_restore) sample_tool = Inr t0
    \<and> sv_ok (contents_conclude (fold contents_write [''PGD'', ''MPxx''] t0))
    \<and> sv_detail (contents_conclude (fold contents_write [''PGD'', ''MPxx''] t0)) = ''1 table-of-contents entries''"
proof -
  let ?t = "\<lparr>tw_path = ''/usr/bin/pg_restore'', tw_process = sample_restore, tw_fed = [], tw_closed = False, tw_seen = 0\<rparr>"
  have new: "new_contents (\<lambda>_. sample_restore) sample_tool = Inr ?t"
    by (simp add: new_contents_def sample_tool_def sample_restore_def)
  let ?listing = "''; TOC Entries: 1'' @ newline # ''5; TABLE shop koffr''"
  have listing: "concat (rt_listing sample_restore fed) = ?listing" "rt_exit sample_restore fed = None" for fed
    by (simp_all add: sample_restore_def)
  have "length ?listing \<le> 64 * 1024" by simp
  then have kept: "take (64 * 1024) ?listing = ?listing" by (rule take_all)
  have trimmed: "trim_space ?listing = ?listing" by code_simp
  have toc: "contains ?listing ''TOC Entries'' = True" by code_simp
  have "split_on newline ?listing = [''; TOC Entries: 1'', ''5; TABLE shop koffr'']" by code_simp
  moreover have "entry_line ''; TOC Entries: 1'' = False" "entry_line ''5; TABLE shop koffr'' = True" by code_simp+
  ultimately have "filter entry_line (split_on newline ?listing) = [''5; TABLE shop koffr'']" by simp
  then have one: "length (filter entry_line (split_on newline ?listing)) = 1" by (simp only: list.size One_nat_def plus_nat.add_0)
  have dec: "dec 1 = ''1''" by (subst dec.simps) code_simp
  have entries: "dec (length (filter entry_line (split_on newline ?listing))) = ''1''" unfolding one by (rule dec)
  show ?thesis
    using sound_contents_were_listed [OF new, of "[''PGD'', ''MPxx'']"] new
    unfolding Let_def listing kept trimmed toc entries by auto
qed

text \<open>What the watcher of MySQL concludes of a dump, without the stream.\<close>

definition marker_of :: "string \<Rightarrow> structure_verdict" where
  "marker_of dump =
     (if dump = [] then structure_refused ''the dump is empty''
      else if \<not> contains (ends_of 4096 dump) end_marker then
        structure_refused (''the dump does not end with '' @ go_quote end_marker @ '': it was cut before its last line'')
      else structure_sound (last_line (ends_of 4096 dump)))"

text \<open>
  Watching a MySQL or MariaDB dump as it streams past concludes what reading its last 4096 bytes would,
  however the dump was cut into writes, and holds no more than those bytes (E-025).
\<close>

lemma end_marker_watch_is_a_read:
  "marker_conclude (fold marker_write ps new_marker) = marker_of (concat ps)
    \<and> marker_kept (fold marker_write ps new_marker) = min 4096 (length (concat ps))"
  by (simp add: marker_dump marker_conclude_def marker_of_def marker_kept_def kept_tail_def length_ends_of)

text \<open>
  The marker is looked for anywhere in the last 4096 bytes, not at the end: a dump cut after a row that
  quotes it, however it goes on, is called sound as long as what follows the quotation is short.
\<close>

lemma quoted_marker_passes_for_the_end:
  assumes "length (end_marker @ rest) \<le> 4096"
  shows "sv_ok (marker_conclude (fold marker_write [before, end_marker @ rest] new_marker))"
proof -
  have "\<exists>a. ends_of 4096 (before @ end_marker @ rest) = a @ end_marker @ rest"
    using assms by (intro exI [of _ "drop (length before + length (end_marker @ rest) - 4096) before"]) (simp add: ends_of_def)
  then have "contains (ends_of 4096 (before @ end_marker @ rest)) end_marker"
    by (auto simp: contains_iff)
  moreover have "end_marker \<noteq> []" by (simp add: end_marker_def)
  ultimately show ?thesis
    using end_marker_watch_is_a_read [of "[before, end_marker @ rest]"] by (simp add: marker_of_def structure_sound_def)
qed

theorem quoted_marker_passes_for_the_end_witness:
  "sv_ok (marker_conclude (fold marker_write [''INSERT ('', end_marker @ ''), (cut'' ] new_marker))"
  by (rule quoted_marker_passes_for_the_end) (simp add: end_marker_def)

end
