(* ===== verification/Diagnose.thy ===== *)
theory Diagnose
  imports Resolve
begin

text \<open>
  \<open>internal/domain/resolve/diagnose.go\<close>: what koffr knows of every database before anything goes wrong. The
  probe and the finders are ports, functions of what they are asked; \<open>tool_finder\<close> is what the domain is
  promised of the second.
\<close>

section \<open>The ports\<close>

locale tool_finder =
  fixes find_tools :: "family \<Rightarrow> tool \<Rightarrow> candidate list result"
  assumes found_family: "find_tools f t = Inr cs \<Longrightarrow> c \<in> set cs \<Longrightarrow> ca_family c = f"
    and found_tool: "find_tools f t = Inr cs \<Longrightarrow> c \<in> set cs \<Longrightarrow> ca_tool c = t"
begin

lemma found_fits:
  "find_tools PostgreSQL t = Inr cs \<Longrightarrow> c \<in> set cs \<Longrightarrow> si_family s = PostgreSQL
    \<Longrightarrow> fits c s t \<longleftrightarrow> v_major (si_version s) \<le> v_major (ca_version c)"
  using found_family [of PostgreSQL t cs c] found_tool [of PostgreSQL t cs c] by (simp add: fits_def)

end

section \<open>Diagnosing\<close>

record subject =
  sj_id :: string
  sj_target :: target
  sj_container :: string

record diagnosis =
  dg_id :: string
  dg_target :: target
  dg_server :: "server_info option"
  dg_unreachable :: "gerr option"
  dg_tool :: "candidate option"
  dg_no_tool :: "gerr option"
  dg_not_verifiable :: "gerr option"

definition healthy :: "diagnosis \<Rightarrow> bool" where
  "healthy d \<longleftrightarrow> dg_unreachable d = None \<and> dg_no_tool d = None \<and> dg_not_verifiable d = None"

definition candidates_for ::
  "(family \<Rightarrow> tool \<Rightarrow> candidate list result) \<Rightarrow> (string \<Rightarrow> family \<Rightarrow> tool \<Rightarrow> candidate list result)
    \<Rightarrow> subject \<Rightarrow> family \<Rightarrow> candidate list result" where
  "candidates_for on_host in_container s f =
     (if sj_container s = [] then
        map_sum (errorf (''look for a '' @ family_name f @ '' tool on the host'')) (\<lambda>cs. cs) (on_host f Dump)
      else
        map_sum (errorf (''look for a '' @ family_name f @ '' tool in the container '' @ sj_container s)) (\<lambda>cs. cs)
          (in_container (sj_container s) f Dump))"

definition no_restore :: "version \<Rightarrow> gerr" where
  "no_restore v =
     errors_new (''no pg_restore on this machine, so the structure of an archive cannot be checked '' @
       ''and P4 refuses to call it a backup: install the PostgreSQL client of major '' @ version_string v)"

definition verifiability_of ::
  "(family \<Rightarrow> tool \<Rightarrow> candidate list result) \<Rightarrow> subject \<Rightarrow> server_info \<Rightarrow> gerr option" where
  "verifiability_of on_host s server =
     (if si_family server \<noteq> PostgreSQL \<or> sj_container s \<noteq> [] then None
      else case on_host PostgreSQL Restore of
        Inl e \<Rightarrow> Some (errorf (''look for a '' @ tool_name Restore @ '' tool on the host'') e)
      | Inr found \<Rightarrow> if found = [] then Some (no_restore (si_version server)) else None)"

definition diagnose_one ::
  "(target \<Rightarrow> server_info result) \<Rightarrow> (family \<Rightarrow> tool \<Rightarrow> candidate list result)
    \<Rightarrow> (string \<Rightarrow> family \<Rightarrow> tool \<Rightarrow> candidate list result) \<Rightarrow> subject \<Rightarrow> diagnosis" where
  "diagnose_one probe on_host in_container s =
     (let d = \<lparr>dg_id = sj_id s, dg_target = sj_target s, dg_server = None, dg_unreachable = None, dg_tool = None,
               dg_no_tool = None, dg_not_verifiable = None\<rparr>
      in case probe (sj_target s) of
           Inl e \<Rightarrow> d\<lparr>dg_unreachable := Some e\<rparr>
         | Inr server \<Rightarrow>
             (let d1 = d\<lparr>dg_server := Some server\<rparr>
              in case candidates_for on_host in_container s (si_family server) of
                   Inl e \<Rightarrow> d1\<lparr>dg_no_tool := Some e\<rparr>
                 | Inr cs \<Rightarrow>
                     (case choose_tool cs server Dump of
                        Inl e \<Rightarrow> d1\<lparr>dg_no_tool := Some e\<rparr>
                      | Inr tool \<Rightarrow>
                          d1\<lparr>dg_tool := Some tool, dg_not_verifiable := verifiability_of on_host s server\<rparr>)))"

definition diagnose ::
  "(target \<Rightarrow> server_info result) \<Rightarrow> (family \<Rightarrow> tool \<Rightarrow> candidate list result)
    \<Rightarrow> (string \<Rightarrow> family \<Rightarrow> tool \<Rightarrow> candidate list result) \<Rightarrow> subject list \<Rightarrow> diagnosis list" where
  "diagnose probe on_host in_container subjects = map (diagnose_one probe on_host in_container) subjects"

section \<open>What a diagnosis says\<close>

lemma choose_tool_some: "choose_tool cs s t = Inr c \<Longrightarrow> c \<in> set cs \<and> fits c s t"
proof -
  assume "choose_tool cs s t = Inr c"
  then have ne: "filter (\<lambda>c. fits c s t) cs \<noteq> []" and c: "c = hd (sort_by candidate_before (filter (\<lambda>c. fits c s t) cs))"
    by (auto simp: choose_tool_def Let_def split: if_splits)
  from ne have "c \<in> set (sort_by candidate_before (filter (\<lambda>c. fits c s t) cs))"
    unfolding c by (intro hd_in_set) simp
  then show ?thesis by simp
qed

lemma choose_tool_none: "(\<exists>e. choose_tool cs s t = Inl e) \<longleftrightarrow> filter (\<lambda>c. fits c s t) cs = []"
  by (auto simp: choose_tool_def Let_def)

lemma healthy_diagnosis:
  "healthy (diagnose_one probe on_host in_container s) \<longleftrightarrow>
     (\<exists>server cs. probe (sj_target s) = Inr server
        \<and> (if sj_container s = [] then on_host (si_family server) Dump = Inr cs
           else in_container (sj_container s) (si_family server) Dump = Inr cs)
        \<and> filter (\<lambda>c. fits c server Dump) cs \<noteq> [] \<and> verifiability_of on_host s server = None)"
  (is "?l \<longleftrightarrow> ?r")
proof (cases "probe (sj_target s)")
  case (Inl e)
  then show ?thesis by (simp add: diagnose_one_def healthy_def Let_def)
next
  case (Inr server)
  let ?found = "if sj_container s = [] then on_host (si_family server) Dump
    else in_container (sj_container s) (si_family server) Dump"
  show ?thesis
  proof (cases ?found)
    case (Inl e)
    then have "\<exists>f. candidates_for on_host in_container s (si_family server) = Inl f"
      by (auto simp: candidates_for_def split: if_splits)
    with Inr have "\<not> ?l" by (auto simp: diagnose_one_def healthy_def Let_def)
    with Inr Inl show ?thesis by (auto split: if_splits)
  next
    case (Inr cs)
    then have found: "candidates_for on_host in_container s (si_family server) = Inr cs"
      by (auto simp: candidates_for_def split: if_splits)
    show ?thesis
    proof (cases "choose_tool cs server Dump")
      case (Inl e)
      with \<open>probe (sj_target s) = Inr server\<close> found have "\<not> ?l"
        by (simp add: diagnose_one_def healthy_def Let_def)
      moreover have "filter (\<lambda>c. fits c server Dump) cs = []"
        using Inl choose_tool_none by blast
      ultimately show ?thesis
        using \<open>probe (sj_target s) = Inr server\<close> \<open>?found = Inr cs\<close> by (auto split: if_splits)
    next
      case (Inr c)
      with \<open>probe (sj_target s) = Inr server\<close> found have "?l \<longleftrightarrow> verifiability_of on_host s server = None"
        by (simp add: diagnose_one_def healthy_def Let_def)
      moreover have "filter (\<lambda>c. fits c server Dump) cs \<noteq> []"
        using Inr choose_tool_none by (metis sum.distinct(1))
      ultimately show ?thesis
        using \<open>probe (sj_target s) = Inr server\<close> \<open>?found = Inr cs\<close> by (auto split: if_splits)
    qed
  qed
qed

context tool_finder
begin

lemma verifiable_on_the_host:
  assumes "verifiability_of find_tools s server = None"
    and "si_family server = PostgreSQL" and "sj_container s = []"
  shows "\<exists>c cs. find_tools PostgreSQL Restore = Inr (c # cs) \<and> ca_family c = PostgreSQL \<and> ca_tool c = Restore"
proof -
  from assms obtain cs where cs: "find_tools PostgreSQL Restore = Inr cs" "cs \<noteq> []"
    by (auto simp: verifiability_of_def split: sum.splits if_splits)
  then obtain c cs' where "cs = c # cs'" by (cases cs) auto
  with cs found_family [of PostgreSQL Restore cs c] found_tool [of PostgreSQL Restore cs c] show ?thesis by simp
qed

end

end
