(* ===== verification/Engine_Finder.thy ===== *)
theory Engine_Finder
  imports Engine_Dump Diagnose "HOL-Library.Multiset"
begin

text \<open>
  Discovering tools: \<open>internal/engine/discover.go\<close> on the host and \<open>container.go\<close> inside the container of a
  database. What the file system, \<open>PATH\<close> and the binaries answer is a parameter, and so is the order in
  which Go walks a map. The cache of a finder is explicit state.
\<close>

section \<open>Names and places\<close>

fun binary_names :: "family \<Rightarrow> tool \<Rightarrow> string list option" where
  "binary_names PostgreSQL Dump = Some [''pg_dump'']"
| "binary_names PostgreSQL Restore = Some [''pg_restore'']"
| "binary_names MySQL Dump = Some [''mysqldump'']"
| "binary_names MySQL Restore = Some [''mysql'']"
| "binary_names MariaDB Dump = Some [''mariadb-dump'', ''mysqldump'']"
| "binary_names MariaDB Restore = Some [''mariadb'', ''mysql'']"
| "binary_names (UnknownFamily s) t = None"

definition system_paths :: "string list" where
  "system_paths = [''/usr/bin'', ''/usr/local/bin'', ''/usr/lib/postgresql/*/bin'', ''/usr/pgsql-*/bin'',
     ''/usr/local/mysql/bin'', ''/opt/homebrew/bin'', ''/opt/homebrew/opt/*/bin'']"

definition default_cluster_root :: string where "default_cluster_root = ''/usr/lib/postgresql''"

text \<open>\<open>strings.Fields\<close> of what is ASCII.\<close>

fun split_fields :: "string \<Rightarrow> string \<Rightarrow> string list" where
  "split_fields word [] = (if word = [] then [] else [word])"
| "split_fields word (c # cs) =
     (if is_space c then (if word = [] then [] else [word]) @ split_fields [] cs else split_fields (word @ [c]) cs)"

section \<open>What the machine answers\<close>

type_synonym stat_info = "instant \<times> int"

record host =
  hs_glob :: "string \<Rightarrow> string list result"
  hs_symlinks :: "string \<Rightarrow> string result"
  hs_stat :: "string \<Rightarrow> stat_info result"
  hs_look_path :: "string \<Rightarrow> string result"
  hs_clusters :: "string \<Rightarrow> string result"
  hs_version :: "string \<Rightarrow> string result"
  hs_walk :: "(string \<times> source) list \<Rightarrow> (string \<times> source) list"

definition no_path :: "string \<Rightarrow> string result" where
  "no_path name = Inl (errors_new ''not on PATH'')"

record finder_options =
  fo_system_paths :: "string list"
  fo_managed_dir :: string
  fo_cluster_root :: string
  fo_look_path :: "string \<Rightarrow> string result"

record cached =
  kn_modified :: instant
  kn_size :: int
  kn_family :: family
  kn_version :: version
  kn_usable :: bool

record finder =
  fi_options :: finder_options
  fi_known :: "(string \<times> cached) list"

text \<open>
  \<open>NewFinder\<close> fills in what the options leave out: a nil list, an empty root, a nil function. The timeout only
  bounds what \<open>hs_version\<close> and \<open>hs_clusters\<close> wait for.
\<close>

definition new_finder ::
  "host \<Rightarrow> string list option \<Rightarrow> string \<Rightarrow> string \<Rightarrow> (string \<Rightarrow> string result) option \<Rightarrow> finder" where
  "new_finder h paths managed root look =
     \<lparr>fi_options =
        \<lparr>fo_system_paths = (case paths of None \<Rightarrow> system_paths | Some ps \<Rightarrow> ps), fo_managed_dir = managed,
         fo_cluster_root = (if root = [] then default_cluster_root else root),
         fo_look_path = (case look of None \<Rightarrow> hs_look_path h | Some l \<Rightarrow> l)\<rparr>,
      fi_known = []\<rparr>"

section \<open>What a tool says of itself\<close>

definition announces_itself :: "string \<Rightarrow> string \<Rightarrow> bool" where
  "announces_itself announced path =
     contains (to_lower (fst (cut (CHR '' '') (trim_space announced)))) (to_lower (filepath_base path))"

definition tool_family :: "string \<Rightarrow> family option" where
  "tool_family announced =
     (let lowered = to_lower announced
      in if contains lowered ''mariadb'' then Some MariaDB
         else if contains lowered ''postgresql'' \<or> contains lowered ''pg_dump'' \<or> contains lowered ''pg_restore''
         then Some PostgreSQL
         else if contains lowered ''mysql'' then Some MySQL
         else None)"

definition run_version :: "host \<Rightarrow> string \<Rightarrow> stat_info \<Rightarrow> cached" where
  "run_version h path info =
     (let unusable = \<lparr>kn_modified = fst info, kn_size = snd info, kn_family = UnknownFamily [],
            kn_version = \<lparr>v_major = 0, v_minor = 0, v_patch = 0, v_raw = []\<rparr>, kn_usable = False\<rparr>
      in case hs_version h path of
           Inl e \<Rightarrow> unusable
         | Inr out \<Rightarrow>
             (let announced = trim_space out; version = parse_version announced
              in if version_is_zero version then unusable
                 else if \<not> announces_itself announced path then unusable
                 else case tool_family announced of
                   None \<Rightarrow> unusable
                 | Some family \<Rightarrow>
                     \<lparr>kn_modified = fst info, kn_size = snd info, kn_family = family, kn_version = version, kn_usable = True\<rparr>))"

section \<open>Where to look\<close>

definition managed_candidates :: "host \<Rightarrow> finder_options \<Rightarrow> string \<Rightarrow> string list" where
  "managed_candidates h opts name =
     (if fo_managed_dir opts = [] then []
      else case hs_glob h (filepath_join [fo_managed_dir opts, ''*'', ''*'', ''bin'', name]) of
             Inl e \<Rightarrow> [] | Inr matches \<Rightarrow> matches)"

definition cluster_paths :: "string \<Rightarrow> string \<Rightarrow> string \<Rightarrow> string list" where
  "cluster_paths root name out =
     concat (map (\<lambda>line. case split_fields [] line of
         [] \<Rightarrow> []
       | major # _ \<Rightarrow>
           if version_is_zero (parse_version major) then [] else [filepath_join [root, major, ''bin'', name]])
       (split_on newline out))"

definition cluster_candidates :: "host \<Rightarrow> finder_options \<Rightarrow> string \<Rightarrow> string list" where
  "cluster_candidates h opts name =
     (if \<not> has_prefix name ''pg_'' then []
      else case fo_look_path opts ''pg_lsclusters'' of
        Inl e \<Rightarrow> []
      | Inr lsclusters \<Rightarrow>
          (case hs_clusters h lsclusters of
             Inl e \<Rightarrow> []
           | Inr out \<Rightarrow> cluster_paths (fo_cluster_root opts) name out))"

definition system_candidates :: "host \<Rightarrow> finder_options \<Rightarrow> string \<Rightarrow> string list" where
  "system_candidates h opts name =
     concat (map (\<lambda>pattern. case hs_glob h pattern of
         Inl e \<Rightarrow> [] | Inr directories \<Rightarrow> map (\<lambda>d. filepath_join [d, name]) directories) (fo_system_paths opts))"

definition path_candidates :: "finder_options \<Rightarrow> string \<Rightarrow> string list" where
  "path_candidates opts name = (case fo_look_path opts name of Inl e \<Rightarrow> [] | Inr path \<Rightarrow> [path])"

definition add_location ::
  "host \<Rightarrow> string \<times> source \<Rightarrow> (string \<times> source) list \<times> string list \<Rightarrow> (string \<times> source) list \<times> string list" where
  "add_location h place found =
     (case hs_symlinks h (fst place) of
        Inl e \<Rightarrow> found
      | Inr resolved \<Rightarrow>
          if resolved \<in> set (snd found) then found
          else (AList.update (fst place) (snd place) (fst found), resolved # snd found))"

definition places_of :: "host \<Rightarrow> finder_options \<Rightarrow> string \<Rightarrow> (string \<times> source) list" where
  "places_of h opts name =
     map (\<lambda>p. (p, Managed)) (managed_candidates h opts name) @
     map (\<lambda>p. (p, Host)) (system_candidates h opts name @ cluster_candidates h opts name @ path_candidates opts name)"

definition locations :: "host \<Rightarrow> finder_options \<Rightarrow> string list \<Rightarrow> (string \<times> source) list" where
  "locations h opts names = fst (fold (add_location h) (concat (map (places_of h opts) names)) ([], []))"

section \<open>Finding\<close>

definition identify_tool :: "host \<Rightarrow> string \<Rightarrow> source \<Rightarrow> tool \<Rightarrow> finder \<Rightarrow> candidate option \<times> finder" where
  "identify_tool h path src t f =
     (case hs_stat h path of
        Inl e \<Rightarrow> (None, f)
      | Inr info \<Rightarrow>
          (let (learned, f1) =
             (case map_of (fi_known f) path of
                Some k \<Rightarrow>
                  if kn_modified k = fst info \<and> kn_size k = snd info then (k, f)
                  else (run_version h path info, f\<lparr>fi_known := AList.update path (run_version h path info) (fi_known f)\<rparr>)
              | None \<Rightarrow> (run_version h path info, f\<lparr>fi_known := AList.update path (run_version h path info) (fi_known f)\<rparr>))
           in (if kn_usable learned
               then Some \<lparr>ca_family = kn_family learned, ca_tool = t, ca_path = path, ca_version = kn_version learned,
                          ca_source = src\<rparr>
               else None, f1)))"

fun identify_all :: "host \<Rightarrow> family \<Rightarrow> tool \<Rightarrow> (string \<times> source) list \<Rightarrow> finder \<Rightarrow> candidate list \<times> finder" where
  "identify_all h family t [] f = ([], f)"
| "identify_all h family t ((path, src) # places) f =
     (case identify_tool h path src t f of
        (found, f1) \<Rightarrow>
          (case identify_all h family t places f1 of
             (cs, f2) \<Rightarrow>
               ((case found of Some c \<Rightarrow> if ca_family c = family then [c] else [] | None \<Rightarrow> []) @ cs, f2)))"

definition unsupported_engine :: gerr where
  "unsupported_engine = Gerr [ErrUnsupportedEngine] ''koffr does not know this engine''"

definition find_host :: "host \<Rightarrow> family \<Rightarrow> tool \<Rightarrow> finder \<Rightarrow> candidate list result \<times> finder" where
  "find_host h family t f =
     (case binary_names family t of
        None \<Rightarrow> (Inl unsupported_engine, f)
      | Some names \<Rightarrow>
          (case identify_all h family t (hs_walk h (locations h (fi_options f) names)) f of (cs, f1) \<Rightarrow> (Inr cs, f1)))"

section \<open>Inside a container\<close>

definition run_inside :: "docker \<Rightarrow> string \<Rightarrow> string \<Rightarrow> string result" where
  "run_inside dk name binary =
     (case dk_exec dk name [binary, ''--version''] None of
        Inl e \<Rightarrow> Inl (errorf (''ask '' @ binary @ '' for its version in '' @ name) e)
      | Inr execution \<Rightarrow>
          (case dk_attach dk execution of
             Inl e \<Rightarrow> Inl (errorf (''read what '' @ binary @ '' answered in '' @ name) e)
           | Inr s \<Rightarrow>
               (case snd (ss_reader s) of
                  Some e \<Rightarrow> Inl (errorf (''read what '' @ binary @ '' answered in '' @ name) e)
                | None \<Rightarrow>
                    (let answer = trim_space (fst (ss_reader s))
                     in Inr (if answer = [] then trim_space (concat (ss_said s)) else answer)))))"

definition container_candidate :: "docker \<Rightarrow> string \<Rightarrow> tool \<Rightarrow> string \<Rightarrow> candidate list" where
  "container_candidate dk name t binary =
     (case run_inside dk name binary of
        Inl e \<Rightarrow> []
      | Inr announced \<Rightarrow>
          (let version = parse_version announced
           in if version_is_zero version then []
              else if \<not> announces_itself announced binary then []
              else case tool_family announced of
                None \<Rightarrow> []
              | Some family \<Rightarrow>
                  [\<lparr>ca_family = family, ca_tool = t, ca_path = binary, ca_version = version, ca_source = Container\<rparr>]))"

definition find_in :: "docker \<Rightarrow> string \<Rightarrow> string \<Rightarrow> family \<Rightarrow> tool \<Rightarrow> candidate list result" where
  "find_in dk socket name family t =
     (case binary_names family t of
        None \<Rightarrow> Inl unsupported_engine
      | Some names \<Rightarrow>
          (case docker_connect dk socket of
             Some e \<Rightarrow> Inl (errorf (''reach Docker to look inside '' @ name) e)
           | None \<Rightarrow>
               (case dk_inspect dk name of
                  Some e \<Rightarrow> Inl (errorf (''look inside the container '' @ name) e)
                | None \<Rightarrow> Inr (concat (map (container_candidate dk name t) names)))))"

section \<open>The cache\<close>

text \<open>Identifying a tool without the cache, and the search of a host without it.\<close>

definition identified :: "host \<Rightarrow> tool \<Rightarrow> string \<times> source \<Rightarrow> candidate option" where
  "identified h t place =
     (case hs_stat h (fst place) of
        Inl e \<Rightarrow> None
      | Inr info \<Rightarrow>
          (let k = run_version h (fst place) info
           in if kn_usable k
              then Some \<lparr>ca_family = kn_family k, ca_tool = t, ca_path = fst place, ca_version = kn_version k,
                         ca_source = snd place\<rparr>
              else None))"

definition search :: "host \<Rightarrow> finder_options \<Rightarrow> family \<Rightarrow> tool \<Rightarrow> candidate list result" where
  "search h opts family t =
     (case binary_names family t of
        None \<Rightarrow> Inl unsupported_engine
      | Some names \<Rightarrow>
          Inr (filter (\<lambda>c. ca_family c = family)
                 (List.map_filter (identified h t) (hs_walk h (locations h opts names)))))"

definition cache_true :: "host \<Rightarrow> (string \<times> cached) list \<Rightarrow> bool" where
  "cache_true h known = list_all (\<lambda>(p, k). k = run_version h p (kn_modified k, kn_size k)) known"

lemma run_version_stat [simp]:
  "kn_modified (run_version h p info) = fst info" "kn_size (run_version h p info) = snd info"
  by (simp_all add: run_version_def Let_def split: sum.split option.split)

lemma cache_true_update:
  "cache_true h known \<Longrightarrow> cache_true h (AList.update p (run_version h p info) known)"
  by (induction known) (auto simp: cache_true_def)

lemma cache_true_lookup:
  "cache_true h known \<Longrightarrow> map_of known p = Some k \<Longrightarrow> k = run_version h p (kn_modified k, kn_size k)"
  by (auto simp: cache_true_def list_all_iff dest!: map_of_SomeD)

lemma identify_tool_cached:
  assumes "cache_true h (fi_known f)" and "identify_tool h p src t f = (c, f1)"
  shows "c = identified h t (p, src)" and "cache_true h (fi_known f1)" and "fi_options f1 = fi_options f"
  using assms cache_true_lookup [OF assms(1), of p] cache_true_update [OF assms(1)]
  by (auto simp: identify_tool_def identified_def Let_def split: sum.splits option.splits if_splits)

lemma identify_all_cached:
  assumes "cache_true h (fi_known f)" and "identify_all h family t places f = (cs, f1)"
  shows "cs = filter (\<lambda>c. ca_family c = family) (List.map_filter (identified h t) places)
    \<and> cache_true h (fi_known f1) \<and> fi_options f1 = fi_options f"
  using assms
proof (induction places arbitrary: f cs f1)
  case Nil
  then show ?case by (simp add: map_filter_simps)
next
  case (Cons place places)
  obtain p src where place: "place = (p, src)" by (cases place)
  obtain c f2 where one: "identify_tool h p src t f = (c, f2)" by fastforce
  obtain rest f3 where more: "identify_all h family t places f2 = (rest, f3)" by fastforce
  note now = identify_tool_cached [OF Cons.prems(1) one]
  have "rest = filter (\<lambda>c. ca_family c = family) (List.map_filter (identified h t) places)
      \<and> cache_true h (fi_known f3) \<and> fi_options f3 = fi_options f2"
    by (rule Cons.IH [OF now(2) more])
  with Cons.prems(2) place one more now show ?case
    by (auto simp: map_filter_simps split: option.splits)
qed

text \<open>
  The cache of a finder changes nothing but the number of binaries it runs (RSV-03): from a cache that
  tells what each binary announced when it had that date and that size, a search finds what a search without
  a cache finds, and it leaves such a cache.
\<close>

lemma caching_changes_nothing:
  assumes "cache_true h (fi_known f)" and "find_host h family t f = (found, f1)"
  shows "found = search h (fi_options f) family t \<and> cache_true h (fi_known f1) \<and> fi_options f1 = fi_options f"
proof (cases "binary_names family t")
  case None
  with assms show ?thesis by (simp add: find_host_def search_def)
next
  case (Some names)
  obtain cs f2 where all: "identify_all h family t (hs_walk h (locations h (fi_options f) names)) f = (cs, f2)"
    by fastforce
  from identify_all_cached [OF assms(1) all] Some all assms(2) show ?thesis
    by (simp add: find_host_def search_def)
qed

lemma identified_says:
  assumes "identified h t place = Some c"
  shows "\<exists>out. hs_version h (ca_path c) = Inr out \<and> tool_family (trim_space out) = Some (ca_family c)
      \<and> ca_version c = parse_version (trim_space out) \<and> announces_itself (trim_space out) (ca_path c)"
    and "ca_tool c = t" and "ca_path c = fst place"
  using assms
  by (auto simp: identified_def run_version_def Let_def split: sum.splits option.splits if_splits)

lemma search_family:
  assumes "search h opts family t = Inr cs" and "c \<in> set cs"
  shows "ca_family c = family" and "ca_tool c = t"
  using assms by (auto simp: search_def map_filter_def identified_says(2) split: option.splits)

interpretation host_tools: tool_finder "search h opts" for h opts
  by unfold_locales (simp_all add: search_family)

lemma find_host_search: "fst (find_host h family t (new_finder h paths managed root look))
    = search h (fi_options (new_finder h paths managed root look)) family t"
proof (cases "binary_names family t")
  case None
  then show ?thesis by (simp add: find_host_def search_def)
next
  case (Some names)
  let ?f = "new_finder h paths managed root look"
  obtain cs f2 where all: "identify_all h family t (hs_walk h (locations h (fi_options ?f) names)) ?f = (cs, f2)"
    by fastforce
  have "cache_true h (fi_known ?f)" by (simp add: new_finder_def cache_true_def)
  from identify_all_cached [OF this all] Some all show ?thesis
    by (simp add: find_host_def search_def)
qed

section \<open>One candidate for one binary\<close>

definition same_binary :: "host \<Rightarrow> string \<Rightarrow> string option" where
  "same_binary h path = (case hs_symlinks h path of Inl e \<Rightarrow> None | Inr resolved \<Rightarrow> Some resolved)"

definition tried_once :: "host \<Rightarrow> (string \<times> source) list \<times> string list \<Rightarrow> bool" where
  "tried_once h found \<longleftrightarrow>
     distinct (map (same_binary h \<circ> fst) (fst found)) \<and> (same_binary h \<circ> fst) ` set (fst found) = Some ` set (snd found)"

lemma update_new: "k \<notin> fst ` set al \<Longrightarrow> AList.update k v al = al @ [(k, v)]"
  by (induction al) auto

lemma add_location_once:
  assumes once: "tried_once h found"
  shows "tried_once h (add_location h place found)"
proof (cases "hs_symlinks h (fst place)")
  case (Inl e)
  with once show ?thesis by (simp add: add_location_def)
next
  case (Inr resolved)
  show ?thesis
  proof (cases "resolved \<in> set (snd found)")
    case True
    with once Inr show ?thesis by (simp add: add_location_def)
  next
    case False
    with once have new: "Some resolved \<notin> (same_binary h \<circ> fst) ` set (fst found)"
      by (auto simp: tried_once_def)
    have sb: "same_binary h (fst place) = Some resolved"
      using Inr by (simp add: same_binary_def)
    have "fst place \<notin> fst ` set (fst found)"
    proof
      assume "fst place \<in> fst ` set (fst found)"
      then obtain q where "q \<in> set (fst found)" "fst q = fst place" by auto
      then have "Some resolved \<in> (same_binary h \<circ> fst) ` set (fst found)"
        using sb by (intro image_eqI [of _ _ q]) simp_all
      with new show False ..
    qed
    then have "add_location h place found = (fst found @ [place], resolved # snd found)"
      using Inr False by (simp add: add_location_def update_new)
    with once new sb show ?thesis
      by (simp add: tried_once_def del: image_comp)
  qed
qed

lemma locations_once: "distinct (map (same_binary h \<circ> fst) (locations h opts names))"
proof -
  have "tried_once h (fold (add_location h) places found)" if "tried_once h found" for places found
    using that by (induction places arbitrary: found) (simp_all add: add_location_once)
  from this [of "([], [])"] show ?thesis
    by (simp add: tried_once_def locations_def)
qed

lemma distinct_keys_of_found:
  assumes "\<And>x y. f x = Some y \<Longrightarrow> key y = k x" and "distinct (map k xs)"
  shows "distinct (map key (List.map_filter f xs)) \<and> key ` set (List.map_filter f xs) \<subseteq> k ` set xs"
  using assms(2)
proof (induction xs)
  case (Cons x xs)
  then show ?case using assms(1) [of x] by (auto simp: map_filter_simps split: option.splits)
qed (simp add: map_filter_simps)

text \<open>
  What a search finds speaks for itself (E-041, RSV-02): every candidate is of the family and for the
  operation that were asked for, its family and its version are read from what it answered to \<open>--version\<close>,
  which begins with the name it was run under, and no two candidates are the same binary, in whatever order
  the places are walked.
\<close>

lemma found_tools_speak_for_themselves:
  assumes "search h opts family t = Inr cs"
    and "\<And>places. mset (hs_walk h places) = mset places"
  shows "distinct (map (same_binary h \<circ> ca_path) cs)
    \<and> set cs \<subseteq> {c. ca_family c = family \<and> ca_tool c = t
         \<and> (\<exists>out. hs_version h (ca_path c) = Inr out \<and> tool_family (trim_space out) = Some family
              \<and> ca_version c = parse_version (trim_space out) \<and> announces_itself (trim_space out) (ca_path c))}"
proof -
  from assms(1) obtain names where cs: "cs = filter (\<lambda>c. ca_family c = family)
      (List.map_filter (identified h t) (hs_walk h (locations h opts names)))"
    by (auto simp: search_def split: option.splits)
  have "mset (map (same_binary h \<circ> fst) (hs_walk h (locations h opts names)))
      = mset (map (same_binary h \<circ> fst) (locations h opts names))"
    using assms(2) by simp
  then have "distinct (map (same_binary h \<circ> fst) (hs_walk h (locations h opts names)))"
    using locations_once [of h opts names] mset_eq_imp_distinct_iff by blast
  then have "distinct (map (same_binary h \<circ> ca_path) (List.map_filter (identified h t) (hs_walk h (locations h opts names))))"
    using distinct_keys_of_found [of "identified h t" "same_binary h \<circ> ca_path" "same_binary h \<circ> fst"] identified_says(3)
    by (metis comp_apply)
  then have "distinct (map (same_binary h \<circ> ca_path) cs)"
    unfolding cs by (rule distinct_map_filter)
  moreover have "\<exists>out. hs_version h (ca_path c) = Inr out \<and> tool_family (trim_space out) = Some family
              \<and> ca_version c = parse_version (trim_space out) \<and> announces_itself (trim_space out) (ca_path c)"
    if "c \<in> set cs" for c
    using that identified_says(1) by (fastforce simp: cs map_filter_def)
  ultimately show ?thesis
    using search_family [OF assms(1)] by blast
qed

section \<open>A machine with one tool\<close>

definition sample_host :: host where
  "sample_host =
     \<lparr>hs_glob = (\<lambda>pattern. if pattern = ''/usr/bin'' then Inr [pattern] else Inr []),
      hs_symlinks = (\<lambda>path. if path = ''/usr/bin/pg_dump'' then Inr path else Inl (errors_new ''no such file'')),
      hs_stat = (\<lambda>path. if path = ''/usr/bin/pg_dump'' then Inr (7, 9) else Inl (errors_new ''no such file'')),
      hs_look_path = no_path, hs_clusters = (\<lambda>_. Inl (errors_new ''not run'')),
      hs_version = (\<lambda>_. Inr ''pg_dump (PostgreSQL) 16.2''), hs_walk = (\<lambda>places. places)\<rparr>"

definition sample_dump_tool :: candidate where
  "sample_dump_tool = \<lparr>ca_family = PostgreSQL, ca_tool = Dump, ca_path = ''/usr/bin/pg_dump'',
     ca_version = parse_version ''pg_dump (PostgreSQL) 16.2'', ca_source = Host\<rparr>"

lemma sample_search:
  "search sample_host (fi_options (new_finder sample_host None [] [] None)) PostgreSQL Dump = Inr [sample_dump_tool]"
  unfolding sample_host_def sample_dump_tool_def by code_simp

theorem found_tools_speak_for_themselves_witness:
  "announces_itself (trim_space ''pg_dump (PostgreSQL) 16.2'') (ca_path sample_dump_tool)
    \<and> tool_family (trim_space ''pg_dump (PostgreSQL) 16.2'') = Some (ca_family sample_dump_tool)"
  using found_tools_speak_for_themselves [OF sample_search]
  by (simp add: sample_host_def sample_dump_tool_def)

theorem caching_changes_nothing_witness:
  "fst (find_host sample_host PostgreSQL Dump (new_finder sample_host None [] [] None)) = Inr [sample_dump_tool]"
proof -
  let ?f = "new_finder sample_host None [] [] None"
  have "cache_true sample_host (fi_known ?f)" by (simp add: new_finder_def cache_true_def)
  from caching_changes_nothing [OF this, of PostgreSQL Dump] show ?thesis
    using sample_search by (metis fst_conv prod.collapse)
qed

end
