(* ===== verification/Go_URL.thy ===== *)
theory Go_URL
  imports Go_JSON
begin

text \<open>
  The part of Go's \<open>net/url\<close> the program uses: what each part of an address escapes, the encoding of a
  query, and how the user of an address is read back.
\<close>

fun upper_hex :: "nat \<Rightarrow> nat \<Rightarrow> string" where
  "upper_hex 0 n = []"
| "upper_hex (Suc w) n = upper_hex w (n div 16) @ [''0123456789ABCDEF'' ! (n mod 16)]"

definition unreserved :: string where
  "unreserved = ''ABCDEFGHIJKLMNOPQRSTUVWXYZabcdefghijklmnopqrstuvwxyz0123456789-_.~''"

definition kept_in_user :: "char \<Rightarrow> bool" where
  "kept_in_user c \<longleftrightarrow> c \<in> set unreserved \<or> c \<in> set ''$&+,;=''"

definition kept_in_path :: "char \<Rightarrow> bool" where
  "kept_in_path c \<longleftrightarrow> c \<in> set unreserved \<or> c \<in> set ''$&+,/:;=@''"

definition kept_in_host :: "char \<Rightarrow> bool" where
  "kept_in_host c \<longleftrightarrow> c \<in> set unreserved \<or> c \<in> set ''!$&()*+,;=:[]<>'' \<or> c = CHR 0x27 \<or> c = CHR 0x22"

definition percent :: "char \<Rightarrow> string" where
  "percent c = CHR ''%'' # upper_hex 2 (of_char c)"

definition url_escape :: "(char \<Rightarrow> bool) \<Rightarrow> string \<Rightarrow> string" where
  "url_escape keep s = concat (map (\<lambda>c. if keep c then [c] else percent c) s)"

definition query_escape :: "string \<Rightarrow> string" where
  "query_escape s =
     concat (map (\<lambda>c. if c \<in> set unreserved then [c] else if c = CHR '' '' then ''+'' else percent c) s)"

text \<open>\<open>Values.Encode\<close> of one key.\<close>

definition encode_query :: "string \<Rightarrow> string list \<Rightarrow> string" where
  "encode_query key vs = join_with ''&'' (map (\<lambda>v. query_escape key @ ''='' @ query_escape v) vs)"

fun url_unescape :: "string \<Rightarrow> string option" where
  "url_unescape [] = Some []"
| "url_unescape (c # s) =
     (if c \<noteq> CHR ''%'' then map_option ((#) c) (url_unescape s)
      else case s of
        a # b # rest \<Rightarrow>
          (case (hex_value a, hex_value b) of
             (Some x, Some y) \<Rightarrow> map_option ((#) (char_of (16 * x + y))) (url_unescape rest)
           | _ \<Rightarrow> None)
      | _ \<Rightarrow> None)"

text \<open>\<open>url.UserPassword\<close>, and the user of an address as \<open>url.Parse\<close> reads it: what is before the last at-sign of the authority, cut at its first colon.\<close>

definition user_info :: "string \<Rightarrow> string \<Rightarrow> string" where
  "user_info user password = url_escape kept_in_user user @ '':'' @ url_escape kept_in_user password"

definition authority_of :: "string \<Rightarrow> string" where
  "authority_of rest = takeWhile (\<lambda>c. c \<noteq> CHR ''/'' \<and> c \<noteq> CHR ''?'') rest"

definition user_of_authority :: "string \<Rightarrow> (string \<times> string) option" where
  "user_of_authority authority =
     (let i = last_index (CHR ''@'') authority
      in if i < 0 then None
         else case cut (CHR '':'') (take (nat i) authority) of
           (user, password, _) \<Rightarrow>
             (case (url_unescape user, url_unescape password) of (Some u, Some p) \<Rightarrow> Some (u, p) | _ \<Rightarrow> None))"

section \<open>What an escape keeps\<close>

lemma hex_value_upper: "n < 16 \<Longrightarrow> hex_value (''0123456789ABCDEF'' ! n) = Some n"
proof -
  assume "n < 16"
  then have "n \<in> set [0..<16]" by simp
  moreover have "list_all (\<lambda>n. hex_value (''0123456789ABCDEF'' ! n) = Some n) [0..<16]" by code_simp
  ultimately show ?thesis by (simp only: list_all_iff)
qed

lemma unescape_percent: "url_unescape (percent c @ s) = map_option ((#) c) (url_unescape s)"
proof -
  have b: "(of_char c :: nat) < 256" by simp
  then have d: "(of_char c :: nat) div 16 < 16" by (simp add: div_less_iff_less_mult)
  have "percent c = [CHR ''%'', ''0123456789ABCDEF'' ! (of_char c div 16), ''0123456789ABCDEF'' ! (of_char c mod 16)]"
    using d by (simp add: percent_def numeral_2_eq_2)
  then show ?thesis by (simp add: hex_value_upper[OF d] hex_value_upper[of "of_char c mod 16"])
qed

lemma unescape_escape:
  assumes "\<not> keep (CHR ''%'')"
  shows "url_unescape (url_escape keep s) = Some s"
  unfolding url_escape_def
proof (induction s)
  case (Cons c s)
  then show ?case using assms by (cases "keep c") (auto simp: unescape_percent)
qed simp

definition hex_digits :: "char set" where "hex_digits = set ''0123456789ABCDEF''"

lemma upper_hex_set: "set (upper_hex w n) \<subseteq> hex_digits"
proof (induction w arbitrary: n)
  case (Suc w)
  have "''0123456789ABCDEF'' ! (n mod 16) \<in> hex_digits" unfolding hex_digits_def by (rule nth_mem) simp
  with Suc show ?case by simp
qed simp

lemma escape_leaves_out:
  assumes "\<not> keep c" "c \<noteq> CHR ''%''" "c \<notin> hex_digits"
  shows "c \<notin> set (url_escape keep s)"
proof -
  have "c \<notin> set (if keep x then [x] else percent x)" for x
    using assms upper_hex_set[of 2 "of_char x"] by (auto simp: percent_def simp del: upper_hex.simps)
  then show ?thesis unfolding url_escape_def set_concat set_map by blast
qed

lemma not_kept_in_user:
  "\<not> kept_in_user (CHR ''/'')" "\<not> kept_in_user (CHR ''?'')" "\<not> kept_in_user (CHR ''@'')" "\<not> kept_in_user (CHR '':'')"
  "\<not> kept_in_user (CHR ''%'')"
  by code_simp+

lemma not_hex: "CHR ''/'' \<notin> hex_digits" "CHR ''?'' \<notin> hex_digits" "CHR ''@'' \<notin> hex_digits" "CHR '':'' \<notin> hex_digits"
  by code_simp+

lemma user_info_leaves_out: "c \<in> {CHR ''/'', CHR ''?'', CHR ''@''} \<Longrightarrow> c \<notin> set (user_info user password)"
  using escape_leaves_out[of kept_in_user c] not_kept_in_user not_hex by (auto simp: user_info_def)

lemma user_read_back:
  assumes "CHR ''@'' \<notin> set host" "CHR ''/'' \<notin> set host" "CHR ''?'' \<notin> set host"
  shows "user_of_authority (authority_of (user_info user password @ ''@'' @ host @ ''/'' @ rest)) = Some (user, password)"
proof -
  let ?u = "user_info user password"
  have "authority_of ((?u @ ''@'' @ host) @ CHR ''/'' # rest) = ?u @ ''@'' @ host"
    unfolding authority_of_def using user_info_leaves_out[of _ user password] assms(2,3)
    by (subst takeWhile_tail) (auto simp: takeWhile_eq_all_conv)
  then have "authority_of (?u @ ''@'' @ host @ ''/'' @ rest) = ?u @ ''@'' @ host" by simp
  moreover have "last_index (CHR ''@'') (?u @ ''@'' @ host) = int (length ?u)"
    using last_index_append[OF assms(1), of ?u] by simp
  moreover have "cut (CHR '':'') ?u = (url_escape kept_in_user user, url_escape kept_in_user password, True)"
    using escape_leaves_out[of kept_in_user "CHR '':''" user] not_kept_in_user(4) not_hex(4) by (simp add: user_info_def)
  ultimately show ?thesis by (simp add: user_of_authority_def unescape_escape[of kept_in_user, simplified not_kept_in_user] not_kept_in_user)
qed

end
