(* ===== verification/Engine_Probe.thy ===== *)
theory Engine_Probe
  imports Resolve Go_JSON Go_URL
begin

text \<open>
  Asking a server what it is: \<open>internal/engine/engine.go\<close>, \<open>mysql.go\<close> and \<open>postgresql.go\<close>. The drivers are
  parameters: what a connection and each query answer. An error of a driver is the server's own, with its
  code and its message, or anything else.
\<close>

datatype driver_error = ServerError string string gerr | OtherError gerr

definition wrapping :: "sentinel \<Rightarrow> string \<Rightarrow> string \<Rightarrow> gerr" where
  "wrapping s name why = Gerr [s] (name @ '': '' @ why)"

definition unreachable :: "gerr \<Rightarrow> gerr" where
  "unreachable e = Gerr (ErrUnreachable # err_wraps e) (''the server did not answer: '' @ err_said e)"

fun driver_failure :: "string list \<Rightarrow> string list \<Rightarrow> driver_error \<Rightarrow> gerr" where
  "driver_failure denied absent (ServerError code said e) =
     (if code \<in> set denied then wrapping ErrDenied ''the server refused these credentials'' said
      else if code \<in> set absent then wrapping ErrNoSuchDatabase ''the server has no such database'' said
      else unreachable e)"
| "driver_failure denied absent (OtherError e) = unreachable e"

definition mysql_failure :: "driver_error \<Rightarrow> gerr" where
  "mysql_failure e = driver_failure [''1045''] [''1049''] e"

definition postgres_failure :: "driver_error \<Rightarrow> gerr" where
  "postgres_failure e = driver_failure [''28P01'', ''28000''] [''3D000''] e"

record mysql_config =
  my_net :: string
  my_addr :: string
  my_user :: string
  my_passwd :: string
  my_name :: string
  my_timeout :: int
  my_read_timeout :: int

definition mysql_config_of :: "target \<Rightarrow> mysql_config" where
  "mysql_config_of t =
     \<lparr>my_net = ''tcp'', my_addr = t_host t @ '':'' @ dec_int (t_port t), my_user = t_user t,
      my_passwd = t_password t, my_name = t_database t, my_timeout = 5 * 1000000000, my_read_timeout = 5 * 1000000000\<rparr>"

text \<open>The rows of a query come one by one; each may fail to be read, and the walk may end with an error.\<close>

record mysql_server =
  ms_connector :: "gerr option"
  ms_version :: "driver_error + string"
  ms_tables :: "gerr + (gerr + string) list \<times> gerr option"
  ms_size :: "int option"

fun read_names :: "(gerr + string) list \<Rightarrow> string list \<Rightarrow> gerr + string list" where
  "read_names [] found = Inr found"
| "read_names (Inl e # rows) found = Inl e"
| "read_names (Inr name # rows) found = read_names rows (found @ [name])"

definition myisam_tables :: "mysql_server \<Rightarrow> string list \<times> string" where
  "myisam_tables m =
     (case ms_tables m of
        Inl e \<Rightarrow> ([], err_said e)
      | Inr (rows, ended) \<Rightarrow>
          (case read_names rows [] of
             Inl e \<Rightarrow> ([], err_said e)
           | Inr found \<Rightarrow> (case ended of Some e \<Rightarrow> ([], err_said e) | None \<Rightarrow> (found, []))))"

definition family_of_banner :: "string \<Rightarrow> family" where
  "family_of_banner announced = (if contains (to_lower announced) ''mariadb'' then MariaDB else MySQL)"

definition mysql_bytes :: "mysql_server \<Rightarrow> int" where
  "mysql_bytes m = (case ms_size m of None \<Rightarrow> 0 | Some n \<Rightarrow> n)"

definition probe_mysql_family :: "(mysql_config \<Rightarrow> mysql_server) \<Rightarrow> target \<Rightarrow> server_info result" where
  "probe_mysql_family connect t =
     (let m = connect (mysql_config_of t)
      in case ms_connector m of
           Some e \<Rightarrow> Inl (unreachable e)
         | None \<Rightarrow>
             (case ms_version m of
                Inl e \<Rightarrow> Inl (mysql_failure e)
              | Inr announced \<Rightarrow>
                  Inr \<lparr>si_reachable = True, si_family = family_of_banner announced, si_version = parse_version announced,
                       si_myisam_tables = fst (myisam_tables m), si_database_bytes = mysql_bytes m,
                       si_myisam_unknown = snd (myisam_tables m)\<rparr>))"

text \<open>\<open>postgresURL\<close>: the address of the server, with the user and the password.\<close>

definition postgres_url :: "target \<Rightarrow> string" where
  "postgres_url t =
     ''postgres://'' @ user_info (t_user t) (t_password t) @ ''@'' @
     url_escape kept_in_host (t_host t @ '':'' @ dec_int (t_port t)) @ url_escape kept_in_path (''/'' @ t_database t) @
     ''?'' @ encode_query ''connect_timeout'' [''5'']"

text \<open>What PostgreSQL answers to a connection: its \<open>server_version\<close>, and the size of the database when it tells.\<close>

definition probe_postgres :: "(string \<Rightarrow> driver_error + string \<times> int option) \<Rightarrow> target \<Rightarrow> server_info result" where
  "probe_postgres connect t =
     (case connect (postgres_url t) of
        Inl e \<Rightarrow> Inl (postgres_failure e)
      | Inr (announced, measured) \<Rightarrow>
          Inr \<lparr>si_reachable = True, si_family = PostgreSQL, si_version = parse_version announced, si_myisam_tables = [],
               si_database_bytes = (case measured of None \<Rightarrow> 0 | Some n \<Rightarrow> n), si_myisam_unknown = []\<rparr>)"

record drivers =
  dv_mysql :: "mysql_config \<Rightarrow> mysql_server"
  dv_postgres :: "string \<Rightarrow> driver_error + string \<times> int option"

definition probe_server :: "drivers \<Rightarrow> target \<Rightarrow> server_info result" where
  "probe_server dv t =
     (case t_engine t of
        PostgreSQL \<Rightarrow> probe_postgres (dv_postgres dv) t
      | MySQL \<Rightarrow> probe_mysql_family (dv_mysql dv) t
      | MariaDB \<Rightarrow> probe_mysql_family (dv_mysql dv) t
      | UnknownFamily s \<Rightarrow> Inl (Gerr [ErrUnsupportedEngine] (''koffr does not know this engine: '' @ go_quote s)))"

section \<open>What a probe says\<close>

lemma read_names_reads: "read_names rows found = Inr names \<longleftrightarrow> rows = map Inr (drop (length found) names) \<and> take (length found) names = found"
proof (induction rows arbitrary: found)
  case Nil
  then show ?case by auto
next
  case (Cons row rows)
  show ?case
  proof (cases row)
    case (Inl e)
    then show ?thesis by (auto simp: Cons_eq_map_conv)
  next
    case (Inr name)
    have "rows = map Inr (drop (length (found @ [name])) names) \<and> take (length (found @ [name])) names = found @ [name]
        \<longleftrightarrow> Inr name # rows = map Inr (drop (length found) names) \<and> take (length found) names = found"
      by (cases "length found < length names")
        (auto simp: Cons_nth_drop_Suc [symmetric] take_Suc_conv_app_nth)
    with Cons.IH [of "found @ [name]"] Inr show ?thesis by simp
  qed
qed

text \<open>
  A probe never reports an absence of MyISAM tables it did not establish (E-056): with no reason for not
  knowing, the tables are all the rows the server gave, every one of them read; and the family of a server
  that answered is the one it announced, never the one that was declared (E-041).
\<close>

lemma probe_says_what_the_server_said:
  assumes "probe_mysql_family connect t = Inr s" and "si_myisam_unknown s = []"
    and "\<And>e rows ended. ms_tables (connect (mysql_config_of t)) = Inl e \<or> ms_tables (connect (mysql_config_of t)) = Inr (rows, Some e)
      \<or> (ms_tables (connect (mysql_config_of t)) = Inr (rows, ended) \<and> Inl e \<in> set rows) \<Longrightarrow> err_said e \<noteq> []"
  shows "ms_tables (connect (mysql_config_of t)) = Inr (map Inr (si_myisam_tables s), None)
    \<and> (\<exists>announced. ms_version (connect (mysql_config_of t)) = Inr announced \<and> si_version s = parse_version announced
         \<and> (si_family s = MariaDB \<longleftrightarrow> contains (to_lower announced) ''mariadb'') \<and> si_family s \<in> {MySQL, MariaDB})"
proof -
  let ?m = "connect (mysql_config_of t)"
  from assms(1) obtain announced where said: "ms_version ?m = Inr announced" "si_version s = parse_version announced"
      "si_family s = family_of_banner announced" and tables: "myisam_tables ?m = (si_myisam_tables s, si_myisam_unknown s)"
    by (auto simp: probe_mysql_family_def Let_def split: option.splits sum.splits)
  have "ms_tables ?m = Inr (map Inr (si_myisam_tables s), None)"
  proof (cases "ms_tables ?m")
    case (Inl e)
    with tables assms(2,3) show ?thesis by (simp add: myisam_tables_def)
  next
    case (Inr walk)
    obtain rows ended where walk: "walk = (rows, ended)" by (cases walk)
    have "\<not> (\<exists>e. read_names rows [] = Inl e \<and> err_said e = [])"
    proof -
      have "e \<in> {e. Inl e \<in> set rows}" if "read_names rows found = Inl e" for e found
        using that by (induction rows found rule: read_names.induct) auto
      with assms(3) Inr walk show ?thesis by blast
    qed
    with tables assms(2,3) Inr walk have "ended = None" "read_names rows [] = Inr (si_myisam_tables s)"
      by (auto simp: myisam_tables_def split: sum.splits option.splits)
    with Inr walk show ?thesis using read_names_reads [of rows "[]"] by simp
  qed
  with said show ?thesis by (auto simp: family_of_banner_def)
qed

section \<open>The address of a server\<close>

lemma not_kept_in_host: "\<not> kept_in_host (CHR ''/'')" "\<not> kept_in_host (CHR ''?'')" "\<not> kept_in_host (CHR ''@'')"
  by code_simp+

text \<open>Whatever bytes the user and the password hold, the address gives both back.\<close>

lemma address_gives_back_the_credentials:
  "user_of_authority (authority_of (trim_prefix (postgres_url t) ''postgres://'')) = Some (t_user t, t_password t)"
proof -
  let ?h = "url_escape kept_in_host (t_host t @ '':'' @ dec_int (t_port t))"
  have h: "CHR ''@'' \<notin> set ?h" "CHR ''/'' \<notin> set ?h" "CHR ''?'' \<notin> set ?h"
    using escape_leaves_out[of kept_in_host] not_kept_in_host not_hex by simp_all
  have "kept_in_path (CHR ''/'')" by code_simp
  then have "\<exists>rest. trim_prefix (postgres_url t) ''postgres://'' = user_info (t_user t) (t_password t) @ ''@'' @ ?h @ ''/'' @ rest"
    by (simp add: postgres_url_def trim_prefix_def url_escape_def)
  then show ?thesis using user_read_back[OF h] by auto
qed

end
