(* ===== verification/Catalog.thy ===== *)
theory Catalog
  imports Go_JSON Go_Time
begin

text \<open>
  The data of \<open>internal/domain/catalog\<close>: an archive and its copies (\<open>catalog.go\<close>), the snapshot of a
  database's configuration (\<open>database.go\<close>) and the manifest that lies beside an archive
  (\<open>manifest.go\<close>), written and read back. An instant is in nanoseconds, zero being the zero time.
\<close>

section \<open>Archives\<close>

datatype verification = UnsetVerification | NotVerified | Checksum | Structure | Failed

fun verification_name :: "verification \<Rightarrow> string" where
  "verification_name UnsetVerification = []"
| "verification_name NotVerified = ''none''"
| "verification_name Checksum = ''checksum''"
| "verification_name Structure = ''structure''"
| "verification_name Failed = ''failed''"

definition verified_at_all :: "verification \<Rightarrow> bool" where
  "verified_at_all v \<longleftrightarrow> v = Checksum \<or> v = Structure"

record stored_copy =
  sc_destination :: string
  sc_path :: string
  sc_bytes :: int
  sc_stored_at :: instant

record backup =
  bk_id :: string
  bk_database :: string
  bk_job :: string
  bk_started :: instant
  bk_finished :: instant
  bk_raw_bytes :: int
  bk_stored_bytes :: int
  bk_sha_raw :: string
  bk_sha_stored :: string
  bk_verified :: verification
  bk_verified_at :: instant
  bk_manifest :: string
  bk_locations :: "stored_copy list"

definition no_backup :: backup where
  "no_backup = \<lparr>bk_id = [], bk_database = [], bk_job = [], bk_started = 0, bk_finished = 0, bk_raw_bytes = 0,
     bk_stored_bytes = 0, bk_sha_raw = [], bk_sha_stored = [], bk_verified = UnsetVerification, bk_verified_at = 0,
     bk_manifest = [], bk_locations = []\<rparr>"

record filter_of =
  fl_database :: string
  fl_destination :: string
  fl_limit :: int

definition no_filter :: filter_of where
  "no_filter = \<lparr>fl_database = [], fl_destination = [], fl_limit = 0\<rparr>"

text \<open>
  Durations are \<open>int64\<close> nanoseconds: \<open>Sub\<close> saturates, \<open>Milliseconds\<close> truncates towards zero, and
  \<open>time.Duration(ms) * time.Millisecond\<close> wraps around.
\<close>

definition max_duration :: int where "max_duration = 2 ^ 63 - 1"

definition time_sub :: "instant \<Rightarrow> instant \<Rightarrow> int" where
  "time_sub a b = max (- (2 ^ 63)) (min max_duration (a - b))"

definition in_milliseconds :: "int \<Rightarrow> int" where
  "in_milliseconds d = d sdiv millisecond"

definition of_milliseconds :: "int \<Rightarrow> int" where
  "of_milliseconds ms = sint (word_of_int (ms * millisecond) :: int64)"

section \<open>The configuration of a database, as recorded\<close>

record retention =
  rt_last :: int
  rt_daily :: int
  rt_weekly :: int
  rt_monthly :: int

record database =
  db_id :: string
  db_engine :: string
  db_host :: string
  db_port :: int
  db_name :: string
  db_user :: string
  db_destinations :: slice
  db_staging :: string
  db_schedule :: string
  db_retention :: retention
  db_container :: string

definition retention_json :: "retention \<Rightarrow> json" where
  "retention_json r =
     JObj [(''last'', JNum (dec_int (rt_last r))), (''daily'', JNum (dec_int (rt_daily r))),
       (''weekly'', JNum (dec_int (rt_weekly r))), (''monthly'', JNum (dec_int (rt_monthly r)))]"

definition database_json :: "database \<Rightarrow> json" where
  "database_json d =
     JObj ([(''id'', JStr (db_id d)), (''engine'', JStr (db_engine d)), (''host'', JStr (db_host d)),
       (''port'', JNum (dec_int (db_port d))), (''database'', JStr (db_name d)), (''user'', JStr (db_user d)),
       (''destinations'', slice_json (db_destinations d)), (''staging'', JStr (db_staging d)),
       (''schedule'', JStr (db_schedule d)), (''retention'', retention_json (db_retention d))] @
       (if db_container d = [] then [] else [(''container'', JStr (db_container d))]))"

definition resolved :: "database \<Rightarrow> string" where
  "resolved d = marshal (database_json d)"

definition fingerprint :: "(string \<Rightarrow> string) \<Rightarrow> database \<Rightarrow> string" where
  "fingerprint sha256 d = sha256 (resolved d)"

section \<open>The manifest\<close>

record tool_used =
  tu_name :: string
  tu_version :: string
  tu_source :: string
  tu_path :: string
  tu_argv :: slice

record manifest =
  mf_backup :: string
  mf_database :: string
  mf_engine :: string
  mf_started :: string
  mf_duration_ms :: int
  mf_server_version :: string
  mf_tool :: tool_used
  mf_format :: string
  mf_pipeline :: slice
  mf_staging :: string
  mf_size_raw :: int
  mf_size_stored :: int
  mf_sha_raw :: string
  mf_sha_stored :: string
  mf_recipients :: slice
  mf_checksum :: bool
  mf_structure :: bool
  mf_at :: string

record run_facts =
  rf_server_version :: string
  rf_tool :: tool_used
  rf_format :: string
  rf_pipeline :: slice
  rf_staging :: string
  rf_recipients :: slice

definition format_of :: "string \<Rightarrow> string" where
  "format_of engine = (if engine = ''postgresql'' then ''pg_custom'' else ''sql'')"

definition manifest_of :: "backup \<Rightarrow> database \<Rightarrow> run_facts \<Rightarrow> location \<Rightarrow> manifest" where
  "manifest_of b d r zone =
     \<lparr>mf_backup = bk_id b, mf_database = bk_database b, mf_engine = db_engine d,
      mf_started = format_rfc3339 zone (bk_started b),
      mf_duration_ms =
        (if is_zero_time (bk_finished b) then 0 else in_milliseconds (time_sub (bk_finished b) (bk_started b))),
      mf_server_version = rf_server_version r, mf_tool = rf_tool r, mf_format = rf_format r,
      mf_pipeline = rf_pipeline r, mf_staging = rf_staging r,
      mf_size_raw = bk_raw_bytes b, mf_size_stored = bk_stored_bytes b,
      mf_sha_raw = bk_sha_raw b, mf_sha_stored = bk_sha_stored b, mf_recipients = rf_recipients r,
      mf_checksum = (bk_verified b = Checksum \<or> bk_verified b = Structure),
      mf_structure = (bk_verified b = Structure),
      mf_at =
        (if \<not> is_zero_time (bk_verified_at b) \<and> (bk_verified b = Checksum \<or> bk_verified b = Structure)
         then format_rfc3339 zone (bk_verified_at b) else [])\<rparr>"

definition manifest_backup :: "manifest \<Rightarrow> backup" where
  "manifest_backup m =
     no_backup\<lparr>bk_id := mf_backup m, bk_database := mf_database m, bk_raw_bytes := mf_size_raw m,
       bk_stored_bytes := mf_size_stored m, bk_sha_raw := mf_sha_raw m, bk_sha_stored := mf_sha_stored m,
       bk_started := (case parse_rfc3339 (mf_started m) of Some at \<Rightarrow> at | None \<Rightarrow> 0),
       bk_finished := (case parse_rfc3339 (mf_started m) of
           Some at \<Rightarrow> at + of_milliseconds (mf_duration_ms m) | None \<Rightarrow> 0),
       bk_verified := (if mf_structure m then Structure else if mf_checksum m then Checksum else NotVerified),
       bk_verified_at := (case parse_rfc3339 (mf_at m) of Some at \<Rightarrow> at | None \<Rightarrow> 0)\<rparr>"

section \<open>The manifest as JSON\<close>

definition tool_json :: "tool_used \<Rightarrow> json" where
  "tool_json t =
     JObj [(''name'', JStr (tu_name t)), (''version'', JStr (tu_version t)), (''source'', JStr (tu_source t)),
       (''path'', JStr (tu_path t)), (''argv'', slice_json (tu_argv t))]"

definition verified_json :: "manifest \<Rightarrow> json" where
  "verified_json m =
     JObj ([(''checksum'', JBool (mf_checksum m)), (''structure'', JBool (mf_structure m))] @
       (if mf_at m = [] then [] else [(''at'', JStr (mf_at m))]))"

definition manifest_json :: "manifest \<Rightarrow> json" where
  "manifest_json m =
     JObj [(''backup_id'', JStr (mf_backup m)), (''database_id'', JStr (mf_database m)),
       (''engine'', JStr (mf_engine m)), (''started_at'', JStr (mf_started m)),
       (''duration_ms'', JNum (dec_int (mf_duration_ms m))), (''server_version'', JStr (mf_server_version m)),
       (''tool'', tool_json (mf_tool m)), (''format'', JStr (mf_format m)), (''pipeline'', slice_json (mf_pipeline m)),
       (''staging'', JStr (mf_staging m)), (''size_raw'', JNum (dec_int (mf_size_raw m))),
       (''size_stored'', JNum (dec_int (mf_size_stored m))), (''sha256_raw'', JStr (mf_sha_raw m)),
       (''sha256_stored'', JStr (mf_sha_stored m)), (''recipients'', slice_json (mf_recipients m)),
       (''verified'', verified_json m)]"

definition no_tool :: tool_used where
  "no_tool = \<lparr>tu_name = [], tu_version = [], tu_source = [], tu_path = [], tu_argv = None\<rparr>"

definition decode_tool :: "tool_used \<Rightarrow> json \<Rightarrow> tool_used option" where
  "decode_tool held v =
     (case v of
        JNull \<Rightarrow> Some held
      | JObj fs \<Rightarrow> do {
          name \<leftarrow> decode_field decode_string ''name'' fs (tu_name held);
          version \<leftarrow> decode_field decode_string ''version'' fs (tu_version held);
          src \<leftarrow> decode_field decode_string ''source'' fs (tu_source held);
          path \<leftarrow> decode_field decode_string ''path'' fs (tu_path held);
          argv \<leftarrow> decode_field decode_strings ''argv'' fs (tu_argv held);
          Some \<lparr>tu_name = name, tu_version = version, tu_source = src, tu_path = path, tu_argv = argv\<rparr> }
      | _ \<Rightarrow> None)"

definition decode_verified :: "bool \<times> bool \<times> string \<Rightarrow> json \<Rightarrow> (bool \<times> bool \<times> string) option" where
  "decode_verified held v =
     (case v of
        JNull \<Rightarrow> Some held
      | JObj fs \<Rightarrow> do {
          checksum \<leftarrow> decode_field decode_bool ''checksum'' fs (fst held);
          structure \<leftarrow> decode_field decode_bool ''structure'' fs (fst (snd held));
          at \<leftarrow> decode_field decode_string ''at'' fs (snd (snd held));
          Some (checksum, structure, at) }
      | _ \<Rightarrow> None)"

definition decode_manifest :: "json \<Rightarrow> manifest option" where
  "decode_manifest v =
     (case (case v of JNull \<Rightarrow> Some [] | JObj fs \<Rightarrow> Some fs | _ \<Rightarrow> None) of
        None \<Rightarrow> None
      | Some fs \<Rightarrow> do {
          backup \<leftarrow> string_field ''backup_id'' fs; database \<leftarrow> string_field ''database_id'' fs;
          engine \<leftarrow> string_field ''engine'' fs; started \<leftarrow> string_field ''started_at'' fs;
          duration \<leftarrow> int_field ''duration_ms'' fs; server \<leftarrow> string_field ''server_version'' fs;
          tool \<leftarrow> decode_field decode_tool ''tool'' fs no_tool; form \<leftarrow> string_field ''format'' fs;
          pipeline \<leftarrow> strings_field ''pipeline'' fs; staging \<leftarrow> string_field ''staging'' fs;
          raw \<leftarrow> int_field ''size_raw'' fs; stored \<leftarrow> int_field ''size_stored'' fs;
          sha_raw \<leftarrow> string_field ''sha256_raw'' fs; sha_stored \<leftarrow> string_field ''sha256_stored'' fs;
          recipients \<leftarrow> strings_field ''recipients'' fs;
          verified \<leftarrow> decode_field decode_verified ''verified'' fs (False, False, []);
          Some \<lparr>mf_backup = backup, mf_database = database, mf_engine = engine, mf_started = started,
            mf_duration_ms = duration, mf_server_version = server, mf_tool = tool, mf_format = form,
            mf_pipeline = pipeline, mf_staging = staging, mf_size_raw = raw, mf_size_stored = stored,
            mf_sha_raw = sha_raw, mf_sha_stored = sha_stored, mf_recipients = recipients,
            mf_checksum = fst verified, mf_structure = fst (snd verified), mf_at = snd (snd verified)\<rparr> })"

definition unmarshal_manifest :: "string \<Rightarrow> manifest option" where
  "unmarshal_manifest raw = Option.bind (parse_json raw) decode_manifest"

section \<open>A manifest reads back\<close>

definition slice_ok :: "slice \<Rightarrow> bool" where
  "slice_ok s = (case s of None \<Rightarrow> True | Some xs \<Rightarrow> list_all valid_utf8 xs)"

text \<open>What a Go program can hold and JSON can carry: text that is UTF-8, sizes of an \<open>int64\<close>.\<close>

definition manifest_ok :: "manifest \<Rightarrow> bool" where
  "manifest_ok m \<longleftrightarrow>
     list_all valid_utf8 [mf_backup m, mf_database m, mf_engine m, mf_started m, mf_server_version m, mf_format m,
       mf_staging m, mf_sha_raw m, mf_sha_stored m, mf_at m, tu_name (mf_tool m), tu_version (mf_tool m),
       tu_source (mf_tool m), tu_path (mf_tool m)]
     \<and> list_all slice_ok [mf_pipeline m, mf_recipients m, tu_argv (mf_tool m)]
     \<and> list_all (\<lambda>i. 0 \<le> i \<and> i < 2 ^ 63) [mf_duration_ms m, mf_size_raw m, mf_size_stored m]"

lemma slice_json_ok: "slice_ok s \<Longrightarrow> json_ok (slice_json s)"
proof (cases s)
  case (Some xs)
  moreover assume "slice_ok s"
  ultimately have "list_all valid_utf8 xs" by (simp add: slice_ok_def)
  then have "elements_ok (map JStr xs)" by (induction xs) simp_all
  with Some show ?thesis by (simp add: slice_json_def)
qed (simp add: slice_json_def)

lemma field_names [decoding]:
  "to_lower ''backup_id'' = ''backup_id''" "to_lower ''database_id'' = ''database_id''" "to_lower ''engine'' = ''engine''"
  "to_lower ''started_at'' = ''started_at''" "to_lower ''duration_ms'' = ''duration_ms''"
  "to_lower ''server_version'' = ''server_version''" "to_lower ''tool'' = ''tool''" "to_lower ''format'' = ''format''"
  "to_lower ''pipeline'' = ''pipeline''" "to_lower ''staging'' = ''staging''" "to_lower ''size_raw'' = ''size_raw''"
  "to_lower ''size_stored'' = ''size_stored''" "to_lower ''sha256_raw'' = ''sha256_raw''"
  "to_lower ''sha256_stored'' = ''sha256_stored''" "to_lower ''recipients'' = ''recipients''"
  "to_lower ''verified'' = ''verified''" "to_lower ''name'' = ''name''" "to_lower ''version'' = ''version''"
  "to_lower ''source'' = ''source''" "to_lower ''path'' = ''path''" "to_lower ''argv'' = ''argv''"
  "to_lower ''checksum'' = ''checksum''" "to_lower ''structure'' = ''structure''" "to_lower ''at'' = ''at''"
  by (simp_all add: to_lower_def to_lower_byte_def is_upper_def byte_in_def)

lemma decode_tool_json [decoding]: "decode_tool held (tool_json t) = Some t"
  by (simp add: decode_tool_def tool_json_def decoding)

lemma decode_verified_json [decoding]:
  "decode_verified (False, False, []) (verified_json m) = Some (mf_checksum m, mf_structure m, mf_at m)"
  by (simp add: decode_verified_def verified_json_def decoding)

lemma decode_manifest_json:
  assumes "manifest_ok m"
  shows "decode_manifest (manifest_json m) = Some m"
proof -
  have "atoi (dec_int (mf_duration_ms m)) = Some (mf_duration_ms m)" "atoi (dec_int (mf_size_raw m)) = Some (mf_size_raw m)"
    "atoi (dec_int (mf_size_stored m)) = Some (mf_size_stored m)"
    using assms by (simp_all add: manifest_ok_def atoi_dec_int)
  then show ?thesis by (simp add: decode_manifest_def manifest_json_def decoding)
qed

lemma dec_int_literal [simp]: "int_literal (dec_int i)"
  by (auto simp: int_literal_def)

lemma ascii_text: "list_all is_ascii s \<Longrightarrow> valid_utf8 s = True"
  using ascii_valid_utf8 by blast

lemma manifest_json_ok: "manifest_ok m \<Longrightarrow> json_ok (manifest_json m)"
  by (simp add: manifest_json_def manifest_ok_def tool_json_def verified_json_def slice_json_ok ascii_text
      is_ascii_def byte_in_def del: valid_utf8.simps)

text \<open>
  C22. A manifest reads back as it was written (E-058): whatever it describes, the bytes deposited beside an
  archive, with or without the line end koffr adds, decode to the same manifest, field for field.
\<close>

theorem manifest_roundtrip:
  assumes "manifest_ok m"
  shows "unmarshal_manifest (marshal_indent (manifest_json m) @ [newline]) = Some m"
proof -
  have "parse_json (json_render True 0 (manifest_json m) @ [newline]) = Some (manifest_json m)"
    by (rule parse_render) (simp_all add: manifest_json_ok[OF assms] skip_space_def newline_def json_space_def delimited_def)
  then show ?thesis by (simp add: unmarshal_manifest_def marshal_indent_def decode_manifest_json[OF assms])
qed

section \<open>What a manifest says of its archive\<close>

definition sample_manifest :: manifest where
  "sample_manifest = \<lparr>mf_backup = ''ab'', mf_database = ''ab'', mf_engine = ''ab'', mf_started = [], mf_duration_ms = 12,
     mf_server_version = [], mf_tool = no_tool, mf_format = [], mf_pipeline = Some [''ab''], mf_staging = [],
     mf_size_raw = 1, mf_size_stored = 2, mf_sha_raw = [], mf_sha_stored = [], mf_recipients = None,
     mf_checksum = True, mf_structure = False, mf_at = []\<rparr>"

theorem manifest_roundtrip_witness:
  "unmarshal_manifest (marshal_indent (manifest_json sample_manifest) @ [newline]) = Some sample_manifest"
  by (rule manifest_roundtrip)
    (simp add: manifest_ok_def sample_manifest_def no_tool_def slice_ok_def ascii_text is_ascii_def byte_in_def
      del: valid_utf8.simps(2))

definition sample_database :: database where
  "sample_database = \<lparr>db_id = ''ab'', db_engine = ''mysql'', db_host = [], db_port = 3306, db_name = [], db_user = [],
     db_destinations = None, db_staging = [], db_schedule = [],
     db_retention = \<lparr>rt_last = 0, rt_daily = 0, rt_weekly = 0, rt_monthly = 0\<rparr>, db_container = []\<rparr>"

definition sample_facts :: run_facts where
  "sample_facts = \<lparr>rf_server_version = [], rf_tool = no_tool, rf_format = [], rf_pipeline = None, rf_staging = [],
     rf_recipients = None\<rparr>"

text \<open>An instant that a zone writes in RFC 3339 within the years it can write.\<close>

definition writable_instant :: "location \<Rightarrow> instant \<Rightarrow> bool" where
  "writable_instant zone t \<longleftrightarrow> writable_offset (zone t) \<and> 0 \<le> c_year (civil_of (t + zone t * second))
     \<and> c_year (civil_of (t + zone t * second)) < 10000"

lemma of_in_milliseconds:
  assumes "0 \<le> d" "d < 2 ^ 63"
  shows "of_milliseconds (in_milliseconds d) = d div millisecond * millisecond"
proof -
  have q: "in_milliseconds d = d div millisecond"
    using assms(1) by (cases "d = 0") (simp_all add: in_milliseconds_def millisecond_def signed_divide_int_def)
  have "d div millisecond * millisecond \<le> d" by (simp add: millisecond_def)
  then have "d div millisecond * millisecond < 2 ^ 63" "0 \<le> d div millisecond * millisecond"
    using assms by (simp_all add: millisecond_def)
  then show ?thesis unfolding q of_milliseconds_def by (intro sint_small) simp_all
qed

text \<open>
  C23. What a manifest gives back of the archive it describes: identifiers, sizes and fingerprints exactly,
  the moments to the second, the duration to the millisecond, and whether it was verified. A failed
  verification does not survive: the manifest has no word for it, and the archive reads as one
  nobody checked.
\<close>

theorem manifest_gives_back_the_backup:
  assumes "writable_instant zone (bk_started b)" "bk_started b \<le> bk_finished b"
    and "bk_finished b - bk_started b < 2 ^ 63" "0 < bk_finished b"
  shows "let g = manifest_backup (manifest_of b d r zone) in
    bk_id g = bk_id b \<and> bk_database g = bk_database b
    \<and> bk_raw_bytes g = bk_raw_bytes b \<and> bk_stored_bytes g = bk_stored_bytes b
    \<and> bk_sha_raw g = bk_sha_raw b \<and> bk_sha_stored g = bk_sha_stored b
    \<and> bk_started g = truncate_second (bk_started b)
    \<and> bk_finished g - bk_started g = (bk_finished b - bk_started b) div millisecond * millisecond
    \<and> bk_verified g = (if verified_at_all (bk_verified b) then bk_verified b else NotVerified)"
proof -
  have s: "parse_rfc3339 (format_rfc3339 zone (bk_started b)) = Some (truncate_second (bk_started b))"
    using assms(1) by (simp add: writable_instant_def parse_format_rfc3339)
  have "time_sub (bk_finished b) (bk_started b) = bk_finished b - bk_started b"
    using assms(2,3) by (simp add: time_sub_def max_duration_def)
  then have "of_milliseconds (in_milliseconds (time_sub (bk_finished b) (bk_started b)))
      = (bk_finished b - bk_started b) div millisecond * millisecond"
    using of_in_milliseconds assms(2,3) by simp
  then show ?thesis using s assms(4)
    by (auto simp: Let_def manifest_backup_def manifest_of_def is_zero_time_def verified_at_all_def)
qed

theorem manifest_gives_back_the_backup_witness:
  "bk_verified (manifest_backup (manifest_of
      (no_backup\<lparr>bk_started := 5, bk_finished := 7, bk_verified := Failed\<rparr>) sample_database sample_facts utc)) = NotVerified"
proof -
  let ?b = "no_backup\<lparr>bk_started := 5, bk_finished := 7, bk_verified := Failed\<rparr>"
  have "c_year (civil_of 5) = 1" by code_simp
  then have "writable_instant utc (bk_started ?b)" by (simp add: writable_instant_def writable_offset_def utc_def)
  from manifest_gives_back_the_backup[OF this, of sample_database sample_facts] show ?thesis
    by (simp add: no_backup_def verified_at_all_def Let_def)
qed

end
