(* ===== verification/Cli_Wiring.thy ===== *)
theory Cli_Wiring
  imports Config_Load Engine_Structure Engine_Finder Engine_Probe Pipeline Catalog
begin

text \<open>
  How a command puts the parts together: \<open>internal/cli/backup.go\<close> (the wiring of one database), \<open>doctor.go\<close>
  (the databases of a configuration) and \<open>tools.go\<close> (where tools are). The flags are a record; so is what
  lies outside the process: the servers, the tools of the host, the processes that run, the volumes.
\<close>

section \<open>Flags and paths\<close>

record flags =
  fg_config :: string
  fg_state_dir :: string
  fg_tools_dir :: string
  fg_search_path :: "string list"

definition config_path :: "flags \<Rightarrow> string" where
  "config_path fg = (if fg_config fg = [] then pa_config_file default_paths else fg_config fg)"

definition state_dir :: "flags \<Rightarrow> string" where
  "state_dir fg = (if fg_state_dir fg \<noteq> [] then fg_state_dir fg else pa_state_dir default_paths)"

definition tools_dir_of :: "flags \<Rightarrow> string" where
  "tools_dir_of fg = (if fg_tools_dir fg \<noteq> [] then fg_tools_dir fg else paths_tools_dir default_paths)"

record volume =
  vl_available :: int64
  vl_block :: int64

definition bytes_free :: "volume \<Rightarrow> int64" where
  "bytes_free v = vl_available v * vl_block v"

record outside =
  ou_drivers :: drivers
  ou_host :: host
  ou_machine :: machine
  ou_restore :: "string \<Rightarrow> restore_process"
  ou_chunks :: "string \<Rightarrow> string list"
  ou_statfs :: "string \<Rightarrow> volume result"

definition finder_for :: "outside \<Rightarrow> flags \<Rightarrow> finder" where
  "finder_for ou fg =
     (if fg_search_path fg = [] then new_finder (ou_host ou) None (tools_dir_of fg) [] None
      else new_finder (ou_host ou) (Some (fg_search_path fg)) (tools_dir_of fg) [] (Some no_path))"

definition on_host :: "outside \<Rightarrow> flags \<Rightarrow> family \<Rightarrow> tool \<Rightarrow> candidate list result" where
  "on_host ou fg f t = fst (find_host (ou_host ou) f t (finder_for ou fg))"

definition in_container :: "outside \<Rightarrow> string \<Rightarrow> family \<Rightarrow> tool \<Rightarrow> candidate list result" where
  "in_container ou name f t = find_in (mc_docker (ou_machine ou)) [] name f t"

lemma on_host_search: "on_host ou fg = search (ou_host ou) (fi_options (finder_for ou fg))"
  by (intro ext) (simp add: on_host_def finder_for_def find_host_search)

interpretation cli_tools: tool_finder "on_host ou fg" for ou fg
  unfolding on_host_search by (rule host_tools.tool_finder_axioms)

section \<open>The databases of a configuration\<close>

definition subject_of :: "database_conf \<Rightarrow> subject" where
  "subject_of d =
     \<lparr>sj_id = dc_id d,
      sj_target = \<lparr>t_engine = family_of_name (dc_engine d), t_host = dc_host d, t_port = dc_port d,
        t_database = dc_name d, t_user = dc_user d, t_password = expose (dc_password d)\<rparr>,
      sj_container = to_container (dc_tools d)\<rparr>"

definition targets_of :: "config \<Rightarrow> string \<Rightarrow> subject list result" where
  "targets_of c only =
     (let targets = map subject_of (filter (\<lambda>d. only = [] \<or> dc_id d = only) (cg_databases c))
      in if only \<noteq> [] \<and> targets = [] then
           Inl (errors_new (''no database is called '' @ go_quote only @ ''; the configuration declares: '' @
             join_with '', '' (sort_by bytes_less (map dc_id (cg_databases c)))))
         else Inr targets)"

definition declared_database :: "config \<Rightarrow> string \<Rightarrow> database_conf result" where
  "declared_database c ident =
     (case find (\<lambda>d. dc_id d = ident) (cg_databases c) of
        Some d \<Rightarrow> Inr d
      | None \<Rightarrow> Inl (errors_new (''no database is called '' @ go_quote ident)))"

text \<open>Each destination is a directory of its own disk.\<close>

fun build_destinations ::
  "(string \<Rightarrow> os) \<Rightarrow> config \<Rightarrow> database_conf \<Rightarrow> string list \<Rightarrow> os destination list result" where
  "build_destinations disk c d [] = Inr []"
| "build_destinations disk c d (ident # idents) =
     (case map_of (rev (map (\<lambda>x. (dt_id x, x)) (cg_destinations c))) ident of
        None \<Rightarrow>
          Inl (errors_new (''the database '' @ go_quote (dc_id d) @ '' sends its archives to '' @ go_quote ident @
            '', which no destination declares; the configuration declares: '' @
            join_with '', '' (sort_by bytes_less (map dt_id (cg_destinations c)))))
      | Some found \<Rightarrow>
          if dt_type found \<noteq> ''filesystem'' then
            Inl (errors_new (''the destination '' @ go_quote ident @ '' is of type '' @ go_quote (dt_type found) @
              '', and only filesystem is implemented in this release; s3 and sftp arrive at the lot 4''))
          else map_sum (\<lambda>e. e)
            ((#) \<lparr>ds_id = ident, ds_store = filesystem (place_of (dt_path found)), ds_state = disk (dt_path found)\<rparr>)
            (build_destinations disk c d idents))"

definition destinations_of ::
  "(string \<Rightarrow> os) \<Rightarrow> config \<Rightarrow> database_conf \<Rightarrow> os destination list result" where
  "destinations_of disk c d =
     (if dc_destinations d = [] then
        Inl (errors_new (''the database '' @ go_quote (dc_id d) @
          '' declares no destination, so there is nowhere to write its archives''))
      else build_destinations disk c d (dc_destinations d))"

section \<open>One database, seen from the adapters\<close>

definition extension_for :: "family \<Rightarrow> string" where
  "extension_for f = (if f = PostgreSQL then ''pgc'' else ''sql'')"

definition dump_request_of :: "subject \<Rightarrow> candidate \<Rightarrow> dump_request" where
  "dump_request_of s tool =
     \<lparr>dq_target = sj_target s, dq_tool = tool, dq_format = UnsetFormat, dq_container = sj_container s, dq_timeout = 0\<rparr>"

text \<open>
  \<open>Resolve\<close> remembers the server and the tool it found: the second component. Before it, or when it fails, they
  are the zero values.
\<close>

type_synonym probed = "(server_info \<times> candidate) option"

definition access_resolve :: "outside \<Rightarrow> flags \<Rightarrow> subject \<Rightarrow> string \<Rightarrow> resolution result \<times> probed" where
  "access_resolve ou fg s database =
     (let d = hd (diagnose (probe_server (ou_drivers ou)) (on_host ou fg) (in_container ou) [s])
      in case (dg_unreachable d, dg_no_tool d) of
           (Some e, _) \<Rightarrow> (Inl (errorf (database @ '' does not answer'') e), None)
         | (None, Some e) \<Rightarrow> (Inl e, None)
         | (None, None) \<Rightarrow>
             (let server = the (dg_server d); tool = the (dg_tool d); warning = myisam_warning server
              in (Inr \<lparr>rs_engine = family_name (si_family server), rs_server_version = version_string (si_version server),
                    rs_tool_path = ca_path tool, rs_tool_version = version_string (ca_version tool),
                    rs_tool_source = source_name (ca_source tool), rs_directory_dump = False,
                    rs_extension = extension_for (si_family server),
                    rs_argv = archive_options (dump_request_of s tool),
                    rs_warnings = (if warning = [] then [] else [warning])\<rparr>,
                  Some (server, tool))))"

definition no_candidate :: candidate where
  "no_candidate = \<lparr>ca_family = UnknownFamily [], ca_tool = Dump, ca_path = [],
     ca_version = \<lparr>v_major = 0, v_minor = 0, v_patch = 0, v_raw = []\<rparr>, ca_source = UnknownSource []\<rparr>"

definition access_dump :: "outside \<Rightarrow> subject \<Rightarrow> probed \<Rightarrow> dump_handle result" where
  "access_dump ou s probed =
     map_sum (errorf (''start the dump of '' @ sj_id s)) (\<lambda>dump. dump)
       (engine_dump (ou_machine ou) []
          (dump_request_of s (case probed of None \<Rightarrow> no_candidate | Some (server, tool) \<Rightarrow> tool)))"

definition access_bytes :: "probed \<Rightarrow> int64" where
  "access_bytes probed = (case probed of None \<Rightarrow> 0 | Some (server, tool) \<Rightarrow> word_of_int (si_database_bytes server))"

definition access_free :: "outside \<Rightarrow> string \<Rightarrow> os \<Rightarrow> int64 result \<times> os" where
  "access_free ou dir s =
     (case os_mkdir_all (place_of dir) s of
        (Inl e, s1) \<Rightarrow> (Inl (errorf (''make the state directory '' @ dir) e), s1)
      | (Inr _, s1) \<Rightarrow>
          (case ou_statfs ou dir of
             Inl e \<Rightarrow> (Inl (errorf (''measure the free space of '' @ dir) e), s1)
           | Inr v \<Rightarrow> (Inr (bytes_free v), s1)))"

definition last_successful :: "string \<Rightarrow> int64 option result" where
  "last_successful database = Inr None"

definition recipients_for ::
  "(string \<Rightarrow> string result) \<Rightarrow> config \<Rightarrow> database_conf \<Rightarrow> os \<Rightarrow> recipients result \<times> os" where
  "recipients_for parse_key c d s =
     (case load_recipients parse_key (en_recipients_file (cg_encryption c)) s of
        (Inl e, s1) \<Rightarrow> (Inl (errorf ''the encryption keys of the fleet'' e), s1)
      | (Inr fleet, s1) \<Rightarrow>
          if dc_recipients_file d = [] then (Inr fleet, s1)
          else (case load_recipients parse_key (dc_recipients_file d) s1 of
             (Inl e, s2) \<Rightarrow> (Inl (errorf (''the encryption keys of '' @ dc_id d) e), s2)
           | (Inr own, s2) \<Rightarrow> (Inr (effective fleet own), s2)))"

section \<open>The watcher and the manifest\<close>

definition watch_of :: "outside \<Rightarrow> flags \<Rightarrow> resolution \<Rightarrow> structure_watcher result" where
  "watch_of ou fg r =
     (let family = family_of_name (rs_engine r);
          watch = (\<lambda>restore. map_sum (errorf ''watch the structure'') (\<lambda>w. w)
            (watch_structure (ou_restore ou) family restore))
      in if family = PostgreSQL then
           (case on_host ou fg family Restore of
              Inl e \<Rightarrow> Inl (errorf (''look for a '' @ tool_name Restore @ '' tool'') e)
            | Inr [] \<Rightarrow>
                Inl (errors_new (''no pg_restore on this machine, so the structure of the archive cannot be checked '' @
                  ''and P4 refuses to call it a backup: install the PostgreSQL client of major '' @ rs_server_version r))
            | Inr (restore # _) \<Rightarrow> watch restore)
         else watch no_candidate)"

text \<open>The dump goes by in the chunks the pipe is read in; the watcher never refuses one.\<close>

definition structure_watch :: "outside \<Rightarrow> structure_watcher \<Rightarrow> watcher" where
  "structure_watch ou w =
     \<lparr>wt_refuses = (\<lambda>_. None),
      wt_conclude = (\<lambda>dump.
        let v = watcher_conclude (fold watcher_write (ou_chunks ou dump) w) in (sv_checked v \<and> sv_ok v, sv_detail v))\<rparr>"

definition verification_of_result :: "job_result \<Rightarrow> verification" where
  "verification_of_result r =
     (if \<not> vd_checked (jr_verification r) then NotVerified
      else if verdict_sound (jr_verification r) then Structure else Failed)"

definition database_snapshot :: "database_conf \<Rightarrow> database" where
  "database_snapshot d =
     \<lparr>db_id = dc_id d, db_engine = dc_engine d, db_host = dc_host d, db_port = dc_port d, db_name = dc_name d,
      db_user = dc_user d, db_destinations = Some (dc_destinations d), db_staging = dc_staging d,
      db_schedule = dc_schedule d,
      db_retention = \<lparr>rt_last = rc_last (dc_retention d), rt_daily = rc_daily (dc_retention d),
        rt_weekly = rc_weekly (dc_retention d), rt_monthly = rc_monthly (dc_retention d)\<rparr>,
      db_container = to_container (dc_tools d)\<rparr>"

definition indexed_backup :: "job_result \<Rightarrow> backup" where
  "indexed_backup r =
     (let v = verification_of_result r; finished = jr_at r + jr_duration r
      in no_backup\<lparr>bk_id := jr_job r, bk_database := jr_database r, bk_started := jr_at r, bk_finished := finished,
           bk_raw_bytes := jr_raw_bytes r, bk_stored_bytes := jr_stored_bytes r, bk_sha_raw := jr_sha_raw r,
           bk_sha_stored := jr_sha_stored r, bk_verified := v,
           bk_verified_at := (if verified_at_all v then finished else 0)\<rparr>)"

definition run_of :: "recipients \<Rightarrow> job_result \<Rightarrow> run_facts" where
  "run_of to r =
     (let rs = jr_resolution r
      in \<lparr>rf_server_version = rs_server_version rs,
          rf_tool = \<lparr>tu_name = filepath_base (rs_tool_path rs), tu_version = rs_tool_version rs,
            tu_source = rs_tool_source rs, tu_path = rs_tool_path rs, tu_argv = Some (rs_argv rs)\<rparr>,
          rf_format = format_of (rs_engine rs), rf_pipeline = Some (jr_pipeline r),
          rf_staging = mode_name (jr_staging r), rf_recipients = Some (rc_keys to)\<rparr>)"

definition render_manifest :: "database_conf \<Rightarrow> recipients \<Rightarrow> location \<Rightarrow> job_result \<Rightarrow> string result" where
  "render_manifest d to zone r =
     Inr (marshal_indent (manifest_json (manifest_of (indexed_backup r) (database_snapshot d) (run_of to r) zone)) @
       [newline])"

section \<open>The service of a backup\<close>

definition backup_wiring ::
  "outside \<Rightarrow> flags \<Rightarrow> ('z, 'a) codec \<Rightarrow> (string \<Rightarrow> string) \<Rightarrow> int \<Rightarrow> config \<Rightarrow> database_conf \<Rightarrow> subject \<Rightarrow> recipients
    \<Rightarrow> os \<Rightarrow> wiring" where
  "backup_wiring ou fg codec sha256 elapsed c d s to machine =
     (let probed = snd (access_resolve ou fg s (dc_id d))
      in \<lparr>wi_state_directory = place_of (state_dir fg),
          wi_staging = mode_of_name (dc_staging d),
          wi_resolver = (\<lambda>database. fst (access_resolve ou fg s database)),
          wi_dumper = (\<lambda>_ _. access_dump ou s probed),
          wi_pack = pipeline_pack codec sha256 to,
          wi_pipeline = pipeline_steps,
          wi_free_bytes = fst (access_free ou (state_dir fg) machine),
          wi_database_bytes = (\<lambda>_. Inr (access_bytes probed)),
          wi_last_successful = last_successful,
          wi_verifier = Some (\<lambda>r. map_sum (\<lambda>e. e) (structure_watch ou) (watch_of ou fg r)),
          wi_manifester = Some (render_manifest d to (cg_location c)),
          wi_structural = False,
          wi_sha256 = sha256,
          wi_elapsed = elapsed\<rparr>)"

record service =
  bs_wiring :: wiring
  bs_declared :: database_conf
  bs_destinations :: "os destination list"
  bs_warning :: string

definition backup_service ::
  "outside \<Rightarrow> flags \<Rightarrow> ('z, 'a) codec \<Rightarrow> (string \<Rightarrow> string) \<Rightarrow> (string \<Rightarrow> string result) \<Rightarrow> int \<Rightarrow> (string \<Rightarrow> os)
    \<Rightarrow> config result \<Rightarrow> string \<Rightarrow> os \<Rightarrow> service result \<times> os" where
  "backup_service ou fg codec sha256 parse_key elapsed disk loaded database s =
     (case loaded of
        Inl e \<Rightarrow> (Inl e, s)
      | Inr c \<Rightarrow>
          (case (targets_of c database, declared_database c database) of
             (Inl e, _) \<Rightarrow> (Inl e, s)
           | (Inr subjects, Inl e) \<Rightarrow> (Inl e, s)
           | (Inr subjects, Inr d) \<Rightarrow>
               (case destinations_of disk c d of
                  Inl e \<Rightarrow> (Inl e, s)
                | Inr ds \<Rightarrow>
                    (case recipients_for parse_key c d s of
                       (Inl e, s1) \<Rightarrow> (Inl e, s1)
                     | (Inr to, s1) \<Rightarrow>
                         (Inr \<lparr>bs_wiring = backup_wiring ou fg codec sha256 elapsed c d (hd subjects) to s1,
                               bs_declared = d, bs_destinations = ds, bs_warning = recipients_warning to\<rparr>, s1)))))"

end
