(* ===== verification/State.thy ===== *)
theory State
  imports Catalog Go_OS
begin

text \<open>
  The catalogue on SQLite, \<open>internal/state/catalog.go\<close>, over the tables of
  \<open>internal/state/migrations/0001_initial.sql\<close>. The statements are modelled with the constraints of the
  schema: primary keys, foreign keys and checks; a foreign key holds because \<open>open.go\<close> asks for it on every
  connection, which is not a parameter here. What SQLite says of a violated constraint is a
  parameter, \<open>refuse\<close>; a statement may also fail by itself, the failures to come being part of the
  state. Text is compared by its bytes.
\<close>

section \<open>The tables\<close>

record database_row =
  dr_id :: string
  dr_engine :: string
  dr_host :: string
  dr_port :: int
  dr_name :: string
  dr_user :: string
  dr_fingerprint :: string
  dr_resolved :: string
  dr_created :: string
  dr_updated :: string

record job_row =
  jb_id :: string
  jb_database :: string
  jb_status :: string
  jb_started :: string
  jb_finished :: "string option"
  jb_duration_ms :: "int option"
  jb_exit_code :: int
  jb_created :: string
  jb_updated :: string

record backup_row =
  br_id :: string
  br_database :: string
  br_job :: "string option"
  br_started :: string
  br_finished :: "string option"
  br_size :: int
  br_stored :: int
  br_sha_raw :: "string option"
  br_sha_stored :: "string option"
  br_manifest :: "string option"
  br_verified :: string
  br_verified_at :: "string option"
  br_created :: string
  br_updated :: string

record copy_row =
  cp_backup :: string
  cp_destination :: string
  cp_status :: string
  cp_path :: string
  cp_size :: int
  cp_stored_at :: "string option"
  cp_created :: string
  cp_updated :: string

record tables =
  tb_databases :: "database_row list"
  tb_jobs :: "job_row list"
  tb_backups :: "backup_row list"
  tb_copies :: "copy_row list"
  tb_faults :: "gerr option list"

datatype violation = PrimaryKey string | ForeignKey string | Check string

definition db_call :: "tables \<Rightarrow> gerr option \<times> tables" where
  "db_call t = (case tb_faults t of [] \<Rightarrow> (None, t) | f # fs \<Rightarrow> (f, t\<lparr>tb_faults := fs\<rparr>))"

section \<open>Values\<close>

definition stamp :: "instant \<Rightarrow> string" where
  "stamp at = format_rfc3339 utc at"

definition parse_stamp :: "string option \<Rightarrow> instant" where
  "parse_stamp written =
     (case written of
        None \<Rightarrow> 0
      | Some s \<Rightarrow> (case parse_rfc3339 s of None \<Rightarrow> 0 | Some at \<Rightarrow> at))"

definition nullable :: "string \<Rightarrow> string option" where
  "nullable s = (if s = [] then None else Some s)"

definition nullable_stamp :: "instant \<Rightarrow> string option" where
  "nullable_stamp at = (if is_zero_time at then None else Some (stamp at))"

definition duration_of :: "backup \<Rightarrow> int option" where
  "duration_of b =
     (if is_zero_time (bk_finished b) \<or> bk_finished b < bk_started b then None
      else Some (in_milliseconds (time_sub (bk_finished b) (bk_started b))))"

text \<open>The check on a timestamp: \<open>GLOB '[0-9]..-[0-9]..-[0-9]..T[0-9]..:[0-9]..:[0-9]..*Z'\<close>.\<close>

definition stamp_ok :: "string \<Rightarrow> bool" where
  "stamp_ok s \<longleftrightarrow> 20 \<le> length s \<and> last s = CHR ''Z''
     \<and> list_all is_digit (take 4 s) \<and> s ! 4 = CHR ''-'' \<and> is_digit (s ! 5) \<and> is_digit (s ! 6) \<and> s ! 7 = CHR ''-''
     \<and> is_digit (s ! 8) \<and> is_digit (s ! 9) \<and> s ! 10 = CHR ''T'' \<and> is_digit (s ! 11) \<and> is_digit (s ! 12)
     \<and> s ! 13 = CHR '':'' \<and> is_digit (s ! 14) \<and> is_digit (s ! 15) \<and> s ! 16 = CHR '':'' \<and> is_digit (s ! 17)
     \<and> is_digit (s ! 18)"

definition null_or :: "('a \<Rightarrow> bool) \<Rightarrow> 'a option \<Rightarrow> bool" where
  "null_or P v = (case v of None \<Rightarrow> True | Some x \<Rightarrow> P x)"

definition engines :: "string list" where
  "engines = [''postgresql'', ''mysql'', ''mariadb'']"

definition verifications :: "string list" where
  "verifications = [''none'', ''checksum'', ''structure'', ''failed'']"

section \<open>Recording\<close>

text \<open>\<open>INSERT ... ON CONFLICT (id) DO UPDATE\<close> of a database.\<close>

definition upsert_database :: "database_row \<Rightarrow> tables \<Rightarrow> tables" where
  "upsert_database r t =
     (if dr_id r \<in> dr_id ` set (tb_databases t)
      then t\<lparr>tb_databases := map (\<lambda>old. if dr_id old = dr_id r then r\<lparr>dr_created := dr_created old\<rparr> else old) (tb_databases t)\<rparr>
      else t\<lparr>tb_databases := tb_databases t @ [r]\<rparr>)"

definition record_database ::
  "(violation \<Rightarrow> gerr) \<Rightarrow> (string \<Rightarrow> string) \<Rightarrow> database \<Rightarrow> instant \<Rightarrow> tables \<Rightarrow> gerr option \<times> tables" where
  "record_database refuse sha256 d at t =
     (case db_call t of
        (Some e, t1) \<Rightarrow> (Some (errorf (''record the database '' @ db_id d) e), t1)
      | (None, t1) \<Rightarrow>
          if db_engine d \<notin> set engines
          then (Some (errorf (''record the database '' @ db_id d) (refuse (Check ''engine''))), t1)
          else if \<not> stamp_ok (stamp at)
          then (Some (errorf (''record the database '' @ db_id d) (refuse (Check ''created_at''))), t1)
          else (None, upsert_database
            \<lparr>dr_id = db_id d, dr_engine = db_engine d, dr_host = db_host d, dr_port = db_port d, dr_name = db_name d,
             dr_user = db_user d, dr_fingerprint = fingerprint sha256 d, dr_resolved = resolved d,
             dr_created = stamp at, dr_updated = stamp at\<rparr> t1))"

definition job_row_of :: "backup \<Rightarrow> job_row" where
  "job_row_of b =
     \<lparr>jb_id = bk_job b, jb_database = bk_database b,
      jb_status = (if bk_verified b = Failed then ''failed'' else ''succeeded''),
      jb_started = stamp (bk_started b), jb_finished = nullable_stamp (bk_finished b),
      jb_duration_ms = duration_of b, jb_exit_code = (if bk_verified b = Failed then 1 else 0),
      jb_created = stamp (bk_started b), jb_updated = stamp (bk_started b)\<rparr>"

definition insert_job :: "(violation \<Rightarrow> gerr) \<Rightarrow> job_row \<Rightarrow> tables \<Rightarrow> gerr option \<times> tables" where
  "insert_job refuse r t =
     (case db_call t of
        (Some e, t1) \<Rightarrow> (Some e, t1)
      | (None, t1) \<Rightarrow>
          if \<not> (stamp_ok (jb_started r) \<and> null_or stamp_ok (jb_finished r)) then (Some (refuse (Check ''jobs'')), t1)
          else if \<not> null_or (\<lambda>d. 0 \<le> d) (jb_duration_ms r) then (Some (refuse (Check ''duration_ms'')), t1)
          else if jb_id r \<in> jb_id ` set (tb_jobs t1)
          then (None, t1\<lparr>tb_jobs := map (\<lambda>old. if jb_id old = jb_id r
                 then old\<lparr>jb_status := jb_status r, jb_finished := jb_finished r, jb_duration_ms := jb_duration_ms r,
                        jb_exit_code := jb_exit_code r, jb_updated := jb_updated r\<rparr> else old) (tb_jobs t1)\<rparr>)
          else if jb_database r \<notin> dr_id ` set (tb_databases t1) then (Some (refuse (ForeignKey ''jobs.database_id'')), t1)
          else (None, t1\<lparr>tb_jobs := tb_jobs t1 @ [r]\<rparr>))"

definition backup_row_of :: "backup \<Rightarrow> backup_row" where
  "backup_row_of b =
     \<lparr>br_id = bk_id b, br_database = bk_database b, br_job = nullable (bk_job b),
      br_started = stamp (bk_started b), br_finished = nullable_stamp (bk_finished b),
      br_size = bk_raw_bytes b, br_stored = bk_stored_bytes b,
      br_sha_raw = nullable (bk_sha_raw b), br_sha_stored = nullable (bk_sha_stored b),
      br_manifest = nullable (bk_manifest b),
      br_verified = verification_name (if bk_verified b = UnsetVerification then NotVerified else bk_verified b),
      br_verified_at = nullable_stamp (bk_verified_at b),
      br_created = stamp (bk_started b), br_updated = stamp (bk_started b)\<rparr>"

definition backup_row_ok :: "backup_row \<Rightarrow> bool" where
  "backup_row_ok r \<longleftrightarrow> stamp_ok (br_started r) \<and> null_or stamp_ok (br_finished r) \<and> null_or stamp_ok (br_verified_at r)
     \<and> 0 \<le> br_size r \<and> 0 \<le> br_stored r \<and> br_verified r \<in> set verifications"

definition insert_backup :: "(violation \<Rightarrow> gerr) \<Rightarrow> backup_row \<Rightarrow> tables \<Rightarrow> gerr option \<times> tables" where
  "insert_backup refuse r t =
     (case db_call t of
        (Some e, t1) \<Rightarrow> (Some e, t1)
      | (None, t1) \<Rightarrow>
          if br_id r \<in> br_id ` set (tb_backups t1) then (Some (refuse (PrimaryKey ''backups'')), t1)
          else if \<not> backup_row_ok r then (Some (refuse (Check ''backups'')), t1)
          else if br_database r \<notin> dr_id ` set (tb_databases t1) then (Some (refuse (ForeignKey ''backups.database_id'')), t1)
          else if \<not> null_or (\<lambda>j. j \<in> jb_id ` set (tb_jobs t1)) (br_job r)
          then (Some (refuse (ForeignKey ''backups.job_id'')), t1)
          else (None, t1\<lparr>tb_backups := tb_backups t1 @ [r]\<rparr>))"

definition copy_row_of :: "backup \<Rightarrow> stored_copy \<Rightarrow> copy_row" where
  "copy_row_of b c =
     \<lparr>cp_backup = bk_id b, cp_destination = sc_destination c, cp_status = ''stored'', cp_path = sc_path c,
      cp_size = sc_bytes c, cp_stored_at = nullable_stamp (sc_stored_at c),
      cp_created = stamp (bk_started b), cp_updated = stamp (bk_started b)\<rparr>"

definition insert_copy :: "(violation \<Rightarrow> gerr) \<Rightarrow> copy_row \<Rightarrow> tables \<Rightarrow> gerr option \<times> tables" where
  "insert_copy refuse r t =
     (case db_call t of
        (Some e, t1) \<Rightarrow> (Some e, t1)
      | (None, t1) \<Rightarrow>
          if (cp_backup r, cp_destination r) \<in> (\<lambda>old. (cp_backup old, cp_destination old)) ` set (tb_copies t1)
          then (Some (refuse (PrimaryKey ''backup_locations'')), t1)
          else if \<not> (stamp_ok (cp_created r) \<and> null_or stamp_ok (cp_stored_at r) \<and> 0 \<le> cp_size r)
          then (Some (refuse (Check ''backup_locations'')), t1)
          else if cp_backup r \<notin> br_id ` set (tb_backups t1)
          then (Some (refuse (ForeignKey ''backup_locations.backup_id'')), t1)
          else (None, t1\<lparr>tb_copies := tb_copies t1 @ [r]\<rparr>))"

fun insert_copies :: "(violation \<Rightarrow> gerr) \<Rightarrow> backup \<Rightarrow> stored_copy list \<Rightarrow> tables \<Rightarrow> gerr option \<times> tables" where
  "insert_copies refuse b [] t = (None, t)"
| "insert_copies refuse b (c # cs) t =
     (case insert_copy refuse (copy_row_of b c) t of
        (Some e, t1) \<Rightarrow> (Some (errorf (''record the copy of '' @ bk_id b @ '' on '' @ sc_destination c) e), t1)
      | (None, t1) \<Rightarrow> insert_copies refuse b cs t1)"

definition rollback :: "tables \<Rightarrow> tables \<Rightarrow> tables" where
  "rollback before now = before\<lparr>tb_faults := tb_faults now\<rparr>"

definition fill_transaction :: "(violation \<Rightarrow> gerr) \<Rightarrow> backup \<Rightarrow> tables \<Rightarrow> gerr option \<times> tables" where
  "fill_transaction refuse b t =
     (case (if bk_job b = [] then (None, t) else insert_job refuse (job_row_of b) t) of
        (Some e, t1) \<Rightarrow> (Some (errorf (''record the job '' @ bk_job b @ '' of '' @ bk_database b) e), t1)
      | (None, t1) \<Rightarrow>
          (case insert_backup refuse (backup_row_of b) t1 of
             (Some e, t2) \<Rightarrow> (Some (errorf (''record the backup '' @ bk_id b @ '' of '' @ bk_database b) e), t2)
           | (None, t2) \<Rightarrow>
               (case insert_copies refuse b (bk_locations b) t2 of
                  (Some e, t3) \<Rightarrow> (Some e, t3)
                | (None, t3) \<Rightarrow>
                    (case db_call t3 of
                       (Some e, t4) \<Rightarrow> (Some (errorf (''record the backup '' @ bk_id b) e), t4)
                     | (None, t4) \<Rightarrow> (None, t4)))))"

definition record_backup :: "(violation \<Rightarrow> gerr) \<Rightarrow> backup \<Rightarrow> tables \<Rightarrow> gerr option \<times> tables" where
  "record_backup refuse b t =
     (case db_call t of
        (Some e, t1) \<Rightarrow> (Some (errorf (''record the backup '' @ bk_id b) e), t1)
      | (None, t1) \<Rightarrow>
          (case fill_transaction refuse b t1 of
             (Some e, t2) \<Rightarrow> (Some e, rollback t t2)
           | (None, t2) \<Rightarrow> (None, t2)))"

definition set_verification ::
  "(violation \<Rightarrow> gerr) \<Rightarrow> string \<Rightarrow> verification \<Rightarrow> instant \<Rightarrow> tables \<Rightarrow> gerr option \<times> tables" where
  "set_verification refuse ident v at t =
     (case db_call t of
        (Some e, t1) \<Rightarrow>
          (Some (errorf (''record the verification '' @ go_quote (verification_name v) @ '' of '' @ ident) e), t1)
      | (None, t1) \<Rightarrow>
          if ident \<notin> br_id ` set (tb_backups t1)
          then (Some (Gerr [ErrNoSuchBackup] (''no backup has this identifier: '' @ ident)), t1)
          else if \<not> (stamp_ok (stamp at) \<and> verification_name v \<in> set verifications)
          then (Some (errorf (''record the verification '' @ go_quote (verification_name v) @ '' of '' @ ident)
                 (refuse (Check ''backups''))), t1)
          else (None, t1\<lparr>tb_backups := map (\<lambda>r. if br_id r = ident
                 then r\<lparr>br_verified := verification_name v, br_verified_at := Some (stamp at), br_updated := stamp at\<rparr>
                 else r) (tb_backups t1)\<rparr>))"

section \<open>Reading\<close>

definition verification_of :: "string \<Rightarrow> verification" where
  "verification_of s =
     (if s = ''none'' then NotVerified else if s = ''checksum'' then Checksum else if s = ''structure'' then Structure
      else if s = ''failed'' then Failed else UnsetVerification)"

definition text_or_empty :: "string option \<Rightarrow> string" where
  "text_or_empty v = (case v of None \<Rightarrow> [] | Some s \<Rightarrow> s)"

definition scan_backup :: "backup_row \<Rightarrow> backup" where
  "scan_backup r =
     \<lparr>bk_id = br_id r, bk_database = br_database r, bk_job = text_or_empty (br_job r),
      bk_started = parse_stamp (Some (br_started r)), bk_finished = parse_stamp (br_finished r),
      bk_raw_bytes = br_size r, bk_stored_bytes = br_stored r, bk_sha_raw = text_or_empty (br_sha_raw r),
      bk_sha_stored = text_or_empty (br_sha_stored r), bk_verified = verification_of (br_verified r),
      bk_verified_at = parse_stamp (br_verified_at r), bk_manifest = text_or_empty (br_manifest r), bk_locations = []\<rparr>"

definition row_before :: "backup_row \<Rightarrow> backup_row \<Rightarrow> bool" where
  "row_before a b \<longleftrightarrow>
     bytes_less (br_started b) (br_started a) \<or> br_started a = br_started b \<and> bytes_less (br_id b) (br_id a)"

definition select_backups :: "filter_of \<Rightarrow> tables \<Rightarrow> backup_row list" where
  "select_backups f t =
     (let rows = sort_by row_before
            (filter (\<lambda>r. fl_database f = [] \<or> br_database r = fl_database f) (tb_backups t))
      in if 0 < fl_limit f then take (nat (fl_limit f)) rows else rows)"

definition select_copies :: "filter_of \<Rightarrow> tables \<Rightarrow> copy_row list" where
  "select_copies f t =
     sort_by (\<lambda>a b. bytes_less (cp_destination a) (cp_destination b))
       (filter (\<lambda>r. fl_destination f = [] \<or> cp_destination r = fl_destination f) (tb_copies t))"

definition scan_copy :: "copy_row \<Rightarrow> stored_copy" where
  "scan_copy r = \<lparr>sc_destination = cp_destination r, sc_path = cp_path r, sc_bytes = cp_size r,
     sc_stored_at = parse_stamp (cp_stored_at r)\<rparr>"

definition copies_of :: "copy_row list \<Rightarrow> string \<Rightarrow> stored_copy list" where
  "copies_of rows ident = map scan_copy (filter (\<lambda>r. cp_backup r = ident) rows)"

definition with_locations :: "filter_of \<Rightarrow> backup list \<Rightarrow> tables \<Rightarrow> backup list result \<times> tables" where
  "with_locations f bs t =
     (if bs = [] then (Inr [], t)
      else case db_call t of
        (Some e, t1) \<Rightarrow> (Inl (errorf ''list the copies'' e), t1)
      | (None, t1) \<Rightarrow>
          (Inr (filter (\<lambda>b. fl_destination f = [] \<or> bk_locations b \<noteq> [])
             (map (\<lambda>b. b\<lparr>bk_locations := copies_of (select_copies f t1) (bk_id b)\<rparr>) bs)), t1))"

definition backups :: "filter_of \<Rightarrow> tables \<Rightarrow> backup list result \<times> tables" where
  "backups f t =
     (case db_call t of
        (Some e, t1) \<Rightarrow> (Inl (errorf ''list the backups'' e), t1)
      | (None, t1) \<Rightarrow> with_locations f (map scan_backup (select_backups f t1)) t1)"

section \<open>The invariant of the tables\<close>

definition tables_ok :: "tables \<Rightarrow> bool" where
  "tables_ok t \<longleftrightarrow>
     distinct (map dr_id (tb_databases t)) \<and> distinct (map jb_id (tb_jobs t)) \<and> distinct (map br_id (tb_backups t))
     \<and> distinct (map (\<lambda>r. (cp_backup r, cp_destination r)) (tb_copies t))
     \<and> jb_database ` set (tb_jobs t) \<subseteq> dr_id ` set (tb_databases t)
     \<and> br_database ` set (tb_backups t) \<subseteq> dr_id ` set (tb_databases t)
     \<and> (\<forall>r \<in> set (tb_backups t). null_or (\<lambda>j. j \<in> jb_id ` set (tb_jobs t)) (br_job r))
     \<and> cp_backup ` set (tb_copies t) \<subseteq> br_id ` set (tb_backups t)
     \<and> list_all backup_row_ok (tb_backups t)"

definition same_rows :: "tables \<Rightarrow> tables \<Rightarrow> bool" where
  "same_rows t u \<longleftrightarrow> tb_databases u = tb_databases t \<and> tb_jobs u = tb_jobs t \<and> tb_backups u = tb_backups t \<and> tb_copies u = tb_copies t"

lemma same_rows_refl [simp]: "same_rows t t"
  by (simp add: same_rows_def)

lemma db_call_rows: "db_call t = (f, u) \<Longrightarrow> same_rows t u"
  by (auto simp: db_call_def same_rows_def split: list.splits)

lemma rollback_rows [simp]: "same_rows t (rollback t u)"
  by (simp add: rollback_def same_rows_def)

lemma tables_ok_rows: "same_rows t u \<Longrightarrow> tables_ok u = tables_ok t"
  by (simp add: same_rows_def tables_ok_def)

lemma insert_job_cases:
  assumes "insert_job refuse r t = (None, u)"
  shows "tb_databases u = tb_databases t" "tb_backups u = tb_backups t" "tb_copies u = tb_copies t"
    "jb_id ` set (tb_jobs u) = insert (jb_id r) (jb_id ` set (tb_jobs t))"
    "tables_ok t \<Longrightarrow> tables_ok u"
proof -
  obtain f s where c: "db_call t = (f, s)" by fastforce
  let ?g = "\<lambda>old. if jb_id old = jb_id r
                 then old\<lparr>jb_status := jb_status r, jb_finished := jb_finished r, jb_duration_ms := jb_duration_ms r,
                        jb_exit_code := jb_exit_code r, jb_updated := jb_updated r\<rparr> else old"
  note rows = db_call_rows[OF c, unfolded same_rows_def]
  consider (old) "jb_id r \<in> jb_id ` set (tb_jobs t)" "u = s\<lparr>tb_jobs := map ?g (tb_jobs t)\<rparr>"
    | (new) "jb_id r \<notin> jb_id ` set (tb_jobs t)" "jb_database r \<in> dr_id ` set (tb_databases t)" "u = s\<lparr>tb_jobs := tb_jobs t @ [r]\<rparr>"
    using assms c rows by (auto simp: insert_job_def split: option.splits if_splits)
  then have "tb_databases u = tb_databases t \<and> tb_backups u = tb_backups t \<and> tb_copies u = tb_copies t
    \<and> jb_id ` set (tb_jobs u) = insert (jb_id r) (jb_id ` set (tb_jobs t)) \<and> (tables_ok t \<longrightarrow> tables_ok u)"
  proof cases
    case old
    define js where "js = map ?g (tb_jobs t)"
    have k: "map jb_id js = map jb_id (tb_jobs t)" "map jb_database js = map jb_database (tb_jobs t)"
      by (simp_all add: js_def)
    have "jb_id ` set js = jb_id ` set (tb_jobs t)" "jb_database ` set js = jb_database ` set (tb_jobs t)"
      using arg_cong[OF k(1), of set] arg_cong[OF k(2), of set] by simp_all
    moreover have "u = s\<lparr>tb_jobs := js\<rparr>" using old(2) by (simp only: js_def)
    ultimately show ?thesis using old(1) rows k(1) by (auto simp: tables_ok_def)
  next
    case new
    then show ?thesis using rows by (auto simp: tables_ok_def null_or_def split: option.splits)
  qed
  then show "tb_databases u = tb_databases t" "tb_backups u = tb_backups t" "tb_copies u = tb_copies t"
    "jb_id ` set (tb_jobs u) = insert (jb_id r) (jb_id ` set (tb_jobs t))"
    "tables_ok t \<Longrightarrow> tables_ok u" by blast+
qed

lemma insert_backup_cases:
  assumes "insert_backup refuse r t = (None, u)"
  shows "tb_databases u = tb_databases t" "tb_jobs u = tb_jobs t" "tb_backups u = tb_backups t @ [r]" "tb_copies u = tb_copies t"
    "br_id r \<notin> br_id ` set (tb_backups t)" "backup_row_ok r" "tables_ok t \<Longrightarrow> tables_ok u"
proof -
  obtain f s where c: "db_call t = (f, s)" by fastforce
  note rows = db_call_rows[OF c, unfolded same_rows_def]
  have h: "u = s\<lparr>tb_backups := tb_backups t @ [r]\<rparr>" "br_id r \<notin> br_id ` set (tb_backups t)" "backup_row_ok r"
    "br_database r \<in> dr_id ` set (tb_databases t)" "null_or (\<lambda>j. j \<in> jb_id ` set (tb_jobs t)) (br_job r)"
    using assms c rows by (auto simp: insert_backup_def split: option.splits if_splits)
  then show "tb_databases u = tb_databases t" "tb_jobs u = tb_jobs t" "tb_backups u = tb_backups t @ [r]" "tb_copies u = tb_copies t"
    "br_id r \<notin> br_id ` set (tb_backups t)" "backup_row_ok r" using rows by simp_all
  show "tables_ok t \<Longrightarrow> tables_ok u" using h rows by (auto simp: tables_ok_def)
qed

lemma insert_copies_cases:
  assumes "insert_copies refuse b cs t = (None, u)"
  shows "tb_databases u = tb_databases t" "tb_jobs u = tb_jobs t" "tb_backups u = tb_backups t"
    "tb_copies u = tb_copies t @ map (copy_row_of b) cs" "tables_ok t \<Longrightarrow> tables_ok u"
proof -
  have "tb_databases u = tb_databases t \<and> tb_jobs u = tb_jobs t \<and> tb_backups u = tb_backups t
    \<and> tb_copies u = tb_copies t @ map (copy_row_of b) cs \<and> (tables_ok t \<longrightarrow> tables_ok u)"
    using assms
  proof (induction cs arbitrary: t)
    case Nil
    then show ?case by simp
  next
    case (Cons c cs)
    obtain f s where d: "db_call t = (f, s)" by fastforce
    note rows = db_call_rows[OF d, unfolded same_rows_def]
    obtain s1 where i: "insert_copy refuse (copy_row_of b c) t = (None, s1)" and rest: "insert_copies refuse b cs s1 = (None, u)"
      using Cons.prems by (auto split: prod.splits option.splits)
    have h: "s1 = s\<lparr>tb_copies := tb_copies t @ [copy_row_of b c]\<rparr>"
      "(cp_backup (copy_row_of b c), cp_destination (copy_row_of b c)) \<notin> (\<lambda>old. (cp_backup old, cp_destination old)) ` set (tb_copies t)"
      "cp_backup (copy_row_of b c) \<in> br_id ` set (tb_backups t)"
      using i d rows by (auto simp: insert_copy_def split: option.splits if_splits)
    have "tables_ok t \<longrightarrow> tables_ok s1" using h rows by (auto simp: tables_ok_def)
    with Cons.IH[OF rest] h(1) rows show ?case by auto
  qed
  then show "tb_databases u = tb_databases t" "tb_jobs u = tb_jobs t" "tb_backups u = tb_backups t"
    "tb_copies u = tb_copies t @ map (copy_row_of b) cs" "tables_ok t \<Longrightarrow> tables_ok u" by blast+
qed

lemma record_backup_failed:
  assumes "record_backup refuse b t = (Some e, u)"
  shows "same_rows t u"
  using assms by (auto simp: record_backup_def dest: db_call_rows split: prod.splits option.splits)

lemma record_backup_done:
  assumes "record_backup refuse b t = (None, u)"
  shows "tb_databases u = tb_databases t" "tb_backups u = tb_backups t @ [backup_row_of b]"
    "tb_copies u = tb_copies t @ map (copy_row_of b) (bk_locations b)"
    "bk_id b \<notin> br_id ` set (tb_backups t)" "backup_row_ok (backup_row_of b)" "tables_ok t \<Longrightarrow> tables_ok u"
proof -
  obtain t1 where c: "db_call t = (None, t1)" and ft: "fill_transaction refuse b t1 = (None, u)"
    using assms by (auto simp: record_backup_def split: prod.splits option.splits)
  obtain f t2 where x: "(if bk_job b = [] then (None, t1) else insert_job refuse (job_row_of b) t1) = (f, t2)" by fastforce
  obtain g t3 where i: "insert_backup refuse (backup_row_of b) t2 = (g, t3)" by fastforce
  obtain h t4 where k: "insert_copies refuse b (bk_locations b) t3 = (h, t4)" by fastforce
  obtain l t5 where e: "db_call t4 = (l, t5)" by fastforce
  have "f = None \<and> g = None \<and> h = None \<and> l = None \<and> t5 = u"
    using ft unfolding fill_transaction_def x by (simp add: i k e split: option.splits)
  with x i k e have j: "t2 = t1 \<or> insert_job refuse (job_row_of b) t1 = (None, t2)"
    and i: "insert_backup refuse (backup_row_of b) t2 = (None, t3)"
    and k: "insert_copies refuse b (bk_locations b) t3 = (None, t4)" and e: "db_call t4 = (None, u)"
    by (simp_all split: if_splits)
  have t2: "tb_databases t2 = tb_databases t1" "tb_backups t2 = tb_backups t1" "tb_copies t2 = tb_copies t1"
    "tables_ok t1 \<Longrightarrow> tables_ok t2"
    using j insert_job_cases[of refuse "job_row_of b" t1 t2] by auto
  note a = db_call_rows[OF c] and z = db_call_rows[OF e]
  show "tb_databases u = tb_databases t" "tb_backups u = tb_backups t @ [backup_row_of b]"
    "tb_copies u = tb_copies t @ map (copy_row_of b) (bk_locations b)"
    "bk_id b \<notin> br_id ` set (tb_backups t)" "backup_row_ok (backup_row_of b)"
    using a z t2 insert_backup_cases[OF i] insert_copies_cases[OF k] by (simp_all add: same_rows_def backup_row_of_def)
  show "tables_ok t \<Longrightarrow> tables_ok u"
    using tables_ok_rows[OF a] tables_ok_rows[OF z] t2(4) insert_backup_cases(7)[OF i] insert_copies_cases(5)[OF k] by blast
qed

end
