(* ===== verification/State_Contract.thy ===== *)
theory State_Contract
  imports State
begin

text \<open>
  What the port \<open>Catalog\<close> of \<open>internal/domain/catalog/catalog.go\<close> promises to the commands, as a locale over
  the map from identifiers to archives the tables stand for, and its interpretation on SQLite: a
  recorded archive is there with its copies, whole or not at all, and a verification changes nothing
  but the verdict of its archive.
\<close>

section \<open>What is kept of an archive\<close>

text \<open>The schema keeps a moment to the second, and the copies in the order of their destinations.\<close>

definition kept_copy :: "stored_copy \<Rightarrow> stored_copy" where
  "kept_copy c = c\<lparr>sc_stored_at := truncate_second (sc_stored_at c)\<rparr>"

definition kept :: "backup \<Rightarrow> backup" where
  "kept b = b\<lparr>bk_started := truncate_second (bk_started b), bk_finished := truncate_second (bk_finished b),
     bk_verified := (if bk_verified b = UnsetVerification then NotVerified else bk_verified b),
     bk_verified_at := truncate_second (bk_verified_at b),
     bk_locations := sort_by (\<lambda>x y. bytes_less (sc_destination x) (sc_destination y)) (map kept_copy (bk_locations b))\<rparr>"

definition datable :: "backup \<Rightarrow> bool" where
  "datable b \<longleftrightarrow> list_all (writable_instant utc)
     (bk_started b # bk_finished b # bk_verified_at b # map sc_stored_at (bk_locations b))"

definition concluded :: "verification \<Rightarrow> instant \<Rightarrow> backup \<Rightarrow> backup" where
  "concluded v at b = b\<lparr>bk_verified := v, bk_verified_at := truncate_second at\<rparr>"

section \<open>The port\<close>

locale catalogue_port =
  fixes record_archive :: "backup \<Rightarrow> 't \<Rightarrow> gerr option \<times> 't"
    and conclude :: "string \<Rightarrow> verification \<Rightarrow> instant \<Rightarrow> 't \<Rightarrow> gerr option \<times> 't"
    and listing :: "filter_of \<Rightarrow> 't \<Rightarrow> backup list result \<times> 't"
    and lookup :: "'t \<Rightarrow> string \<Rightarrow> backup option" and sound :: "'t \<Rightarrow> bool"
  assumes record_done: "sound t \<Longrightarrow> record_archive b t = (None, u) \<Longrightarrow> datable b
      \<Longrightarrow> lookup t (bk_id b) = None \<and> lookup u = (lookup t)(bk_id b \<mapsto> kept b)"
    and record_refused: "record_archive b t = (Some e, u) \<Longrightarrow> lookup u = lookup t"
    and record_sound: "sound t \<Longrightarrow> record_archive b t = (r, u) \<Longrightarrow> sound u"
    and conclude_done: "sound t \<Longrightarrow> conclude ident v at t = (None, u) \<Longrightarrow> writable_instant utc at
      \<Longrightarrow> \<exists>b. lookup t ident = Some b \<and> lookup u = (lookup t)(ident \<mapsto> concluded v at b)"
    and conclude_refused: "conclude ident v at t = (Some e, u) \<Longrightarrow> lookup u = lookup t"
    and conclude_sound: "sound t \<Longrightarrow> conclude ident v at t = (r, u) \<Longrightarrow> sound u"
    and listing_all: "sound t \<Longrightarrow> listing no_filter t = (Inr bs, u)
      \<Longrightarrow> set bs = ran (lookup t) \<and> distinct (map bk_id bs) \<and> (\<forall>b \<in> set bs. lookup t (bk_id b) = Some b)"
    and listing_keeps: "listing f t = (answer, u) \<Longrightarrow> lookup u = lookup t \<and> sound u = sound t"
begin

lemma recorded_then_listed:
  assumes "sound t" "record_archive b t = (None, u)" "datable b" "listing no_filter u = (Inr bs, v)"
  shows "kept b \<in> set bs"
proof -
  have "lookup u (bk_id b) = Some (kept b)" using record_done[OF assms(1-3)] by simp
  then have "kept b \<in> ran (lookup u)" by (auto simp: ran_def)
  moreover have "sound u" by (rule record_sound[OF assms(1,2)])
  ultimately show ?thesis using listing_all[OF _ assms(4)] by simp
qed

lemma recorded_once:
  assumes "sound t" "record_archive b t = (None, u)" "datable b" "bk_id c = bk_id b" "datable c" "record_archive c u = (r, v)"
  shows "r \<noteq> None"
proof
  assume "r = None"
  then have "lookup u (bk_id c) = None"
    using record_done[OF record_sound[OF assms(1,2)] _ assms(5)] assms(6) by blast
  with record_done[OF assms(1-3)] assms(4) show False by simp
qed

lemma listed_by_identifier:
  assumes "sound t" "listing no_filter t = (Inr bs, u)"
  shows "find (\<lambda>b. bk_id b = ident) bs = (if \<exists>b. lookup t ident = Some b \<and> bk_id b = ident then lookup t ident else None)"
proof -
  note l = listing_all[OF assms]
  show ?thesis
  proof (cases "find (\<lambda>b. bk_id b = ident) bs")
    case None
    then have "\<And>b. b \<in> ran (lookup t) \<Longrightarrow> bk_id b \<noteq> ident" using l unfolding find_None_iff by blast
    with None show ?thesis by (auto simp: ran_def)
  next
    case (Some b)
    then have "b \<in> set bs" "bk_id b = ident" by (auto simp: find_Some_iff)
    with l Some show ?thesis by auto
  qed
qed

end

section \<open>The tables as a map\<close>

definition lookup_backup :: "tables \<Rightarrow> string \<Rightarrow> backup option" where
  "lookup_backup t i =
     map_option (\<lambda>r. (scan_backup r)\<lparr>bk_locations := copies_of (select_copies no_filter t) i\<rparr>)
       (find (\<lambda>r. br_id r = i) (tb_backups t))"

lemma lookup_rows: "same_rows t u \<Longrightarrow> lookup_backup u = lookup_backup t"
  by (auto simp: same_rows_def lookup_backup_def select_copies_def)

interpretation by_destination: strict_order "\<lambda>a b. bytes_less (cp_destination a) (cp_destination b)"
  by (rule bytes.by_key)

interpretation by_row: strict_order row_before
proof
  fix x y z :: backup_row
  show "\<not> row_before x x" by (simp add: row_before_def bytes_less_order(1))
  show "row_before x y \<Longrightarrow> row_before y z \<Longrightarrow> row_before x z"
    using bytes.trans[of "br_started z" "br_started y" "br_started x"] bytes.trans[of "br_id z" "br_id y" "br_id x"]
    unfolding row_before_def by auto
  show "row_before x z \<Longrightarrow> row_before x y \<or> row_before y z"
    using bytes.incomparable[of "br_started z" "br_started x" "br_started y"] bytes.incomparable[of "br_id z" "br_id x" "br_id y"]
      bytes_less_total[of "br_started y" "br_started z"] bytes.irrefl[of "br_started z"]
    unfolding row_before_def by (cases "br_started y = br_started z") auto
qed

lemma copies_of_all:
  "copies_of (select_copies no_filter t) i
    = map scan_copy (sort_by (\<lambda>a b. bytes_less (cp_destination a) (cp_destination b)) (filter (\<lambda>r. cp_backup r = i) (tb_copies t)))"
  by (simp add: copies_of_def select_copies_def no_filter_def by_destination.filter_sort_by)

lemma stamp_reads_back:
  assumes "writable_instant utc at"
  shows "parse_stamp (Some (stamp at)) = truncate_second at" "parse_stamp (nullable_stamp at) = truncate_second at"
proof -
  have "parse_rfc3339 (format_rfc3339 utc at) = Some (truncate_second at)"
    using assms by (simp add: writable_instant_def parse_format_rfc3339)
  then show "parse_stamp (Some (stamp at)) = truncate_second at" by (simp add: parse_stamp_def stamp_def)
  then show "parse_stamp (nullable_stamp at) = truncate_second at"
    by (simp add: nullable_stamp_def is_zero_time_def parse_stamp_def truncate_second_def)
qed

lemma verification_reads_back: "v \<noteq> UnsetVerification \<Longrightarrow> verification_of (verification_name v) = v"
  by (cases v) (simp_all add: verification_of_def)

lemma text_reads_back [simp]: "text_or_empty (nullable s) = s"
  by (simp add: text_or_empty_def nullable_def)

lemma scan_row_of:
  assumes "datable b"
  shows "(scan_backup (backup_row_of b))\<lparr>bk_locations := ls\<rparr> = (kept b)\<lparr>bk_locations := ls\<rparr>"
  using assms stamp_reads_back[of "bk_started b"] stamp_reads_back[of "bk_finished b"] stamp_reads_back[of "bk_verified_at b"]
  by (simp add: datable_def scan_backup_def backup_row_of_def kept_def verification_reads_back)

lemma scan_copies_of:
  assumes "datable b"
  shows "map scan_copy (sort_by (\<lambda>a b. bytes_less (cp_destination a) (cp_destination b)) (map (copy_row_of b) (bk_locations b)))
    = bk_locations (kept b)"
proof -
  have m: "map (scan_copy \<circ> copy_row_of b) cs = map kept_copy cs" if "set cs \<subseteq> set (bk_locations b)" for cs
    using that assms stamp_reads_back(2)
    by (auto simp: datable_def list_all_iff scan_copy_def copy_row_of_def kept_copy_def)
  have "sort_by (\<lambda>a b. bytes_less (cp_destination a) (cp_destination b)) (map (copy_row_of b) (bk_locations b))
      = map (copy_row_of b) (sort_by (\<lambda>x y. bytes_less (sc_destination x) (sc_destination y)) (bk_locations b))"
    by (rule map_sort_by) (simp add: copy_row_of_def)
  moreover have "sort_by (\<lambda>x y. bytes_less (sc_destination x) (sc_destination y)) (map kept_copy (bk_locations b))
      = map kept_copy (sort_by (\<lambda>x y. bytes_less (sc_destination x) (sc_destination y)) (bk_locations b))"
    by (rule map_sort_by) (simp add: kept_copy_def)
  ultimately show ?thesis using m[OF subset_refl] by (simp add: kept_def)
qed

lemma find_append: "find P (xs @ ys) = (case find P xs of None \<Rightarrow> find P ys | Some x \<Rightarrow> Some x)"
  by (induction xs) auto

lemma find_key_None: "find (\<lambda>r. key r = i) rs = None \<longleftrightarrow> i \<notin> key ` set rs"
  by (auto simp: find_None_iff)

lemma record_extends:
  assumes ok: "tables_ok t" and r: "record_backup refuse b t = (None, u)" and d: "datable b"
  shows "lookup_backup t (bk_id b) = None" "lookup_backup u = (lookup_backup t)(bk_id b \<mapsto> kept b)"
proof -
  note rd = record_backup_done[OF r]
  have none: "find (\<lambda>r. br_id r = bk_id b) (tb_backups t) = None" using rd(4) by (simp add: find_key_None)
  then show "lookup_backup t (bk_id b) = None" by (simp add: lookup_backup_def)
  have "cp_backup ` set (tb_copies t) \<subseteq> br_id ` set (tb_backups t)" using ok by (simp add: tables_ok_def)
  with rd(4) have "filter (\<lambda>r. cp_backup r = bk_id b) (tb_copies t) = []"
    unfolding filter_empty_conv by (metis image_eqI subsetD)
  then have own: "filter (\<lambda>r. cp_backup r = bk_id b) (tb_copies u) = map (copy_row_of b) (bk_locations b)"
    by (simp add: rd(3) filter_map comp_def copy_row_of_def)
  have other: "filter (\<lambda>r. cp_backup r = i) (tb_copies u) = filter (\<lambda>r. cp_backup r = i) (tb_copies t)" if "i \<noteq> bk_id b" for i
    using that by (auto simp: rd(3) filter_empty_conv copy_row_of_def)
  have id: "br_id (backup_row_of b) = bk_id b" by (simp add: backup_row_of_def)
  show "lookup_backup u = (lookup_backup t)(bk_id b \<mapsto> kept b)"
  proof
    fix i
    show "lookup_backup u i = ((lookup_backup t)(bk_id b \<mapsto> kept b)) i"
    proof (cases "i = bk_id b")
      case True
      then show ?thesis
        by (simp add: lookup_backup_def rd(2) find_append none id copies_of_all own scan_copies_of[OF d] scan_row_of[OF d])
    next
      case False
      then show ?thesis
        by (auto simp: lookup_backup_def rd(2) find_append id copies_of_all other split: option.split)
    qed
  qed
qed

definition with_verdict :: "verification \<Rightarrow> instant \<Rightarrow> backup_row \<Rightarrow> backup_row" where
  "with_verdict v at r = r\<lparr>br_verified := verification_name v, br_verified_at := Some (stamp at), br_updated := stamp at\<rparr>"

lemma set_verification_done:
  assumes "set_verification refuse ident v at t = (None, u)"
  shows "tb_databases u = tb_databases t" "tb_jobs u = tb_jobs t" "tb_copies u = tb_copies t"
    "tb_backups u = map (\<lambda>r. if br_id r = ident then with_verdict v at r else r) (tb_backups t)"
    "ident \<in> br_id ` set (tb_backups t)" "stamp_ok (stamp at)" "verification_name v \<in> set verifications"
proof -
  obtain f s where c: "db_call t = (f, s)" by fastforce
  note rows = db_call_rows[OF c, unfolded same_rows_def]
  show "tb_databases u = tb_databases t" "tb_jobs u = tb_jobs t" "tb_copies u = tb_copies t"
    "tb_backups u = map (\<lambda>r. if br_id r = ident then with_verdict v at r else r) (tb_backups t)"
    "ident \<in> br_id ` set (tb_backups t)" "stamp_ok (stamp at)" "verification_name v \<in> set verifications"
    using assms c rows by (auto simp: set_verification_def with_verdict_def split: option.splits if_splits)
qed

lemma set_verification_failed: "set_verification refuse ident v at t = (Some e, u) \<Longrightarrow> same_rows t u"
  by (auto simp: set_verification_def dest: db_call_rows split: prod.splits option.splits if_splits)

lemma set_verification_ok:
  assumes "set_verification refuse ident v at t = (None, u)" "tables_ok t"
  shows "tables_ok u"
proof -
  define bs where "bs = map (\<lambda>r. if br_id r = ident then with_verdict v at r else r) (tb_backups t)"
  note sd = set_verification_done[OF assms(1), folded bs_def]
  have k: "map br_id bs = map br_id (tb_backups t)" "map br_database bs = map br_database (tb_backups t)"
    "map br_job bs = map br_job (tb_backups t)"
    by (simp_all add: bs_def with_verdict_def)
  have "br_id ` set bs = br_id ` set (tb_backups t)" "br_database ` set bs = br_database ` set (tb_backups t)"
    "br_job ` set bs = br_job ` set (tb_backups t)"
    using arg_cong[OF k(1), of set] arg_cong[OF k(2), of set] arg_cong[OF k(3), of set] by simp_all
  moreover have "list_all backup_row_ok bs" using assms(2) sd(6,7)
    by (auto simp: bs_def tables_ok_def list_all_iff backup_row_ok_def with_verdict_def null_or_def)
  moreover have "(\<forall>r \<in> set bs. null_or P (br_job r)) \<longleftrightarrow> (\<forall>j \<in> br_job ` set bs. null_or P j)" for P by simp
  ultimately show ?thesis using assms(2) sd(1-4) k(1) unfolding tables_ok_def by simp
qed

lemma find_map_key:
  assumes "\<And>r. key (g r) = key r"
  shows "find (\<lambda>r. key r = i) (map (\<lambda>r. if key r = j then g r else r) rs)
    = map_option (\<lambda>r. if key r = j then g r else r) (find (\<lambda>r. key r = i) rs)"
  by (induction rs) (auto simp: assms)

lemma conclude_changes:
  assumes sv: "set_verification refuse ident v at t = (None, u)" and w: "writable_instant utc at"
  shows "\<exists>b. lookup_backup t ident = Some b \<and> lookup_backup u = (lookup_backup t)(ident \<mapsto> concluded v at b)"
proof -
  note sd = set_verification_done[OF sv]
  obtain r where f: "find (\<lambda>r. br_id r = ident) (tb_backups t) = Some r"
    using sd(5) find_key_None[of br_id ident "tb_backups t"] by (cases "find (\<lambda>r. br_id r = ident) (tb_backups t)") auto
  then have id: "br_id r = ident" by (auto simp: find_Some_iff)
  have un: "v \<noteq> UnsetVerification" using sd(7) by (auto simp: verifications_def)
  have sc: "(scan_backup (with_verdict v at r))\<lparr>bk_locations := ls\<rparr> = concluded v at ((scan_backup r)\<lparr>bk_locations := ls\<rparr>)" for ls
    using stamp_reads_back(1)[OF w] verification_reads_back[OF un]
    by (simp add: scan_backup_def with_verdict_def concluded_def)
  have cp: "copies_of (select_copies no_filter u) i = copies_of (select_copies no_filter t) i" for i
    by (simp add: copies_of_all sd(3))
  have fm: "find (\<lambda>r. br_id r = i) (tb_backups u) =
      map_option (\<lambda>r. if br_id r = ident then with_verdict v at r else r) (find (\<lambda>r. br_id r = i) (tb_backups t))" for i
    unfolding sd(4) by (rule find_map_key) (simp add: with_verdict_def)
  have "lookup_backup u i = ((lookup_backup t)(ident \<mapsto> concluded v at ((scan_backup r)\<lparr>bk_locations :=
      copies_of (select_copies no_filter t) ident\<rparr>))) i" for i
  proof (cases "i = ident")
    case True
    then show ?thesis using id by (simp add: lookup_backup_def fm f cp sc)
  next
    case False
    then have "br_id x \<noteq> ident" if "find (\<lambda>r. br_id r = i) (tb_backups t) = Some x" for x
      using that by (auto simp: find_Some_iff)
    with False show ?thesis by (auto simp: lookup_backup_def fm cp option.map_comp comp_def intro!: option.map_cong)
  qed
  then show ?thesis using f by (auto simp: lookup_backup_def)
qed

lemma backups_all:
  assumes ok: "tables_ok t" and b: "backups no_filter t = (Inr bs, u)"
  shows "bs = map (\<lambda>r. (scan_backup r)\<lparr>bk_locations := copies_of (select_copies no_filter t) (br_id r)\<rparr>)
      (sort_by row_before (tb_backups t))"
proof -
  obtain f t1 where c: "db_call t = (f, t1)" by fastforce
  obtain g t2 where c2: "db_call t1 = (g, t2)" by fastforce
  note r1 = db_call_rows[OF c] and r2 = db_call_rows[OF c2]
  have sel: "select_backups no_filter t1 = sort_by row_before (tb_backups t)" "select_copies no_filter t2 = select_copies no_filter t"
    using r1 r2 by (simp_all add: select_backups_def select_copies_def no_filter_def same_rows_def)
  have nf: "fl_destination no_filter = []" by (simp add: no_filter_def)
  show ?thesis using b c c2 sel
    by (auto simp: backups_def with_locations_def nf comp_def scan_backup_def split: option.splits if_splits)
qed

lemma backups_rows: "backups f t = (a, u) \<Longrightarrow> same_rows t u"
  by (auto simp: backups_def with_locations_def same_rows_def dest!: db_call_rows split: prod.splits option.splits if_splits)

lemma scan_id [simp]: "bk_id (scan_backup r) = br_id r"
  by (simp add: scan_backup_def)

lemma listing_is_the_map:
  assumes ok: "tables_ok t" and b: "backups no_filter t = (Inr bs, u)"
  shows "set bs = ran (lookup_backup t) \<and> distinct (map bk_id bs) \<and> (\<forall>x \<in> set bs. lookup_backup t (bk_id x) = Some x)"
proof -
  let ?g = "\<lambda>r. (scan_backup r)\<lparr>bk_locations := copies_of (select_copies no_filter t) (br_id r)\<rparr>"
  note bs = backups_all[OF ok b]
  have dk: "distinct (map br_id (tb_backups t))" using ok by (simp add: tables_ok_def)
  have fr: "find (\<lambda>x. br_id x = br_id r) (tb_backups t) = Some r" if "r \<in> set (tb_backups t)" for r
  proof -
    have "find (\<lambda>x. br_id x = br_id r) (tb_backups t) \<noteq> None" using that by (simp add: find_key_None[of br_id])
    then obtain x where x: "find (\<lambda>x. br_id x = br_id r) (tb_backups t) = Some x" by blast
    then have "x \<in> set (tb_backups t)" "br_id x = br_id r" by (auto simp: find_Some_iff)
    with x that dk show ?thesis by (metis distinct_map inj_onD)
  qed
  have lk: "lookup_backup t (br_id r) = Some (?g r)" if "r \<in> set (tb_backups t)" for r
    using fr[OF that] by (simp add: lookup_backup_def)
  have "map bk_id bs = map br_id (sort_by row_before (tb_backups t))" by (simp add: bs)
  moreover have "distinct (map br_id (sort_by row_before (tb_backups t)))"
    using dk by (auto simp: distinct_map distinct_sort_by)
  ultimately have d: "distinct (map bk_id bs)" by (simp only:)
  have s: "set bs = ?g ` set (tb_backups t)" by (simp add: bs)
  have "\<exists>r \<in> set (tb_backups t). y = ?g r" if "lookup_backup t i = Some y" for i y
    using that by (auto simp: lookup_backup_def find_Some_iff)
  then have "ran (lookup_backup t) = ?g ` set (tb_backups t)" using lk by (auto simp: ran_def)
  with s d lk show ?thesis by auto
qed

interpretation sqlite: catalogue_port "record_backup refuse" "set_verification refuse" backups lookup_backup tables_ok for refuse
proof (unfold_locales, goal_cases)
  case (1 t b u)
  then show ?case using record_extends by blast
next
  case (2 b t e u)
  then show ?case using lookup_rows[OF record_backup_failed] by blast
next
  case (3 t b r u)
  then show ?case using record_backup_done(6) tables_ok_rows[OF record_backup_failed] by (cases r) blast+
next
  case (4 t ident v at u)
  then show ?case using conclude_changes by blast
next
  case (5 ident v at t e u)
  then show ?case using lookup_rows[OF set_verification_failed] by blast
next
  case (6 t ident v at r u)
  then show ?case using set_verification_ok tables_ok_rows[OF set_verification_failed] by (cases r) blast+
next
  case (7 t bs u)
  then show ?case by (rule listing_is_the_map)
next
  case (8 f t answer u)
  then show ?case using lookup_rows[OF backups_rows] tables_ok_rows[OF backups_rows] by blast
qed

section \<open>The schema holds along every use\<close>

lemma upsert_ok:
  assumes "tables_ok t"
  shows "tables_ok (upsert_database r t)"
proof (cases "dr_id r \<in> dr_id ` set (tb_databases t)")
  case False
  with assms show ?thesis by (auto simp: upsert_database_def tables_ok_def)
next
  case True
  define ds where "ds = map (\<lambda>old. if dr_id old = dr_id r then r\<lparr>dr_created := dr_created old\<rparr> else old) (tb_databases t)"
  have k: "map dr_id ds = map dr_id (tb_databases t)" by (simp add: ds_def)
  then have "dr_id ` set ds = dr_id ` set (tb_databases t)" by (metis list.set_map)
  moreover have "upsert_database r t = t\<lparr>tb_databases := ds\<rparr>" using True by (simp add: upsert_database_def ds_def)
  ultimately show ?thesis using assms k by (simp add: tables_ok_def)
qed

lemma record_database_ok: "record_database refuse sha256 d at t = (r, u) \<Longrightarrow> tables_ok t \<Longrightarrow> tables_ok u"
  using tables_ok_rows by (auto simp: record_database_def upsert_ok dest!: db_call_rows split: prod.splits option.splits if_splits)

definition empty_tables :: "gerr option list \<Rightarrow> tables" where
  "empty_tables faults = \<lparr>tb_databases = [], tb_jobs = [], tb_backups = [], tb_copies = [], tb_faults = faults\<rparr>"

inductive used :: "(violation \<Rightarrow> gerr) \<Rightarrow> (string \<Rightarrow> string) \<Rightarrow> tables \<Rightarrow> bool" for refuse sha256 where
  fresh: "used refuse sha256 (empty_tables faults)"
| database: "used refuse sha256 t \<Longrightarrow> record_database refuse sha256 d at t = (r, u) \<Longrightarrow> used refuse sha256 u"
| archive: "used refuse sha256 t \<Longrightarrow> record_backup refuse b t = (r, u) \<Longrightarrow> used refuse sha256 u"
| verdict: "used refuse sha256 t \<Longrightarrow> set_verification refuse ident v at t = (r, u) \<Longrightarrow> used refuse sha256 u"
| listing: "used refuse sha256 t \<Longrightarrow> backups f t = (answer, u) \<Longrightarrow> used refuse sha256 u"

text \<open>
  C17. The catalogue keeps its schema (ADR-0006) along every use: starting from empty tables, whatever is
  recorded, verified or listed and whichever statements fail, identifiers stay unique, a copy belongs
  to an archive that is there, an archive to a database and a job that are there, and every archive
  has readable moments, sizes that are not negative and one of the four verdicts.
\<close>

theorem schema_holds_along_every_use:
  assumes "used refuse sha256 t"
  shows "distinct (map br_id (tb_backups t)) \<and> distinct (map (\<lambda>r. (cp_backup r, cp_destination r)) (tb_copies t))
    \<and> cp_backup ` set (tb_copies t) \<subseteq> br_id ` set (tb_backups t)
    \<and> br_database ` set (tb_backups t) \<subseteq> dr_id ` set (tb_databases t)
    \<and> list_all (\<lambda>r. null_or (\<lambda>j. j \<in> jb_id ` set (tb_jobs t)) (br_job r)) (tb_backups t)
    \<and> list_all backup_row_ok (tb_backups t)"
proof -
  have "tables_ok t" using assms
  proof (induction rule: used.induct)
    case (fresh faults)
    show ?case by (simp add: empty_tables_def tables_ok_def)
  next
    case (database t d at r u)
    then show ?case using record_database_ok by blast
  next
    case (archive t b r u)
    then show ?case using sqlite.record_sound by blast
  next
    case (verdict t ident v at r u)
    then show ?case using sqlite.conclude_sound by blast
  next
    case (listing t f answer u)
    then show ?case using sqlite.listing_keeps by blast
  qed
  then show ?thesis by (auto simp: tables_ok_def list_all_iff)
qed

section \<open>The catalogue as a map\<close>

text \<open>
  C11. Recording an archive is adding it to a map, or nothing (E-028): when it succeeds the identifier was
  free and now stands for the archive with all its copies, moments to the second, every other
  identifier as before; when it fails, at whichever of its statements, nothing of it is there.
\<close>

theorem recording_refines_a_map:
  assumes "tables_ok t" "datable b" "record_backup refuse b t = (failed, u)"
  shows "case failed of
      None \<Rightarrow> lookup_backup t (bk_id b) = None \<and> lookup_backup u = (lookup_backup t)(bk_id b \<mapsto> kept b)
    | Some e \<Rightarrow> lookup_backup u = lookup_backup t"
  using sqlite.record_done[OF assms(1), of refuse b u] sqlite.record_refused[of refuse b t _ u] assms(2,3)
  by (auto split: option.split)

text \<open>
  A verification changes the verdict of its archive and nothing else: when it is recorded, the
  identifier stands for the same archive with the new verdict and its moment to the second, every
  other identifier as before; when it fails nothing changes, and on a database where no statement
  fails it is refused exactly when no archive has the identifier, with \<open>ErrNoSuchBackup\<close>.
\<close>

lemma verdict_refines_a_map:
  assumes "tables_ok t" "writable_instant utc at" "set_verification refuse ident v at t = (failed, u)"
  shows "(case failed of
        None \<Rightarrow> \<exists>b. lookup_backup t ident = Some b \<and> lookup_backup u = (lookup_backup t)(ident \<mapsto> concluded v at b)
      | Some e \<Rightarrow> lookup_backup u = lookup_backup t)
    \<and> (tb_faults t = [] \<and> stamp_ok (stamp at) \<and> v \<noteq> UnsetVerification \<longrightarrow>
        (case failed of None \<Rightarrow> lookup_backup t ident \<noteq> None
         | Some e \<Rightarrow> lookup_backup t ident = None \<and> errors_is e ErrNoSuchBackup))"
proof (intro conjI impI)
  show "case failed of
        None \<Rightarrow> \<exists>b. lookup_backup t ident = Some b \<and> lookup_backup u = (lookup_backup t)(ident \<mapsto> concluded v at b)
      | Some e \<Rightarrow> lookup_backup u = lookup_backup t"
    using sqlite.conclude_done[OF assms(1), of refuse ident v at u] sqlite.conclude_refused[of refuse ident v at t _ u] assms(2,3)
    by (auto split: option.split)
next
  assume q: "tb_faults t = [] \<and> stamp_ok (stamp at) \<and> v \<noteq> UnsetVerification"
  then have "verification_name v \<in> set verifications" by (cases v) (simp_all add: verifications_def)
  moreover have "lookup_backup t ident = None \<longleftrightarrow> ident \<notin> br_id ` set (tb_backups t)"
    using find_key_None[of br_id ident "tb_backups t"] by (simp add: lookup_backup_def)
  ultimately show "case failed of None \<Rightarrow> lookup_backup t ident \<noteq> None
         | Some e \<Rightarrow> lookup_backup t ident = None \<and> errors_is e ErrNoSuchBackup"
    using q assms(3) by (auto simp: set_verification_def db_call_def split: if_splits)
qed

text \<open>
  What was recorded is listed: after an archive is recorded, a listing of everything that succeeds
  holds it, with its copies, once.
\<close>

lemma recorded_is_listed:
  assumes "tables_ok t" "datable b" "record_backup refuse b t = (None, u)" "backups no_filter u = (Inr bs, w)"
  shows "filter (\<lambda>x. bk_id x = bk_id b) bs = [kept b]"
proof -
  have "kept b \<in> set bs" by (rule sqlite.recorded_then_listed[OF assms(1,3,2,4)])
  moreover have "distinct (map bk_id bs)"
    using sqlite.listing_all[OF sqlite.record_sound[OF assms(1,3)] assms(4)] by blast
  moreover have "bk_id (kept b) = bk_id b" by (simp add: kept_def)
  ultimately show ?thesis
    by (induction bs) (auto simp: filter_empty_conv image_iff)
qed

section \<open>Examples\<close>

definition sample_tables :: tables where
  "sample_tables =
     \<lparr>tb_databases = [\<lparr>dr_id = ''ab'', dr_engine = ''mysql'', dr_host = [], dr_port = 0, dr_name = [], dr_user = [],
        dr_fingerprint = [], dr_resolved = [], dr_created = stamp 5, dr_updated = stamp 5\<rparr>],
      tb_jobs = [], tb_backups = [], tb_copies = [], tb_faults = []\<rparr>"

definition sample_backup :: backup where
  "sample_backup = no_backup\<lparr>bk_id := ''j'', bk_database := ''ab'', bk_job := ''j'', bk_started := 5, bk_finished := 7,
     bk_locations := [\<lparr>sc_destination = ''disk'', sc_path = ''p'', sc_bytes = 3, sc_stored_at = 7\<rparr>]\<rparr>"

lemma sample_moments:
  "stamp 5 = ''0001-01-01T00:00:00Z''" "stamp 7 = ''0001-01-01T00:00:00Z''"
  "c_year (civil_of 5) = 1" "c_year (civil_of 7) = 1" "c_year (civil_of 0) = 1"
  by code_simp+

lemma sample_writable [simp]: "writable_instant utc 0" "writable_instant utc 5" "writable_instant utc 7"
  by (simp_all add: writable_instant_def writable_offset_def utc_def sample_moments)

lemma sample_stamp_ok: "stamp_ok ''0001-01-01T00:00:00Z''"
  by (simp add: stamp_ok_def is_digit_def byte_in_def)

lemma sample_tables_ok: "tables_ok sample_tables"
  by (simp add: tables_ok_def sample_tables_def)

lemma sample_datable: "datable sample_backup"
  by (simp add: datable_def sample_backup_def no_backup_def)

lemma sample_recorded: "\<exists>u. record_backup refuse sample_backup sample_tables = (None, u)"
  by (simp add: record_backup_def fill_transaction_def insert_job_def job_row_of_def insert_backup_def backup_row_of_def
      backup_row_ok_def insert_copy_def copy_row_of_def db_call_def sample_tables_def sample_backup_def no_backup_def
      sample_moments sample_stamp_ok null_or_def nullable_def nullable_stamp_def is_zero_time_def duration_of_def
      in_milliseconds_def time_sub_def max_duration_def millisecond_def verifications_def signed_divide_int_def)

theorem recording_refines_a_map_witness:
  "\<exists>u. record_backup (\<lambda>_. errors_new ''constraint'') sample_backup sample_tables = (None, u)
    \<and> lookup_backup u ''j'' = Some (kept sample_backup)"
proof -
  obtain u where u: "record_backup (\<lambda>_. errors_new ''constraint'') sample_backup sample_tables = (None, u)"
    using sample_recorded by blast
  from recording_refines_a_map[OF sample_tables_ok sample_datable u] u show ?thesis by (auto simp: sample_backup_def)
qed

theorem verdict_refines_a_map_witness:
  "\<exists>e u. set_verification (\<lambda>_. errors_new ''constraint'') ''j'' Checksum 5 sample_tables = (Some e, u)
    \<and> errors_is e ErrNoSuchBackup"
proof -
  obtain f u where u: "set_verification (\<lambda>_. errors_new ''constraint'') ''j'' Checksum 5 sample_tables = (f, u)" by fastforce
  have "lookup_backup sample_tables ''j'' = None" "tb_faults sample_tables = []"
    by (simp_all add: lookup_backup_def sample_tables_def)
  with verdict_refines_a_map[OF sample_tables_ok _ u] u show ?thesis
    by (cases f) (auto simp: sample_moments sample_stamp_ok)
qed

theorem recorded_is_listed_witness:
  "\<exists>u bs w. record_backup (\<lambda>_. errors_new ''constraint'') sample_backup sample_tables = (None, u)
    \<and> backups no_filter u = (Inr bs, w) \<and> filter (\<lambda>x. bk_id x = ''j'') bs = [kept sample_backup]"
proof -
  obtain u where u: "record_backup (\<lambda>_. errors_new ''constraint'') sample_backup sample_tables = (None, u)"
    using sample_recorded by blast
  then have "tb_faults u = []"
    by (auto simp: record_backup_def fill_transaction_def insert_job_def insert_backup_def insert_copy_def db_call_def
        sample_tables_def sample_backup_def no_backup_def rollback_def split: if_splits option.splits)
  then obtain bs w where "backups no_filter u = (Inr bs, w)"
    by (cases "select_backups no_filter u = []") (auto simp: backups_def with_locations_def db_call_def)
  with recorded_is_listed[OF sample_tables_ok sample_datable u this] u show ?thesis by (auto simp: sample_backup_def)
qed

text \<open>
  The limit of a listing is applied before its destination (against E-064): the catalogue takes the
  most recent archives first and only then keeps the ones the destination holds, so a listing of one
  archive of a destination that holds one can be empty.
\<close>

lemma limit_before_destination:
  "\<exists>t. tables_ok t
    \<and> map (\<lambda>b. bk_id b) (case fst (backups \<lparr>fl_database = [], fl_destination = ''disk'', fl_limit = 0\<rparr> t) of Inr bs \<Rightarrow> bs | Inl e \<Rightarrow> []) = [''j'']
    \<and> fst (backups \<lparr>fl_database = [], fl_destination = ''disk'', fl_limit = 1\<rparr> t) = Inr []"
proof -
  let ?s = "''0001-01-01T00:00:00Z''"
  let ?r = "\<lambda>i s. \<lparr>br_id = i, br_database = ''ab'', br_job = None, br_started = s, br_finished = None, br_size = 0,
      br_stored = 0, br_sha_raw = None, br_sha_stored = None, br_manifest = None, br_verified = ''none'',
      br_verified_at = None, br_created = s, br_updated = s\<rparr>"
  let ?t = "sample_tables\<lparr>tb_backups := [?r ''j'' ?s, ?r ''k'' ?s],
      tb_copies := [\<lparr>cp_backup = ''j'', cp_destination = ''disk'', cp_status = ''stored'', cp_path = ''p'', cp_size = 0,
        cp_stored_at = None, cp_created = ?s, cp_updated = ?s\<rparr>]\<rparr>"
  have "tables_ok ?t"
    by (simp add: tables_ok_def sample_tables_def backup_row_ok_def sample_stamp_ok null_or_def verifications_def)
  then show ?thesis
    by (intro exI[of _ ?t]) (simp add: backups_def select_backups_def with_locations_def select_copies_def db_call_def
        sample_tables_def row_before_def copies_of_def scan_copy_def)
qed

end
