(* ===== verification/Cli_Backup.thy ===== *)
theory Cli_Backup
  imports Cli_Wiring Backup_Failure State_Contract
begin

text \<open>
  The command \<open>koffr backup\<close> of \<open>internal/cli/backup.go\<close>: what it prints, journals and records in the
  catalogue; the command as a whole is in \<open>Cli_Process\<close>. \<open>say\<close> writes on the first stream of an output, \<open>warn\<close> on the second.
\<close>

section \<open>Output\<close>

type_synonym screen = "string \<times> string"

definition line_of :: "string \<Rightarrow> string" where
  "line_of s = s @ [newline]"

definition warned :: "string list \<Rightarrow> string" where
  "warned ws = concat (map line_of ws)"

definition staging_line :: "job_result \<Rightarrow> string" where
  "staging_line r = line_of (''staging  '' @ mode_name (jr_staging r) @ '' ('' @ jr_staging_reason r @ '')'')"

definition render_plan :: "job_result \<Rightarrow> screen" where
  "render_plan r =
     (if jr_path r = [] then ([], [])
      else (line_of (''dry run  '' @ jr_database r) @ line_of (''archive  '' @ jr_path r) @ staging_line r @
            line_of (''sending  '' @ join_with '', '' (jr_destinations r)) @ line_of ''nothing was written'',
            warned (jr_warnings r)))"

definition render_backup :: "job_result \<Rightarrow> screen" where
  "render_backup r =
     (if \<not> wrote r then ([], [])
      else (line_of (''archive  '' @ jr_path r) @ staging_line r @
            line_of (''size     '' @ dec_int (jr_stored_bytes r) @ '' bytes stored, '' @ dec_int (jr_raw_bytes r) @ '' dumped'') @
            line_of (''sha256   '' @ jr_sha_stored r) @
            line_of (''sent to  '' @ join_with '', '' (jr_destinations r)),
            warned (jr_warnings r)))"

section \<open>The journal\<close>

fun step_name :: "step \<Rightarrow> string" where
  "step_name StepResolution = ''resolution''"
| "step_name StepDump = ''dump''"
| "step_name StepCompression = ''compression''"
| "step_name StepEncryption = ''encryption''"
| "step_name StepWrite = ''write''"
| "step_name StepVerification = ''verification''"
| "step_name StepManifest = ''manifest''"

record log_line =
  ll_error :: bool
  ll_message :: string
  ll_attributes :: "fact list"

definition log_step :: "job_step \<Rightarrow> log_line" where
  "log_step e =
     (let attributes = [(''job'', FString (js_job e)), (''database'', FString (js_database e)),
            (''step'', FString (step_name (js_step e)))] @ js_facts e
      in case js_failed e of
           Some failure \<Rightarrow>
             \<lparr>ll_error = True, ll_message = ''step failed'',
              ll_attributes = attributes @ [(''error'', FString (err_said failure))]\<rparr>
         | None \<Rightarrow> \<lparr>ll_error = False, ll_message = ''step done'', ll_attributes = attributes\<rparr>)"

section \<open>The catalogue\<close>

definition catalogue_entry :: "job_result \<Rightarrow> backup" where
  "catalogue_entry r =
     (let v = verification_of_result r; finished = jr_at r + jr_duration r
      in no_backup\<lparr>bk_id := jr_job r, bk_database := jr_database r, bk_job := jr_job r, bk_started := jr_at r,
           bk_finished := finished, bk_raw_bytes := jr_raw_bytes r, bk_stored_bytes := jr_stored_bytes r,
           bk_sha_raw := jr_sha_raw r, bk_sha_stored := jr_sha_stored r, bk_manifest := jr_manifest r,
           bk_verified := v,
           bk_verified_at := (if \<not> vd_checked (jr_verification r) \<or> \<not> verified_at_all v then 0 else finished),
           bk_locations := map (\<lambda>d. \<lparr>sc_destination = d, sc_path = jr_path r, sc_bytes = jr_stored_bytes r,
             sc_stored_at = finished\<rparr>) (jr_destinations r)\<rparr>)"

definition record_in_catalogue ::
  "gerr option \<Rightarrow> (violation \<Rightarrow> gerr) \<Rightarrow> (string \<Rightarrow> string) \<Rightarrow> job_result \<Rightarrow> database_conf \<Rightarrow> tables \<Rightarrow> string list \<times> tables" where
  "record_in_catalogue opened refuse sha256 r d t =
     (case opened of
        Some e \<Rightarrow> ([''the backup is written but was not indexed: '' @ err_said (errorf ''open the catalogue'' e)], t)
      | None \<Rightarrow>
          (case record_database refuse sha256 (database_snapshot d) (jr_at r) t of
             (Some e, t1) \<Rightarrow> ([''the backup is written but its database was not indexed: '' @ err_said e], t1)
           | (None, t1) \<Rightarrow>
               (case record_backup refuse (catalogue_entry r) t1 of
                  (Some e, t2) \<Rightarrow> ([''the backup is written but was not indexed: '' @ err_said e], t2)
                | (None, t2) \<Rightarrow> ([], t2))))"

section \<open>A tool that ends badly\<close>

declare split_paired_All [simp del] split_paired_Ex [simp del]

lemma stage_filled_packed:
  assumes "stage_filled wi q dump watch path temp r w = (Inr p, r', w', seen)"
  shows "\<exists>src into. pr_answer (wi_pack wi src into) = Inr p \<and> dh_close dump (pr_drained (wi_pack wi src into)) = None"
  using assms by (auto simp: stage_filled_def Let_def dump_died_def split: prod.splits option.splits sum.splits)

lemma stream_end_packed:
  assumes "stream_end q dump k e seen r w = (Inr p, r', w', seen')"
  shows "pr_answer k = Inr p \<and> dh_close dump (pr_drained k) = None"
  using assms by (auto simp: stream_end_def dump_died_def err_of_def split: option.splits prod.splits sum.splits)

lemma dump_and_write_packed:
  assumes "dump_and_write wi q resolution watch md path r w = (Inr p, r', w', seen)"
  shows "\<exists>dump src into. wi_dumper wi resolution q = Inr dump \<and> pr_answer (wi_pack wi src into) = Inr p
    \<and> dh_close dump (pr_drained (wi_pack wi src into)) = None"
proof -
  from assms obtain dump where dump: "wi_dumper wi resolution q = Inr dump"
    by (cases "wi_dumper wi resolution q") (auto simp: dump_and_write_def)
  have streamed: "\<exists>src into. pr_answer (wi_pack wi src into) = Inr p \<and> dh_close dump (pr_drained (wi_pack wi src into)) = None"
    if "stream_end q dump (piped_run wi src taken e) e seen x v = (Inr p, x', v', seen')" for src taken e x v x' v' seen seen'
    using stream_end_packed [OF that] by (auto simp: piped_run_def split: if_splits)
  have "\<exists>src into. pr_answer (wi_pack wi src into) = Inr p \<and> dh_close dump (pr_drained (wi_pack wi src into)) = None"
    using assms dump
    by (auto simp: dump_and_write_def stage_def stream_def Let_def dest: stage_filled_packed streamed
        split: if_splits sum.splits prod.splits list.splits)
  with dump show ?thesis by blast
qed

text \<open>
  C5. A backup that reports success was dumped by a tool that ended well (BKP-09, BKP-25): on the wiring of
  the command, with its engine and its pipeline, the process koffr started on the host, with the command line and
  the environment of this dump, ended without an error; or Docker said of the very execution koffr created for
  this dump in the container of the database, once it no longer found it running, that its exit code is zero.
\<close>

theorem success_means_the_tool_ended_well:
  assumes "run wi q w = (r, None, w')"
    and "wi = backup_wiring ou fg codec sha256 elapsed c d s to machine"
    and "snd (access_resolve ou fg s (dc_id d)) = Some (server, tool)"
  shows "let req = dump_request_of s tool; m = ou_machine ou in
    if sj_container s = []
    then \<exists>p. mc_start m (dump_command req) (command_environment (mc_environ m) (password_environment req)) = Inr p
      \<and> pc_exit p = None
    else \<exists>execution k. dk_exec (mc_docker m) (sj_container s) (dump_command req) (password_environment req) = Inr execution
      \<and> list_all (found_running (dk_ended (mc_docker m) execution)) [0..<k]
      \<and> dk_ended (mc_docker m) execution k = Inr (False, 0)"
proof (rule run_success_parts [OF assms(1)])
  fix resolution wt dec p rA wA r2 w2 seen
  assume "dump_and_write wi q resolution (Some wt) (sd_mode dec) (path_for wi q resolution) rA wA = (Inr p, r2, w2, seen)"
  from dump_and_write_packed [OF this] obtain dump src into where
    dump: "wi_dumper wi resolution q = Inr dump" and packed: "pr_answer (wi_pack wi src into) = Inr p"
      "dh_close dump (pr_drained (wi_pack wi src into)) = None" by blast
  have "wi_pack wi = pipeline_pack codec sha256 to" using assms(2) by (simp add: backup_wiring_def Let_def)
  then have "pr_drained (wi_pack wi src into)"
    using piped.pack_whole [of codec sha256 to "fst src" "snd src" into p] packed(1) by simp
  with packed(2) have closed: "dh_close dump True = None" by simp
  from dump assms(2,3) have started: "engine_dump (ou_machine ou) [] (dump_request_of s tool) = Inr dump"
    by (auto simp: backup_wiring_def Let_def access_dump_def map_sum_def split: sum.splits)
  have "dq_container (dump_request_of s tool) = sj_container s" by (simp add: dump_request_of_def)
  with engine_handle_reports [OF started closed] show ?thesis unfolding Let_def by (auto split: if_splits)
qed

section \<open>A manifest is of a verified archive\<close>

text \<open>What no step before the manifest touches.\<close>

definition same_origin :: "job_result \<Rightarrow> job_result \<Rightarrow> bool" where
  "same_origin r r' \<longleftrightarrow> jr_job r' = jr_job r \<and> jr_database r' = jr_database r \<and> jr_at r' = jr_at r
     \<and> jr_resolution r' = jr_resolution r \<and> jr_manifest r' = jr_manifest r"

lemma same_origin_simps [simp]:
  "same_origin r r" "same_origin r (set_step b s r') = same_origin r r'" "same_origin (set_step b s r) r' = same_origin r r'"
  "same_origin r (unmark s r') = same_origin r r'"
  "same_origin r (r'\<lparr>jr_verification := v\<rparr>) = same_origin r r'" "same_origin r (r'\<lparr>jr_duration := i\<rparr>) = same_origin r r'"
  by (simp_all add: same_origin_def set_step_def unmark_def)

lemma same_origin_mark [simp]: "same_origin r (mark ss r') = same_origin r r'"
  by (induction ss arbitrary: r') simp_all

lemma mark_manifest: "jr_manifest (mark ss r) = jr_manifest r"
  by (induction ss arbitrary: r) (simp_all add: set_step_def)

lemma same_origin_trans: "same_origin a b \<Longrightarrow> same_origin b c \<Longrightarrow> same_origin a c"
  by (simp add: same_origin_def)

lemma dump_died_origin: "dump_died q e r w = (a, r', w') \<Longrightarrow> same_origin r r'"
  by (auto simp: dump_died_def split: option.splits)

lemma stage_filled_origin:
  "stage_filled wi q dump watch path temp r w = (a, r', w', seen) \<Longrightarrow> same_origin r r'"
  by (auto simp: stage_filled_def Let_def dest!: dump_died_origin split: prod.splits option.splits sum.splits)

lemma stream_end_origin: "stream_end q dump k e seen r w = (a, r', w', seen') \<Longrightarrow> same_origin r r'"
  by (auto simp: stream_end_def dest!: dump_died_origin split: prod.splits option.splits sum.splits)

lemma dump_and_write_origin:
  "dump_and_write wi q resolution watch md path r w = (a, r', w', seen) \<Longrightarrow> same_origin r r'"
  by (auto simp: dump_and_write_def stage_def stream_def Let_def dest!: stage_filled_origin stream_end_origin
      split: sum.splits prod.splits if_splits list.splits)

lemma verify_archive_origin: "verify_archive wi q watch r w = (a, r', w') \<Longrightarrow> same_origin r r'"
  by (auto simp: verify_archive_def conclude_verification_def Let_def
      split: option.splits prod.splits list.splits sum.splits if_splits)

lemma verify_archive_sound: "verify_archive wi q watch r w = (None, r', w') \<Longrightarrow> verdict_sound (jr_verification r')"
  by (auto simp: verify_archive_def conclude_verification_def Let_def mark_def set_step_def
      split: option.splits prod.splits list.splits sum.splits if_splits)

lemma deposit_manifest_result:
  assumes "deposit_manifest wi q r w = (failed, r', w')" and "wi_manifester wi = Some render"
  shows "if failed = None then \<exists>m. render r = Inr m \<and> r' = mark [StepManifest] (r\<lparr>jr_manifest := m\<rparr>) else r' = r"
  using assms by (auto simp: deposit_manifest_def Let_def split: sum.splits prod.splits option.splits)

lemma finish_run_manifest:
  assumes "finish_run wi q watch p r w = (r', failed, w')" and "wi_manifester wi = Some render" and "jr_manifest r = []"
  shows "if failed = None
    then \<exists>r0. verdict_sound (jr_verification r0) \<and> render r0 = Inr (jr_manifest r')
      \<and> r' = mark [StepManifest] (r0\<lparr>jr_manifest := jr_manifest r'\<rparr>) \<and> same_origin r r0
    else jr_manifest r' = []"
proof -
  obtain e r2 w2 r1 w1 where v: "verify_archive wi q watch r1 w1 = (e, r2, w2)" and r1: "same_origin r r1"
    and fr: "(case e of Some e \<Rightarrow> (r2, Some e, w2)
        | None \<Rightarrow> (case deposit_manifest wi q (r2\<lparr>jr_duration := wi_elapsed wi\<rparr>) w2 of (failed, r3, w3) \<Rightarrow> (r3, failed, w3)))
      = (r', failed, w')"
    using assms(1) unfolding finish_run_def Let_def
    by (auto simp: same_origin_def split: prod.splits)
  from v r1 assms(3) have o2: "same_origin r r2" "jr_manifest r2 = []"
    using same_origin_trans [OF r1 verify_archive_origin [OF v]] by (simp_all add: same_origin_def)
  show ?thesis
  proof (cases e)
    case (Some x)
    with fr o2 show ?thesis by auto
  next
    case None
    let ?r0 = "r2\<lparr>jr_duration := wi_elapsed wi\<rparr>"
    from None fr have dm: "deposit_manifest wi q ?r0 w2 = (failed, r', w')"
      by (auto split: prod.splits)
    have "verdict_sound (jr_verification ?r0)" using verify_archive_sound v None by simp
    moreover have "same_origin r ?r0" using o2(1) by simp
    ultimately show ?thesis
      using deposit_manifest_result [OF dm assms(2)] o2(2)
      by (auto intro!: exI [of _ ?r0] simp: set_step_def split: if_splits)
  qed
qed

lemma run_manifest:
  assumes "run wi q w = (r, failed, w')" and "wi_manifester wi = Some render"
  shows "if failed = None
    then \<exists>r0. verdict_sound (jr_verification r0) \<and> render r0 = Inr (jr_manifest r)
      \<and> r = mark [StepManifest] (r0\<lparr>jr_manifest := jr_manifest r\<rparr>) \<and> jr_job r0 = rq_job q
      \<and> jr_database r0 = rq_database q \<and> jr_at r0 = rq_at q
    else jr_manifest r = []"
proof -
  let ?ends = "\<lambda>(r :: job_result) failed. if failed = (None :: gerr option)
    then \<exists>r0. verdict_sound (jr_verification r0) \<and> render r0 = Inr (jr_manifest r)
      \<and> r = mark [StepManifest] (r0\<lparr>jr_manifest := jr_manifest r\<rparr>) \<and> jr_job r0 = rq_job q
      \<and> jr_database r0 = rq_database q \<and> jr_at r0 = rq_at q
    else jr_manifest r = []"
  have new: "jr_manifest (new_result q) = []" "jr_job (new_result q) = rq_job q" "jr_database (new_result q) = rq_database q"
    "jr_at (new_result q) = rq_at q"
    by (simp_all add: new_result_def)
  have resolved: "?ends x f"
    if rr: "run_resolved wi q resolution watch (mark [StepResolution] ((new_result q)\<lparr>jr_warnings := ws, jr_resolution := rs\<rparr>)) v = (x, f, v')"
    for resolution watch ws rs v x f v'
  proof -
    let ?r1 = "mark [StepResolution] ((new_result q)\<lparr>jr_warnings := ws, jr_resolution := rs\<rparr>)"
    have r1: "jr_manifest ?r1 = []" "jr_job ?r1 = rq_job q" "jr_database ?r1 = rq_database q" "jr_at ?r1 = rq_at q"
      using new by (simp_all add: set_step_def)
    from rr consider (undecided) e where "f = Some e" "x = ?r1"
      | (decided) m path rd vd a r2 w2 seen where
          "dump_and_write wi q resolution watch m path rd vd = (a, r2, w2, seen)" "same_origin ?r1 rd"
          "(case a of Inl e \<Rightarrow> (r2, Some e, w2)
            | Inr p \<Rightarrow> finish_run wi q (map_option (\<lambda>wt. (wt, seen)) watch) p r2 w2) = (x, f, v')"
      unfolding run_resolved_def Let_def
      by (auto simp: decided_def same_origin_def split: sum.splits prod.splits)
    then show ?thesis
    proof cases
      case undecided
      with r1 show ?thesis by simp
    next
      case decided
      have o: "same_origin ?r1 r2" by (rule same_origin_trans [OF decided(2) dump_and_write_origin [OF decided(1)]])
      then have r2: "jr_manifest r2 = []" "jr_job r2 = rq_job q" "jr_database r2 = rq_database q" "jr_at r2 = rq_at q"
        using r1 by (simp_all add: same_origin_def)
      show ?thesis
      proof (cases a)
        case (Inl e)
        with decided(3) r2 show ?thesis by auto
      next
        case (Inr p)
        with decided(3) have "finish_run wi q (map_option (\<lambda>wt. (wt, seen)) watch) p r2 w2 = (x, f, v')" by simp
        from finish_run_manifest [OF this assms(2) r2(1)] r2 show ?thesis
          by (auto simp: same_origin_def split: if_splits)
      qed
    qed
  qed
  have locked: "?ends x f" if "run_locked wi q v = (x, f, v')" for v x f v'
    using that new
    by (auto simp: run_locked_def Let_def mark_manifest simp del: mark_Cons dest!: resolved split: prod.splits option.splits sum.splits)
  show ?thesis
    using assms(1) new by (auto simp: run_def dest!: locked split: prod.splits sum.splits)
qed

text \<open>
  C6. A manifest is of a verified archive (P4, E-024): the result of a run that fails carries none, and the one
  of a run that succeeds is the manifest of exactly that result, which says that the checksum and the
  structure were checked; the catalogue is told the same.
\<close>

theorem manifest_is_of_a_verified_archive:
  assumes "run wi q w = (r, failed, w')" and "wi_manifester wi = Some (render_manifest d to zone)"
  shows "if failed = None
    then \<exists>m. jr_manifest r = marshal_indent (manifest_json m) @ [newline]
      \<and> m = manifest_of (indexed_backup r) (database_snapshot d) (run_of to r) zone
      \<and> mf_checksum m \<and> mf_structure m \<and> mf_backup m = rq_job q \<and> mf_database m = rq_database q
      \<and> bk_verified (catalogue_entry r) = Structure
    else jr_manifest r = []"
proof (cases "failed = None")
  case False
  with run_manifest [OF assms] show ?thesis by simp
next
  case True
  with run_manifest [OF assms] obtain r0 where r0: "verdict_sound (jr_verification r0)"
      "render_manifest d to zone r0 = Inr (jr_manifest r)" "r = mark [StepManifest] (r0\<lparr>jr_manifest := jr_manifest r\<rparr>)"
      "jr_job r0 = rq_job q" "jr_database r0 = rq_database q"
    by auto
  have same: "jr_verification r = jr_verification r0" "indexed_backup r = indexed_backup r0" "run_of to r = run_of to r0"
    by (subst r0(3); simp add: set_step_def indexed_backup_def verification_of_result_def run_of_def Let_def)+
  have "verification_of_result r0 = Structure"
    using r0(1) by (simp add: verification_of_result_def verdict_sound_def)
  moreover have "bk_verified (catalogue_entry r) = Structure"
    using same(1) r0(1) by (simp add: catalogue_entry_def verification_of_result_def Let_def verdict_sound_def)
  ultimately show ?thesis
    using True r0(2,4,5) same
    by (simp add: render_manifest_def manifest_of_def indexed_backup_def Let_def)
qed

section \<open>The index of a written backup\<close>

lemma record_in_catalogue_cases:
  assumes "record_in_catalogue opened refuse sha256 r d t = (warnings, u)"
  obtains (unopened) e where "opened = Some e" "u = t" "warnings \<noteq> []"
  | (database) e where "record_database refuse sha256 (database_snapshot d) (jr_at r) t = (Some e, u)" "warnings \<noteq> []"
  | (refused) e t1 where "record_database refuse sha256 (database_snapshot d) (jr_at r) t = (None, t1)"
      "record_backup refuse (catalogue_entry r) t1 = (Some e, u)" "warnings \<noteq> []"
  | (indexed) t1 where "record_database refuse sha256 (database_snapshot d) (jr_at r) t = (None, t1)"
      "record_backup refuse (catalogue_entry r) t1 = (None, u)" "warnings = []"
  using assms by (auto simp: record_in_catalogue_def split: option.splits prod.splits)

lemma lookup_after_database:
  assumes "record_database refuse sha256 d at t = (e, u)"
  shows "lookup_backup u = lookup_backup t"
proof -
  have "tb_backups u = tb_backups t \<and> tb_copies u = tb_copies t"
    using assms by (auto simp: record_database_def upsert_database_def same_rows_def dest!: db_call_rows
        split: prod.splits option.splits if_splits)
  then show ?thesis by (intro ext) (simp add: lookup_backup_def select_copies_def)
qed

text \<open>
  C18. What the command tells of the index is what the catalogue holds (N-10, N-11): without a warning the job
  now stands for the archive it wrote, verified or failed as the run concluded, and was not there before;
  with one, no archive of the catalogue has changed, and the run is what it was either way.
\<close>

theorem a_written_backup_is_indexed_or_warned_of:
  assumes "record_in_catalogue opened refuse sha256 r d t = (warnings, u)" and "tables_ok t"
    and "datable (catalogue_entry r)"
  shows "if warnings = []
    then lookup_backup t (jr_job r) = None
      \<and> lookup_backup u = (lookup_backup t)(jr_job r \<mapsto> kept (catalogue_entry r))
      \<and> bk_verified (kept (catalogue_entry r)) = verification_of_result r
    else lookup_backup u = lookup_backup t"
  using assms(1)
proof (cases rule: record_in_catalogue_cases)
  case unopened
  then show ?thesis by simp
next
  case database
  then show ?thesis using lookup_after_database by auto
next
  case (refused e t1)
  then show ?thesis using lookup_after_database sqlite.record_refused by auto
next
  case (indexed t1)
  have before: "lookup_backup t1 = lookup_backup t" by (rule lookup_after_database [OF indexed(1)])
  have "tables_ok t1" by (rule record_database_ok [OF indexed(1) assms(2)])
  from sqlite.record_done [OF this indexed(2) assms(3)] before indexed(3) show ?thesis
    by (simp add: catalogue_entry_def kept_def verification_of_result_def Let_def)
qed

text \<open>
  A database that names a destination twice is backed up and never indexed: \<open>destinationsOf\<close> takes the
  repetition, and the copies of the archive then share the key of \<open>backup_locations\<close>.
\<close>

lemma repeated_destination_is_never_indexed:
  assumes "record_in_catalogue opened refuse sha256 r d t = (warnings, u)" and "tables_ok t"
    and "\<not> distinct (jr_destinations r)"
  shows "warnings \<noteq> [] \<and> lookup_backup u = lookup_backup t"
  using assms(1)
proof (cases rule: record_in_catalogue_cases)
  case unopened
  then show ?thesis by simp
next
  case database
  then show ?thesis using lookup_after_database by auto
next
  case (refused e t1)
  then show ?thesis using lookup_after_database sqlite.record_refused by auto
next
  case (indexed t1)
  have "tables_ok t1" by (rule record_database_ok [OF indexed(1) assms(2)])
  then have "tables_ok u" by (rule record_backup_done(6) [OF indexed(2)])
  then have "distinct (map (\<lambda>c. (cp_backup c, cp_destination c)) (tb_copies u))" by (simp add: tables_ok_def)
  then have "distinct (map (\<lambda>c. (bk_id (catalogue_entry r), sc_destination c)) (bk_locations (catalogue_entry r)))"
    using record_backup_done(3) [OF indexed(2)] by (simp add: copy_row_of_def comp_def)
  moreover have "map (\<lambda>c. (bk_id (catalogue_entry r), sc_destination c)) (bk_locations (catalogue_entry r))
      = map (Pair (jr_job r)) (jr_destinations r)"
    by (simp add: catalogue_entry_def Let_def)
  ultimately have "distinct (jr_destinations r)" by (metis distinct_map)
  with assms(3) show ?thesis by simp
qed

end
