(* ===== verification/Go_Table.thy ===== *)
theory Go_Table
  imports Go_JSON
begin

text \<open>
  \<open>text/tabwriter\<close> as koffr sets it up: no minimal width, a padding of two spaces, cells aligned on the left. A
  table is its lines, a line its cells, none of which holds a tab or a newline. Widths are in runes.
\<close>

function (sequential) rune_count :: "string \<Rightarrow> nat" where
  "rune_count [] = 0"
| "rune_count (c # cs) = Suc (rune_count (drop (max 1 (utf8_width (c # cs))) (c # cs)))"
  by pat_completeness auto

termination by (relation "measure length") (auto simp: max_def)

text \<open>The last cell of a line is not closed by a tab: it is in no column.\<close>

definition table_column :: "string list list \<Rightarrow> nat \<Rightarrow> string list" where
  "table_column rows i = map (\<lambda>cells. cells ! i) (filter (\<lambda>cells. Suc i < length cells) rows)"

definition column_width :: "string list \<Rightarrow> nat" where
  "column_width cells = fold max (map (\<lambda>c. rune_count c + 2) cells) 0"

definition pad_cell :: "nat \<Rightarrow> string \<Rightarrow> string" where
  "pad_cell width c = c @ replicate (width - rune_count c) CHR '' ''"

definition table_line :: "(nat \<Rightarrow> nat) \<Rightarrow> string list \<Rightarrow> string" where
  "table_line width cells =
     concat (map (\<lambda>(i, c). if Suc i < length cells then pad_cell (width i) c else c) (enumerate 0 cells)) @ [newline]"

definition render_table :: "string list list \<Rightarrow> string" where
  "render_table rows = concat (map (table_line (\<lambda>i. column_width (table_column rows i))) rows)"

section \<open>What a reader sees\<close>

lemma column_width_bound: "c \<in> set cells \<Longrightarrow> rune_count c + 2 \<le> column_width cells"
proof -
  have start: "m \<le> fold max xs (m :: nat)" for xs m
    by (induction xs arbitrary: m) (auto intro: order_trans max.cobounded2)
  have "x \<in> set xs \<Longrightarrow> x \<le> fold max xs (m :: nat)" for x xs m
  proof (induction xs arbitrary: m)
    case (Cons a xs)
    then show ?case using start [of "max a m" xs] by auto
  qed simp
  then show "c \<in> set cells \<Longrightarrow> ?thesis" by (auto simp: column_width_def)
qed

lemma cell_in_column:
  assumes "cells \<in> set rows" and "Suc i < length cells"
  shows "cells ! i \<in> set (table_column rows i)"
  using assms by (auto simp: table_column_def)

text \<open>Two cells of a line are always apart: what one says never runs into the next.\<close>

lemma cells_apart:
  assumes "cells \<in> set rows" and "Suc i < length cells"
  shows "\<exists>n. pad_cell (column_width (table_column rows i)) (cells ! i) = cells ! i @ CHR '' '' # CHR '' '' # replicate n CHR '' ''"
proof -
  let ?w = "column_width (table_column rows i)" and ?c = "cells ! i"
  have "rune_count ?c + 2 \<le> ?w" by (rule column_width_bound [OF cell_in_column [OF assms]])
  then have "?w - rune_count ?c = Suc (Suc (?w - rune_count ?c - 2))" by simp
  then show ?thesis unfolding pad_cell_def by (metis replicate_Suc)
qed

lemma table_lines: "length (filter ((=) newline) (render_table rows))
    = length rows + length (filter ((=) newline) (concat (concat rows)))"
proof -
  have pad: "filter ((=) newline) (pad_cell w c) = filter ((=) newline) c" for w c
    by (simp add: pad_cell_def newline_def)
  have cells: "length (filter ((=) newline) (concat (map (\<lambda>(i, c). if P i then pad_cell (w i) c else c) (enumerate n cells))))
      = length (filter ((=) newline) (concat cells))" for w cells n P
    by (induction cells arbitrary: n) (auto simp: pad)
  have "length (filter ((=) newline) (table_line w cells)) = Suc (length (filter ((=) newline) (concat cells)))" for w cells
    by (simp add: table_line_def cells)
  then have "length (filter ((=) newline) (concat (map (table_line w) rs)))
      = length rs + length (filter ((=) newline) (concat (concat rs)))" for w rs
    by (induction rs) simp_all
  then show ?thesis by (simp add: render_table_def)
qed

end
