(* ===== verification/Cli_Doctor.thy ===== *)
theory Cli_Doctor
  imports Cli_Backup Go_Table
begin

text \<open>
  The commands that look before anything is dumped: \<open>internal/cli/doctor.go\<close>, \<open>config.go\<close> and \<open>tools.go\<close>. What
  they promise a backup is at the end.
\<close>

section \<open>The table of doctor\<close>

definition em_dash :: string where "em_dash = [CHR 0xE2, CHR 0x80, CHR 0x94]"

definition verifiability :: "diagnosis \<Rightarrow> string" where
  "verifiability d =
     (if dg_unreachable d \<noteq> None \<or> dg_no_tool d \<noteq> None then em_dash
      else if dg_not_verifiable d \<noteq> None then ''no'' else ''yes'')"

definition reachability :: "diagnosis \<Rightarrow> string" where
  "reachability d = (if dg_unreachable d \<noteq> None then ''unreachable'' else ''yes'')"

definition server_of :: "diagnosis \<Rightarrow> string" where
  "server_of d =
     (if dg_unreachable d \<noteq> None then ''-''
      else family_name (si_family (the (dg_server d))) @ '' '' @ version_string (si_version (the (dg_server d))))"

definition tool_of :: "diagnosis \<Rightarrow> string" where
  "tool_of d =
     (if dg_unreachable d \<noteq> None then ''-'' else if dg_no_tool d \<noteq> None then ''none'' else ca_path (the (dg_tool d)))"

definition version_of :: "diagnosis \<Rightarrow> string" where
  "version_of d =
     (if dg_unreachable d \<noteq> None \<or> dg_no_tool d \<noteq> None then ''-'' else version_string (ca_version (the (dg_tool d))))"

definition source_of :: "diagnosis \<Rightarrow> string" where
  "source_of d =
     (if dg_unreachable d \<noteq> None \<or> dg_no_tool d \<noteq> None then ''-'' else source_name (ca_source (the (dg_tool d))))"

definition diagnosis_row :: "diagnosis \<Rightarrow> string list" where
  "diagnosis_row d =
     [dg_id d, reachability d, server_of d, tool_of d, version_of d, source_of d, verifiability d]"

definition advice_of :: "diagnosis \<Rightarrow> string" where
  "advice_of d =
     (let told = (\<lambda>what. newline # line_of (dg_id d @ '': '' @ what))
      in case dg_unreachable d of
           Some e \<Rightarrow> told (err_said e)
         | None \<Rightarrow>
             (case dg_no_tool d of
                Some e \<Rightarrow> told (err_said e)
              | None \<Rightarrow>
                  (case dg_not_verifiable d of
                     Some e \<Rightarrow> told (err_said e)
                   | None \<Rightarrow>
                       (let warning = warn_if_ahead (the (dg_tool d)) (the (dg_server d))
                        in if warning = [] then [] else told warning))))"

definition render_diagnoses :: "diagnosis list \<Rightarrow> string" where
  "render_diagnoses ds =
     render_table ([''DATABASE'', ''REACHABLE'', ''SERVER'', ''TOOL'', ''VERSION'', ''SOURCE'', ''VERIFIABLE''] #
       map diagnosis_row ds) @
     concat (map advice_of ds)"

section \<open>The commands\<close>

definition fleet_in_trouble :: gerr where
  "fleet_in_trouble = errors_new ''at least one database is not ready to be backed up''"

text \<open>A warning of the recipients goes to the second stream; a file that cannot be read is none.\<close>

definition warn_about_a_single_recipient :: "(string \<Rightarrow> string result) \<Rightarrow> config \<Rightarrow> os \<Rightarrow> string \<times> os" where
  "warn_about_a_single_recipient parse_key c s =
     (if en_recipients_file (cg_encryption c) = [] then ([], s)
      else case load_recipients parse_key (en_recipients_file (cg_encryption c)) s of
        (Inl e, s1) \<Rightarrow> ([], s1)
      | (Inr to, s1) \<Rightarrow> (if recipients_warning to = [] then [] else line_of (recipients_warning to), s1))"

definition load_resolved :: "reading \<Rightarrow> string \<Rightarrow> config result" where
  "load_resolved m path = map_sum (errorf ''invalid configuration'') (\<lambda>c. c) (load_config m path)"

definition load_shape :: "reading \<Rightarrow> string \<Rightarrow> config result" where
  "load_shape m path =
     (case rd_file m path of
        Inl e \<Rightarrow> Inl (errorf ''read the configuration'' e)
      | Inr raw \<Rightarrow> map_sum (errorf ''invalid configuration'') (\<lambda>c. c) (parse_config m raw path))"

text \<open>\<open>parse\<close> of \<open>internal/cli/config.go\<close>; no secret is resolved, so a fleet can be read without its passwords.\<close>

definition parse_file :: "reading \<Rightarrow> string \<Rightarrow> config result" where
  "parse_file m path =
     (case rd_file m path of
        Inl e \<Rightarrow> Inl (errorf ''read the configuration'' e)
      | Inr raw \<Rightarrow>
          (case parse_config m raw path of Inl e \<Rightarrow> Inl (errorf ''invalid configuration'' e) | Inr c \<Rightarrow> Inr c))"

definition diagnoses_of :: "outside \<Rightarrow> flags \<Rightarrow> subject list \<Rightarrow> diagnosis list" where
  "diagnoses_of ou fg = diagnose (probe_server (ou_drivers ou)) (on_host ou fg) (in_container ou)"

definition doctor ::
  "outside \<Rightarrow> flags \<Rightarrow> (string \<Rightarrow> string result) \<Rightarrow> config result \<Rightarrow> string \<Rightarrow> os \<Rightarrow> (screen \<times> gerr option) \<times> os" where
  "doctor ou fg parse_key loaded only s =
     (case loaded of
        Inl e \<Rightarrow> ((([], []), Some e), s)
      | Inr c \<Rightarrow>
          (case targets_of c only of
             Inl e \<Rightarrow> ((([], []), Some e), s)
           | Inr targets \<Rightarrow>
               (case warn_about_a_single_recipient parse_key c s of
                  (warning, s1) \<Rightarrow>
                    (let diagnoses = diagnoses_of ou fg targets
                     in (((render_diagnoses diagnoses, warning),
                          if list_all healthy diagnoses then None else Some fleet_in_trouble), s1)))))"

fun first_in_trouble :: "diagnosis list \<Rightarrow> gerr option" where
  "first_in_trouble [] = None"
| "first_in_trouble (d # ds) =
     (case dg_unreachable d of
        Some e \<Rightarrow> Some (errorf (''database '' @ dg_id d) e)
      | None \<Rightarrow>
          (case dg_no_tool d of
             Some e \<Rightarrow> Some (errorf (''database '' @ dg_id d) e)
           | None \<Rightarrow> first_in_trouble ds))"

definition reach_everything :: "outside \<Rightarrow> flags \<Rightarrow> config \<Rightarrow> gerr option" where
  "reach_everything ou fg c =
     (case targets_of c [] of
        Inl e \<Rightarrow> Some e
      | Inr targets \<Rightarrow> first_in_trouble (diagnoses_of ou fg targets))"

definition offline_note :: "bool \<Rightarrow> string" where
  "offline_note offline = (if offline then '' (offline: the secrets were not read)'' else [])"

definition validated :: "string \<Rightarrow> config \<Rightarrow> bool \<Rightarrow> string" where
  "validated path c offline =
     line_of (''ok '' @ path @ '': '' @ dec (length (cg_databases c)) @ '' databases, '' @
       dec (length (cg_destinations c)) @ '' destinations, '' @ dec (length (al_channels (cg_alerts c))) @
       '' alert channels, timezone '' @ ag_timezone (cg_agent c) @ offline_note offline)"

definition config_validate ::
  "outside \<Rightarrow> flags \<Rightarrow> (string \<Rightarrow> string result) \<Rightarrow> reading \<Rightarrow> string \<Rightarrow> bool \<Rightarrow> os \<Rightarrow> (screen \<times> gerr option) \<times> os" where
  "config_validate ou fg parse_key m path offline s =
     (case parse_file m path of
        Inl e \<Rightarrow> ((([], []), Some e), s)
      | Inr c \<Rightarrow>
          (case (if offline then (None, c) else resolve_secrets (rd_env m) (rd_file m) c) of
             (Some e, _) \<Rightarrow> ((([], []), Some (errorf (''invalid configuration: '' @ path) e)), s)
           | (None, settled) \<Rightarrow>
               (case (if offline then None else reach_everything ou fg settled) of
                  Some e \<Rightarrow> ((([], []), Some e), s)
                | None \<Rightarrow>
                    (case warn_about_a_single_recipient parse_key settled s of
                       (warning, s1) \<Rightarrow> (((validated path settled offline, warning), None), s1)))))"

definition config_show ::
  "(yaml_value \<Rightarrow> string result) \<Rightarrow> reading \<Rightarrow> string \<Rightarrow> bool \<Rightarrow> string result" where
  "config_show encode m path redact =
     (if \<not> redact then Inl (errors_new ''koffr never prints secrets: --redact cannot be turned off'')
      else case parse_file m path of Inl e \<Rightarrow> Inl e | Inr c \<Rightarrow> redacted_config encode c)"

section \<open>The tools koffr sees\<close>

definition every_kind :: "(family \<times> tool) list" where
  "every_kind = [(PostgreSQL, Dump), (PostgreSQL, Restore), (MySQL, Dump), (MySQL, Restore), (MariaDB, Dump),
     (MariaDB, Restore)]"

text \<open>The parts of a version are never negative.\<close>

definition three_digits :: "int \<Rightarrow> string" where
  "three_digits n = pad 3 (nat n)"

definition sort_key :: "candidate \<Rightarrow> string" where
  "sort_key c = family_name (ca_family c) @ ''|'' @ tool_name (ca_tool c) @ ''|'' @ three_digits (v_major (ca_version c)) @
     ''.'' @ three_digits (v_minor (ca_version c)) @ ''|'' @ ca_path c"

text \<open>One finder is asked six times: what it learns is kept from one question to the next.\<close>

fun find_kinds :: "host \<Rightarrow> (family \<times> tool) list \<Rightarrow> finder \<Rightarrow> candidate list result \<times> finder" where
  "find_kinds h [] f = (Inr [], f)"
| "find_kinds h ((family, t) # kinds) f =
     (case find_host h family t f of
        (Inl e, f1) \<Rightarrow> (Inl (errorf (''look for '' @ family_name family @ '' '' @ tool_name t @ '' tools'') e), f1)
      | (Inr cs, f1) \<Rightarrow> (case find_kinds h kinds f1 of (found, f2) \<Rightarrow> (map_sum (\<lambda>e. e) ((@) cs) found, f2)))"

definition every_candidate :: "host \<Rightarrow> finder \<Rightarrow> candidate list result" where
  "every_candidate h f =
     map_sum (\<lambda>e. e) (sort_by (\<lambda>a b. bytes_less (sort_key a) (sort_key b))) (fst (find_kinds h every_kind f))"

definition render_tools :: "candidate list \<Rightarrow> string" where
  "render_tools found =
     render_table ([''ENGINE'', ''TOOL'', ''VERSION'', ''SOURCE'', ''PATH''] #
       map (\<lambda>c. [family_name (ca_family c), tool_name (ca_tool c), version_string (ca_version c),
                  source_name (ca_source c), ca_path c]) found)"

definition tools_list :: "outside \<Rightarrow> flags \<Rightarrow> string result" where
  "tools_list ou fg =
     map_sum (\<lambda>e. e)
       (\<lambda>found. if found = [] then line_of (''no tool found. koffr looked on the host, on PATH and in '' @ tools_dir_of fg)
                else render_tools found)
       (every_candidate (ou_host ou) (finder_for ou fg))"

section \<open>What doctor promises a backup\<close>

lemma healthy_parts:
  assumes "healthy (diagnose_one probe host inside s)"
  obtains server tool where "probe (sj_target s) = Inr server"
    "diagnose_one probe host inside s
       = \<lparr>dg_id = sj_id s, dg_target = sj_target s, dg_server = Some server, dg_unreachable = None, dg_tool = Some tool,
          dg_no_tool = None, dg_not_verifiable = None\<rparr>"
    "fits tool server Dump" "verifiability_of host s server = None"
proof -
  obtain server where server: "probe (sj_target s) = Inr server"
    using assms by (cases "probe (sj_target s)") (auto simp: diagnose_one_def healthy_def Let_def)
  obtain cs where cs: "candidates_for host inside s (si_family server) = Inr cs"
    using assms server
    by (cases "candidates_for host inside s (si_family server)") (auto simp: diagnose_one_def healthy_def Let_def)
  obtain tool where tool: "choose_tool cs server Dump = Inr tool"
    using assms server cs by (cases "choose_tool cs server Dump") (auto simp: diagnose_one_def healthy_def Let_def)
  have verifiable: "verifiability_of host s server = None"
    using assms server cs tool by (simp add: diagnose_one_def healthy_def Let_def)
  show thesis
    by (rule that [of server tool])
      (use server cs tool verifiable choose_tool_some [OF tool] in \<open>simp_all add: diagnose_one_def Let_def\<close>)
qed

lemma probed_family:
  assumes "probe_server dv t = Inr server"
  shows "si_family server = PostgreSQL \<or> si_family server = MySQL \<or> si_family server = MariaDB"
  using assms
  by (auto simp: probe_server_def probe_postgres_def probe_mysql_family_def family_of_banner_def Let_def
      split: family.splits sum.splits prod.splits option.splits if_splits)

lemma known_family_name:
  "f = PostgreSQL \<or> f = MySQL \<or> f = MariaDB \<Longrightarrow> family_of_name (family_name f) = f"
  by (auto simp: family_of_name_def)

lemma access_resolve_healthy:
  assumes "diagnoses_of ou fg [s] = [d]" and "dg_unreachable d = None" "dg_no_tool d = None"
  shows "\<exists>resolution. access_resolve ou fg s database = (Inr resolution, Some (the (dg_server d), the (dg_tool d)))
    \<and> rs_engine resolution = family_name (si_family (the (dg_server d)))
    \<and> rs_tool_path resolution = ca_path (the (dg_tool d))"
  using assms by (simp add: diagnoses_of_def diagnose_def access_resolve_def Let_def)

lemma watch_of_family:
  assumes "rs_engine resolution = family_name f" and "f = PostgreSQL \<or> f = MySQL \<or> f = MariaDB"
  shows "watch_of ou fg resolution =
    (if f = PostgreSQL then
       (case on_host ou fg PostgreSQL Restore of
          Inl e \<Rightarrow> Inl (errorf (''look for a '' @ tool_name Restore @ '' tool'') e)
        | Inr [] \<Rightarrow>
            Inl (errors_new (''no pg_restore on this machine, so the structure of the archive cannot be checked '' @
              ''and P4 refuses to call it a backup: install the PostgreSQL client of major '' @ rs_server_version resolution))
        | Inr (restore # _) \<Rightarrow>
            map_sum (errorf ''watch the structure'') TableOfContents (new_contents (ou_restore ou) restore))
     else Inr (EndMarker new_marker))"
proof -
  have "family_of_name (rs_engine resolution) = f" using assms by (simp add: known_family_name)
  moreover have "map_sum (errorf a) (\<lambda>w. w) (map_sum (\<lambda>e. e) g x) = map_sum (errorf a) g x" for a g and x :: "gerr + contents_watcher"
    by (cases x) simp_all
  ultimately show ?thesis
    using assms(2) by (auto simp: watch_of_def watch_structure_def is_mysql_def Let_def split: sum.splits list.splits)
qed

text \<open>A restore tool that starts: there is a path, a pipe to feed it, and the process comes up.\<close>

definition starts :: "(string \<Rightarrow> restore_process) \<Rightarrow> candidate \<Rightarrow> bool" where
  "starts spawn restore \<longleftrightarrow> ca_path restore \<noteq> [] \<and> rt_pipe (spawn (ca_path restore)) = None
     \<and> rt_start (spawn (ca_path restore)) = None"

lemma new_contents_starts: "(\<exists>x. new_contents spawn restore = Inr x) \<longleftrightarrow> starts spawn restore"
  by (auto simp: new_contents_def starts_def split: option.splits)

lemma map_sum_Inr: "map_sum f g y = Inr x \<longleftrightarrow> (\<exists>z. y = Inr z \<and> x = g z)"
  by (cases y) auto

lemma watch_of_postgres:
  assumes "rs_engine resolution = family_name PostgreSQL"
  shows "(\<exists>x. watch_of ou fg resolution = Inr x) \<longleftrightarrow>
    (\<exists>restore rest. on_host ou fg PostgreSQL Restore = Inr (restore # rest) \<and> starts (ou_restore ou) restore)"
  unfolding watch_of_family [OF assms, simplified] new_contents_starts [symmetric]
  by (cases "on_host ou fg PostgreSQL Restore") (auto simp: map_sum_Inr split: list.splits)

lemma unready_parts:
  assumes "\<not> healthy (diagnose_one probe host inside s)"
  shows "dg_unreachable (diagnose_one probe host inside s) \<noteq> None \<or> dg_no_tool (diagnose_one probe host inside s) \<noteq> None
    \<or> (\<exists>server. probe (sj_target s) = Inr server \<and> dg_server (diagnose_one probe host inside s) = Some server
         \<and> si_family server = PostgreSQL \<and> (\<forall>cs. host PostgreSQL Restore = Inr cs \<longrightarrow> cs = []))"
  using assms
  by (auto simp: diagnose_one_def healthy_def verifiability_of_def Let_def split: sum.splits if_splits)

text \<open>
  C34. Doctor is right about what a backup can start with (A-26). A database it calls ready is resolved by the
  backup on the same machine to the very server and tool of the table, a tool the matrix calls compatible; the dump
  of a MySQL or a MariaDB has its watcher; a \<open>pg_restore\<close> was found on the host for a PostgreSQL that is not in a
  container, and the watcher of a PostgreSQL is built exactly when the first \<open>pg_restore\<close> found on the host starts,
  which doctor does not try, nor look for when the database is in a container. A database it does not call ready
  cannot be backed up: the resolution fails, or no watcher is built.
\<close>

theorem ready_means_a_backup_can_start:
  assumes "diagnoses_of ou fg [s] = [d]"
  shows "if healthy d
    then \<exists>resolution server tool. dg_server d = Some server \<and> dg_tool d = Some tool \<and> compatible server Dump tool
      \<and> access_resolve ou fg s database = (Inr resolution, Some (server, tool))
      \<and> (if si_family server \<noteq> PostgreSQL then watch_of ou fg resolution = Inr (EndMarker new_marker)
         else (sj_container s = [] \<longrightarrow>
                 (\<exists>restore rest. on_host ou fg PostgreSQL Restore = Inr (restore # rest) \<and> ca_tool restore = Restore))
           \<and> ((\<exists>x. watch_of ou fg resolution = Inr x) \<longleftrightarrow>
                (\<exists>restore rest. on_host ou fg PostgreSQL Restore = Inr (restore # rest) \<and> starts (ou_restore ou) restore)))
    else (\<exists>e. access_resolve ou fg s database = (Inl e, None))
      \<or> (\<exists>resolution p e. access_resolve ou fg s database = (Inr resolution, p) \<and> watch_of ou fg resolution = Inl e)"
proof -
  have d: "d = diagnose_one (probe_server (ou_drivers ou)) (on_host ou fg) (in_container ou) s"
    using assms by (simp add: diagnoses_of_def diagnose_def)
  show ?thesis
  proof (cases "healthy d")
    case True
    obtain server tool where parts: "probe_server (ou_drivers ou) (sj_target s) = Inr server" "dg_server d = Some server"
        "dg_tool d = Some tool" "dg_unreachable d = None" "dg_no_tool d = None" "compatible server Dump tool"
        "verifiability_of (on_host ou fg) s server = None"
      using healthy_parts [OF True [unfolded d]] d by (metis diagnosis.select_convs fits_compatible)
    obtain resolution where r: "access_resolve ou fg s database = (Inr resolution, Some (server, tool))"
        "rs_engine resolution = family_name (si_family server)"
      using access_resolve_healthy [OF assms parts(4,5)] parts(2,3) by auto
    have "if si_family server \<noteq> PostgreSQL then watch_of ou fg resolution = Inr (EndMarker new_marker)
         else (sj_container s = [] \<longrightarrow>
                 (\<exists>restore rest. on_host ou fg PostgreSQL Restore = Inr (restore # rest) \<and> ca_tool restore = Restore))
           \<and> ((\<exists>x. watch_of ou fg resolution = Inr x) \<longleftrightarrow>
                (\<exists>restore rest. on_host ou fg PostgreSQL Restore = Inr (restore # rest) \<and> starts (ou_restore ou) restore))"
      using watch_of_family [OF r(2) probed_family [OF parts(1)], of ou fg] watch_of_postgres [of resolution ou fg] r(2)
        cli_tools.verifiable_on_the_host [OF parts(7)] by auto
    with True parts(2,3,6) r(1) show ?thesis by (simp only: if_True) blast
  next
    case False
    show ?thesis
    proof (cases "dg_unreachable d = None \<and> dg_no_tool d = None")
      case True
      with unready_parts [OF False [unfolded d]] d obtain server where server:
        "dg_server d = Some server" "si_family server = PostgreSQL"
        "\<And>cs. on_host ou fg PostgreSQL Restore = Inr cs \<Longrightarrow> cs = []" by auto
      obtain resolution p where r: "access_resolve ou fg s database = (Inr resolution, p)"
          "rs_engine resolution = family_name PostgreSQL"
        using access_resolve_healthy [OF assms conjunct1 [OF True] conjunct2 [OF True], of database] server(1,2) by auto
      have "\<not> (\<exists>x. watch_of ou fg resolution = Inr x)" using watch_of_postgres [OF r(2)] server(3) by auto
      then obtain e where "watch_of ou fg resolution = Inl e" by (cases "watch_of ou fg resolution") auto
      with False r(1) show ?thesis by auto
    next
      case broken: False
      have "\<exists>e. access_resolve ou fg s database = (Inl e, None)"
        using broken d by (auto simp: access_resolve_def diagnose_def Let_def split: option.splits)
      with False show ?thesis by simp
    qed
  qed
qed

text \<open>
  A PostgreSQL inside a container is called ready without a \<open>pg_restore\<close> on the host, where the watcher looks
  for one: the table says that it is verifiable, and every backup of it fails.
\<close>

lemma ready_in_a_container_and_never_backed_up:
  assumes "diagnoses_of ou fg [s] = [d]" and "dg_unreachable d = None" "dg_no_tool d = None"
    and "si_family (the (dg_server d)) = PostgreSQL" and "sj_container s \<noteq> []"
    and "on_host ou fg PostgreSQL Restore = Inr []"
    and "wi = backup_wiring ou fg codec sha256 elapsed c declared s to machine"
    and "run wi q w = (r, failed, w')"
  shows "healthy d \<and> verifiability d = ''yes'' \<and> failed \<noteq> None"
proof -
  have d: "d = diagnose_one (probe_server (ou_drivers ou)) (on_host ou fg) (in_container ou) s"
    using assms(1) by (simp add: diagnoses_of_def diagnose_def)
  have "dg_not_verifiable d = None"
    using assms(5) unfolding d by (auto simp: diagnose_one_def verifiability_of_def Let_def split: sum.splits)
  with assms(2,3) have healthy: "healthy d" and yes: "verifiability d = ''yes''"
    by (simp_all add: healthy_def verifiability_def)
  have "failed \<noteq> None"
  proof
    assume "failed = None"
    with assms(8) have ran: "run wi q w = (r, None, w')" by simp
    show False
    proof (rule run_success_parts [OF ran])
      fix resolution vf wt
      assume resolved: "wi_resolver wi (rq_database q) = Inr resolution"
        and watch: "wi_verifier wi = Some vf" "vf resolution = Inr wt"
      from resolved assms(7) have "fst (access_resolve ou fg s (rq_database q)) = Inr resolution"
        by (simp add: backup_wiring_def Let_def)
      with access_resolve_healthy [OF assms(1-3), of "rq_database q"] assms(4)
      have engine: "rs_engine resolution = family_name PostgreSQL" by auto
      from watch assms(7) have "\<exists>x. watch_of ou fg resolution = Inr x"
        by (cases "watch_of ou fg resolution") (auto simp: backup_wiring_def Let_def)
      then show False using watch_of_family [OF engine, of ou fg] assms(6) by simp
    qed
  qed
  with healthy yes show ?thesis by blast
qed

text \<open>Validation asks what doctor asks, but for the structure: it is quiet where doctor reports \<open>NotVerifiable\<close>.\<close>

lemma validation_is_doctor_without_the_structure:
  "first_in_trouble ds = None \<longleftrightarrow> list_all (\<lambda>d. healthy (d\<lparr>dg_not_verifiable := None\<rparr>)) ds"
  by (induction ds) (auto simp: healthy_def split: option.splits)

section \<open>What the list of tools shows\<close>

lemma find_kinds_cached:
  assumes "cache_true h (fi_known f)" and "list_all (\<lambda>(family, t). binary_names family t \<noteq> None) kinds"
  shows "\<exists>cs. fst (find_kinds h kinds f) = Inr cs
    \<and> set cs = {c. \<exists>k found. k \<in> set kinds \<and> search h (fi_options f) (fst k) (snd k) = Inr found \<and> c \<in> set found}"
  using assms
proof (induction kinds arbitrary: f)
  case Nil
  then show ?case by simp
next
  case (Cons k kinds)
  obtain family t where k: "k = (family, t)" by (cases k)
  with Cons.prems(2) obtain names where names: "binary_names family t = Some names" by auto
  obtain found f1 where one: "identify_all h family t (hs_walk h (locations h (fi_options f) names)) f = (found, f1)"
    by fastforce
  from identify_all_cached [OF Cons.prems(1) one] names
  have cached: "cache_true h (fi_known f1)" "fi_options f1 = fi_options f" "search h (fi_options f) family t = Inr found"
    and step: "find_host h family t f = (Inr found, f1)"
    using one by (simp_all add: search_def find_host_def)
  obtain cs f2 where rest: "find_kinds h kinds f1 = (Inr cs, f2)"
    and cs: "set cs = {c. \<exists>k found. k \<in> set kinds \<and> search h (fi_options f) (fst k) (snd k) = Inr found \<and> c \<in> set found}"
    using Cons.IH [OF cached(1)] Cons.prems(2) cached(2) by (cases "find_kinds h kinds f1") auto
  have "fst (find_kinds h (k # kinds) f) = Inr (found @ cs)" by (simp add: k step rest)
  moreover have "set (found @ cs) = {c. \<exists>j more. j \<in> set (k # kinds) \<and> search h (fi_options f) (fst j) (snd j) = Inr more \<and> c \<in> set more}"
    using cs cached(3) by (auto simp: k)
  ultimately show ?case by blast
qed

text \<open>
  What \<open>koffr tools list\<close> shows is what there is to choose from: it never fails, it lists every tool that the
  search of a backup or of a diagnosis answers for some family and operation and no other, whatever the finder
  learned on the way, and the lines are in the order of their keys.
\<close>

lemma tools_list_shows_what_is_chosen_from:
  "\<exists>cs. every_candidate (ou_host ou) (finder_for ou fg) = Inr cs
    \<and> set cs = {c. \<exists>family t found. on_host ou fg family t = Inr found \<and> c \<in> set found}
    \<and> sorted_wrt (\<lambda>a b. \<not> bytes_less (sort_key b) (sort_key a)) cs"
proof -
  let ?f = "finder_for ou fg"
  have fresh: "cache_true (ou_host ou) (fi_known ?f)" by (simp add: finder_for_def new_finder_def cache_true_def)
  have known: "list_all (\<lambda>(family, t). binary_names family t \<noteq> None) every_kind" by (simp add: every_kind_def)
  have all: "(family, t) \<in> set every_kind" if "search h opts family t = Inr found" for h opts family t found
    using that by (cases family; cases t) (simp_all add: every_kind_def search_def)
  from find_kinds_cached [OF fresh known] obtain cs where cs: "fst (find_kinds (ou_host ou) every_kind ?f) = Inr cs"
    "set cs = {c. \<exists>k found. k \<in> set every_kind \<and> search (ou_host ou) (fi_options ?f) (fst k) (snd k) = Inr found \<and> c \<in> set found}"
    by blast
  have "set cs = {c. \<exists>family t found. on_host ou fg family t = Inr found \<and> c \<in> set found}"
    unfolding cs(2) on_host_search using all by fastforce
  moreover have "sorted_wrt (\<lambda>a b. \<not> bytes_less (sort_key b) (sort_key a)) (sort_by (\<lambda>a b. bytes_less (sort_key a) (sort_key b)) cs)"
    by (rule strict_order.sorted_sort_by [OF bytes.by_key])
  ultimately show ?thesis using cs(1) by (simp add: every_candidate_def)
qed

end
