(* ===== verification/Cli_Verify.thy ===== *)
theory Cli_Verify
  imports Cli_Doctor
begin

text \<open>
  The command \<open>koffr verify\<close> of \<open>internal/cli/verify.go\<close>: an archive is read back from every destination that
  holds it and its checksum computed again. \<open>sha256\<close> is the hexadecimal digest. Moments are shown as
  \<open>streams.go\<close> shows them.
\<close>

section \<open>Moments\<close>

text \<open>\<open>at.In(in).Format("2006-01-02 15:04 -07:00")\<close>.\<close>

definition moment :: "instant \<Rightarrow> location \<Rightarrow> string" where
  "moment at zone =
     (if is_zero_time at then []
      else (let off = zone at; c = civil_of (at + off * second); m = \<bar>off\<bar> div 60
            in pad_int 4 (c_year c) @ ''-'' @ pad_int 2 (c_month c) @ ''-'' @ pad_int 2 (c_day c) @ '' '' @
               pad_int 2 (c_hour c) @ '':'' @ pad_int 2 (c_min c) @ '' '' @
               (if off \<le> - 60 then ''-'' else ''+'') @ pad_int 2 (m div 60) @ '':'' @ pad_int 2 (m mod 60)))"

section \<open>The archive\<close>

definition verification_failed :: "string \<Rightarrow> gerr" where
  "verification_failed why =
     Gerr [ErrVerificationFailed] (''the archive did not pass its verification: '' @ why)"

definition find_archive :: "tables \<Rightarrow> string \<Rightarrow> backup result \<times> tables" where
  "find_archive t ident =
     (case backups no_filter t of
        (Inl e, t1) \<Rightarrow> (Inl (errorf ''read the catalogue'' e), t1)
      | (Inr known, t1) \<Rightarrow>
          ((case find (\<lambda>b. bk_id b = ident) known of
              Some b \<Rightarrow> Inr b
            | None \<Rightarrow>
                (let recent = map bk_id (take 5 known)
                 in if recent = [] then
                      Inl (errors_new (''no archive is called '' @ go_quote ident @ '', and the catalogue is empty''))
                    else Inl (errors_new (''no archive is called '' @ go_quote ident @ ''; the most recent are: '' @
                      join_with '', '' recent)))), t1))"

definition structure_sentence :: "backup \<Rightarrow> string" where
  "structure_sentence b =
     line_of ''not replayed: the archive is encrypted and the private key that would'' @
     line_of ''           open it is not on this machine, by design (ADR-0017).'' @
     (if bk_verified b = Structure then
        line_of ''           It was checked while the dump streamed past, when the backup was taken''
      else
        line_of ''           Its structure was never checked: nothing recorded one for this'' @
        line_of ''           archive, and nothing can check it now'')"

section \<open>Its copies\<close>

record held_archive =
  ha_destination :: string
  ha_path :: string
  ha_store :: "os destination"

text \<open>The value of Go where nothing is set, but for the two fields that are.\<close>

definition database_on :: "string \<Rightarrow> string \<Rightarrow> database_conf" where
  "database_on database destination =
     \<lparr>dc_id = database, dc_engine = [], dc_host = [], dc_port = 0, dc_name = [], dc_user = [],
      dc_password = Secret [], dc_password_env = [], dc_password_file = [], dc_recipients_file = [],
      dc_tools = \<lparr>to_auto = False, to_strategy = [], to_container = []\<rparr>, dc_staging = [], dc_schedule = [],
      dc_min_interval = [], dc_allow_remote_schedule = False, dc_allow_restore = False,
      dc_destinations = [destination],
      dc_retention = \<lparr>rc_last = 0, rc_daily = 0, rc_weekly = 0, rc_monthly = 0\<rparr>\<rparr>"

fun hold_copies :: "(string \<Rightarrow> os) \<Rightarrow> config \<Rightarrow> backup \<Rightarrow> stored_copy list \<Rightarrow> held_archive list result" where
  "hold_copies disk c b [] = Inr []"
| "hold_copies disk c b (copy # copies) =
     (if sc_destination copy \<notin> dt_id ` set (cg_destinations c) then
        Inl (errors_new (''the archive '' @ bk_id b @ '' is on '' @ go_quote (sc_destination copy) @
          '', which the configuration no longer declares''))
      else case destinations_of disk c (database_on (bk_database b) (sc_destination copy)) of
        Inl e \<Rightarrow> Inl e
      | Inr stores \<Rightarrow>
          map_sum (\<lambda>e. e)
            ((#) \<lparr>ha_destination = sc_destination copy, ha_path = sc_path copy, ha_store = hd stores\<rparr>)
            (hold_copies disk c b copies))"

definition stores_for :: "(string \<Rightarrow> os) \<Rightarrow> config result \<Rightarrow> backup \<Rightarrow> (held_archive list \<times> location) result" where
  "stores_for disk loaded b =
     (case loaded of
        Inl e \<Rightarrow> Inl e
      | Inr c \<Rightarrow>
          (case hold_copies disk c b (bk_locations b) of
             Inl e \<Rightarrow> Inl e
           | Inr [] \<Rightarrow> Inl (errors_new (''the catalogue says the archive '' @ bk_id b @ '' is nowhere''))
           | Inr stores \<Rightarrow> Inr (stores, cg_location c)))"

definition checksum_of :: "(string \<Rightarrow> string) \<Rightarrow> os destination \<Rightarrow> string \<Rightarrow> string result" where
  "checksum_of sha256 d path =
     (case fst (so_read (ds_store d) path (ds_state d)) of
        Inl e \<Rightarrow> Inl (errorf (''read '' @ path) e)
      | Inr (bytes, None) \<Rightarrow> Inr (sha256 bytes)
      | Inr (bytes, Some e) \<Rightarrow> Inl (errorf (''read '' @ path) e))"

section \<open>The command\<close>

text \<open>What is said of the copies that match, and why the first other one does not.\<close>

fun reread_copies :: "(string \<Rightarrow> string) \<Rightarrow> backup \<Rightarrow> held_archive list \<Rightarrow> string \<times> string option" where
  "reread_copies sha256 b [] = ([], None)"
| "reread_copies sha256 b (x # rest) =
     (case checksum_of sha256 (ha_store x) (ha_path x) of
        Inl e \<Rightarrow> ([], Some (''the archive could not be read back from '' @ ha_destination x @ '': '' @ err_said e))
      | Inr reread \<Rightarrow>
          if reread \<noteq> bk_sha_stored b then
            ([], Some (''the checksum on '' @ ha_destination x @ '' does not match the catalogue:'' @
               [newline] @ ''  catalogue  '' @ bk_sha_stored b @ [newline] @ ''  on disk    '' @ reread))
          else (case reread_copies sha256 b rest of
            (said, why) \<Rightarrow> (line_of (''checksum   matches on '' @ ha_destination x) @ said, why)))"

definition fail_verification ::
  "(violation \<Rightarrow> gerr) \<Rightarrow> backup \<Rightarrow> instant \<Rightarrow> string \<Rightarrow> tables \<Rightarrow> (string \<times> gerr option) \<times> tables" where
  "fail_verification refuse b at why t =
     (case set_verification refuse (bk_id b) Failed at t of
        (Some e, t1) \<Rightarrow>
          ((line_of (''the verification failed and the catalogue could not be updated: '' @ err_said e),
            Some (verification_failed why)), t1)
      | (None, t1) \<Rightarrow> (([], Some (verification_failed why)), t1))"

definition verify_copies ::
  "(violation \<Rightarrow> gerr) \<Rightarrow> (string \<Rightarrow> string) \<Rightarrow> (string \<Rightarrow> os) \<Rightarrow> config result \<Rightarrow> instant \<Rightarrow> backup \<Rightarrow> tables
    \<Rightarrow> (screen \<times> gerr option) \<times> tables" where
  "verify_copies refuse sha256 disk loaded at b t =
     (case stores_for disk loaded b of
        Inl e \<Rightarrow> ((([], []), Some e), t)
      | Inr (stores, zone) \<Rightarrow>
          (case reread_copies sha256 b stores of
             (said, Some why) \<Rightarrow>
               (case fail_verification refuse b at why t of ((warning, failed), t1) \<Rightarrow> (((said, warning), failed), t1))
           | (said, None) \<Rightarrow>
               (case set_verification refuse (bk_id b) Checksum at t of
                  (Some e, t1) \<Rightarrow> (((said, []), Some (errorf ''record the verification'' e)), t1)
                | (None, t1) \<Rightarrow>
                    (((said @ ''structure  '' @ structure_sentence b @ line_of (''verified   '' @ moment at zone), []),
                      None), t1))))"

definition verify_command ::
  "gerr option \<Rightarrow> (violation \<Rightarrow> gerr) \<Rightarrow> (string \<Rightarrow> string) \<Rightarrow> (string \<Rightarrow> os) \<Rightarrow> config result \<Rightarrow> instant \<Rightarrow> string
    \<Rightarrow> tables \<Rightarrow> (screen \<times> gerr option) \<times> tables" where
  "verify_command opened refuse sha256 disk loaded at ident t =
     (case opened of
        Some e \<Rightarrow> ((([], []), Some (errorf ''open the catalogue'' e)), t)
      | None \<Rightarrow>
          (case find_archive t ident of
             (Inl e, t1) \<Rightarrow> ((([], []), Some e), t1)
           | (Inr b, t1) \<Rightarrow> verify_copies refuse sha256 disk loaded at b t1))"

section \<open>What a verification says\<close>

text \<open>A copy is what the catalogue says: read back whole from a declared directory, its digest is the one recorded.\<close>

definition copy_matches ::
  "(string \<Rightarrow> string) \<Rightarrow> (string \<Rightarrow> os) \<Rightarrow> config \<Rightarrow> backup \<Rightarrow> stored_copy \<Rightarrow> bool" where
  "copy_matches sha256 disk c b copy \<longleftrightarrow>
     (case map_of (rev (map (\<lambda>x. (dt_id x, x)) (cg_destinations c))) (sc_destination copy) of
        None \<Rightarrow> False
      | Some d \<Rightarrow> dt_type d = ''filesystem''
          \<and> (case fst (fs_read (place_of (dt_path d)) (sc_path copy) (disk (dt_path d))) of
               Inl _ \<Rightarrow> False
             | Inr (bytes, failed) \<Rightarrow> failed = None \<and> sha256 bytes = bk_sha_stored b))"

lemma destinations_of_one:
  "destinations_of disk c (database_on database ident) = Inr ds \<Longrightarrow>
    \<exists>d. map_of (rev (map (\<lambda>x. (dt_id x, x)) (cg_destinations c))) ident = Some d \<and> dt_type d = ''filesystem''
      \<and> ds = [\<lparr>ds_id = ident, ds_store = filesystem (place_of (dt_path d)), ds_state = disk (dt_path d)\<rparr>]"
  by (auto simp: destinations_of_def database_on_def split: option.splits if_splits)

lemma checksum_of_matches:
  assumes "destinations_of disk c (database_on (bk_database b) (sc_destination copy)) = Inr ds"
  shows "checksum_of sha256 (hd ds) (sc_path copy) = Inr (bk_sha_stored b) \<longleftrightarrow> copy_matches sha256 disk c b copy"
  using destinations_of_one [OF assms]
  by (auto simp: checksum_of_def copy_matches_def filesystem_def split: sum.splits option.splits)

definition told_matching :: "stored_copy list \<Rightarrow> string" where
  "told_matching copies = concat (map (\<lambda>copy. line_of (''checksum   matches on '' @ sc_destination copy)) copies)"

lemma told_matching_Nil [simp]: "told_matching [] = []"
  by (simp add: told_matching_def)

definition first_mismatch ::
  "(stored_copy \<Rightarrow> bool) \<Rightarrow> stored_copy list \<Rightarrow> stored_copy list \<Rightarrow> stored_copy \<Rightarrow> bool" where
  "first_mismatch P copies before copy \<longleftrightarrow>
     (\<exists>after. copies = before @ copy # after) \<and> list_all P before \<and> \<not> P copy"

lemma first_mismatch_Cons: "P c \<Longrightarrow> first_mismatch P copies before copy \<Longrightarrow> first_mismatch P (c # copies) (c # before) copy"
  by (auto simp: first_mismatch_def)

lemma contains_append: "contains (a @ x @ b) x"
  by (auto simp: contains_iff)

lemma reread_held_copies:
  assumes "hold_copies disk c b copies = Inr stores" "reread_copies sha256 b stores = (said, why)"
  shows "case why of
      None \<Rightarrow> list_all (copy_matches sha256 disk c b) copies \<and> said = told_matching copies
    | Some w \<Rightarrow> \<exists>before copy. first_mismatch (copy_matches sha256 disk c b) copies before copy
        \<and> said = told_matching before \<and> contains w (sc_destination copy)"
  using assms
proof (induction copies arbitrary: stores said why)
  case Nil
  then show ?case by (auto simp: told_matching_def)
next
  case (Cons copy copies)
  from Cons.prems(1) obtain ds rest where ds: "destinations_of disk c (database_on (bk_database b) (sc_destination copy)) = Inr ds"
    and rest: "hold_copies disk c b copies = Inr rest"
    and stores: "stores = \<lparr>ha_destination = sc_destination copy, ha_path = sc_path copy, ha_store = hd ds\<rparr> # rest"
    by (cases "hold_copies disk c b copies") (auto split: if_splits sum.splits)
  note matches = checksum_of_matches [OF ds, of sha256]
  show ?case
  proof (cases "copy_matches sha256 disk c b copy")
    case True
    then have sum: "checksum_of sha256 (hd ds) (sc_path copy) = Inr (bk_sha_stored b)" using matches by simp
    obtain said' where said': "reread_copies sha256 b rest = (said', why)" "said = line_of (''checksum   matches on '' @ sc_destination copy) @ said'"
      using Cons.prems(2) unfolding stores by (auto simp: sum split: prod.splits)
    show ?thesis
    proof (cases why)
      case None
      with Cons.IH [OF rest said'(1)] True said'(2) show ?thesis by (simp add: told_matching_def)
    next
      case (Some w)
      with Cons.IH [OF rest said'(1)] obtain before other where
        first: "first_mismatch (copy_matches sha256 disk c b) copies before other"
        and "said' = told_matching before" "contains w (sc_destination other)" by auto
      with said'(2) have "said = told_matching (copy # before)" by (simp add: told_matching_def)
      with first_mismatch_Cons [of "copy_matches sha256 disk c b", OF True first] Some \<open>contains w (sc_destination other)\<close>
      show ?thesis by auto
    qed
  next
    case False
    then have first: "first_mismatch (copy_matches sha256 disk c b) (copy # copies) [] copy" by (simp add: first_mismatch_def)
    have "said = [] \<and> (\<exists>w. why = Some w \<and> contains w (sc_destination copy))"
    proof (cases "checksum_of sha256 (hd ds) (sc_path copy)")
      case (Inl e)
      with Cons.prems(2) have "said = []" "why = Some (''the archive could not be read back from '' @ sc_destination copy @ '': '' @ err_said e)"
        unfolding stores by simp_all
      then show ?thesis by (intro conjI exI) (assumption+, rule contains_append)
    next
      case (Inr reread)
      with False matches have "reread \<noteq> bk_sha_stored b" by simp
      with Cons.prems(2) Inr have "said = []" "why = Some (''the checksum on '' @ sc_destination copy @ '' does not match the catalogue:'' @
          [newline] @ ''  catalogue  '' @ bk_sha_stored b @ [newline] @ ''  on disk    '' @ reread)"
        unfolding stores by simp_all
      then show ?thesis by (intro conjI exI) (assumption+, rule contains_append)
    qed
    with first show ?thesis by (auto simp: told_matching_def intro!: exI [of _ "[]"] exI [of _ copy])
  qed
qed

text \<open>The copies can be asked: there are some, each on a directory the configuration declares.\<close>

definition copies_declared :: "config \<Rightarrow> backup \<Rightarrow> bool" where
  "copies_declared c b \<longleftrightarrow> bk_locations b \<noteq> [] \<and>
     list_all (\<lambda>copy. \<exists>d. map_of (rev (map (\<lambda>x. (dt_id x, x)) (cg_destinations c))) (sc_destination copy) = Some d
       \<and> dt_type d = ''filesystem'') (bk_locations b)"

lemma hold_copies_declared:
  "(\<exists>stores. hold_copies disk c b copies = Inr stores) \<longleftrightarrow>
     list_all (\<lambda>copy. \<exists>d. map_of (rev (map (\<lambda>x. (dt_id x, x)) (cg_destinations c))) (sc_destination copy) = Some d
       \<and> dt_type d = ''filesystem'') copies"
proof (induction copies)
  case (Cons copy copies)
  have one: "(\<exists>ds. destinations_of disk c (database_on (bk_database b) (sc_destination copy)) = Inr ds) \<longleftrightarrow>
      (\<exists>d. map_of (rev (map (\<lambda>x. (dt_id x, x)) (cg_destinations c))) (sc_destination copy) = Some d \<and> dt_type d = ''filesystem'')"
    by (auto simp: destinations_of_def database_on_def split: option.splits)
  have known: "sc_destination copy \<in> dt_id ` set (cg_destinations c)"
    if "map_of (rev (map (\<lambda>x. (dt_id x, x)) (cg_destinations c))) (sc_destination copy) = Some d" for d
    using map_of_SomeD [OF that] by auto
  have "(\<exists>stores. hold_copies disk c b (copy # copies) = Inr stores) \<longleftrightarrow>
      sc_destination copy \<in> dt_id ` set (cg_destinations c)
      \<and> (\<exists>ds. destinations_of disk c (database_on (bk_database b) (sc_destination copy)) = Inr ds)
      \<and> (\<exists>stores. hold_copies disk c b copies = Inr stores)"
    by (cases "hold_copies disk c b copies") (simp_all split: sum.split)
  with one known Cons.IH show ?case by auto
qed simp

lemma hold_copies_length: "hold_copies disk c b copies = Inr stores \<Longrightarrow> length stores = length copies"
proof (induction copies arbitrary: stores)
  case (Cons copy copies)
  then show ?case by (cases "hold_copies disk c b copies") (auto split: sum.splits if_splits)
qed simp

lemma stores_for_declared:
  assumes "loaded = Inr c"
  shows "(case stores_for disk loaded b of
      Inl _ \<Rightarrow> \<not> copies_declared c b
    | Inr (stores, zone) \<Rightarrow> copies_declared c b \<and> hold_copies disk c b (bk_locations b) = Inr stores \<and> zone = cg_location c)"
proof (cases "hold_copies disk c b (bk_locations b)")
  case (Inl e)
  with hold_copies_declared [of disk c b "bk_locations b"] assms show ?thesis by (simp add: stores_for_def copies_declared_def)
next
  case (Inr stores)
  then have "stores = [] \<longleftrightarrow> bk_locations b = []" using hold_copies_length [of disk c b "bk_locations b" stores] by auto
  with Inr hold_copies_declared [of disk c b "bk_locations b"] assms show ?thesis
    by (cases stores) (auto simp: stores_for_def copies_declared_def)
qed

lemma lookup_backup_id: "lookup_backup t i = Some b \<Longrightarrow> bk_id b = i"
  by (auto simp: lookup_backup_def find_Some_iff scan_backup_def)

lemma find_archive_lookup:
  assumes "tables_ok t" and "find_archive t ident = (answer, u)"
  shows "lookup_backup u = lookup_backup t" and "tables_ok u" and "answer = Inr b \<Longrightarrow> lookup_backup t ident = Some b"
proof -
  obtain listed v where l: "backups no_filter t = (listed, v)" by fastforce
  with assms(2) have u: "u = v" by (auto simp: find_archive_def split: sum.splits)
  show "lookup_backup u = lookup_backup t" "tables_ok u"
    using sqlite.listing_keeps [OF l] u assms(1) by simp_all
  show "answer = Inr b \<Longrightarrow> lookup_backup t ident = Some b"
    using assms(2) l sqlite.listed_by_identifier [OF assms(1), of _ v ident]
    by (auto simp: find_archive_def Let_def split: sum.splits option.splits if_splits)
qed

text \<open>
  What a verification comes to. \<open>verdict\<close> is recorded, or else refused by the catalogue; \<open>catalogue_refuses\<close> is why.
\<close>

definition verdict_kept :: "verification \<Rightarrow> instant \<Rightarrow> backup \<Rightarrow> tables \<Rightarrow> tables \<Rightarrow> bool" where
  "verdict_kept verdict at b t u \<longleftrightarrow> lookup_backup u = (lookup_backup t)(bk_id b \<mapsto> concluded verdict at b)"

definition catalogue_refuses :: "(violation \<Rightarrow> gerr) \<Rightarrow> verification \<Rightarrow> instant \<Rightarrow> string \<Rightarrow> tables \<Rightarrow> gerr option" where
  "catalogue_refuses refuse verdict at ident t = fst (set_verification refuse ident verdict at (snd (backups no_filter t)))"

lemma find_archive_state: "find_archive t ident = (answer, u) \<Longrightarrow> u = snd (backups no_filter t)"
  by (auto simp: find_archive_def split: sum.splits prod.splits)

lemma find_archive_unknown:
  assumes "tables_ok t" "find_archive t ident = (Inl e, u)"
  shows "lookup_backup t ident = None \<or> (\<exists>x. fst (backups no_filter t) = Inl x)"
proof -
  obtain listed v where l: "backups no_filter t = (listed, v)" by fastforce
  show ?thesis
  proof (cases listed)
    case (Inl x)
    with l show ?thesis by simp
  next
    case (Inr known)
    have "\<exists>b. lookup_backup t ident = Some b \<and> bk_id b = ident" if "lookup_backup t ident = Some b" for b
      using that lookup_backup_id [OF that] by simp
    with assms(2) l Inr sqlite.listed_by_identifier [OF assms(1), of known v ident] show ?thesis
      by (cases "lookup_backup t ident") (auto simp: find_archive_def Let_def)
  qed
qed

lemma verification_outcome:
  assumes "verify_command None refuse sha256 disk loaded at ident t = (((said, warning), failed), u)" and "tables_ok t"
    and "writable_instant utc at"
  shows "(\<exists>b c. lookup_backup t ident = Some b \<and> loaded = Inr c \<and> copies_declared c b \<and>
      (case failed of
         None \<Rightarrow> list_all (copy_matches sha256 disk c b) (bk_locations b) \<and> verdict_kept Checksum at b t u
           \<and> said = told_matching (bk_locations b) @ ''structure  '' @ structure_sentence b @
               line_of (''verified   '' @ moment at (cg_location c)) \<and> warning = []
       | Some e \<Rightarrow>
           (\<exists>before copy why. first_mismatch (copy_matches sha256 disk c b) (bk_locations b) before copy
             \<and> said = told_matching before \<and> e = verification_failed why \<and> contains why (sc_destination copy)
             \<and> (case catalogue_refuses refuse Failed at ident t of
                  None \<Rightarrow> verdict_kept Failed at b t u \<and> warning = []
                | Some x \<Rightarrow> lookup_backup u = lookup_backup t
                    \<and> warning = line_of (''the verification failed and the catalogue could not be updated: '' @ err_said x)))
           \<or> (list_all (copy_matches sha256 disk c b) (bk_locations b) \<and> said = told_matching (bk_locations b) \<and> warning = []
             \<and> lookup_backup u = lookup_backup t \<and> (\<exists>x. catalogue_refuses refuse Checksum at ident t = Some x \<and> e = errorf ''record the verification'' x))))
    \<or> ((\<exists>x. fst (backups no_filter t) = Inl x) \<or> lookup_backup t ident = None
         \<or> (\<forall>c. loaded = Inr c \<longrightarrow> \<not> copies_declared c (the (lookup_backup t ident))))
      \<and> failed \<noteq> None \<and> said = [] \<and> warning = [] \<and> lookup_backup u = lookup_backup t"
proof -
  obtain answer t1 where found: "find_archive t ident = (answer, t1)" by fastforce
  note keeps = find_archive_lookup [OF assms(2) found] and t1 = find_archive_state [OF found]
  show ?thesis
  proof (cases answer)
    case (Inl e)
    with assms(1) found have "failed \<noteq> None" "u = t1" "said = []" "warning = []" by (auto simp: verify_command_def)
    with keeps(1) find_archive_unknown [OF assms(2) found [unfolded Inl]] show ?thesis by auto
  next
    case (Inr b)
    have b: "lookup_backup t ident = Some b" by (rule keeps(3) [OF Inr])
    then have ident: "bk_id b = ident" by (rule lookup_backup_id)
    have ran: "verify_copies refuse sha256 disk loaded at b t1 = (((said, warning), failed), u)"
      using assms(1) found Inr by (simp add: verify_command_def)
    have concluding: "verdict_kept verdict at b t v" if "set_verification refuse ident verdict at t1 = (None, v)" for verdict v
      using sqlite.conclude_done [OF keeps(2) that assms(3)] b keeps(1) by (auto simp: verdict_kept_def ident)
    have refusing: "lookup_backup v = lookup_backup t" if "set_verification refuse ident verdict at t1 = (Some e, v)" for verdict e v
      using sqlite.conclude_refused [OF that] keeps(1) by simp
    show ?thesis
    proof (cases loaded)
      case (Inl e)
      with ran have "failed \<noteq> None" "u = t1" "said = []" "warning = []" by (auto simp: verify_copies_def stores_for_def)
      with keeps(1) Inl show ?thesis by simp
    next
      case (Inr c)
      note c = Inr and held = stores_for_declared [OF Inr, where disk = disk and b = b]
      show ?thesis
      proof (cases "stores_for disk loaded b")
        case (Inl e)
        with ran have "failed \<noteq> None" "u = t1" "said = []" "warning = []" by (auto simp: verify_copies_def)
        with keeps(1) Inl held c b show ?thesis by simp
      next
        case (Inr found)
        then obtain stores where stores: "stores_for disk loaded b = Inr (stores, cg_location c)" "copies_declared c b"
          "hold_copies disk c b (bk_locations b) = Inr stores" using held by (cases found) auto
        obtain told why where reread: "reread_copies sha256 b stores = (told, why)" by fastforce
        note copies = reread_held_copies [OF stores(3) reread]
        show ?thesis
        proof (cases why)
          case None
          obtain f v where sv: "set_verification refuse ident Checksum at t1 = (f, v)" by fastforce
          then have f: "f = catalogue_refuses refuse Checksum at ident t" by (simp add: catalogue_refuses_def t1)
          have all: "list_all (copy_matches sha256 disk c b) (bk_locations b)" "told = told_matching (bk_locations b)"
            using copies None by simp_all
          show ?thesis
          proof (cases f)
            case None
            have "verdict_kept Checksum at b t v" by (rule concluding) (use sv None in simp)
            moreover have "u = v" "failed = None" "warning = []"
              "said = told @ ''structure  '' @ structure_sentence b @ line_of (''verified   '' @ moment at (cg_location c))"
              using ran stores(1) reread \<open>why = None\<close> sv ident None by (auto simp: verify_copies_def)
            ultimately show ?thesis using b c stores(2) all by auto
          next
            case (Some x)
            have "lookup_backup v = lookup_backup t" by (rule refusing) (use sv Some in simp)
            moreover have "u = v" "failed = Some (errorf ''record the verification'' x)" "warning = []" "said = told"
              using ran stores(1) reread \<open>why = None\<close> sv ident Some by (auto simp: verify_copies_def)
            moreover have "catalogue_refuses refuse Checksum at ident t = Some x" using f Some by simp
            ultimately show ?thesis using b c stores(2) all by auto
          qed
        next
          case (Some w)
          obtain f v where sv: "set_verification refuse ident Failed at t1 = (f, v)" by fastforce
          then have f: "f = catalogue_refuses refuse Failed at ident t" by (simp add: catalogue_refuses_def t1)
          from copies Some obtain before copy where first: "first_mismatch (copy_matches sha256 disk c b) (bk_locations b) before copy"
            "told = told_matching before" "contains w (sc_destination copy)" by auto
          have out: "said = told" "failed = Some (verification_failed w)" "u = v"
            "warning = (case f of None \<Rightarrow> [] | Some x \<Rightarrow>
               line_of (''the verification failed and the catalogue could not be updated: '' @ err_said x))"
            using ran stores(1) reread Some sv ident by (auto simp: verify_copies_def fail_verification_def split: option.splits)
          have "case catalogue_refuses refuse Failed at ident t of None \<Rightarrow> verdict_kept Failed at b t u \<and> warning = []
              | Some x \<Rightarrow> lookup_backup u = lookup_backup t
                  \<and> warning = line_of (''the verification failed and the catalogue could not be updated: '' @ err_said x)"
            using sv concluding [of Failed v] refusing [of Failed _ v] out(3,4) unfolding f [symmetric] by (cases f) auto
          with first out(1,2) b c stores(2) show ?thesis by auto
        qed
      qed
    qed
  qed
qed

lemma first_mismatch_not_all: "first_mismatch P copies before copy \<Longrightarrow> \<not> list_all P copies"
  by (auto simp: first_mismatch_def)

lemma verified_or_said:
  assumes "verify_command None refuse sha256 disk loaded at ident t = ((screen, failed), u)" and "tables_ok t"
    and "writable_instant utc at"
  shows "case failed of
      None \<Rightarrow> \<exists>b c. lookup_backup t ident = Some b \<and> loaded = Inr c \<and> bk_locations b \<noteq> []
        \<and> list_all (copy_matches sha256 disk c b) (bk_locations b)
        \<and> lookup_backup u = (lookup_backup t)(ident \<mapsto> concluded Checksum at b)
    | Some e \<Rightarrow> lookup_backup u = lookup_backup t
        \<or> (\<exists>b c. lookup_backup t ident = Some b \<and> loaded = Inr c
             \<and> \<not> list_all (copy_matches sha256 disk c b) (bk_locations b)
             \<and> lookup_backup u = (lookup_backup t)(ident \<mapsto> concluded Failed at b))"
proof -
  obtain said warning where screen: "screen = (said, warning)" by (cases screen)
  from verification_outcome [OF assms [unfolded screen]] show ?thesis
    by (cases failed) (auto simp: verdict_kept_def copies_declared_def dest: lookup_backup_id first_mismatch_not_all
        split: option.splits)
qed

text \<open>
  A verification forgets the structure: whatever was recorded of an archive, also that its structure was checked
  or that its verification failed, a success leaves \<open>Checksum\<close>, and the next one says that the structure was
  never checked.
\<close>

lemma verifying_forgets_the_structure:
  assumes "verify_command None refuse sha256 disk loaded at ident t = ((screen, None), u)" and "tables_ok t"
    and "writable_instant utc at" and "lookup_backup t ident = Some b"
  shows "\<exists>after. lookup_backup u ident = Some after \<and> bk_verified after = Checksum
    \<and> structure_sentence after = structure_sentence (b\<lparr>bk_verified := NotVerified\<rparr>)"
  using verified_or_said [OF assms(1-3)] assms(4)
  by (intro exI [of _ "concluded Checksum at b"]) (auto simp: concluded_def structure_sentence_def)

text \<open>
  C19. A verification tells the truth of the copies, and tells the catalogue the same (F6, P4). When the archive is
  known and its copies are on directories the configuration declares: if every copy is read back whole with the
  digest of the catalogue, it says so of each of them and the catalogue has the archive verified at that moment;
  if not, it says so of the copies before the first other one, fails naming the destination of that one, and the
  catalogue has the archive failed. Only a catalogue that refuses the verdict is left without it, and then the
  command says so, and fails. In every other case, an archive unknown or copies that cannot be asked, it says
  nothing of a copy, fails, and leaves the catalogue as it was.
\<close>

theorem verification_tells_the_truth:
  assumes "verify_command None refuse sha256 disk loaded at ident t = (((said, warning), failed), u)" and "tables_ok t"
    and "writable_instant utc at"
  shows "(\<exists>b c. lookup_backup t ident = Some b \<and> loaded = Inr c \<and> copies_declared c b \<and>
      (case failed of
         None \<Rightarrow> list_all (copy_matches sha256 disk c b) (bk_locations b) \<and> verdict_kept Checksum at b t u
           \<and> said = told_matching (bk_locations b) @ ''structure  '' @ structure_sentence b @
               line_of (''verified   '' @ moment at (cg_location c)) \<and> warning = []
       | Some e \<Rightarrow>
           (\<exists>before copy why. first_mismatch (copy_matches sha256 disk c b) (bk_locations b) before copy
             \<and> said = told_matching before \<and> e = verification_failed why \<and> contains why (sc_destination copy)
             \<and> (case catalogue_refuses refuse Failed at ident t of
                  None \<Rightarrow> verdict_kept Failed at b t u \<and> warning = []
                | Some x \<Rightarrow> lookup_backup u = lookup_backup t
                    \<and> warning = line_of (''the verification failed and the catalogue could not be updated: '' @ err_said x)))
           \<or> (list_all (copy_matches sha256 disk c b) (bk_locations b) \<and> said = told_matching (bk_locations b) \<and> warning = []
             \<and> lookup_backup u = lookup_backup t \<and> (\<exists>x. catalogue_refuses refuse Checksum at ident t = Some x \<and> e = errorf ''record the verification'' x))))
    \<or> ((\<exists>x. fst (backups no_filter t) = Inl x) \<or> lookup_backup t ident = None
         \<or> (\<forall>c. loaded = Inr c \<longrightarrow> \<not> copies_declared c (the (lookup_backup t ident))))
      \<and> failed \<noteq> None \<and> said = [] \<and> warning = [] \<and> lookup_backup u = lookup_backup t"
  by (rule verification_outcome [OF assms])

end
