(* ===== verification/Cli_Whole.thy ===== *)
theory Cli_Whole
  imports Cli_Verify Backup_Others
begin

text \<open>
  What the commands promise one another: an archive \<open>koffr backup\<close> wrote and indexed is one \<open>koffr verify\<close> reads
  back from the same destinations, whatever other jobs and commands did in between.
\<close>

section \<open>Where a backup is sent\<close>

lemma run_destination_ids:
  assumes "run wi q w = (r, None, w')"
  shows "jr_destinations r = destination_ids w"
proof (rule run_success_parts [OF assms])
  fix resolution wt d p rA wA r2 w2 seen
  assume "wo_destinations wA = wo_destinations w" "jr_destinations r = destination_ids w2"
    and dw: "dump_and_write wi q resolution (Some wt) (sd_mode d) (path_for wi q resolution) rA wA = (Inr p, r2, w2, seen)"
  then show ?thesis
    using arg_cong [OF dump_and_write_wiring [OF dw], of "map fst"] by (simp add: wiring_of_def destination_ids_def comp_def)
qed

lemma build_destinations_each:
  assumes "build_destinations disk c d idents = Inr ds"
  shows "map ds_id ds = idents \<and> list_all on_directory ds
    \<and> (\<forall>x \<in> set ds. build_destinations disk c e [ds_id x] = Inr [x])"
  using assms
proof (induction idents arbitrary: ds)
  case (Cons ident idents)
  then obtain conf rest where one: "map_of (rev (map (\<lambda>x. (dt_id x, x)) (cg_destinations c))) ident = Some conf"
      "dt_type conf = ''filesystem''" "build_destinations disk c d idents = Inr rest"
      "ds = \<lparr>ds_id = ident, ds_store = filesystem (place_of (dt_path conf)), ds_state = disk (dt_path conf)\<rparr> # rest"
    by (cases "build_destinations disk c d idents") (auto split: option.splits if_splits)
  have "on_directory (hd ds)" unfolding on_directory_def one(4) by (intro exI) simp
  with Cons.IH [OF one(3)] one show ?case by simp
qed simp

lemma destinations_of_each:
  assumes "destinations_of disk c d = Inr ds"
  shows "map ds_id ds = dc_destinations d" and "\<forall>x \<in> set ds. on_directory x"
    and "x \<in> set ds \<Longrightarrow> destinations_of disk c (database_on database (ds_id x)) = Inr [x]"
    and "x \<in> set ds \<Longrightarrow> ds_id x \<in> dt_id ` set (cg_destinations c)"
proof -
  from assms have built: "build_destinations disk c d (dc_destinations d) = Inr ds"
    by (simp add: destinations_of_def split: if_splits)
  note each = build_destinations_each [OF built]
  show "map ds_id ds = dc_destinations d" "\<forall>x \<in> set ds. on_directory x"
    using each by (simp_all add: list_all_iff)
  show one: "x \<in> set ds \<Longrightarrow> destinations_of disk c (database_on database (ds_id x)) = Inr [x]" for database
    using each [of "database_on database (ds_id x)"] by (simp add: destinations_of_def database_on_def)
  show "x \<in> set ds \<Longrightarrow> ds_id x \<in> dt_id ` set (cg_destinations c)"
    using destinations_of_one [OF one] by (force dest!: map_of_SomeD)
qed

lemma hold_copies_of_a_backup:
  assumes "destinations_of disk c d = Inr ds" and "list_all (\<lambda>copy. sc_destination copy \<in> ds_id ` set ds) copies"
  shows "\<exists>stores. hold_copies disk c b copies = Inr stores \<and> length stores = length copies"
  using assms(2)
proof (induction copies)
  case (Cons copy copies)
  then obtain x where x: "x \<in> set ds" "sc_destination copy = ds_id x" by auto
  from Cons obtain stores where "hold_copies disk c b copies = Inr stores" "length stores = length copies" by auto
  with x destinations_of_each(3,4) [OF assms(1) x(1)] show ?case by simp
qed simp

section \<open>An archive that lies where it should\<close>

lemma lying_copy_matches:
  assumes "destinations_of disk c (database_on database (sc_destination copy)) = Inr [x]"
    and "lies x (sc_path copy) (Some archive)" "quiet (ds_state x)" "sha256 archive = bk_sha_stored b"
  shows "copy_matches sha256 disk c b copy"
proof -
  obtain conf where conf: "map_of (rev (map (\<lambda>x. (dt_id x, x)) (cg_destinations c))) (sc_destination copy) = Some conf"
      "dt_type conf = ''filesystem''"
      "x = \<lparr>ds_id = sc_destination copy, ds_store = filesystem (place_of (dt_path conf)), ds_state = disk (dt_path conf)\<rparr>"
    using destinations_of_one [OF assms(1)] by auto
  obtain root where root: "ds_store x = filesystem root" "held_file (ds_state x) (resolve root (sc_path copy)) = Some archive"
    using assms(2) by (auto simp: lies_def)
  have "so_read (filesystem root) (sc_path copy) (ds_state x) = (Inr (archive, None), ds_state x)"
    using assms(3) root(2) by (auto simp: filesystem_def fs_read_def held_file_def split: option.splits node.splits)
  then have "so_read (ds_store x) (sc_path copy) (ds_state x) = (Inr (archive, None), ds_state x)" using root(1) by simp
  then have "fs_read (place_of (dt_path conf)) (sc_path copy) (disk (dt_path conf)) = (Inr (archive, None), disk (dt_path conf))"
    by (simp add: conf(3) filesystem_def)
  with conf(1,2) assms(4) show ?thesis by (simp add: copy_matches_def)
qed

lemma indexed_archive:
  assumes "record_in_catalogue opened refuse sha256 r d t = ([], u)" and "tables_ok t" and "datable (catalogue_entry r)"
  shows "tables_ok u" and "lookup_backup u = (lookup_backup t)(jr_job r \<mapsto> kept (catalogue_entry r))"
proof -
  from assms(1) obtain t1 where rows: "record_database refuse sha256 (database_snapshot d) (jr_at r) t = (None, t1)"
      "record_backup refuse (catalogue_entry r) t1 = (None, u)"
    by (cases rule: record_in_catalogue_cases) auto
  have ok: "tables_ok t1" by (rule record_database_ok [OF rows(1) assms(2)])
  show "tables_ok u" by (rule sqlite.record_sound [OF ok rows(2)])
  show "lookup_backup u = (lookup_backup t)(jr_job r \<mapsto> kept (catalogue_entry r))"
    using sqlite.record_done [OF ok rows(2) assms(3)] lookup_after_database [OF rows(1)]
    by (simp add: catalogue_entry_def Let_def)
qed

section \<open>A catalogue whose statements succeed\<close>

lemma found_without_faults:
  assumes "tables_ok t" "tb_faults t = []" "lookup_backup t ident = Some b"
  shows "\<exists>u. find_archive t ident = (Inr b, u) \<and> tb_faults u = []"
proof -
  obtain bs u where listed: "backups no_filter t = (Inr bs, u)" and faults: "tb_faults u = []"
    using assms(2)
    by (cases "select_backups no_filter t = []") (auto simp: backups_def with_locations_def db_call_def)
  have "find (\<lambda>b. bk_id b = ident) bs = Some b"
    using sqlite.listed_by_identifier [OF assms(1) listed, of ident] assms(3) lookup_backup_id by auto
  with listed faults show ?thesis by (auto simp: find_archive_def)
qed

lemma concluded_without_faults:
  assumes "tb_faults t = []" "lookup_backup t ident = Some b" "stamp_ok (stamp at)" "v \<noteq> UnsetVerification"
  shows "\<exists>u. set_verification refuse ident v at t = (None, u)"
proof -
  have "verification_name v \<in> set verifications" using assms(4) by (cases v) (simp_all add: verifications_def)
  moreover have "ident \<in> br_id ` set (tb_backups t)"
    using assms(2) by (force simp: lookup_backup_def find_Some_iff)
  ultimately show ?thesis using assms(1,3) by (auto simp: set_verification_def db_call_def)
qed

section \<open>What happens meanwhile\<close>

text \<open>
  Between two commands others use the catalogue: they record databases and archives, conclude on other
  archives, list; statements may fail. What stands for an identifier is what stood for it.
\<close>

inductive meanwhile :: "string \<Rightarrow> (violation \<Rightarrow> gerr) \<Rightarrow> (string \<Rightarrow> string) \<Rightarrow> tables \<Rightarrow> tables \<Rightarrow> bool"
  for ident refuse sha256 t where
  untouched: "meanwhile ident refuse sha256 t t"
| database: "meanwhile ident refuse sha256 t u \<Longrightarrow> record_database refuse sha256 d at u = (r, v) \<Longrightarrow> meanwhile ident refuse sha256 t v"
| archive: "meanwhile ident refuse sha256 t u \<Longrightarrow> datable b \<Longrightarrow> record_backup refuse b u = (r, v) \<Longrightarrow> meanwhile ident refuse sha256 t v"
| verdict: "meanwhile ident refuse sha256 t u \<Longrightarrow> other \<noteq> ident \<Longrightarrow> writable_instant utc at
    \<Longrightarrow> set_verification refuse other x at u = (r, v) \<Longrightarrow> meanwhile ident refuse sha256 t v"
| listing: "meanwhile ident refuse sha256 t u \<Longrightarrow> backups f u = (answer, v) \<Longrightarrow> meanwhile ident refuse sha256 t v"

lemma meanwhile_keeps:
  assumes "meanwhile ident refuse sha256 t u" and "tables_ok t" and "lookup_backup t ident = Some b"
  shows "tables_ok u \<and> lookup_backup u ident = Some b"
  using assms(1)
proof induction
  case untouched
  then show ?case using assms(2,3) by simp
next
  case (database u d at r v)
  then show ?case using record_database_ok lookup_after_database by metis
next
  case (archive u a r v)
  have ok: "tables_ok v" using archive.IH archive.hyps(3) sqlite.record_sound by blast
  show ?case
  proof (cases r)
    case None
    with sqlite.record_done [of u refuse a v] archive have
      "lookup_backup u (bk_id a) = None" "lookup_backup v = (lookup_backup u)(bk_id a \<mapsto> kept a)" by auto
    then show ?thesis using ok archive.IH by auto
  next
    case (Some e)
    with sqlite.record_refused [of refuse a u e v] archive ok show ?thesis by simp
  qed
next
  case (verdict u other at x r v)
  have ok: "tables_ok v" using verdict.IH verdict.hyps(4) sqlite.conclude_sound by blast
  from verdict_refines_a_map [of u at refuse other x r v] verdict ok show ?case by (auto split: option.splits)
next
  case (listing u f answer v)
  then show ?case using sqlite.listing_keeps by metis
qed

section \<open>From one command to the next\<close>

lemma wiring_packs:
  assumes "wi = backup_wiring ou fg codec sha256 elapsed c d s to machine"
  shows "wi_pack wi = pipeline_pack codec (wi_sha256 wi) to" "wi_manifester wi \<noteq> None" "wi_sha256 wi = sha256"
    and "wi_resolver wi database = Inr resolution \<Longrightarrow> segment_ok (rs_extension resolution)"
proof -
  show "wi_pack wi = pipeline_pack codec (wi_sha256 wi) to" "wi_manifester wi \<noteq> None" "wi_sha256 wi = sha256"
    using assms by (simp_all add: backup_wiring_def Let_def)
  assume "wi_resolver wi database = Inr resolution"
  with assms have "fst (access_resolve ou fg s database) = Inr resolution" by (simp add: backup_wiring_def Let_def)
  then have "\<exists>f. rs_extension resolution = extension_for f"
    by (auto simp: access_resolve_def Let_def split: option.splits)
  then show "segment_ok (rs_extension resolution)" using segment_ok_known(3,4) by (auto simp: extension_for_def)
qed

lemma backed_up_copies_match:
  assumes "run wi q w = (r, None, w')"
    and "wi = backup_wiring ou fg codec sha256 elapsed c d s to machine"
    and "destinations_of disk c d = Inr (wo_destinations w)" and "destinations_of disk' c d = Inr (wo_destinations v)"
    and "list_all (\<lambda>x. quiet (ds_state x)) (wo_destinations v)"
    and "afterwards q w' v" "dotless_job q"
  shows "list_all (copy_matches sha256 disk' c (kept (catalogue_entry r))) (bk_locations (kept (catalogue_entry r)))"
    and "list_all (\<lambda>copy. sc_destination copy \<in> ds_id ` set (wo_destinations v)) (bk_locations (kept (catalogue_entry r)))"
    and "bk_locations (kept (catalogue_entry r)) \<noteq> []"
proof -
  let ?b = "kept (catalogue_entry r)"
  note parts = wiring_packs [OF assms(2)]
  from later_jobs_leave_it [OF assms(1,6) parts(1,2) destinations_of_each(2) [OF assms(3)] assms(7) parts(4) [of "rq_database q"]]
  obtain archive where
    archive: "jr_sha_stored r = wi_sha256 wi archive" "\<forall>x \<in> set (wo_destinations v). lies x (jr_path r) (Some archive)"
      "wo_destinations v \<noteq> []" by blast
  have ids: "jr_destinations r = map ds_id (wo_destinations v)"
    using run_destination_ids [OF assms(1)] destinations_of_each(1) [OF assms(3)] destinations_of_each(1) [OF assms(4)]
    by (simp add: destination_ids_def)
  have at: "\<exists>x \<in> set (wo_destinations v). sc_destination copy = ds_id x \<and> sc_path copy = jr_path r"
    if "copy \<in> set (bk_locations ?b)" for copy
    using that by (auto simp: kept_def kept_copy_def catalogue_entry_def Let_def ids)
  have "copy_matches sha256 disk' c ?b copy" if copy: "copy \<in> set (bk_locations ?b)" for copy
  proof -
    obtain x where x: "x \<in> set (wo_destinations v)" "sc_destination copy = ds_id x" "sc_path copy = jr_path r"
      using at [OF copy] by blast
    show ?thesis
    proof (rule lying_copy_matches)
      show "destinations_of disk' c (database_on [] (sc_destination copy)) = Inr [x]"
        unfolding x(2) by (rule destinations_of_each(3) [OF assms(4) x(1)])
      show "lies x (sc_path copy) (Some archive)" using archive(2) x by simp
      show "quiet (ds_state x)" using assms(5) x(1) by (simp add: list_all_iff)
      show "sha256 archive = bk_sha_stored ?b"
        using archive(1) parts(3) by (simp add: kept_def catalogue_entry_def Let_def)
    qed
  qed
  then show "list_all (copy_matches sha256 disk' c ?b) (bk_locations ?b)" by (simp add: list_all_iff)
  show "list_all (\<lambda>copy. sc_destination copy \<in> ds_id ` set (wo_destinations v)) (bk_locations ?b)"
    using at by (auto simp: list_all_iff)
  show "bk_locations ?b \<noteq> []"
    using archive(3) ids by (simp add: kept_def catalogue_entry_def Let_def del: sort_by.simps)
qed

lemma matching_copies_verify:
  assumes "tables_ok t" "tb_faults t = []" "lookup_backup t ident = Some b"
    and "destinations_of disk c d = Inr ds" "list_all (\<lambda>copy. sc_destination copy \<in> ds_id ` set ds) (bk_locations b)"
    and "bk_locations b \<noteq> []" "list_all (copy_matches sha256 disk c b) (bk_locations b)" "stamp_ok (stamp at)"
    and "verify_command None refuse sha256 disk (Inr c) at ident t = ((screen, failed), u)"
  shows "failed = None"
proof -
  obtain t1 where found: "find_archive t ident = (Inr b, t1)" "tb_faults t1 = []"
    using found_without_faults [OF assms(1-3)] by blast
  have b: "lookup_backup t1 ident = Some b" using find_archive_lookup(1) [OF assms(1) found(1)] assms(3) by simp
  obtain stores where stores: "hold_copies disk c b (bk_locations b) = Inr stores" "length stores = length (bk_locations b)"
    using hold_copies_of_a_backup [OF assms(4,5)] by blast
  then have for_all: "stores_for disk (Inr c) b = Inr (stores, cg_location c)"
    using assms(6) by (cases stores) (simp_all add: stores_for_def)
  obtain said why where said: "reread_copies sha256 b stores = (said, why)" by fastforce
  have why: "why = None"
  proof (cases why)
    case (Some w)
    with reread_held_copies [OF stores(1) said] assms(7) first_mismatch_not_all show ?thesis by auto
  qed
  obtain v where "set_verification refuse ident Checksum at t1 = (None, v)"
    using concluded_without_faults [OF found(2) b assms(8), of Checksum refuse] by auto
  with assms(9) found(1) for_all said why lookup_backup_id [OF b] show ?thesis
    by (auto simp: verify_command_def verify_copies_def)
qed

text \<open>
  C7. What \<open>koffr backup\<close> wrote, \<open>koffr verify\<close> reads back (F6, E-028): a run of the command on the destinations of
  its configuration succeeded and was indexed without a warning; then, whatever other jobs have done to the
  destinations since and other commands to the catalogue, as long as both answer, verifying that job succeeds, and
  the catalogue has the archive of the run with its checksum verified, and every other archive as before.
\<close>

theorem backed_up_then_verified:
  assumes "run wi q w = (r, None, w')"
    and "wi = backup_wiring ou fg codec sha256 elapsed c d s to machine"
    and "destinations_of disk c d = Inr (wo_destinations w)"
    and "record_in_catalogue None refuse sha256 r d t = ([], t')" "tables_ok t" "datable (catalogue_entry r)"
    and "afterwards q w' x" "dotless_job q" "meanwhile (jr_job r) refuse sha256 t' u"
    and "destinations_of disk' c d = Inr (wo_destinations x)" "list_all (\<lambda>x. quiet (ds_state x)) (wo_destinations x)"
    and "verify_command None refuse sha256 disk' (Inr c) at (jr_job r) u = ((screen, failed), v)"
    and "tb_faults u = []" "stamp_ok (stamp at)" "writable_instant utc at"
  shows "failed = None
    \<and> lookup_backup v = (lookup_backup u)(jr_job r \<mapsto> concluded Checksum at (kept (catalogue_entry r)))"
proof -
  note indexed = indexed_archive [OF assms(4-6)]
  have "lookup_backup t' (jr_job r) = Some (kept (catalogue_entry r))" by (simp add: indexed(2))
  from meanwhile_keeps [OF assms(9) indexed(1) this] have
    ok: "tables_ok u" and b: "lookup_backup u (jr_job r) = Some (kept (catalogue_entry r))" by simp_all
  note copies = backed_up_copies_match [OF assms(1-3,10,11,7,8)]
  have ended: "failed = None"
    by (rule matching_copies_verify [OF ok assms(13) b assms(10) copies(2,3,1) assms(14,12)])
  with verified_or_said [OF assms(12) ok assms(15)] b show ?thesis by simp
qed

end
