(* ===== verification/Lister.thy ===== *)
theory Lister
  imports Catalog Store "HOL-Library.Multiset"
begin

text \<open>
  The listing of \<open>internal/domain/catalog/lister.go\<close>: what the catalogue indexes, set against what the
  destinations hold, and \<open>internal/cli/repository.go\<close>, which reads a destination for it.

  A destination answers with its own state, and is visited once.
\<close>

section \<open>Data\<close>

record archive =
  ar_path :: string
  ar_bytes :: int
  ar_at :: instant

record 's repository =
  rp_archives :: "string \<Rightarrow> 's \<Rightarrow> archive list result \<times> 's"
  rp_manifest :: "string \<Rightarrow> 's \<Rightarrow> string result \<times> 's"

record 's listed_destination =
  ld_id :: string
  ld_repository :: "'s repository"
  ld_state :: 's

record listed =
  ls_backup :: backup
  ls_catalogued :: bool
  ls_present :: bool

section \<open>A destination as a repository\<close>

definition max_manifest_bytes :: nat where "max_manifest_bytes = 2 ^ 20"

definition store_archives :: "'s store \<Rightarrow> string \<Rightarrow> 's \<Rightarrow> archive list result \<times> 's" where
  "store_archives ops pre s =
     (case so_list ops pre s of
        (Inl e, t) \<Rightarrow> (Inl (errorf ''list the destination'' e), t)
      | (Inr es, t) \<Rightarrow>
          (Inr (map (\<lambda>e. \<lparr>ar_path = en_path e, ar_bytes = en_bytes e, ar_at = en_at e\<rparr>) es), t))"

definition no_manifest :: gerr where
  "no_manifest = Gerr [ErrNoManifest] ''no manifest lies beside this archive''"

definition store_manifest :: "'s store \<Rightarrow> string \<Rightarrow> 's \<Rightarrow> string result \<times> 's" where
  "store_manifest ops archive s =
     (case so_read ops (archive @ ''.json'') s of
        (Inl e, t) \<Rightarrow>
          (Inl (if errors_is e ErrNotExist then no_manifest else errorf (''read the manifest of '' @ archive) e), t)
      | (Inr (bytes, failed), t) \<Rightarrow>
          (if max_manifest_bytes \<le> length bytes then Inr (take max_manifest_bytes bytes)
           else (case failed of
                   Some e \<Rightarrow> Inl (errorf (''read the manifest of '' @ archive) e)
                 | None \<Rightarrow> Inr bytes), t))"

definition store_repository :: "'s store \<Rightarrow> 's repository" where
  "store_repository ops = \<lparr>rp_archives = store_archives ops, rp_manifest = store_manifest ops\<rparr>"

section \<open>The listing\<close>

definition chosen :: "'s listed_destination list \<Rightarrow> string \<Rightarrow> 's listed_destination list result" where
  "chosen ds wanted =
     (if wanted = [] then Inr ds
      else case find (\<lambda>d. ld_id d = wanted) ds of
             Some d \<Rightarrow> Inr [d]
           | None \<Rightarrow>
               Inl (Gerr [ErrNoSuchDestination]
                 (''no destination has this identifier: '' @ go_quote wanted @ ''; the configuration declares '' @
                  join_with '', '' (map ld_id ds))))"

definition read_archive :: "archive \<Rightarrow> string result \<Rightarrow> backup option" where
  "read_archive a raw =
     (case raw of
        Inl _ \<Rightarrow> None
      | Inr text \<Rightarrow>
          map_option
            (\<lambda>m. let b = (manifest_backup m)\<lparr>bk_verified := NotVerified, bk_verified_at := 0\<rparr>
                 in if bk_stored_bytes b = 0 then b\<lparr>bk_stored_bytes := ar_bytes a\<rparr> else b)
            (unmarshal_manifest text))"

definition describe ::
  "'s listed_destination \<Rightarrow> archive \<Rightarrow> archive_identity \<Rightarrow> 's \<Rightarrow> listed \<times> 's" where
  "describe d a identity s =
     (case rp_manifest (ld_repository d) (ar_path a) s of
        (raw, t) \<Rightarrow>
          (let named = no_backup\<lparr>bk_id := ai_id identity, bk_database := ai_database identity,
                 bk_started := ai_at identity, bk_stored_bytes := ar_bytes a, bk_verified := NotVerified\<rparr>;
               b = (case read_archive a raw of None \<Rightarrow> named | Some described \<Rightarrow> described)
           in (\<lparr>ls_backup = b\<lparr>bk_locations := [\<lparr>sc_destination = ld_id d, sc_path = ar_path a,
                    sc_bytes = ar_bytes a, sc_stored_at = ar_at a\<rparr>]\<rparr>,
                ls_catalogued = False, ls_present = True\<rparr>, t)))"

text \<open>The lines by identifier, and the identifiers in the order they were met.\<close>

type_synonym lines = "(string \<Rightarrow> listed option) \<times> string list"

fun index_lines :: "backup list \<Rightarrow> lines \<Rightarrow> lines" where
  "index_lines [] ls = ls"
| "index_lines (b # bs) (m, ids) =
     index_lines bs (m(bk_id b \<mapsto> \<lparr>ls_backup = b, ls_catalogued = True, ls_present = False\<rparr>), ids @ [bk_id b])"

fun meet_archives :: "'s listed_destination \<Rightarrow> archive list \<Rightarrow> lines \<Rightarrow> 's \<Rightarrow> lines \<times> 's" where
  "meet_archives d [] ls s = (ls, s)"
| "meet_archives d (a # as) (m, ids) s =
     (case identify (ar_path a) of
        None \<Rightarrow> meet_archives d as (m, ids) s
      | Some identity \<Rightarrow>
          (case m (ai_id identity) of
             Some known \<Rightarrow> meet_archives d as (m(ai_id identity \<mapsto> known\<lparr>ls_present := True\<rparr>), ids) s
           | None \<Rightarrow>
               (case describe d a identity s of
                  (stranger, t) \<Rightarrow>
                    meet_archives d as (m(ai_id identity \<mapsto> stranger), ids @ [ai_id identity]) t)))"

fun visit_destinations :: "string \<Rightarrow> 's listed_destination list \<Rightarrow> lines \<Rightarrow> lines result" where
  "visit_destinations pre [] ls = Inr ls"
| "visit_destinations pre (d # ds) ls =
     (case rp_archives (ld_repository d) pre (ld_state d) of
        (Inl e, _) \<Rightarrow> Inl (errorf (''list the destination '' @ ld_id d) e)
      | (Inr found, s) \<Rightarrow> visit_destinations pre ds (fst (meet_archives d found ls s)))"

definition line_before :: "listed \<Rightarrow> listed \<Rightarrow> bool" where
  "line_before a b \<longleftrightarrow>
     (if bk_started (ls_backup a) = bk_started (ls_backup b)
      then bytes_less (bk_id (ls_backup b)) (bk_id (ls_backup a))
      else bk_started (ls_backup b) < bk_started (ls_backup a))"

definition sorted_lines :: "lines \<Rightarrow> filter_of \<Rightarrow> listed list" where
  "sorted_lines ls filter_by =
     (let found = filter (\<lambda>l. fl_database filter_by = [] \<or> bk_database (ls_backup l) = fl_database filter_by)
                    (map (\<lambda>i. the (fst ls i)) (snd ls));
          in_order = sort_by line_before found
      in if 0 < fl_limit filter_by then take (nat (fl_limit filter_by)) in_order else in_order)"

definition list_archives ::
  "(filter_of \<Rightarrow> backup list result) \<Rightarrow> 's listed_destination list \<Rightarrow> filter_of \<Rightarrow> listed list result" where
  "list_archives catalogue ds filter_by =
     (case chosen ds (fl_destination filter_by) of
        Inl e \<Rightarrow> Inl e
      | Inr destinations \<Rightarrow>
          (case catalogue filter_by of
             Inl e \<Rightarrow> Inl (errorf ''read the catalogue'' e)
           | Inr indexed \<Rightarrow>
               (case visit_destinations (prefix_of (fl_database filter_by)) destinations
                       (index_lines indexed (Map.empty, [])) of
                  Inl e \<Rightarrow> Inl e
                | Inr ls \<Rightarrow> Inr (sorted_lines ls filter_by))))"

section \<open>What the lines hold\<close>

definition found_at :: "archive list \<Rightarrow> string set" where
  "found_at as = {ai_id i | a i. a \<in> set as \<and> identify (ar_path a) = Some i}"

definition archives_of :: "string \<Rightarrow> 's listed_destination \<Rightarrow> archive list" where
  "archives_of pre d = (case fst (rp_archives (ld_repository d) pre (ld_state d)) of Inl _ \<Rightarrow> [] | Inr as \<Rightarrow> as)"

definition line_fair :: "backup list \<Rightarrow> string set \<Rightarrow> string \<Rightarrow> listed \<Rightarrow> bool" where
  "line_fair indexed found i l \<longleftrightarrow>
     (if ls_catalogued l then ls_backup l \<in> set indexed \<and> bk_id (ls_backup l) = i \<and> (ls_present l \<longleftrightarrow> i \<in> found)
      else ls_present l \<and> i \<in> found \<and> i \<notin> bk_id ` set indexed
        \<and> bk_verified (ls_backup l) = NotVerified \<and> bk_verified_at (ls_backup l) = 0)"

definition lines_fair :: "backup list \<Rightarrow> string set \<Rightarrow> lines \<Rightarrow> bool" where
  "lines_fair indexed found ls \<longleftrightarrow>
     distinct (snd ls) \<and> set (snd ls) = bk_id ` set indexed \<union> found \<and> dom (fst ls) = set (snd ls)
     \<and> (\<forall>i l. fst ls i = Some l \<longrightarrow> line_fair indexed found i l)"

lemma lines_fairI:
  assumes "distinct ids" "set ids = bk_id ` set indexed \<union> found" "dom m = set ids"
    and "\<And>i l. m i = Some l \<Longrightarrow> line_fair indexed found i l"
  shows "lines_fair indexed found (m, ids)"
  using assms by (simp add: lines_fair_def)

lemma lines_fairD:
  assumes "lines_fair indexed found (m, ids)"
  shows "distinct ids" "set ids = bk_id ` set indexed \<union> found" "dom m = set ids"
    "m i = Some l \<Longrightarrow> line_fair indexed found i l"
  using assms by (simp_all add: lines_fair_def)

lemma index_lines_fair:
  "lines_fair done {} ls \<Longrightarrow> distinct (map bk_id (done @ bs)) \<Longrightarrow> lines_fair (done @ bs) {} (index_lines bs ls)"
proof (induction bs ls arbitrary: "done" rule: index_lines.induct)
  case (1 ls)
  then show ?case by simp
next
  case (2 b bs m ids)
  note f = lines_fairD[OF "2.prems"(1)]
  have new: "bk_id b \<notin> bk_id ` set done" using "2.prems"(2) by auto
  have "lines_fair (done @ [b]) {} (m(bk_id b \<mapsto> \<lparr>ls_backup = b, ls_catalogued = True, ls_present = False\<rparr>), ids @ [bk_id b])"
  proof (rule lines_fairI)
    show "distinct (ids @ [bk_id b])" using f(1,2) new by simp
    show "set (ids @ [bk_id b]) = bk_id ` set (done @ [b]) \<union> {}" using f(2) by simp
    show "dom (m(bk_id b \<mapsto> \<lparr>ls_backup = b, ls_catalogued = True, ls_present = False\<rparr>)) = set (ids @ [bk_id b])"
      using f(3) by simp
  next
    fix i l assume "(m(bk_id b \<mapsto> \<lparr>ls_backup = b, ls_catalogued = True, ls_present = False\<rparr>)) i = Some l"
    then show "line_fair (done @ [b]) {} i l"
      using f(4)[of i l] by (cases "i = bk_id b") (auto simp: line_fair_def split: if_splits)
  qed
  from "2.IH"[OF this] "2.prems"(2) show ?case by simp
qed

lemma read_archive_unverified: "read_archive a raw = Some b \<Longrightarrow> bk_verified b = NotVerified \<and> bk_verified_at b = 0"
  by (auto simp: read_archive_def Let_def split: sum.splits if_splits)

lemma describe_stranger:
  assumes "describe d a identity s = (l, t)"
  shows "\<not> ls_catalogued l" "ls_present l" "bk_verified (ls_backup l) = NotVerified" "bk_verified_at (ls_backup l) = 0"
    "bk_locations (ls_backup l) = [\<lparr>sc_destination = ld_id d, sc_path = ar_path a, sc_bytes = ar_bytes a, sc_stored_at = ar_at a\<rparr>]"
proof -
  obtain raw u where raw: "rp_manifest (ld_repository d) (ar_path a) s = (raw, u)" by fastforce
  define b where "b = (case read_archive a raw of
      None \<Rightarrow> no_backup\<lparr>bk_id := ai_id identity, bk_database := ai_database identity,
                 bk_started := ai_at identity, bk_stored_bytes := ar_bytes a, bk_verified := NotVerified\<rparr>
    | Some described \<Rightarrow> described)"
  have "bk_verified b = NotVerified \<and> bk_verified_at b = 0"
    using read_archive_unverified[of a raw] by (simp add: b_def no_backup_def split: option.split)
  moreover have "l = \<lparr>ls_backup = b\<lparr>bk_locations := [\<lparr>sc_destination = ld_id d, sc_path = ar_path a,
                    sc_bytes = ar_bytes a, sc_stored_at = ar_at a\<rparr>]\<rparr>, ls_catalogued = False, ls_present = True\<rparr>"
    using assms unfolding describe_def Let_def raw by (simp add: b_def)
  ultimately show "\<not> ls_catalogued l" "ls_present l" "bk_verified (ls_backup l) = NotVerified" "bk_verified_at (ls_backup l) = 0"
    "bk_locations (ls_backup l) = [\<lparr>sc_destination = ld_id d, sc_path = ar_path a, sc_bytes = ar_bytes a, sc_stored_at = ar_at a\<rparr>]"
    by simp_all
qed

text \<open>
  What the line of an archive the catalogue does not know is made of: the archive itself, and what its manifest
  says when the destination has one that reads, or else what its name says.
\<close>

definition named_line :: "archive \<Rightarrow> archive_identity \<Rightarrow> backup \<Rightarrow> bool" where
  "named_line a identity b \<longleftrightarrow>
     bk_id b = ai_id identity \<and> bk_database b = ai_database identity \<and> bk_started b = ai_at identity
     \<and> bk_stored_bytes b = ar_bytes a"

definition manifest_line :: "archive \<Rightarrow> manifest \<Rightarrow> backup \<Rightarrow> bool" where
  "manifest_line a m b \<longleftrightarrow>
     bk_id b = mf_backup m \<and> bk_database b = mf_database m \<and> bk_raw_bytes b = mf_size_raw m
     \<and> bk_started b = bk_started (manifest_backup m) \<and> bk_finished b = bk_finished (manifest_backup m)
     \<and> bk_sha_raw b = mf_sha_raw m \<and> bk_sha_stored b = mf_sha_stored m
     \<and> bk_stored_bytes b = (if mf_size_stored m = 0 then ar_bytes a else mf_size_stored m)"

definition told_by :: "archive \<Rightarrow> archive_identity \<Rightarrow> string result \<Rightarrow> backup \<Rightarrow> bool" where
  "told_by a identity raw b \<longleftrightarrow>
     (case raw of
        Inl _ \<Rightarrow> named_line a identity b
      | Inr contents \<Rightarrow>
          (case unmarshal_manifest contents of
             None \<Rightarrow> named_line a identity b
           | Some m \<Rightarrow> manifest_line a m b))"

definition tells_of :: "'s listed_destination \<Rightarrow> archive \<Rightarrow> archive_identity \<Rightarrow> listed \<Rightarrow> bool" where
  "tells_of d a identity l \<longleftrightarrow>
     \<not> ls_catalogued l \<and> ls_present l \<and> bk_verified (ls_backup l) = NotVerified \<and> bk_verified_at (ls_backup l) = 0
     \<and> bk_locations (ls_backup l) =
         [\<lparr>sc_destination = ld_id d, sc_path = ar_path a, sc_bytes = ar_bytes a, sc_stored_at = ar_at a\<rparr>]
     \<and> (\<exists>s. told_by a identity (fst (rp_manifest (ld_repository d) (ar_path a) s)) (ls_backup l))"

lemma describe_tells:
  assumes "describe d a identity s = (l, t)"
  shows "tells_of d a identity l"
proof -
  obtain raw u where raw: "rp_manifest (ld_repository d) (ar_path a) s = (raw, u)" by fastforce
  with assms have "told_by a identity raw (ls_backup l)"
    by (auto simp: describe_def read_archive_def told_by_def named_line_def manifest_line_def manifest_backup_def
        no_backup_def Let_def split: sum.splits option.splits)
  then have "\<exists>s. told_by a identity (fst (rp_manifest (ld_repository d) (ar_path a) s)) (ls_backup l)"
    using raw by (intro exI [of _ s]) simp
  with describe_stranger [OF assms] show ?thesis unfolding tells_of_def by blast
qed

text \<open>Every line of an archive the catalogue does not know tells of one of the archives met so far.\<close>

definition told_somewhere :: "('s listed_destination \<times> archive) set \<Rightarrow> string \<Rightarrow> listed \<Rightarrow> bool" where
  "told_somewhere met i l \<longleftrightarrow> ls_catalogued l
     \<or> (\<exists>(d, a) \<in> met. \<exists>identity. identify (ar_path a) = Some identity \<and> ai_id identity = i \<and> tells_of d a identity l)"

definition strangers_told :: "('s listed_destination \<times> archive) set \<Rightarrow> lines \<Rightarrow> bool" where
  "strangers_told met ls \<longleftrightarrow> (\<forall>i l. fst ls i = Some l \<longrightarrow> told_somewhere met i l)"

lemma strangers_toldD: "strangers_told met (m, ids) \<Longrightarrow> m i = Some l \<Longrightarrow> told_somewhere met i l"
  by (simp add: strangers_told_def)

lemma strangers_told_upd:
  "strangers_told met (m, ids) \<Longrightarrow> told_somewhere met i l \<Longrightarrow> strangers_told met (m(i \<mapsto> l), ids')"
  by (simp add: strangers_told_def)

lemma strangers_told_more:
  assumes "strangers_told met ls" "met \<subseteq> met'"
  shows "strangers_told met' ls"
proof -
  have "told_somewhere met' i l" if "told_somewhere met i l" for i l
    using that assms(2) by (fastforce simp: told_somewhere_def)
  with assms(1) show ?thesis by (simp add: strangers_told_def)
qed

lemma strangers_told_met:
  assumes "strangers_told met (m, ids)" "m i = Some l"
  shows "strangers_told met (m(i \<mapsto> l\<lparr>ls_present := True\<rparr>), ids)"
proof -
  have "tells_of d a identity (l\<lparr>ls_present := True\<rparr>)" if "tells_of d a identity l"
    for d :: "'a listed_destination" and a identity
    using that by (simp add: tells_of_def)
  then have "told_somewhere met i (l\<lparr>ls_present := True\<rparr>)"
    using strangers_toldD [OF assms] unfolding told_somewhere_def by fastforce
  with assms(1) show ?thesis by (rule strangers_told_upd)
qed

lemma strangers_told_new:
  assumes "strangers_told met (m, ids)" "identify (ar_path a) = Some identity" "tells_of d a identity l" "(d, a) \<in> met"
  shows "strangers_told met (m(ai_id identity \<mapsto> l), ids')"
  by (rule strangers_told_upd [OF assms(1)]) (use assms(2-4) in \<open>auto simp: told_somewhere_def\<close>)

lemma meet_archives_told:
  "strangers_told met ls \<Longrightarrow> {d} \<times> set as \<subseteq> met \<Longrightarrow> strangers_told met (fst (meet_archives d as ls s))"
proof (induction d as ls s rule: meet_archives.induct)
  case (1 d ls s)
  then show ?case by simp
next
  case (2 d a as m ids s)
  then have rest: "{d} \<times> set as \<subseteq> met" and here: "(d, a) \<in> met" by auto
  show ?case
  proof (cases "identify (ar_path a)")
    case None
    with 2 rest show ?thesis by simp
  next
    case (Some identity)
    let ?i = "ai_id identity"
    show ?thesis
    proof (cases "m ?i")
      case (Some known)
      from "2.IH"(3) [OF \<open>identify (ar_path a) = Some identity\<close> Some strangers_told_met [OF "2.prems"(1) Some] rest]
      show ?thesis using Some \<open>identify (ar_path a) = Some identity\<close> by simp
    next
      case None
      obtain l t where l: "describe d a identity s = (l, t)" by fastforce
      from "2.IH"(2) [OF \<open>identify (ar_path a) = Some identity\<close> None l [symmetric]
          strangers_told_new [OF "2.prems"(1) \<open>identify (ar_path a) = Some identity\<close> describe_tells [OF l] here] rest]
      show ?thesis using None l \<open>identify (ar_path a) = Some identity\<close> by simp
    qed
  qed
qed

lemma visit_told:
  "visit_destinations pre ds ls = Inr ls' \<Longrightarrow> strangers_told met ls
    \<Longrightarrow> strangers_told (met \<union> (SIGMA d:set ds. set (archives_of pre d))) ls'"
proof (induction ds arbitrary: ls met)
  case Nil
  then show ?case by simp
next
  case (Cons d ds)
  obtain as s where r: "rp_archives (ld_repository d) pre (ld_state d) = (Inr as, s)"
    and v: "visit_destinations pre ds (fst (meet_archives d as ls s)) = Inr ls'"
    using Cons.prems(1) by (auto split: prod.splits sum.splits)
  have as: "archives_of pre d = as" by (simp add: archives_of_def r)
  have "strangers_told (met \<union> {d} \<times> set as) (fst (meet_archives d as ls s))"
    by (rule meet_archives_told [OF strangers_told_more [OF Cons.prems(2)]]) auto
  from Cons.IH [OF v this] show ?case by (rule strangers_told_more) (auto simp: as)
qed

lemma index_lines_catalogued:
  "strangers_told met ls \<Longrightarrow> strangers_told met (index_lines bs ls)"
proof (induction bs ls rule: index_lines.induct)
  case (2 b bs m ids)
  have "told_somewhere met i \<lparr>ls_backup = b, ls_catalogued = True, ls_present = False\<rparr>" for i
    by (simp add: told_somewhere_def)
  from "2.IH" [OF strangers_told_upd [OF "2.prems" this]] show ?case by simp
qed simp

lemma found_at_simps [simp]:
  "found_at [] = {}"
  "found_at (a # as) = (case identify (ar_path a) of None \<Rightarrow> {} | Some i \<Rightarrow> {ai_id i}) \<union> found_at as"
  by (auto simp: found_at_def split: option.splits)

lemma meet_archives_fair:
  "lines_fair indexed found ls \<Longrightarrow> lines_fair indexed (found \<union> found_at as) (fst (meet_archives d as ls s))"
proof (induction d as ls s arbitrary: found rule: meet_archives.induct)
  case (1 d ls s)
  then show ?case by simp
next
  case (2 d a as m ids s)
  show ?case
  proof (cases "identify (ar_path a)")
    case None
    with 2 show ?thesis by simp
  next
    case (Some identity)
    let ?i = "ai_id identity"
    show ?thesis
    proof (cases "m ?i")
      case (Some known)
      note f = lines_fairD[OF "2.prems"]
      have "lines_fair indexed (insert ?i found) (m(?i \<mapsto> known\<lparr>ls_present := True\<rparr>), ids)"
      proof (rule lines_fairI)
        show "distinct ids" by (rule f(1))
        have "?i \<in> set ids" using f(3) Some by auto
        then show "set ids = bk_id ` set indexed \<union> insert ?i found" "dom (m(?i \<mapsto> known\<lparr>ls_present := True\<rparr>)) = set ids"
          using f(2,3) by auto
      next
        fix i l assume "(m(?i \<mapsto> known\<lparr>ls_present := True\<rparr>)) i = Some l"
        then show "line_fair indexed (insert ?i found) i l"
          using f(4)[of i l] f(4)[OF Some] by (cases "i = ?i") (auto simp: line_fair_def split: if_splits)
      qed
      from "2.IH"(3)[OF \<open>identify (ar_path a) = Some identity\<close> Some this] Some \<open>identify (ar_path a) = Some identity\<close>
      show ?thesis by simp
    next
      case None
      obtain l t where l: "describe d a identity s = (l, t)" by fastforce
      have "?i \<notin> set ids" using None "2.prems" by (auto simp: lines_fair_def)
      note f = lines_fairD[OF "2.prems"] and new = this
      have "lines_fair indexed (insert ?i found) (m(?i \<mapsto> l), ids @ [?i])"
      proof (rule lines_fairI)
        show "distinct (ids @ [?i])" using f(1) new by simp
        show "set (ids @ [?i]) = bk_id ` set indexed \<union> insert ?i found" "dom (m(?i \<mapsto> l)) = set (ids @ [?i])"
          using f(2,3) by auto
      next
        fix i k assume "(m(?i \<mapsto> l)) i = Some k"
        then show "line_fair indexed (insert ?i found) i k"
          using f(2) f(4)[of i k] new describe_stranger[OF l] by (cases "i = ?i") (auto simp: line_fair_def split: if_splits)
      qed
      from "2.IH"(2)[OF \<open>identify (ar_path a) = Some identity\<close> None l[symmetric] this] None l \<open>identify (ar_path a) = Some identity\<close>
      show ?thesis by simp
    qed
  qed
qed

lemma visit_fair:
  "visit_destinations pre ds ls = Inr ls' \<Longrightarrow> lines_fair indexed found ls
    \<Longrightarrow> lines_fair indexed (found \<union> (\<Union>d \<in> set ds. found_at (archives_of pre d))) ls'"
proof (induction ds arbitrary: ls found)
  case Nil
  then show ?case by simp
next
  case (Cons d ds)
  obtain as s where r: "rp_archives (ld_repository d) pre (ld_state d) = (Inr as, s)"
    and v: "visit_destinations pre ds (fst (meet_archives d as ls s)) = Inr ls'"
    using Cons.prems(1) by (auto split: prod.splits sum.splits)
  have "archives_of pre d = as" by (simp add: archives_of_def r)
  with Cons.IH[OF v meet_archives_fair[OF Cons.prems(2)]] show ?case by (simp add: Un_assoc)
qed

section \<open>What a listing promises\<close>

interpretation by_start: strict_order line_before
proof
  fix x y z :: listed
  show "\<not> line_before x x" by (simp add: line_before_def bytes_less_order(1))
  show "line_before x y \<Longrightarrow> line_before y z \<Longrightarrow> line_before x z"
    using bytes_less_order(2)[of "bk_id (ls_backup z)" "bk_id (ls_backup y)" "bk_id (ls_backup x)"]
    by (auto simp: line_before_def split: if_splits)
  show "line_before x z \<Longrightarrow> line_before x y \<or> line_before y z"
    using bytes_less_order(3)[of "bk_id (ls_backup z)" "bk_id (ls_backup x)" "bk_id (ls_backup y)"]
    by (auto simp: line_before_def split: if_splits)
qed

lemma listed_in_full:
  assumes "list_archives catalogue ds f = Inr es" "fl_database f = []" "fl_limit f \<le> 0"
    and "chosen ds (fl_destination f) = Inr visited" "catalogue f = Inr indexed" "distinct (map bk_id indexed)"
  shows "let found = \<Union>d \<in> set visited. found_at (archives_of [] d) in
    length es = card (bk_id ` set indexed \<union> found)
    \<and> ls_backup ` {l \<in> set es. ls_catalogued l} = set indexed
    \<and> (\<forall>l \<in> set es. if ls_catalogued l then ls_present l \<longleftrightarrow> bk_id (ls_backup l) \<in> found
         else ls_present l \<and> bk_verified (ls_backup l) = NotVerified)"
proof -
  let ?found = "\<Union>d \<in> set visited. found_at (archives_of [] d)"
  obtain m ids where v: "visit_destinations [] visited (index_lines indexed (Map.empty, [])) = Inr (m, ids)"
    and es: "es = sorted_lines (m, ids) f"
    using assms by (auto simp: list_archives_def prefix_of_def split: sum.splits)
  have "lines_fair [] {} (Map.empty, [])" by (simp add: lines_fair_def)
  from visit_fair[OF v index_lines_fair[OF this]] assms(6) have fair: "lines_fair indexed ?found (m, ids)" by simp
  note ff = lines_fairD[OF fair]
  have set: "set es = (\<lambda>i. the (m i)) ` set ids" and len: "length es = length ids"
    using assms(2,3) by (simp_all add: es sorted_lines_def Let_def)
  have line: "\<exists>l. m i = Some l \<and> line_fair indexed ?found i l" if "i \<in> set ids" for i
    using that ff(3) ff(4)[of i] by (metis domD)
  have "length es = card (bk_id ` set indexed \<union> ?found)" using len distinct_card[OF ff(1)] ff(2) by simp
  moreover have "\<exists>l \<in> set es. ls_catalogued l \<and> ls_backup l = b" if b: "b \<in> set indexed" for b
  proof -
    have i: "bk_id b \<in> set ids" using ff(2) b by blast
    obtain l where l: "m (bk_id b) = Some l" "line_fair indexed ?found (bk_id b) l" using line[OF i] by blast
    from l(2) b have c: "ls_catalogued l" "ls_backup l \<in> set indexed" "bk_id (ls_backup l) = bk_id b"
      by (auto simp: line_fair_def split: if_splits)
    then have "ls_backup l = b" using assms(6) b by (metis distinct_map inj_onD)
    moreover have "l \<in> set es" using i l(1) by (auto simp: set image_iff) (metis option.sel)
    ultimately show ?thesis using c(1) by blast
  qed
  moreover have "if ls_catalogued l then ls_backup l \<in> set indexed \<and> (ls_present l \<longleftrightarrow> bk_id (ls_backup l) \<in> ?found)
      else ls_present l \<and> bk_verified (ls_backup l) = NotVerified" if l: "l \<in> set es" for l
  proof -
    obtain i where i: "i \<in> set ids" "l = the (m i)" using l set by auto
    with line[OF i(1)] have "line_fair indexed ?found i l" by auto
    then show ?thesis by (auto simp: line_fair_def split: if_splits)
  qed
  ultimately show ?thesis unfolding Let_def by (auto simp: image_iff split: if_splits)
qed

lemma mset_sort_by: "mset (sort_by before xs) = mset xs"
proof (induction xs)
  case (Cons x xs)
  have "mset (insert_by before y ys) = add_mset y (mset ys)" for y ys
    by (induction ys) auto
  with Cons show ?case by simp
qed simp

lemma listed_line_by_line:
  assumes "list_archives catalogue ds f = Inr es" "fl_database f = []" "fl_limit f \<le> 0"
    and "chosen ds (fl_destination f) = Inr visited" "catalogue f = Inr indexed" "distinct (map bk_id indexed)"
  shows "\<exists>line. mset es = image_mset line (mset_set (bk_id ` set indexed \<union> (\<Union>d \<in> set visited. found_at (archives_of [] d))))
    \<and> (\<forall>b \<in> set indexed. line (bk_id b) = \<lparr>ls_backup = b, ls_catalogued = True,
         ls_present = (bk_id b \<in> (\<Union>d \<in> set visited. found_at (archives_of [] d)))\<rparr>)
    \<and> (\<forall>i \<in> (\<Union>d \<in> set visited. found_at (archives_of [] d)) - bk_id ` set indexed.
         \<exists>d \<in> set visited. \<exists>a \<in> set (archives_of [] d). \<exists>identity.
           identify (ar_path a) = Some identity \<and> ai_id identity = i \<and> tells_of d a identity (line i))"
proof -
  let ?found = "\<Union>d \<in> set visited. found_at (archives_of [] d)"
  obtain m ids where v: "visit_destinations [] visited (index_lines indexed (Map.empty, [])) = Inr (m, ids)"
    and es: "es = sorted_lines (m, ids) f"
    using assms by (auto simp: list_archives_def prefix_of_def split: sum.splits)
  have "lines_fair [] {} (Map.empty, [])" by (simp add: lines_fair_def)
  from visit_fair [OF v index_lines_fair [OF this]] assms(6) have fair: "lines_fair indexed ?found (m, ids)" by simp
  note ff = lines_fairD [OF fair]
  have "strangers_told {} (Map.empty, [])" by (simp add: strangers_told_def)
  from visit_told [OF v index_lines_catalogued [OF this]]
  have told: "strangers_told (SIGMA d:set visited. set (archives_of [] d)) (m, ids)" by simp
  have line: "m i = Some (the (m i)) \<and> line_fair indexed ?found i (the (m i))" if "i \<in> set ids" for i
    using that ff(3) ff(4) [of i] by (metis domD option.sel)
  have "mset es = mset (map (\<lambda>i. the (m i)) ids)"
    using assms(2,3) by (simp add: es sorted_lines_def Let_def mset_sort_by)
  also have "\<dots> = image_mset (\<lambda>i. the (m i)) (mset_set (set ids))" using ff(1) by (simp add: mset_set_set)
  finally have all: "mset es = image_mset (\<lambda>i. the (m i)) (mset_set (bk_id ` set indexed \<union> ?found))" using ff(2) by simp
  have known: "the (m (bk_id b)) = \<lparr>ls_backup = b, ls_catalogued = True, ls_present = (bk_id b \<in> ?found)\<rparr>"
    if b: "b \<in> set indexed" for b
  proof -
    have "bk_id b \<in> set ids" using ff(2) b by blast
    from line [OF this] b have l: "ls_catalogued (the (m (bk_id b)))" "ls_backup (the (m (bk_id b))) \<in> set indexed"
      "bk_id (ls_backup (the (m (bk_id b)))) = bk_id b" "ls_present (the (m (bk_id b))) \<longleftrightarrow> bk_id b \<in> ?found"
      by (auto simp: line_fair_def split: if_splits)
    then have "ls_backup (the (m (bk_id b))) = b" using assms(6) b by (metis distinct_map inj_onD)
    with l show ?thesis by (cases "the (m (bk_id b))") simp
  qed
  have stranger: "\<exists>d \<in> set visited. \<exists>a \<in> set (archives_of [] d). \<exists>identity.
      identify (ar_path a) = Some identity \<and> ai_id identity = i \<and> tells_of d a identity (the (m i))"
    if i: "i \<in> ?found - bk_id ` set indexed" for i
  proof -
    have "i \<in> set ids" using ff(2) i by blast
    from line [OF this] have l: "m i = Some (the (m i))" "line_fair indexed ?found i (the (m i))" by blast+
    have "\<not> ls_catalogued (the (m i))"
    proof
      assume "ls_catalogued (the (m i))"
      with l(2) have "i \<in> bk_id ` set indexed" unfolding line_fair_def by (metis imageI)
      with i show False by simp
    qed
    with strangers_toldD [OF told l(1)] show ?thesis by (auto simp: told_somewhere_def)
  qed
  from all known stranger show ?thesis by (intro exI [of _ "\<lambda>i. the (m i)"]) blast
qed

text \<open>
  C20. A listing of everything is complete and tells the truth of every line (E-064): its lines are one for each
  archive of the catalogue and one for each identifier the chosen destinations hold that the catalogue does not
  know, and no other. The line of a catalogued archive is its entry, present exactly when a chosen destination lists
  it. The line of an unknown one is of an archive that carries that identifier, with where it lies and how large it
  is, what its manifest says when there is one that reads, and otherwise the identifier, the database, the date
  and the size that its name and the destination give; it never claims a verification, whatever its manifest says.
\<close>

theorem listing_is_complete:
  assumes "list_archives catalogue ds f = Inr es" "fl_database f = []" "fl_limit f \<le> 0"
    and "chosen ds (fl_destination f) = Inr visited" "catalogue f = Inr indexed" "distinct (map bk_id indexed)"
  shows "\<exists>line. mset es = image_mset line (mset_set (bk_id ` set indexed \<union> (\<Union>d \<in> set visited. found_at (archives_of [] d))))
    \<and> (\<forall>b \<in> set indexed. line (bk_id b) = \<lparr>ls_backup = b, ls_catalogued = True,
         ls_present = (bk_id b \<in> (\<Union>d \<in> set visited. found_at (archives_of [] d)))\<rparr>)
    \<and> (\<forall>i \<in> (\<Union>d \<in> set visited. found_at (archives_of [] d)) - bk_id ` set indexed.
         \<exists>d \<in> set visited. \<exists>a \<in> set (archives_of [] d). \<exists>identity.
           identify (ar_path a) = Some identity \<and> ai_id identity = i \<and> tells_of d a identity (line i))"
  by (rule listed_line_by_line [OF assms])

text \<open>
  A listing is the most recent archives first, of the database asked for, and no longer than asked: of
  two lines the later start comes first, and the greater identifier when both started at once.
\<close>

lemma listing_in_order:
  assumes "list_archives catalogue ds f = Inr es"
  shows "sorted_wrt (\<lambda>a b. \<not> line_before b a) es
    \<and> (fl_database f \<noteq> [] \<longrightarrow> list_all (\<lambda>l. bk_database (ls_backup l) = fl_database f) es)
    \<and> (0 < fl_limit f \<longrightarrow> int (length es) \<le> fl_limit f)"
proof -
  obtain ls where es: "es = sorted_lines ls f"
    using assms by (auto simp: list_archives_def split: sum.splits)
  define found where "found = filter (\<lambda>l. fl_database f = [] \<or> bk_database (ls_backup l) = fl_database f)
                    (map (\<lambda>i. the (fst ls i)) (snd ls))"
  have "es = (if 0 < fl_limit f then take (nat (fl_limit f)) (sort_by line_before found) else sort_by line_before found)"
    by (simp add: es sorted_lines_def Let_def found_def)
  moreover have "sorted_wrt (\<lambda>a b. \<not> line_before b a) (sort_by line_before found)" by (rule by_start.sorted_sort_by)
  moreover have "\<forall>l \<in> set (sort_by line_before found). fl_database f \<noteq> [] \<longrightarrow> bk_database (ls_backup l) = fl_database f"
    by (auto simp: found_def)
  ultimately show ?thesis by (auto simp: list_all_iff sorted_wrt_take dest: in_set_takeD)
qed

text \<open>
  The archives of a database are looked for where they lie only when its identifier is its own directory
  (against E-064): the listing asks a destination for the identifier as it was declared, an archive
  lies under the sanitised one. A database whose identifier is changed by \<open>safeSegment\<close> has its
  archives listed as gone.
\<close>

lemma prefix_follows_only_safe_identifiers:
  assumes "CHR ''/'' \<notin> set database"
  shows "has_prefix (archive_path database at ident extension) (prefix_of database)
    \<longleftrightarrow> database = [] \<or> safe_segment database = database"
proof -
  obtain rest where p: "archive_path database at ident extension = safe_segment database @ CHR ''/'' # rest"
    by (simp add: archive_path_def Let_def)
  have "CHR ''/'' \<notin> set (safe_segment database)" using segment_no_slash by blast
  then have "safe_segment database = database" if "safe_segment database @ CHR ''/'' # rest = database @ CHR ''/'' # r" for r
    using arg_cong[OF that, where f = "takeWhile ((\<noteq>) (CHR ''/''))"] assms by simp
  then show ?thesis unfolding p by (auto simp: has_prefix_def prefix_of_def prefix_def)
qed

section \<open>Examples\<close>

definition sample_repository :: "unit repository" where
  "sample_repository =
     \<lparr>rp_archives = \<lambda>_ s. (Inr [\<lparr>ar_path = ''ab/ab_x_j.z'', ar_bytes = 3, ar_at = 0\<rparr>], s),
      rp_manifest = \<lambda>_ s. (Inl no_manifest, s)\<rparr>"

definition sample_destination :: "unit listed_destination" where
  "sample_destination = \<lparr>ld_id = ''disk'', ld_repository = sample_repository, ld_state = ()\<rparr>"

lemma sample_identity: "identify ''ab/ab_x_j.z'' = Some \<lparr>ai_database = ''ab'', ai_id = ''j'', ai_at = 0\<rparr>"
  by code_simp

lemma sample_found: "found_at (archives_of [] sample_destination) = {''j''}"
  using sample_identity by (auto simp: archives_of_def sample_destination_def sample_repository_def)

lemma sample_listing: "\<exists>es. list_archives (\<lambda>_. Inr [no_backup]) [sample_destination] no_filter = Inr es"
  by (simp add: list_archives_def chosen_def no_filter_def sample_destination_def sample_repository_def)

theorem listing_is_complete_witness:
  "\<exists>es known stranger. list_archives (\<lambda>_. Inr [no_backup]) [sample_destination] no_filter = Inr es
    \<and> mset es = {#known, stranger#} \<and> ls_backup known = no_backup \<and> \<not> ls_present known
    \<and> bk_id (ls_backup stranger) = ''j'' \<and> bk_database (ls_backup stranger) = ''ab'' \<and> bk_stored_bytes (ls_backup stranger) = 3"
proof -
  obtain es where es: "list_archives (\<lambda>_. Inr [no_backup]) [sample_destination] no_filter = Inr es"
    using sample_listing by blast
  have found: "(\<Union>d \<in> set [sample_destination]. found_at (archives_of [] d)) = {''j''}" by (simp add: sample_found)
  have at: "archives_of [] sample_destination = [\<lparr>ar_path = ''ab/ab_x_j.z'', ar_bytes = 3, ar_at = 0\<rparr>]"
    "rp_manifest (ld_repository sample_destination) path s = (Inl no_manifest, s)" for path s
    by (simp_all add: archives_of_def sample_destination_def sample_repository_def)
  from listing_is_complete [OF es, of "[sample_destination]" "[no_backup]", unfolded found]
  obtain line where line: "mset es = image_mset line (mset_set {[], ''j''})"
      "line [] = \<lparr>ls_backup = no_backup, ls_catalogued = True, ls_present = False\<rparr>"
    and told: "tells_of sample_destination \<lparr>ar_path = ''ab/ab_x_j.z'', ar_bytes = 3, ar_at = 0\<rparr>
      \<lparr>ai_database = ''ab'', ai_id = ''j'', ai_at = 0\<rparr> (line ''j'')"
    by (auto simp: no_filter_def chosen_def no_backup_def at sample_identity)
  have "mset es = {#line [], line ''j''#}" unfolding line(1) by simp
  moreover have "named_line \<lparr>ar_path = ''ab/ab_x_j.z'', ar_bytes = 3, ar_at = 0\<rparr>
      \<lparr>ai_database = ''ab'', ai_id = ''j'', ai_at = 0\<rparr> (ls_backup (line ''j''))"
    using told by (simp add: tells_of_def told_by_def at)
  ultimately show ?thesis using es line(2)
    by (intro exI [of _ es] exI [of _ "line []"] exI [of _ "line ''j''"]) (simp add: named_line_def)
qed

theorem listing_in_order_witness:
  "\<exists>es. list_archives (\<lambda>_. Inr [no_backup]) [sample_destination] (no_filter\<lparr>fl_limit := 1\<rparr>) = Inr es \<and> int (length es) \<le> 1"
proof -
  obtain es where es: "list_archives (\<lambda>_. Inr [no_backup]) [sample_destination] (no_filter\<lparr>fl_limit := 1\<rparr>) = Inr es"
    by (simp add: list_archives_def chosen_def no_filter_def sample_destination_def sample_repository_def)
  from listing_in_order[OF es] es show ?thesis by (simp add: no_filter_def)
qed

theorem prefix_follows_only_safe_identifiers_witness:
  "\<not> has_prefix (archive_path ''a b'' 0 ''j'' ''sql'') (prefix_of ''a b'')"
  using prefix_follows_only_safe_identifiers[of "''a b''" 0 "''j''" "''sql''"]
  by (simp add: safe_segment_def replace_unsafe.simps path_safe_def is_lower_def is_upper_def is_digit_def byte_in_def
      trim_by_def trim_left_by_def trim_right_by_def trim_edge_def)

end
