(* ===== verification/Cli_List.thy ===== *)
theory Cli_List
  imports Cli_Verify Lister
begin

text \<open>
  The command \<open>koffr list\<close>: \<open>internal/cli/list.go\<close> and the lister \<open>repository.go\<close> builds for it. Sizes are shown
  from a \<open>float64\<close>, whose value is written out as the fraction it is.
\<close>

section \<open>The destinations of a listing\<close>

text \<open>
  \<open>strings.EqualFold\<close> against a word of ASCII: beside the case, the long s (U+017F) folds to \<open>s\<close> and the Kelvin
  sign (U+212A) to \<open>k\<close>.
\<close>

fun equal_fold :: "string \<Rightarrow> string \<Rightarrow> bool" where
  "equal_fold [] [] = True"
| "equal_fold [] (t # ts) = False"
| "equal_fold (c # cs) [] = False"
| "equal_fold (c # cs) (t # ts) =
     (if to_lower_byte c = to_lower_byte t then equal_fold cs ts
      else if take 2 (c # cs) = [CHR 0xC5, CHR 0xBF] \<and> to_lower_byte t = CHR ''s'' then equal_fold (drop 2 (c # cs)) ts
      else if take 3 (c # cs) = [CHR 0xE2, CHR 0x84, CHR 0xAA] \<and> to_lower_byte t = CHR ''k''
      then equal_fold (drop 3 (c # cs)) ts
      else False)"

definition listed_destination_of :: "(string \<Rightarrow> os) \<Rightarrow> destination_conf \<Rightarrow> os listed_destination" where
  "listed_destination_of disk d =
     \<lparr>ld_id = dt_id d, ld_repository = store_repository (filesystem (place_of (dt_path d))), ld_state = disk (dt_path d)\<rparr>"

definition lister_for :: "(string \<Rightarrow> os) \<Rightarrow> config result \<Rightarrow> (os listed_destination list \<times> location) result" where
  "lister_for disk loaded =
     map_sum (\<lambda>e. e)
       (\<lambda>c. (map (listed_destination_of disk) (filter (\<lambda>d. equal_fold (dt_type d) ''filesystem'') (cg_destinations c)),
             cg_location c)) loaded"

section \<open>Sizes\<close>

text \<open>Division rounded to the nearest, ties to even: the conversion to \<open>float64\<close> and the last digit of \<open>%.1f\<close>.\<close>

definition round_even :: "nat \<Rightarrow> nat \<Rightarrow> nat" where
  "round_even n d =
     (let q = n div d; r = n mod d
      in if 2 * r < d \<or> (2 * r = d \<and> even q) then q else Suc q)"

function spare_bits :: "nat \<Rightarrow> nat" where
  "spare_bits n = (if n < 2 ^ 53 then 0 else Suc (spare_bits (n div 2)))"
  by pat_completeness auto

termination by (relation "measure id") auto

declare spare_bits.simps [simp del]

definition to_float64 :: "nat \<Rightarrow> nat" where
  "to_float64 n = round_even n (2 ^ spare_bits n) * 2 ^ spare_bits n"

text \<open>Dividing by 1024 is exact: after \<open>i\<close> rounds of the loop the value is \<open>n / 1024 ^ i\<close>.\<close>

function unit_exponent :: "nat \<Rightarrow> nat \<Rightarrow> nat" where
  "unit_exponent n i = (if 1024 ^ Suc i \<le> n \<and> i < 4 then unit_exponent n (Suc i) else i)"
  by pat_completeness auto

termination by (relation "measure (\<lambda>(n, i). 4 - i)") auto

declare unit_exponent.simps [simp del]

definition tenths :: "nat \<Rightarrow> nat \<Rightarrow> nat" where
  "tenths n i = round_even (10 * n) (1024 ^ i)"

definition human_bytes :: "int \<Rightarrow> string" where
  "human_bytes bytes_held =
     (if bytes_held = 0 then []
      else if bytes_held < 1024 then dec_int bytes_held @ '' B''
      else (let n = to_float64 (nat bytes_held); i = unit_exponent n 0; t = tenths n i
            in dec (t div 10) @ ''.'' @ dec (t mod 10) @ '' '' @ [''KMGT'' ! (i - 1)] @ ''iB''))"

section \<open>A line\<close>

definition never_checked :: string where "never_checked = ''no '' @ em_dash @ '' never checked''"

definition verification_label :: "listed \<Rightarrow> string" where
  "verification_label l =
     (if \<not> ls_catalogued l then ''not in the catalogue''
      else case bk_verified (ls_backup l) of
        Structure \<Rightarrow> ''yes, in full''
      | Checksum \<Rightarrow> ''yes, checksum only''
      | Failed \<Rightarrow> ''FAILED''
      | _ \<Rightarrow> never_checked)"

fun join_from :: "nat \<Rightarrow> string list \<Rightarrow> string \<Rightarrow> string \<Rightarrow> string" where
  "join_from i [] separator joined = joined"
| "join_from i (v # vs) separator joined =
     join_from (Suc i) vs separator (joined @ (if 0 < i then separator else []) @ v)"

definition destinations_of_archive :: "listed \<Rightarrow> string" where
  "destinations_of_archive l =
     (if bk_locations (ls_backup l) = [] then ''nowhere''
      else join_from 0 (map sc_destination (bk_locations (ls_backup l))) '', '' [] @
        (if ls_catalogued l \<and> \<not> ls_present l then '' (gone)'' else []))"

text \<open>\<open>Duration.Round\<close> of a positive duration, to the second.\<close>

definition round_second :: "int \<Rightarrow> int" where
  "round_second d =
     (let r = d mod second
      in if r + r < second then d - r
         else if max_duration < d + second - r then max_duration else d + second - r)"

definition took_for :: "listed \<Rightarrow> string" where
  "took_for l =
     (let b = ls_backup l
      in if is_zero_time (bk_finished b) \<or> \<not> bk_started b < bk_finished b then []
         else (let took = round_second (time_sub (bk_finished b) (bk_started b))
               in if took < 60 * second then dec_int (took div second) @ ''s''
                  else dec_int (took div (60 * second)) @ ''m'' @ pad_int 2 (took div second mod 60) @ ''s''))"

definition archive_row :: "location \<Rightarrow> listed \<Rightarrow> string list" where
  "archive_row zone l =
     (let b = ls_backup l
      in [bk_id b, bk_database b, moment (bk_started b) zone, took_for l, human_bytes (bk_raw_bytes b),
          human_bytes (bk_stored_bytes b), verification_label l, destinations_of_archive l])"

definition render_archives :: "location \<Rightarrow> listed list \<Rightarrow> string" where
  "render_archives zone found =
     (if found = [] then line_of ''no archive, neither in the catalogue nor on the destinations''
      else render_table ([''ARCHIVE'', ''DATABASE'', ''TAKEN'', ''TOOK'', ''DUMPED'', ''STORED'', ''VERIFIED'', ''WHERE''] #
        map (archive_row zone) found))"

definition list_command ::
  "gerr option \<Rightarrow> (string \<Rightarrow> os) \<Rightarrow> config result \<Rightarrow> string \<Rightarrow> string \<Rightarrow> tables \<Rightarrow> string result \<times> tables" where
  "list_command opened disk loaded database destination t =
     (case opened of
        Some e \<Rightarrow> (Inl (errorf ''open the catalogue'' e), t)
      | None \<Rightarrow>
          (case lister_for disk loaded of
             Inl e \<Rightarrow> (Inl e, t)
           | Inr (destinations, zone) \<Rightarrow>
               (let f = no_filter\<lparr>fl_database := database, fl_destination := destination\<rparr>
                in (map_sum (errorf ''list the archives'') (render_archives zone)
                      (list_archives (\<lambda>f. fst (backups f t)) destinations f),
                    case chosen destinations destination of Inl _ \<Rightarrow> t | Inr _ \<Rightarrow> snd (backups f t)))))"

section \<open>What a listing tells of a verification\<close>

lemma join_from_join: "join_from i vs separator joined
    = joined @ (if vs = [] then [] else (if 0 < i then separator else []) @ join_with separator vs)"
  by (induction i vs separator joined rule: join_from.induct) (auto simp: neq_Nil_conv)

lemma select_backups_rows:
  assumes "tables_ok t"
  shows "distinct (map br_id (select_backups f t))" and "set (select_backups f t) \<subseteq> set (tb_backups t)"
proof -
  have "distinct (map br_id (tb_backups t))" using assms by (simp add: tables_ok_def)
  then have d: "distinct (map br_id (sort_by row_before (filter P (tb_backups t))))" for P
    by (auto simp: distinct_map distinct_sort_by intro: inj_on_subset)
  then show "distinct (map br_id (select_backups f t))"
    using distinct_take [OF d] by (simp add: select_backups_def Let_def take_map)
  show "set (select_backups f t) \<subseteq> set (tb_backups t)"
    using set_take_subset [of "nat (fl_limit f)" "sort_by row_before (filter (\<lambda>r. fl_database f = [] \<or> br_database r = fl_database f) (tb_backups t))"]
    by (auto simp: select_backups_def Let_def)
qed

lemma backups_answer:
  assumes "tables_ok t" and "backups f t = (Inr bs, u)"
  shows "distinct (map bk_id bs)"
    and "b \<in> set bs \<Longrightarrow> \<exists>whole. lookup_backup t (bk_id b) = Some whole \<and> bk_verified whole = bk_verified b"
proof -
  obtain g t1 where call: "db_call t = (g, t1)" by fastforce
  have rows: "select_backups f t1 = select_backups f t"
    using db_call_rows [OF call] by (simp add: select_backups_def same_rows_def)
  obtain P h where bs: "bs = filter P (map (h \<circ> scan_backup) (select_backups f t))"
      and h: "\<And>x. bk_id (h x) = bk_id x \<and> bk_verified (h x) = bk_verified x"
  proof (cases "select_backups f t = []")
    case True
    with assms(2) call rows that [of "\<lambda>x. True" "\<lambda>x. x"] show ?thesis
      by (auto simp: backups_def with_locations_def split: option.splits)
  next
    case False
    with assms(2) call rows obtain t2 where
      "bs = filter (\<lambda>b. fl_destination f = [] \<or> bk_locations b \<noteq> [])
         (map (\<lambda>b. b\<lparr>bk_locations := copies_of (select_copies f t2) (bk_id b)\<rparr>) (map scan_backup (select_backups f t)))"
      by (auto simp: backups_def with_locations_def split: option.splits prod.splits)
    with that [of "\<lambda>b. fl_destination f = [] \<or> bk_locations b \<noteq> []" "\<lambda>b. b\<lparr>bk_locations := copies_of (select_copies f t2) (bk_id b)\<rparr>"]
    show ?thesis by simp
  qed
  have ids: "map bk_id (map (h \<circ> scan_backup) (select_backups f t)) = map br_id (select_backups f t)" by (simp add: h)
  with select_backups_rows(1) [OF assms(1), of f] have "distinct (map bk_id (map (h \<circ> scan_backup) (select_backups f t)))" by (simp only:)
  then show "distinct (map bk_id bs)" unfolding bs by (rule List.distinct_map_filter)
  show "\<exists>whole. lookup_backup t (bk_id b) = Some whole \<and> bk_verified whole = bk_verified b" if "b \<in> set bs"
  proof -
    from that bs obtain r where r: "r \<in> set (select_backups f t)" "b = h (scan_backup r)" by auto
    then have "r \<in> set (tb_backups t)" using select_backups_rows(2) [OF assms(1)] by blast
    moreover have "distinct (map br_id (tb_backups t))" using assms(1) by (simp add: tables_ok_def)
    moreover have "find (\<lambda>x. br_id x = br_id r) rows = Some r" if "r \<in> set rows" "distinct (map br_id rows)" for rows
      using that by (induction rows) (auto simp: image_iff)
    ultimately have "find (\<lambda>x. br_id x = br_id r) (tb_backups t) = Some r" by blast
    then show ?thesis by (simp add: lookup_backup_def r(2) h)
  qed
qed

lemma listed_from_the_catalogue:
  assumes "list_archives catalogue ds f = Inr es" and "\<And>indexed. catalogue f = Inr indexed \<Longrightarrow> distinct (map bk_id indexed)"
    and "l \<in> set es"
  shows "if ls_catalogued l then \<exists>indexed. catalogue f = Inr indexed \<and> ls_backup l \<in> set indexed
    else bk_verified (ls_backup l) = NotVerified"
proof -
  obtain visited indexed m ids where v: "catalogue f = Inr indexed" "chosen ds (fl_destination f) = Inr visited"
      "visit_destinations (prefix_of (fl_database f)) visited (index_lines indexed (Map.empty, [])) = Inr (m, ids)"
      "es = sorted_lines (m, ids) f"
  proof (cases "chosen ds (fl_destination f)")
    case (Inr visited)
    with assms(1) obtain indexed where i: "catalogue f = Inr indexed" by (auto simp: list_archives_def split: sum.splits)
    with Inr assms(1) obtain ls where "visit_destinations (prefix_of (fl_database f)) visited (index_lines indexed (Map.empty, [])) = Inr ls"
      "es = sorted_lines ls f" by (auto simp: list_archives_def split: sum.splits)
    moreover obtain m ids where "ls = (m, ids)" by (cases ls)
    ultimately show thesis using i Inr by (intro that [of indexed visited m ids]) simp_all
  qed (use assms(1) in \<open>simp add: list_archives_def\<close>)
  have "lines_fair [] {} (Map.empty, [])" by (simp add: lines_fair_def)
  from visit_fair [OF v(3) index_lines_fair [OF this]] assms(2) [OF v(1)] obtain found where
    fair: "lines_fair indexed found (m, ids)" by auto
  have "l \<in> (\<lambda>i. the (m i)) ` set ids"
    using assms(3) set_take_subset unfolding v(4) sorted_lines_def Let_def by (fastforce split: if_splits)
  then obtain i where i: "i \<in> set ids" "l = the (m i)" by blast
  with lines_fairD(3,4) [OF fair] have "line_fair indexed found i l" by (metis domD option.sel)
  with v(1) show ?thesis by (auto simp: line_fair_def split: if_splits)
qed

text \<open>
  C21. No archive is called verified that is not (E-064, A-19): whatever the destinations hold and say, the lines of
  \<open>koffr list\<close> whose label starts with yes are archives of the catalogue whose recorded verdict is the checksum or
  the structure, in full exactly when it is the structure; of the other lines none reads like them.
\<close>

theorem called_verified_only_when_recorded:
  assumes "list_archives (\<lambda>f. fst (backups f t)) ds f = Inr es" and "tables_ok t" and "l \<in> set es"
  shows "if take 3 (verification_label l) = ''yes''
    then \<exists>b. lookup_backup t (bk_id (ls_backup l)) = Some b \<and> verified_at_all (bk_verified b)
      \<and> (verification_label l = ''yes, in full'' \<longleftrightarrow> bk_verified b = Structure)
    else \<not> ls_catalogued l \<or> \<not> verified_at_all (bk_verified (ls_backup l))"
proof -
  have distinct: "distinct (map bk_id indexed)" if "fst (backups f t) = Inr indexed" for indexed
    using backups_answer(1) [OF assms(2)] that by (metis prod.collapse)
  from listed_from_the_catalogue [OF assms(1) distinct assms(3)] have
    known: "\<exists>b. lookup_backup t (bk_id (ls_backup l)) = Some b \<and> bk_verified b = bk_verified (ls_backup l)" if "ls_catalogued l"
    using that backups_answer(2) [OF assms(2)] by (metis prod.collapse)
  show ?thesis
    using known
    by (auto simp: verification_label_def never_checked_def verified_at_all_def em_dash_def split: verification.splits)
qed

section \<open>What a size shown is\<close>

lemma round_even_near: "0 < d \<Longrightarrow> 2 * \<bar>int n - int (round_even n d) * int d\<bar> \<le> int d"
proof -
  assume d: "0 < d"
  have n: "int n = int (n div d) * int d + int (n mod d)"
    by (metis div_mult_mod_eq of_nat_add of_nat_mult)
  have r: "int (n mod d) < int d" using d by simp
  show ?thesis
  proof (cases "2 * (n mod d) < d \<or> (2 * (n mod d) = d \<and> even (n div d))")
    case True
    then have "2 * int (n mod d) \<le> int d" by linarith
    with True show ?thesis unfolding n by (simp add: round_even_def Let_def)
  next
    case False
    then have "int d \<le> 2 * int (n mod d)" by linarith
    with False r show ?thesis unfolding n by (simp add: round_even_def Let_def algebra_simps)
  qed
qed

lemma to_float64_exact: "n < 2 ^ 53 \<Longrightarrow> to_float64 n = n"
  by (simp add: to_float64_def spare_bits.simps [of n] round_even_def Let_def)

lemma unit_exponent_fits:
  "1024 ^ i \<le> n \<Longrightarrow> i \<le> 4 \<Longrightarrow> let k = unit_exponent n i in
     i \<le> k \<and> k \<le> 4 \<and> 1024 ^ k \<le> n \<and> (k = 4 \<or> n < 1024 ^ Suc k)"
proof (induction n i rule: unit_exponent.induct)
  case (1 n i)
  show ?case
  proof (cases "1024 ^ Suc i \<le> n \<and> i < 4")
    case True
    with "1.IH" [OF True] "1.prems" show ?thesis by (simp add: unit_exponent.simps [of n i] Let_def)
  next
    case False
    with "1.prems" show ?thesis by (subst unit_exponent.simps) (auto simp: Let_def)
  qed
qed

text \<open>
  A size is shown right to a tenth of its unit: from 1024 bytes to where a \<open>float64\<close> still holds every integer,
  the loop stops at the largest of the four units that is not above the size, and the figure is the size in
  that unit, rounded to the nearest tenth.
\<close>

lemma size_shown_right_to_a_tenth:
  assumes "1024 \<le> n" and "n < 2 ^ 53"
  shows "\<exists>i t. human_bytes (int n) = dec (t div 10) @ ''.'' @ dec (t mod 10) @ '' '' @ [''KMGT'' ! (i - 1)] @ ''iB''
    \<and> 1 \<le> i \<and> i \<le> 4 \<and> 1024 ^ i \<le> n \<and> (i = 4 \<or> n < 1024 ^ Suc i)
    \<and> 2 * \<bar>10 * int n - int t * 1024 ^ i\<bar> \<le> 1024 ^ i"
proof -
  let ?i = "unit_exponent n 0"
  let ?t = "tenths n ?i"
  have "human_bytes (int n) = dec (?t div 10) @ ''.'' @ dec (?t mod 10) @ '' '' @ [''KMGT'' ! (?i - 1)] @ ''iB''"
    using assms by (simp add: human_bytes_def to_float64_exact Let_def)
  moreover have "1 \<le> ?i \<and> ?i \<le> 4 \<and> 1024 ^ ?i \<le> n \<and> (?i = 4 \<or> n < 1024 ^ Suc ?i)"
  proof -
    have "?i = unit_exponent n 1" using assms(1) by (subst unit_exponent.simps) simp
    with unit_exponent_fits [of 1 n] assms(1) show ?thesis by (simp add: Let_def)
  qed
  moreover have "2 * \<bar>10 * int n - int ?t * 1024 ^ ?i\<bar> \<le> 1024 ^ ?i"
    using round_even_near [of "1024 ^ ?i" "10 * n"] by (simp add: tenths_def)
  ultimately show ?thesis by blast
qed

theorem size_shown_right_to_a_tenth_witness:
  "\<exists>i t. human_bytes 1536 = dec (t div 10) @ ''.'' @ dec (t mod 10) @ '' '' @ [''KMGT'' ! (i - 1)] @ ''iB''
    \<and> 1 \<le> i \<and> 1024 ^ i \<le> (1536 :: nat) \<and> 2 * \<bar>15360 - int t * 1024 ^ i\<bar> \<le> 1024 ^ i"
  using size_shown_right_to_a_tenth [of 1536] by auto

theorem called_verified_only_when_recorded_witness:
  "\<exists>u es. record_backup (\<lambda>_. errors_new ''constraint'') sample_backup sample_tables = (None, u)
    \<and> list_archives (\<lambda>f. fst (backups f u)) [sample_destination] no_filter = Inr es
    \<and> list_all (\<lambda>l. take 3 (verification_label l) \<noteq> ''yes'') es"
proof -
  obtain u where u: "record_backup (\<lambda>_. errors_new ''constraint'') sample_backup sample_tables = (None, u)"
    using sample_recorded by blast
  then have faults: "tb_faults u = []"
    by (auto simp: record_backup_def fill_transaction_def insert_job_def insert_backup_def insert_copy_def db_call_def
        sample_tables_def sample_backup_def no_backup_def rollback_def split: if_splits option.splits)
  then obtain bs w where listed: "backups no_filter u = (Inr bs, w)"
    by (cases "select_backups no_filter u = []") (auto simp: backups_def with_locations_def db_call_def)
  obtain es where es: "list_archives (\<lambda>f. fst (backups f u)) [sample_destination] no_filter = Inr es"
    using listed by (simp add: list_archives_def chosen_def no_filter_def sample_destination_def sample_repository_def)
  have ok: "tables_ok u" by (rule sqlite.record_sound [OF sample_tables_ok u])
  have known: "lookup_backup u i = Some b \<Longrightarrow> \<not> verified_at_all (bk_verified b)" for i b
    using sqlite.record_done [OF sample_tables_ok u sample_datable]
    by (auto simp: lookup_backup_def sample_tables_def kept_def sample_backup_def no_backup_def verified_at_all_def
        split: if_splits)
  have "take 3 (verification_label l) \<noteq> ''yes''" if "l \<in> set es" for l
    using called_verified_only_when_recorded [OF es ok that] known by (metis (full_types))
  with u es show ?thesis by (auto simp: list_all_iff)
qed

end
