(* ===== verification/Cli_Listed.thy ===== *)
theory Cli_Listed
  imports Cli_Whole Cli_List Store_Shelf
begin

text \<open>
  What \<open>koffr list\<close> tells of an archive \<open>koffr backup\<close> wrote: the name of the archive is read back by \<open>identify\<close>,
  the directory lists it, and the catalogue knows it.
\<close>

section \<open>The archive of a run\<close>

lemma run_verified_in_full:
  assumes "run wi q w = (r, None, w')" "wi_manifester wi = Some render"
  shows "jr_job r = rq_job q" "jr_database r = rq_database q" "jr_at r = rq_at q" "verification_of_result r = Structure"
proof -
  from run_manifest [OF assms] obtain r0 where r0: "verdict_sound (jr_verification r0)"
      "r = mark [StepManifest] (r0\<lparr>jr_manifest := jr_manifest r\<rparr>)" "jr_job r0 = rq_job q"
      "jr_database r0 = rq_database q" "jr_at r0 = rq_at q" by auto
  show "jr_job r = rq_job q" "jr_database r = rq_database q" "jr_at r = rq_at q"
    by (subst r0(2); simp add: set_step_def r0(3-5))+
  show "verification_of_result r = Structure"
    by (subst r0(2)) (use r0(1) in \<open>simp add: set_step_def verification_of_result_def verdict_sound_def\<close>)
qed

lemma archive_shelved:
  assumes "segment_ok dump"
  shows "shelved (archive_path database at ident (archive_extension dump pipeline_steps))"
proof -
  let ?e = "archive_extension dump pipeline_steps"
  let ?d = "safe_segment database" and ?y = "pad_int 4 (c_year (civil_of at))"
    and ?m = "pad_int 2 (c_month (civil_of at))" and ?f = "archive_name database at ident ?e"
  have ok: "segment_ok ?e" by (rule segment_ok_extension [OF assms])
  have segments: "segment_ok ?d" "segment_ok ?y" "segment_ok ?m" "segment_ok ?f"
    by (simp_all add: segment_ok_safe_segment segment_ok_pad segment_ok_name [OF ok])
  have "levels (archive_path database at ident ?e) = [?d, ?y, ?m, ?f]"
    using segments by (simp add: levels_def archive_path_split [OF ok] archive_directory_def split_on_append split_on_whole
        segment_ok_no_slash)
  moreover have "?e = dump @ ''.zst.age''"
    by (simp add: pipeline_steps_def archive_extension_def step_extensions_def cut_def)
  then have "\<not> has_suffix ?f partial_after"
    by (simp add: archive_name_def has_suffix_def suffix_to_prefix partial_after_def)
  ultimately show ?thesis using segments by (simp add: shelved_def segment_simple)
qed

lemma run_archive_lies:
  assumes "run wi q w = (r, None, w')"
    and "wi = backup_wiring ou fg codec sha256 elapsed c d s to machine"
    and "destinations_of disk c d = Inr (wo_destinations w)" and "afterwards q w' v" "dotless_job q"
  obtains dump archive where "segment_ok dump"
    "jr_path r = archive_path (rq_database q) (rq_at q) (rq_job q) (archive_extension dump pipeline_steps)"
    "wo_destinations v \<noteq> []" "\<And>x. x \<in> set (wo_destinations v) \<Longrightarrow> lies x (jr_path r) (Some archive)"
proof -
  note parts = wiring_packs [OF assms(2)]
  have steps: "wi_pipeline wi = pipeline_steps" using assms(2) by (simp add: backup_wiring_def Let_def)
  obtain resolution where resolved: "wi_resolver wi (rq_database q) = Inr resolution" "jr_path r = path_for wi q resolution"
    by (rule run_success_parts [OF assms(1)])
  from later_jobs_leave_it [OF assms(1,4) parts(1,2) destinations_of_each(2) [OF assms(3)] assms(5) parts(4) [of "rq_database q"]]
  obtain archive where "\<forall>x \<in> set (wo_destinations v). lies x (jr_path r) (Some archive)" "wo_destinations v \<noteq> []" by blast
  then show thesis using that parts(4) [OF resolved(1)] resolved(2) by (auto simp: path_for_def steps)
qed

section \<open>What a directory lists of it\<close>

lemma lying_archive_listed:
  assumes "shelved path" "quiet s" "held_file s (resolve root path) = Some b"
  shows "\<exists>es s'. so_list (filesystem root) [] s = (Inr es, s') \<and> path \<in> en_path ` set es"
proof -
  from assms(3) obtain m where node: "node_at s (resolve root path) = Some (File b m)"
    by (auto simp: held_file_def split: option.splits node.splits)
  have "under (resolve root []) (resolve root path)"
    using shelved_under [OF assms(1), of "[]" root] by (simp add: searched_def below_def)
  with node shelved_last [OF assms(1), of root] filesystem_list_exact [OF assms(2), of root "[]"] obtain es where
    "fs_list root [] s = (Inr es, s)" "entry_of root (resolve root path) b m \<in> set es" by blast
  moreover have "en_path (entry_of root (resolve root path) b m) = path" using assms(1) by (simp add: entry_of_def relative_shelved)
  ultimately show ?thesis by (simp add: filesystem_def) (metis image_eqI)
qed

lemma listed_on_its_destination:
  assumes "destinations_of disk c d = Inr ds" "x \<in> set ds" "quiet (ds_state x)" "lies x path (Some b)" "shelved path"
    and "lister_for disk (Inr c) = Inr (visited, zone)" "identify path = Some i"
  shows "\<exists>y \<in> set visited. ai_id i \<in> found_at (archives_of [] y)"
proof -
  obtain conf where conf: "map_of (rev (map (\<lambda>x. (dt_id x, x)) (cg_destinations c))) (ds_id x) = Some conf"
      "dt_type conf = ''filesystem''"
      "x = \<lparr>ds_id = ds_id x, ds_store = filesystem (place_of (dt_path conf)), ds_state = disk (dt_path conf)\<rparr>"
    using destinations_of_one [OF destinations_of_each(3) [OF assms(1,2)]] by auto
  have "conf \<in> set (cg_destinations c)" using map_of_SomeD [OF conf(1)] by auto
  moreover have "equal_fold ''filesystem'' ''filesystem''" by simp
  ultimately have y: "listed_destination_of disk conf \<in> set visited"
    using assms(6) conf(2) by (auto simp: lister_for_def)
  have state: "ds_state x = disk (dt_path conf)" "ds_store x = filesystem (place_of (dt_path conf))"
    by (subst conf(3), simp)+
  from assms(4) obtain root where root: "ds_store x = filesystem root" "held_file (ds_state x) (resolve root path) = Some b"
    by (auto simp: lies_def)
  from lying_archive_listed [OF assms(5,3) root(2)] obtain es s' where
    "so_list (filesystem root) [] (ds_state x) = (Inr es, s')" "path \<in> en_path ` set es" by blast
  then have "so_list (filesystem (place_of (dt_path conf))) [] (disk (dt_path conf)) = (Inr es, s')" "path \<in> en_path ` set es"
    unfolding root(1) [symmetric] state by simp_all
  then have "ai_id i \<in> found_at (archives_of [] (listed_destination_of disk conf))"
    using assms(7) by (auto simp: found_at_def archives_of_def listed_destination_of_def store_repository_def store_archives_def
        image_iff) (metis archive.select_convs(1))
  with y show ?thesis by blast
qed

section \<open>From one command to the next\<close>

text \<open>
  C8. What \<open>koffr backup\<close> wrote, \<open>koffr list\<close> shows (E-064): a run of the command on the destinations of its
  configuration succeeded and was indexed without a warning; then, whatever other jobs have done to the destinations
  since and other commands to the catalogue, as long as the destinations answer, a listing that answers has a line
  for that job, which is the entry of the catalogue, held by a destination, and verified in full. The identifiers hold no dot, the one of the job no
  underscore and nothing a path replaces, as a ULID, and the year has four digits.
\<close>

theorem backed_up_then_listed:
  assumes "run wi q w = (r, None, w')"
    and "wi = backup_wiring ou fg codec sha256 elapsed c d s to machine"
    and "destinations_of disk c d = Inr (wo_destinations w)"
    and "record_in_catalogue None refuse sha256 r d t = ([], t')" "tables_ok t" "datable (catalogue_entry r)"
    and "destinations_of disk' c d = Inr (wo_destinations x)" "list_all (\<lambda>x. quiet (ds_state x)) (wo_destinations x)"
    and "lister_for disk' (Inr c) = Inr (visited, zone)"
    and "list_archives (\<lambda>f. fst (backups f u)) visited no_filter = Inr es"
    and "CHR ''.'' \<notin> set (safe_segment (rq_database q))" "safe_segment (rq_job q) = rq_job q"
    and "CHR ''.'' \<notin> set (rq_job q)" "CHR ''_'' \<notin> set (rq_job q)"
    and "0 \<le> c_year (civil_of (rq_at q))" "c_year (civil_of (rq_at q)) < 10000"
    and "afterwards q w' x" "meanwhile (jr_job r) refuse sha256 t' u"
  shows "\<exists>l \<in> set es. ls_backup l = kept (catalogue_entry r) \<and> ls_catalogued l \<and> ls_present l
    \<and> verification_label l = ''yes, in full''"
proof -
  let ?b = "kept (catalogue_entry r)"
  have manifester: "wi_manifester wi = Some (render_manifest d to (cg_location c))"
    using assms(2) by (simp add: backup_wiring_def Let_def)
  note of_run = run_verified_in_full [OF assms(1) manifester]
  note indexed = indexed_archive [OF assms(4-6)]
  have "lookup_backup t' (jr_job r) = Some ?b" by (simp add: indexed(2))
  from meanwhile_keeps [OF assms(18) indexed(1) this] have
    ok: "tables_ok u" and kept_there: "lookup_backup u (jr_job r) = Some ?b" by simp_all
  have dotless: "dotless_job q" using assms(12,13) by (simp add: dotless_job_def)
  have b: "bk_id ?b = rq_job q" "bk_verified ?b = Structure"
    using of_run by (simp_all add: kept_def catalogue_entry_def Let_def)
  obtain bs v where listed: "backups no_filter u = (Inr bs, v)"
    using assms(10) by (cases "backups no_filter u"; cases "fst (backups no_filter u)")
      (auto simp: list_archives_def split: sum.splits)
  note all = sqlite.listing_all [OF ok listed]
  have in_bs: "?b \<in> set bs" using all kept_there by (auto simp: ran_def)
  obtain dump archive where dump: "segment_ok dump"
      "jr_path r = archive_path (rq_database q) (rq_at q) (rq_job q) (archive_extension dump pipeline_steps)"
    and lying: "wo_destinations x \<noteq> []" "\<And>y. y \<in> set (wo_destinations x) \<Longrightarrow> lies y (jr_path r) (Some archive)"
    by (rule run_archive_lies [OF assms(1-3,17) dotless]) (rule that)
  have shelf: "shelved (jr_path r)" unfolding dump(2) by (rule archive_shelved [OF dump(1)])
  obtain i where i: "identify (jr_path r) = Some i" "ai_id i = rq_job q"
    using archive_path_identified [OF dump(1) assms(11), of "rq_job q" "rq_at q"] assms(12-16)
    unfolding dump(2) pipeline_steps_def by simp
  have x: "hd (wo_destinations x) \<in> set (wo_destinations x)" using lying(1) by simp
  have "quiet (ds_state (hd (wo_destinations x)))" using assms(8) x by (simp add: list_all_iff)
  from listed_on_its_destination [OF assms(7) x this lying(2) [OF x] shelf assms(9) i(1)] obtain y where
    y: "y \<in> set visited" "rq_job q \<in> found_at (archives_of [] y)" unfolding i(2) by blast
  have "chosen visited (fl_destination no_filter) = Inr visited" "fl_database no_filter = []" "fl_limit no_filter \<le> 0"
    by (simp_all add: chosen_def no_filter_def)
  note full = listed_in_full [OF assms(10) this(2,3,1), of bs, unfolded Let_def]
  have answered: "fst (backups no_filter u) = Inr bs" "distinct (map bk_id bs)" by (simp add: listed) (use all in blast)
  have catalogued: "ls_backup ` {l \<in> set es. ls_catalogued l} = set bs"
    and lines: "\<forall>l \<in> set es. if ls_catalogued l then ls_present l \<longleftrightarrow> bk_id (ls_backup l) \<in> (\<Union>d \<in> set visited. found_at (archives_of [] d))
      else ls_present l \<and> bk_verified (ls_backup l) = NotVerified"
    by (rule conjunct1 [OF conjunct2 [OF full [OF answered]]], rule conjunct2 [OF conjunct2 [OF full [OF answered]]])
  have "?b \<in> ls_backup ` {l \<in> set es. ls_catalogued l}" unfolding catalogued by (rule in_bs)
  then obtain l where l: "l \<in> set es" "ls_catalogued l" "ls_backup l = ?b" by (elim imageE CollectE conjE) (rule that, simp_all only:)
  have "rq_job q \<in> (\<Union>d \<in> set visited. found_at (archives_of [] d))" using y by (rule UN_I)
  then have "ls_present l" using bspec [OF lines l(1)] by (simp only: l(2,3) b(1) if_True simp_thms)
  moreover have "verification_label l = ''yes, in full''" by (simp only: verification_label_def l(2,3) b(2) simp_thms if_False verification.case)
  ultimately show ?thesis by (intro bexI [OF _ l(1)] conjI l(2,3))
qed

end
