(* ===== verification/Obs_Egress.thy ===== *)
theory Obs_Egress
  imports Cli_Backup
begin

text \<open>
  What leaves the process beside archives: the log (\<open>internal/obs\<close> and \<open>internal/cli/logging.go\<close>), the gate of
  messages (\<open>internal/egress\<close>), a generated key pair (\<open>keygen.go\<close>) and the version (\<open>internal/build\<close>). \<open>log/slog\<close>
  is modelled up to its encoding of a line in JSON, which is a parameter nowhere used: a line is the level, the
  message and the attributes the encoder is handed. Names of levels are ASCII.
\<close>

section \<open>Masking\<close>

definition log_redacted :: string where "log_redacted = ''[redacted]''"

definition sensitive_words :: "string list" where
  "sensitive_words = [''password'', ''passphrase'', ''secret'', ''token'', ''credential'', ''authorization'',
     ''access_key'', ''private_key'', ''api_key'']"

text \<open>
  \<open>strings.ToLower\<close> as far as a word of ASCII can be found in its answer: only the Kelvin sign and the dotted capital
  I, outside of ASCII, are lowered to a letter of ASCII.
\<close>

fun lower_runes :: "string \<Rightarrow> string" where
  "lower_runes [] = []"
| "lower_runes (c # cs) =
     (if c = CHR 0xE2 \<and> take 2 cs = [CHR 0x84, CHR 0xAA] then CHR ''k'' # lower_runes (drop 2 cs)
      else if c = CHR 0xC4 \<and> take 1 cs = [CHR 0xB0] then CHR ''i'' # lower_runes (drop 1 cs)
      else to_lower_byte c # lower_runes cs)"

definition is_sensitive :: "string \<Rightarrow> bool" where
  "is_sensitive key \<longleftrightarrow> list_ex (contains (lower_runes key)) sensitive_words"

datatype attribute = Attribute string fact_value | Group string "attribute list"

definition redact_sensitive :: "string \<Rightarrow> fact_value \<Rightarrow> fact_value" where
  "redact_sensitive key v = (if is_sensitive key then FString log_redacted else v)"

section \<open>Handlers\<close>

text \<open>What \<open>With\<close> and \<open>WithGroup\<close> added to a handler, in order.\<close>

datatype scope = With "attribute list" | Within string

record json_handler =
  hn_level :: int
  hn_scopes :: "scope list"

record log_record =
  lr_level :: int
  lr_message :: string
  lr_attributes :: "attribute list"

text \<open>\<open>ReplaceAttr\<close> is asked of every attribute but the groups; a group without attributes is left out, one without a name is inlined.\<close>

fun emitted :: "attribute \<Rightarrow> attribute list" where
  "emitted (Attribute key v) = [Attribute key (redact_sensitive key v)]"
| "emitted (Group key as) =
     (let inner = concat (map emitted as)
      in if inner = [] then [] else if key = [] then inner else [Group key inner])"

fun nested :: "scope list \<Rightarrow> attribute list \<Rightarrow> attribute list" where
  "nested [] as = as"
| "nested (With bs # ss) as = bs @ nested ss as"
| "nested (Within key # ss) as = [Group key (nested ss as)]"

definition handler_enabled :: "json_handler \<Rightarrow> int \<Rightarrow> bool" where
  "handler_enabled h level \<longleftrightarrow> hn_level h \<le> level"

definition handled_line :: "json_handler \<Rightarrow> log_record \<Rightarrow> log_record" where
  "handled_line h r = r\<lparr>lr_attributes := concat (map emitted (nested (hn_scopes h) (lr_attributes r)))\<rparr>"

section \<open>The fan-out\<close>

definition fanout_enabled :: "json_handler list \<Rightarrow> int \<Rightarrow> bool" where
  "fanout_enabled hs level \<longleftrightarrow> list_ex (\<lambda>h. handler_enabled h level) hs"

text \<open>Each handler writes to a writer of its own, which may fail.\<close>

fun fanout_handle ::
  "(json_handler \<times> (log_record \<Rightarrow> gerr option)) list \<Rightarrow> log_record \<Rightarrow> log_record list list \<times> gerr option list" where
  "fanout_handle [] r = ([], [])"
| "fanout_handle ((h, write) # hs) r =
     (case fanout_handle hs r of
        (written, failures) \<Rightarrow>
          if \<not> handler_enabled h (lr_level r) then ([] # written, failures)
          else ([handled_line h r] # written, write (handled_line h r) # failures))"

definition fanout :: "(json_handler \<times> (log_record \<Rightarrow> gerr option)) list \<Rightarrow> log_record \<Rightarrow> log_record list list \<times> gerr option" where
  "fanout hs r = (case fanout_handle hs r of (written, failures) \<Rightarrow> (written, errors_join failures))"

definition fanout_derive :: "(json_handler \<Rightarrow> json_handler) \<Rightarrow> json_handler list \<Rightarrow> json_handler list" where
  "fanout_derive derive hs = map derive hs"

definition fanout_with_attrs :: "attribute list \<Rightarrow> json_handler list \<Rightarrow> json_handler list" where
  "fanout_with_attrs as = fanout_derive (\<lambda>h. h\<lparr>hn_scopes := hn_scopes h @ [With as]\<rparr>)"

definition fanout_with_group :: "string \<Rightarrow> json_handler list \<Rightarrow> json_handler list" where
  "fanout_with_group name = fanout_derive (\<lambda>h. h\<lparr>hn_scopes := hn_scopes h @ [Within name]\<rparr>)"

section \<open>The logger\<close>

record log_options =
  lo_level :: int
  lo_console_level :: int
  lo_file :: string
  lo_max_size_mb :: int
  lo_max_backups :: int
  lo_max_age_days :: int

text \<open>What lumberjack is told of a file.\<close>

record rotation =
  ro_filename :: string
  ro_max_size :: int
  ro_max_backups :: int
  ro_max_age :: int
  ro_compress :: bool

definition rotating_file :: "log_options \<Rightarrow> rotation" where
  "rotating_file o0 =
     \<lparr>ro_filename = lo_file o0, ro_max_size = (if lo_max_size_mb o0 \<le> 0 then 50 else lo_max_size_mb o0),
      ro_max_backups = (if lo_max_backups o0 \<le> 0 then 7 else lo_max_backups o0), ro_max_age = lo_max_age_days o0,
      ro_compress = True\<rparr>"

definition new_logger :: "log_options \<Rightarrow> json_handler list \<times> rotation option" where
  "new_logger o0 =
     (let console = \<lparr>hn_level = lo_console_level o0, hn_scopes = []\<rparr>
      in if lo_file o0 = [] then ([console], None)
         else ([console, \<lparr>hn_level = lo_level o0, hn_scopes = []\<rparr>], Some (rotating_file o0)))"

definition level_info :: int where "level_info = 0"

definition level_warn :: int where "level_warn = 4"

text \<open>\<open>Level.UnmarshalText\<close>: a name, and an offset from its first sign on.\<close>

definition named_level :: "string \<Rightarrow> int option" where
  "named_level name =
     (if name = ''debug'' then Some (-4) else if name = ''info'' then Some 0 else if name = ''warn'' then Some 4
      else if name = ''error'' then Some 8 else None)"

definition parse_level :: "string \<Rightarrow> int option" where
  "parse_level text =
     (let name = takeWhile (\<lambda>c. c \<noteq> CHR ''+'' \<and> c \<noteq> CHR ''-'') text; rest = drop (length name) text
      in case (if rest = [] then Some 0 else atoi rest) of
           None \<Rightarrow> None
         | Some offset \<Rightarrow> map_option (\<lambda>level. sint (word_of_int (level + offset) :: int64)) (named_level name))"

definition log_level :: "string \<Rightarrow> int result" where
  "log_level name =
     (if name = [] then Inr level_info
      else case parse_level (to_lower name) of
        None \<Rightarrow> Inl (errors_new (''unknown log level '' @ go_quote name @ '': use debug, info, warn or error''))
      | Some level \<Rightarrow> Inr level)"

definition console_level :: "bool \<Rightarrow> int \<Rightarrow> int" where
  "console_level changed asked = (if changed then asked else level_warn)"

text \<open>The flags \<open>--log-level\<close>, with whether it was given, and \<open>--log-dir\<close>.\<close>

definition set_up_logging :: "string \<Rightarrow> bool \<Rightarrow> string \<Rightarrow> (json_handler list \<times> rotation option) result" where
  "set_up_logging name changed dir =
     (case log_level name of
        Inl e \<Rightarrow> Inl e
      | Inr level \<Rightarrow>
          (let ps = (if dir \<noteq> [] then default_paths\<lparr>pa_log_dir := dir\<rparr> else default_paths)
           in Inr (new_logger \<lparr>lo_level = level, lo_console_level = console_level changed level, lo_file = log_file ps,
                lo_max_size_mb = 0, lo_max_backups = 0, lo_max_age_days = 0\<rparr>)))"

section \<open>The gate\<close>

datatype egress_mode = Sink | Live

datatype egress_kind = Mail | Webhook | Uplink | Download

fun kind_name :: "egress_kind \<Rightarrow> string" where
  "kind_name Mail = ''mail''"
| "kind_name Webhook = ''webhook''"
| "kind_name Uplink = ''uplink''"
| "kind_name Download = ''download''"

fun egress_mode_name :: "egress_mode \<Rightarrow> string" where
  "egress_mode_name Live = ''live''"
| "egress_mode_name Sink = ''sink''"

record message =
  mg_kind :: egress_kind
  mg_target :: string
  mg_summary :: string
  mg_secret :: string

definition no_network :: gerr where
  "no_network = Gerr [ErrNoNetwork] ''egress: no network in this mode''"

text \<open>\<open>dial\<close> is what opens a connection, a function of the network and the address.\<close>

record 'c gate =
  gt_mode :: egress_mode
  gt_dial :: "string \<Rightarrow> string \<Rightarrow> 'c result"

definition new_gate :: "egress_mode \<Rightarrow> (string \<Rightarrow> string \<Rightarrow> 'c result) option \<Rightarrow> 'c gate" where
  "new_gate mode dial =
     \<lparr>gt_mode = mode, gt_dial = (case dial of None \<Rightarrow> \<lambda>network address. Inl no_network | Some d \<Rightarrow> d)\<rparr>"

definition gate_send :: "'c gate \<Rightarrow> message \<Rightarrow> log_record list \<times> gerr option" where
  "gate_send g m =
     (if mg_target m = [] then
        ([], Some (errors_new (''egress: a '' @ kind_name (mg_kind m) @ '' message has no target, and koffr does not invent one'')))
      else if gt_mode g = Sink then
        ([\<lparr>lr_level = level_info, lr_message = ''egress suppressed'',
           lr_attributes = [Attribute ''mode'' (FString (egress_mode_name (gt_mode g))),
             Attribute ''kind'' (FString (kind_name (mg_kind m))), Attribute ''target'' (FString (mg_target m)),
             Attribute ''summary'' (FString (mg_summary m))]\<rparr>], None)
      else ([], Some (errors_new (''egress: sending a '' @ kind_name (mg_kind m) @ '' message is not implemented yet''))))"

definition gate_dial :: "'c gate \<Rightarrow> string \<Rightarrow> string \<Rightarrow> 'c result" where
  "gate_dial g network address =
     (if gt_mode g = Sink then
        Inl (errorf_at (errorf ''egress'' no_network) ('' (would have dialled '' @ address @ '')''))
      else map_sum (errorf (''egress: dial '' @ address)) (\<lambda>c. c) (gt_dial g network address))"

section \<open>Keys, identifiers and the version\<close>

record key_pair =
  kp_recipient :: string
  kp_identity :: string

definition keygen :: "key_pair result \<Rightarrow> screen \<times> gerr option" where
  "keygen generated =
     (case generated of
        Inl e \<Rightarrow> (([], []), Some (errorf ''generate a key pair'' e))
      | Inr pair \<Rightarrow>
          ((line_of (kp_recipient pair),
            line_of (''private key  '' @ kp_identity pair) @ line_of [] @
            line_of ''koffr does not store the private key, and never will. Put it somewhere safe'' @
            line_of (''now '' @ [CHR 0xE2, CHR 0x80, CHR 0x94] @ '' a password manager, a sealed envelope, anywhere but this machine. If you'') @
            line_of ''lose it, every archive encrypted for it is unreadable forever.'' @ line_of [] @
            line_of (''The public key above went to standard output: `koffr keygen >> '' @ recipients_file default_paths @ ''`'') @
            line_of (''appends it. Generate a second pair and add it too '' @ [CHR 0xE2, CHR 0x80, CHR 0x94] @ '' that is the escrow key,'') @
            line_of ''and it is what makes losing the first one survivable.''), None))"

text \<open>
  \<open>draw\<close> is \<open>ulid.New\<close> on a source of entropy and \<open>fresh\<close> a new monotonic source; when both draws fail the
  identifier is the clock in hexadecimal, on 26 digits.
\<close>

definition new_job_id :: "('e \<Rightarrow> string option \<times> 'e) \<Rightarrow> 'e \<Rightarrow> nat \<Rightarrow> 'e \<Rightarrow> string \<times> 'e" where
  "new_job_id draw fresh nanoseconds entropy =
     (case draw entropy of
        (Some ident, entropy1) \<Rightarrow> (ident, entropy1)
      | (None, _) \<Rightarrow>
          (case draw fresh of
             (Some ident, entropy1) \<Rightarrow> (ident, entropy1)
           | (None, entropy1) \<Rightarrow> (upper_hex 26 nanoseconds, entropy1)))"

record build_details =
  bd_name :: string
  bd_version :: string
  bd_commit :: string
  bd_date :: string
  bd_go_version :: string
  bd_platform :: string

text \<open>What the linker and the runtime give: the version, the commit, the date, Go's version, the system and the machine.\<close>

definition build_info :: "string \<Rightarrow> string \<Rightarrow> string \<Rightarrow> string \<Rightarrow> string \<Rightarrow> string \<Rightarrow> build_details" where
  "build_info version commit date go_version goos goarch =
     \<lparr>bd_name = ''koffr'', bd_version = version, bd_commit = commit, bd_date = date, bd_go_version = go_version,
      bd_platform = goos @ ''/'' @ goarch\<rparr>"

definition details_string :: "build_details \<Rightarrow> string" where
  "details_string d =
     bd_name d @ '' '' @ bd_version d @ '' (commit '' @ bd_commit d @ '', built '' @ bd_date d @ '')'' @ '' '' @
     bd_go_version d @ '' '' @ bd_platform d"

definition version_command :: "build_details \<Rightarrow> bool \<Rightarrow> string" where
  "version_command d as_json =
     (if \<not> as_json then line_of (details_string d)
      else line_of (marshal_indent (JObj [(''name'', JStr (bd_name d)), (''version'', JStr (bd_version d)),
        (''commit'', JStr (bd_commit d)), (''date'', JStr (bd_date d)), (''go_version'', JStr (bd_go_version d)),
        (''platform'', JStr (bd_platform d))])))"

section \<open>What the log reveals\<close>

fun revalued :: "(string \<Rightarrow> fact_value \<Rightarrow> fact_value) \<Rightarrow> attribute \<Rightarrow> attribute" where
  "revalued f (Attribute key v) = Attribute key (f key v)"
| "revalued f (Group key as) = Group key (map (revalued f) as)"

definition revalued_handler :: "(string \<Rightarrow> fact_value \<Rightarrow> fact_value) \<Rightarrow> json_handler \<Rightarrow> json_handler" where
  "revalued_handler f h =
     h\<lparr>hn_scopes := map (\<lambda>s. case s of With as \<Rightarrow> With (map (revalued f) as) | Within key \<Rightarrow> Within key) (hn_scopes h)\<rparr>"

lemma emitted_revalued:
  assumes "\<And>key v. \<not> is_sensitive key \<Longrightarrow> f key v = v"
  shows "emitted (revalued f a) = emitted a"
proof (induction a)
  case (Attribute key v)
  then show ?case using assms by (simp add: redact_sensitive_def)
next
  case (Group key as)
  then have "map emitted (map (revalued f) as) = map emitted as" by simp
  then show ?case by (simp only: revalued.simps emitted.simps)
qed

lemma nested_revalued:
  "nested (map (\<lambda>s. case s of With as \<Rightarrow> With (map (revalued f) as) | Within key \<Rightarrow> Within key) ss) (map (revalued f) as)
    = map (revalued f) (nested ss as)"
  by (induction ss as rule: nested.induct) simp_all

lemma handled_line_revalued:
  assumes "\<And>key v. \<not> is_sensitive key \<Longrightarrow> f key v = v"
  shows "handled_line (revalued_handler f h) (r\<lparr>lr_attributes := map (revalued f) (lr_attributes r)\<rparr>) = handled_line h r"
proof -
  have each: "map emitted (map (revalued f) as) = map emitted as" for as
    using emitted_revalued [OF assms] by simp
  show ?thesis
    by (simp add: handled_line_def revalued_handler_def nested_revalued each del: map_map)
qed

text \<open>
  C37. The log reveals nothing of a sensitive attribute (E-115): on the console and in the file alike, at any depth of
  groups and for attributes that were bound to the logger as for those of the line, what is written, and what
  the writers answer, is the same whatever the values under the names that speak of a secret are.
\<close>

theorem log_reveals_no_sensitive_value:
  assumes "\<And>key v. \<not> is_sensitive key \<Longrightarrow> f key v = v"
  shows "fanout (map (\<lambda>(h, write). (revalued_handler f h, write)) hs) (r\<lparr>lr_attributes := map (revalued f) (lr_attributes r)\<rparr>)
    = fanout hs r"
proof -
  have "fanout_handle (map (\<lambda>(h, write). (revalued_handler f h, write)) hs) (r\<lparr>lr_attributes := map (revalued f) (lr_attributes r)\<rparr>)
      = fanout_handle hs r"
  proof (induction hs)
    case (Cons hw hs)
    obtain h sink where hw: "hw = (h, sink)" by (cases hw)
    have enabled: "handler_enabled (revalued_handler f h) level = handler_enabled h level" for level
      by (simp add: handler_enabled_def revalued_handler_def)
    show ?case using Cons handled_line_revalued [OF assms] by (simp add: hw enabled split: prod.split)
  qed simp
  then show ?thesis by (simp add: fanout_def)
qed

theorem log_reveals_no_sensitive_value_witness:
  "fanout [(\<lparr>hn_level = 0, hn_scopes = [Within ''smtp'']\<rparr>, \<lambda>_. None)]
      \<lparr>lr_level = 4, lr_message = ''connecting'', lr_attributes = [Attribute ''smtp_password'' (FString ''hunter2'')]\<rparr>
    = fanout [(\<lparr>hn_level = 0, hn_scopes = [Within ''smtp'']\<rparr>, \<lambda>_. None)]
      \<lparr>lr_level = 4, lr_message = ''connecting'', lr_attributes = [Attribute ''smtp_password'' (FString [])]\<rparr>"
proof -
  have "is_sensitive ''smtp_password''" by code_simp
  then show ?thesis
    using log_reveals_no_sensitive_value [of "\<lambda>key v. if is_sensitive key then FString ''hunter2'' else v"
        "[(\<lparr>hn_level = 0, hn_scopes = [Within ''smtp'']\<rparr>, \<lambda>_. None)]"
        "\<lparr>lr_level = 4, lr_message = ''connecting'', lr_attributes = [Attribute ''smtp_password'' (FString [])]\<rparr>"]
    by (simp add: revalued_handler_def)
qed

text \<open>A gate nobody configured is harmless (ADR-0008): it dials nothing, and what it logs does not depend on the secret.\<close>

lemma sink_is_harmless:
  assumes "gt_mode g = Sink"
  shows "gate_dial (g\<lparr>gt_dial := other\<rparr>) network address = gate_dial g network address"
    and "\<exists>e. gate_dial g network address = Inl e \<and> errors_is e ErrNoNetwork"
    and "gate_send g (m\<lparr>mg_secret := secret\<rparr>) = gate_send g m"
    and "mg_target m \<noteq> [] \<Longrightarrow> snd (gate_send g m) = None"
  using assms by (simp_all add: gate_dial_def gate_send_def no_network_def)

lemma keygen_keeps_the_identity_off_the_output:
  "fst (fst (keygen (Inr (pair\<lparr>kp_identity := other\<rparr>)))) = fst (fst (keygen (Inr pair)))"
  by (simp add: keygen_def)

text \<open>A group whose name speaks of a secret is not masked: only its attributes are asked for.\<close>

lemma sensitive_group_is_shown:
  "emitted (Group ''password'' [Attribute ''value'' (FString ''hunter2'')])
    = [Group ''password'' [Attribute ''value'' (FString ''hunter2'')]]"
  by code_simp

end
