(* ===== verification/Cli_Main.thy ===== *)
theory Cli_Main
  imports State_Open Staging_Files Cli_List Cli_Verify Obs_Egress
begin

text \<open>
  The program around its commands: \<open>cmd/koffr/main.go\<close>, the root command of \<open>internal/cli/cli.go\<close>, how a command
  gets its catalogue (\<open>internal/cli/wiring.go\<close>), and the address of the local database (\<open>dsn\<close> of
  \<open>internal/state/open.go\<close>). A command that reads the catalogue opens the state first; what this does to the
  files of a job that runs meanwhile is stated here. The parsing of arguments is cobra's, and a
  command is a function of the files and of the database.
\<close>

section \<open>The address of the database\<close>

definition state_database :: string where "state_database = ''koffr.db''"

definition dsn :: "string \<Rightarrow> string" where
  "dsn path = ''file:'' @ path @ ''?'' @
     encode_query ''_pragma'' [''journal_mode(WAL)'', ''foreign_keys(ON)'', ''busy_timeout(5000)'', ''synchronous(NORMAL)'']"

section \<open>The catalogue of a command\<close>

definition no_catalog :: gerr where
  "no_catalog = errors_new ''this build has no catalogue wired''"

text \<open>What \<open>WithCatalog\<close> wires, if anything, applied to the state directory.\<close>

definition catalog_for :: "('w \<Rightarrow> gerr option \<times> 'w) option \<Rightarrow> 'w \<Rightarrow> gerr option \<times> 'w" where
  "catalog_for built w =
     (case built of
        None \<Rightarrow> (Some no_catalog, w)
      | Some opener \<Rightarrow> (case opener w of (failed, w1) \<Rightarrow> (map_option (errorf ''open the catalogue'') failed, w1)))"

text \<open>The files and the database; opening is \<open>state.Open\<close> with what the driver answers to an address.\<close>

record 's state_driver =
  og_driver :: "string \<Rightarrow> gerr option"
  og_ping :: "gerr option"
  og_exec :: "string \<Rightarrow> 's \<Rightarrow> gerr + 's"
  og_migrations :: "migration list"

definition open_catalog :: "'s state_driver \<Rightarrow> place \<Rightarrow> os \<times> 's ledger \<Rightarrow> gerr option \<times> os \<times> 's ledger" where
  "open_catalog og dir w =
     (case open_state (og_driver og (dsn (place_string (place_join dir state_database)))) (og_ping og) (og_exec og) (og_migrations og) dir (fst w) (snd w) of
        (failed, s, l) \<Rightarrow> (map_option (errorf ''open the local state'') failed, s, l))"

definition catalogue_command ::
  "'s state_driver \<Rightarrow> place \<Rightarrow> (gerr option \<Rightarrow> 's \<Rightarrow> 'r \<times> 's) \<Rightarrow> os \<times> 's ledger \<Rightarrow> 'r \<times> os \<times> 's ledger" where
  "catalogue_command og dir command w =
     (case open_catalog og dir w of
        (unopened, s, l) \<Rightarrow> (case command unopened (lg_schema l) of (r, t) \<Rightarrow> (r, s, l\<lparr>lg_schema := t\<rparr>)))"

text \<open>\<open>koffr list\<close> and \<open>koffr verify\<close>, on the machine of the state directory.\<close>

definition koffr_list ::
  "tables state_driver \<Rightarrow> flags \<Rightarrow> (string \<Rightarrow> os) \<Rightarrow> config result \<Rightarrow> string \<Rightarrow> string \<Rightarrow> os \<times> tables ledger
    \<Rightarrow> string result \<times> os \<times> tables ledger" where
  "koffr_list og fg disk loaded database destination =
     catalogue_command og (place_of (state_dir fg)) (\<lambda>unopened. list_command unopened disk loaded database destination)"

definition koffr_verify ::
  "tables state_driver \<Rightarrow> flags \<Rightarrow> (violation \<Rightarrow> gerr) \<Rightarrow> (string \<Rightarrow> string) \<Rightarrow> (string \<Rightarrow> os) \<Rightarrow> config result \<Rightarrow> instant \<Rightarrow> string
    \<Rightarrow> os \<times> tables ledger \<Rightarrow> (screen \<times> gerr option) \<times> os \<times> tables ledger" where
  "koffr_verify og fg refuse sha256 disk loaded at ident =
     catalogue_command og (place_of (state_dir fg)) (\<lambda>unopened. verify_command unopened refuse sha256 disk loaded at ident)"

lemma unopened_catalogue_is_said:
  assumes "catalog_for (Some (open_catalog og (place_of (state_dir fg)))) w = (Some e, w1)"
  shows "koffr_list og fg disk loaded database destination w = (Inl e, w1)"
    and "koffr_verify og fg refuse sha256 disk loaded at ident w = ((([], []), Some e), w1)"
  using assms by (auto simp: catalog_for_def koffr_list_def koffr_verify_def catalogue_command_def list_command_def
      verify_command_def split: prod.splits)

text \<open>\<open>koffr tools\<close> alone: a subcommand nobody wrote is refused, none shows the help.\<close>

definition tools_group :: "string list \<Rightarrow> string \<Rightarrow> screen \<times> gerr option" where
  "tools_group arguments help =
     (case arguments of
        [] \<Rightarrow> ((help, []), None)
      | name # _ \<Rightarrow>
          (([], []), Some (errors_new (''koffr tools has no '' @ go_quote name @
             '' subcommand: koffr installs no tool, the dump and restore clients are a prerequisite (see the README)''))))"

section \<open>The root command and the process\<close>

definition command_started :: "string \<Rightarrow> string \<Rightarrow> log_record" where
  "command_started name version =
     \<lparr>lr_level = level_info, lr_message = ''command started'',
      lr_attributes = [Attribute ''command'' (FString name), Attribute ''version'' (FString version)]\<rparr>"

text \<open>
  What runs before a command: the logger, which alone may refuse, and a line in it, which each handler
  that takes its level writes. \<open>released\<close> is the closing of the log file, asked when the command went well.
\<close>

definition started_lines :: "json_handler list \<Rightarrow> string \<Rightarrow> string \<Rightarrow> log_record list list" where
  "started_lines handlers name version = fst (fanout (map (\<lambda>h. (h, \<lambda>line. None)) handlers) (command_started name version))"

definition root_run ::
  "string \<Rightarrow> bool \<Rightarrow> string \<Rightarrow> gerr option \<Rightarrow> ('w \<Rightarrow> (screen \<times> gerr option) \<times> 'w) \<Rightarrow> 'w \<Rightarrow> (screen \<times> gerr option) \<times> 'w" where
  "root_run level changed log_dir released command w =
     (case set_up_logging level changed log_dir of
        Inl e \<Rightarrow> ((([], []), Some e), w)
      | Inr _ \<Rightarrow>
          (case command w of
             ((shown, Some e), w1) \<Rightarrow> ((shown, Some e), w1)
           | ((shown, None), w1) \<Rightarrow> ((shown, released), w1)))"

definition koffr_main :: "screen \<times> gerr option \<Rightarrow> screen \<times> int" where
  "koffr_main ended =
     (case ended of
        ((said, noted), Some e) \<Rightarrow> ((said, noted @ line_of (''koffr: '' @ err_said e)), 1)
      | (shown, None) \<Rightarrow> (shown, 0))"

section \<open>What the process shows\<close>

text \<open>A command answers, it does not narrate: without \<open>--log-level\<close> its start is only told to the file (ADR-0012).\<close>

lemma start_is_not_shown:
  assumes "set_up_logging level False dir = Inr (handlers, rotated)"
  shows "\<exists>to_file. started_lines handlers name version = [] # to_file"
  using assms by (auto simp: set_up_logging_def new_logger_def Let_def console_level_def started_lines_def fanout_def
      command_started_def level_info_def level_warn_def handler_enabled_def split: sum.splits if_splits)

text \<open>A level nobody knows stops the program before the command: the machine is as it was, and the exit says so.\<close>

lemma unknown_level_runs_nothing:
  assumes "root_run level changed dir released command w = (ended, w')" "log_level level = Inl e"
  shows "w' = w \<and> koffr_main ended = (([], line_of (''koffr: '' @ err_said e)), 1)"
  using assms by (auto simp: root_run_def set_up_logging_def koffr_main_def)

section \<open>What a command leaves of a running job\<close>

lemma map_of_filter_key: "map_of (filter (\<lambda>(q, _). P q) xs) q = (if P q then map_of xs q else None)"
  by (induction xs) auto

lemma remove_all_gone:
  assumes "os_remove_all p s = (None, t)"
  shows "node_at s q = None \<Longrightarrow> node_at t q = None" "fst q = fst p \<Longrightarrow> prefix (snd p) (snd q) \<Longrightarrow> node_at t q = None"
proof -
  obtain s1 where c: "os_call s = (None, s1)"
    and t: "t = s1\<lparr>os_files := filter (\<lambda>(x, _). \<not> (fst x = fst p \<and> prefix (snd p) (snd x))) (os_files s1)\<rparr>"
    using assms by (auto simp: os_remove_all_def split: prod.splits option.splits)
  have "os_files t = filter (\<lambda>(x, _). \<not> (fst x = fst p \<and> prefix (snd p) (snd x))) (os_files s1)" by (simp add: t)
  then have "node_at t q = (if \<not> (fst q = fst p \<and> prefix (snd p) (snd q)) then node_at s1 q else None)"
    by (simp only: node_at_def map_of_filter_key)
  then have "node_at t q = (if \<not> (fst q = fst p \<and> prefix (snd p) (snd q)) then node_at s q else None)"
    by (simp only: os_call_frame(3)[OF c])
  then show "node_at s q = None \<Longrightarrow> node_at t q = None" "fst q = fst p \<Longrightarrow> prefix (snd p) (snd q) \<Longrightarrow> node_at t q = None"
    by simp_all
qed

lemma quiet_clear_entries: "quiet s \<Longrightarrow> \<exists>t. clear_entries tmp names s = (None, t)"
proof (induction names arbitrary: s)
  case (Cons name names)
  then obtain s1 where "os_remove_all (place_join tmp name) s = (None, s1)" "quiet s1"
    by (simp add: os_remove_all_def) (simp add: quiet_def)
  with Cons.IH[of s1] show ?case by simp
qed simp

lemma clear_entries_gone:
  "clear_entries tmp names s = (None, t) \<Longrightarrow> node_at s q = None \<or> q \<in> place_join tmp ` set names \<Longrightarrow> node_at t q = None"
proof (induction names arbitrary: s)
  case (Cons name names)
  then obtain s1 where rm: "os_remove_all (place_join tmp name) s = (None, s1)" and cl: "clear_entries tmp names s1 = (None, t)"
    by (auto split: prod.splits option.splits)
  show ?case
    by (rule Cons.IH[OF cl]) (use Cons.prems(2) remove_all_gone[OF rm, of q] in auto)
qed simp

lemma clear_tmp_gone:
  assumes "clear_tmp dir s = (None, t)" "simple_name name"
  shows "node_at t (place_join (place_join dir tmp_dir) name) = None"
proof -
  let ?tmp = "place_join dir tmp_dir"
  obtain names s1 where rd: "os_read_dir ?tmp s = (Inr names, s1)" and cl: "clear_entries ?tmp names s1 = (None, t)"
    using assms(1) by (auto simp: clear_tmp_def Let_def split: prod.splits sum.splits)
  have n: "names = children s1 ?tmp" using rd by (auto simp: os_read_dir_def split: prod.splits option.splits node.splits if_splits)
  have "name \<in> set names" if "node_at s1 (place_join ?tmp name) \<noteq> None"
    using that unfolding n place_join_simple[OF assms(2)] by (simp add: children_iff)
  then have "node_at s1 (place_join ?tmp name) = None \<or> place_join ?tmp name \<in> place_join ?tmp ` set names" by blast
  then show ?thesis by (rule clear_entries_gone[OF cl])
qed

lemma opened_without_buffers:
  assumes "open_state opened ping exec ms dir s l = (None, s', l')" "0 < pid"
  shows "node_at s' (staging_place dir pid job) = None"
proof -
  from assms(1) obtain s1 where "clear_tmp dir s1 = (None, s')"
    by (auto simp: open_state_def split: prod.splits option.splits)
  from clear_tmp_gone[OF this simple_staging_name[OF assms(2)]] show ?thesis
    by (simp add: staging_place_def staging_dir_place_def staging_directory_def tmp_dir_def)
qed

lemma buffer_of_the_living: "running s pid \<Longrightarrow> pid < 2 ^ 63 \<Longrightarrow> \<not> abandoned_buffer s (staging_file_name pid job)"
  using owner_cases[of pid s job] by (auto simp: running_def)

text \<open>
  C28. A listing removes the staging file of a job that runs. Opening the catalogue clears the working
  directory whatever runs: after a \<open>koffr list\<close> that answers, the staging file of a living process is gone
  (N-10), although the purge of the next job would have told it from an abandoned one. The job goes
  on with the file it has open.
\<close>

theorem listing_removes_staging_files:
  assumes "koffr_list og fg disk loaded database destination (s, l) = (Inr said, s', l')"
    and "running s pid" "pid < 2 ^ 63"
  shows "node_at s' (staging_place (place_of (state_dir fg)) pid job) = None
    \<and> \<not> abandoned_buffer s (staging_file_name pid job)"
proof -
  obtain opened s1 l1 where "open_state opened (og_ping og) (og_exec og) (og_migrations og) (place_of (state_dir fg)) s l = (None, s1, l1)"
    "s' = s1"
    using assms(1) by (auto simp: koffr_list_def catalogue_command_def open_catalog_def list_command_def
        split: prod.splits option.splits)
  with opened_without_buffers[of _ _ _ _ _ s l s1 l1 pid job] assms(2) buffer_of_the_living[OF assms(2,3)] show ?thesis
    by (auto simp: running_def)
qed

definition busy_machine :: os where
  "busy_machine = one_process 7 [((True, [''k'']), Dir), ((True, [''k'', ''tools'']), Dir), ((True, [''k'', ''tmp'']), Dir),
     (staging_place (place_of ''/k'') 7 ''j'', File ''half a dump'' 0)]"

definition still_driver :: "tables state_driver" where
  "still_driver = \<lparr>og_driver = \<lambda>address. None, og_ping = None, og_exec = \<lambda>sql t. Inr t, og_migrations = []\<rparr>"

definition sample_books :: "tables ledger" where
  "sample_books = \<lparr>lg_schema = sample_tables, lg_versions = [], lg_faults = []\<rparr>"

lemma busy_place: "staging_place (place_of ''/k'') 7 ''j'' = (True, [''k'', ''tmp'', staging_file_name 7 ''j''])"
  using place_join_simple[OF simple_staging_name[of 7 "''j''"], of "(True, [''k'', ''tmp''])"]
  by (simp add: staging_place_def staging_dir_place_def staging_directory_def place_join_simple simple_name_def
      place_of_def has_prefix_def place_join_def clean_step_def)

theorem listing_removes_staging_files_witness:
  "\<exists>said s' l'. koffr_list still_driver \<lparr>fg_config = [], fg_state_dir = ''/k'', fg_tools_dir = [], fg_search_path = []\<rparr> (\<lambda>path. busy_machine)
      (Inr (sample_config\<lparr>cg_destinations := []\<rparr>)) [] [] (busy_machine, sample_books) = (Inr said, s', l')
    \<and> running busy_machine 7
    \<and> node_at busy_machine (staging_place (place_of ''/k'') 7 ''j'') = Some (File ''half a dump'' 0)
    \<and> node_at s' (staging_place (place_of ''/k'') 7 ''j'') = None"
proof -
  let ?fg = "\<lparr>fg_config = [], fg_state_dir = ''/k'', fg_tools_dir = [], fg_search_path = []\<rparr>"
  let ?list = "koffr_list still_driver ?fg (\<lambda>path. busy_machine) (Inr (sample_config\<lparr>cg_destinations := []\<rparr>)) [] [] (busy_machine, sample_books)"
  have d: "place_of ''/k'' = (True, [''k''])" "place_join (True, [''k'']) ''tools'' = (True, [''k'', ''tools''])"
    "place_join (True, [''k'']) ''tmp'' = (True, [''k'', ''tmp''])"
    by (simp_all add: place_of_def has_prefix_def place_join_def clean_step_def)
  have sd: "state_dir ?fg = ''/k''" by (simp add: state_dir_def)
  have q: "quiet busy_machine" by (simp add: busy_machine_def)
  have dirs: "node_at busy_machine (True, [''k'']) = Some Dir" "node_at busy_machine (True, [''k'', ''tools'']) = Some Dir"
    "node_at busy_machine (True, [''k'', ''tmp'']) = Some Dir" by (simp_all add: busy_machine_def)
  then have p: "prepare_dirs [(True, [''k'']), (True, [''k'', ''tools'']), (True, [''k'', ''tmp''])] busy_machine = (None, busy_machine)"
    using q by (simp add: os_mkdir_all_def)
  obtain u where "clear_entries (True, [''k'', ''tmp'']) (children busy_machine (True, [''k'', ''tmp''])) busy_machine = (None, u)"
    using quiet_clear_entries[OF q] by blast
  then have "clear_tmp (True, [''k'']) busy_machine = (None, u)"
    using q dirs(3) by (simp add: clear_tmp_def tmp_dir_def d os_read_dir_def)
  then have o: "open_state None None (\<lambda>sql t. Inr t) [] (True, [''k'']) busy_machine sample_books = (None, u, sample_books)"
    using p by (simp add: open_state_def tools_dir_def tmp_dir_def d migrate_def lg_call_def sample_books_def current_version_def)
  have "\<exists>said t. list_command None (\<lambda>path. busy_machine) (Inr (sample_config\<lparr>cg_destinations := []\<rparr>)) [] [] sample_tables = (Inr said, t)"
    by (simp add: list_command_def lister_for_def list_archives_def chosen_def no_filter_def backups_def select_backups_def
        sample_tables_def db_call_def with_locations_def Let_def)
  then obtain said s' l' where l: "?list = (Inr said, s', l')"
    using o by (auto simp: koffr_list_def catalogue_command_def open_catalog_def still_driver_def sd d)
      (auto simp: sample_books_def)
  have r: "running busy_machine 7" by (simp add: busy_machine_def)
  from listing_removes_staging_files[OF l r, of "''j''"] have "node_at s' (staging_place (place_of ''/k'') 7 ''j'') = None"
    by (simp add: sd)
  with l r show ?thesis by (auto simp: busy_machine_def busy_place)
qed

end
