(* ===== verification/Cli_Process.thy ===== *)
theory Cli_Process
  imports Cli_Main Cli_Whole Cli_Doctor
begin

text \<open>
  \<open>koffr backup\<close> from the configuration to the exit code: \<open>newBackupCommand\<close> of \<open>internal/cli/backup.go\<close> over the
  machine and the local state, run by the root command and by \<open>main\<close>. The catalogue is opened after the job
  has ended, as the code does.
\<close>

section \<open>The command\<close>

text \<open>What lies around the command: the outside, the driver of the state, zstd and age, the disks.\<close>

record ('z, 'a) surroundings =
  su_outside :: outside
  su_driver :: "tables state_driver"
  su_codec :: "('z, 'a) codec"
  su_sha256 :: "string \<Rightarrow> string"
  su_parse_key :: "string \<Rightarrow> string result"
  su_elapsed :: int
  su_disk :: "string \<Rightarrow> os"
  su_refuse :: "violation \<Rightarrow> gerr"
  su_reading :: reading

definition index_backup ::
  "('z, 'a) surroundings \<Rightarrow> flags \<Rightarrow> job_result \<Rightarrow> database_conf \<Rightarrow> os world \<times> tables ledger
    \<Rightarrow> string list \<times> os world \<times> tables ledger" where
  "index_backup su fg r d wl =
     (if jr_path r \<noteq> [] \<and> 0 < jr_stored_bytes r then
        (case open_catalog (su_driver su) (place_of (state_dir fg)) (wo_os (fst wl), snd wl) of
           (unopened, s, l) \<Rightarrow>
             (case record_in_catalogue unopened (su_refuse su) (su_sha256 su) r d (lg_schema l) of
                (warnings, t) \<Rightarrow> (warnings, on_os s (fst wl), l\<lparr>lg_schema := t\<rparr>)))
      else ([], wl))"

text \<open>A plan that resolved its tool measures the volume of the state directory, which it makes first.\<close>

definition measured_volume :: "('z, 'a) surroundings \<Rightarrow> flags \<Rightarrow> wiring \<Rightarrow> request \<Rightarrow> os world \<Rightarrow> os world" where
  "measured_volume su fg wi q w =
     (case wi_resolver wi (rq_database q) of
        Inl _ \<Rightarrow> w
      | Inr _ \<Rightarrow> on_os (snd (access_free (su_outside su) (state_dir fg) (wo_os w))) w)"

definition koffr_backup ::
  "('z, 'a) surroundings \<Rightarrow> flags \<Rightarrow> bool \<Rightarrow> request \<Rightarrow> os world \<times> tables ledger
    \<Rightarrow> (screen \<times> gerr option) \<times> os world \<times> tables ledger" where
  "koffr_backup su fg dry q wl =
     (case backup_service (su_outside su) fg (su_codec su) (su_sha256 su) (su_parse_key su) (su_elapsed su) (su_disk su)
             (load_resolved (su_reading su) (config_path fg)) (rq_database q) (wo_os (fst wl)) of
        (Inl e, s) \<Rightarrow> ((([], []), Some e), on_os s (fst wl), snd wl)
      | (Inr sv, s) \<Rightarrow>
          (let w = (on_os s (fst wl))\<lparr>wo_destinations := bs_destinations sv\<rparr>;
               noted = (if bs_warning sv = [] then [] else line_of (bs_warning sv))
           in if dry then
                (case plan (bs_wiring sv) q w of
                   (planned, failed) \<Rightarrow>
                     (((fst (render_plan planned), noted @ snd (render_plan planned)), failed),
                      measured_volume su fg (bs_wiring sv) q w, snd wl))
              else
                (case run (bs_wiring sv) q w of
                   (r, failed, w1) \<Rightarrow>
                     (case index_backup su fg r (bs_declared sv) (w1, snd wl) of
                        (warnings, wl1) \<Rightarrow>
                          (((fst (render_backup r), noted @ snd (render_backup r) @ warned warnings), failed), wl1)))))"

text \<open>One process: the root command around it, and the exit.\<close>

definition backup_process ::
  "('z, 'a) surroundings \<Rightarrow> flags \<Rightarrow> string \<Rightarrow> bool \<Rightarrow> string \<Rightarrow> gerr option \<Rightarrow> bool \<Rightarrow> request
    \<Rightarrow> os world \<times> tables ledger \<Rightarrow> (screen \<times> int) \<times> os world \<times> tables ledger" where
  "backup_process su fg level changed log_dir released dry q wl =
     (case root_run level changed log_dir released (koffr_backup su fg dry q) wl of
        (ended, wl1) \<Rightarrow> (koffr_main ended, wl1))"

section \<open>A dry run\<close>

lemma backup_service_parts:
  assumes "backup_service ou fg codec sha256 parse_key elapsed disk loaded database s = (Inr sv, s1)"
  obtains c d subjects to where "loaded = Inr c" "targets_of c database = Inr subjects" "declared_database c database = Inr d"
    "destinations_of disk c d = Inr (bs_destinations sv)" "bs_declared sv = d" "bs_warning sv = recipients_warning to"
    "recipients_for parse_key c d s = (Inr to, s1)"
    "bs_wiring sv = backup_wiring ou fg codec sha256 elapsed c d (hd subjects) to s1"
  using assms by (auto simp: backup_service_def split: sum.splits prod.splits)

text \<open>\<open>--dry-run\<close> says that nothing was written; it has made the state directory.\<close>

lemma dry_run_makes_the_state_directory:
  assumes "koffr_backup su fg True q wl = ((shown, None), w', l')" and "snd (place_of (state_dir fg)) \<noteq> []"
  shows "node_at (wo_os w') (place_of (state_dir fg)) = Some Dir"
proof -
  let ?ou = "su_outside su"
  from assms(1) obtain sv s where sv: "backup_service ?ou fg (su_codec su) (su_sha256 su) (su_parse_key su) (su_elapsed su)
      (su_disk su) (load_resolved (su_reading su) (config_path fg)) (rq_database q) (wo_os (fst wl)) = (Inr sv, s)"
    by (auto simp: koffr_backup_def split: prod.splits sum.splits)
  let ?w = "(on_os s (fst wl))\<lparr>wo_destinations := bs_destinations sv\<rparr>"
  have free: "wi_free_bytes (bs_wiring sv) = fst (access_free ?ou (state_dir fg) s)"
    by (rule backup_service_parts [OF sv]) (simp add: backup_wiring_def Let_def)
  obtain planned failed where pl: "plan (bs_wiring sv) q ?w = (planned, failed)" by fastforce
  from assms(1) sv pl have ended: "failed = None" "w' = measured_volume su fg (bs_wiring sv) q ?w"
    by (auto simp: koffr_backup_def Let_def)
  from pl ended(1) obtain resolution b where "wi_resolver (bs_wiring sv) (rq_database q) = Inr resolution"
    and b: "wi_free_bytes (bs_wiring sv) = Inr b"
    by (auto simp: plan_def decide_for_def Let_def split: sum.splits)
  with ended(2) have "wo_os w' = snd (access_free ?ou (state_dir fg) s)" by (simp add: measured_volume_def on_os_def)
  moreover obtain u t where "os_mkdir_all (place_of (state_dir fg)) s = (Inr u, t)" "snd (access_free ?ou (state_dir fg) s) = t"
    using b unfolding free by (auto simp: access_free_def split: prod.splits sum.splits)
  ultimately show ?thesis using mkdir_frame(3) [of "place_of (state_dir fg)" s u t] assms(2) by simp
qed

section \<open>What the exit code says\<close>

lemma backup_process_zero:
  assumes "backup_process su fg level changed log_dir released dry q wl = ((shown, 0), wl1)"
  shows "koffr_backup su fg dry q wl = ((shown, None), wl1)"
  using assms
  by (auto simp: backup_process_def root_run_def koffr_main_def split: prod.splits sum.splits option.splits)

lemma run_that_did_not_fail:
  assumes "koffr_backup su fg False q wl = ((shown, None), wl1)"
  obtains c d subjects to s r w w1 warnings where
    "load_resolved (su_reading su) (config_path fg) = Inr c" "targets_of c (rq_database q) = Inr subjects" "declared_database c (rq_database q) = Inr d"
    "destinations_of (su_disk su) c d = Inr (wo_destinations w)"
    "recipients_for (su_parse_key su) c d (wo_os (fst wl)) = (Inr to, s)"
    "run (backup_wiring (su_outside su) fg (su_codec su) (su_sha256 su) (su_elapsed su) c d (hd subjects) to s) q w = (r, None, w1)"
    "index_backup su fg r d (w1, snd wl) = (warnings, wl1)"
    "fst shown = fst (render_backup r)"
    "snd shown = (if recipients_warning to = [] then [] else line_of (recipients_warning to)) @ snd (render_backup r) @ warned warnings"
proof -
  from assms obtain sv s where sv: "backup_service (su_outside su) fg (su_codec su) (su_sha256 su) (su_parse_key su) (su_elapsed su)
      (su_disk su) (load_resolved (su_reading su) (config_path fg)) (rq_database q) (wo_os (fst wl)) = (Inr sv, s)"
    by (auto simp: koffr_backup_def split: prod.splits sum.splits)
  let ?w = "(on_os s (fst wl))\<lparr>wo_destinations := bs_destinations sv\<rparr>"
  obtain r failed w1 where run: "run (bs_wiring sv) q ?w = (r, failed, w1)" by (metis prod_cases3)
  obtain warnings wl2 where idx: "index_backup su fg r (bs_declared sv) (w1, snd wl) = (warnings, wl2)" by (metis surj_pair)
  from assms sv run idx have ended: "failed = None" "wl2 = wl1" "fst shown = fst (render_backup r)"
    "snd shown = (if bs_warning sv = [] then [] else line_of (bs_warning sv)) @ snd (render_backup r) @ warned warnings"
    by (auto simp: koffr_backup_def Let_def)
  show thesis
    by (rule backup_service_parts [OF sv], rule that) (use run idx ended in auto)
qed

lemma index_backup_cases:
  assumes "index_backup su fg r d wl = (warnings, wl1)" and "jr_path r \<noteq> []" "0 < jr_stored_bytes r"
  obtains unopened s l t where "open_catalog (su_driver su) (place_of (state_dir fg)) (wo_os (fst wl), snd wl) = (unopened, s, l)"
    "record_in_catalogue unopened (su_refuse su) (su_sha256 su) r d (lg_schema l) = (warnings, t)"
    "wl1 = (on_os s (fst wl), l\<lparr>lg_schema := t\<rparr>)"
  using assms by (auto simp: index_backup_def split: prod.splits if_splits)

text \<open>What is said of an index that failed.\<close>

definition unindexed :: "string list \<Rightarrow> bool" where
  "unindexed warnings \<longleftrightarrow> (\<exists>e. warnings = [''the backup is written but was not indexed: '' @ e]
     \<or> warnings = [''the backup is written but its database was not indexed: '' @ e])"

lemma index_backup_says: "index_backup su fg r d wl = (warnings, wl1) \<Longrightarrow> warnings \<noteq> [] \<Longrightarrow> unindexed warnings"
  by (auto simp: index_backup_def record_in_catalogue_def unindexed_def split: prod.splits if_splits option.splits)

lemma success_duration:
  assumes "run wi q w = (r, None, w')"
  shows "jr_duration r = wi_elapsed wi"
proof (rule run_success_parts [OF assms])
  fix wt p r2 w2 seen w3
  assume "finish_run wi q (Some (wt, seen)) p r2 w2 = (r, None, w3)"
  then show ?thesis
    by (auto simp: finish_run_def deposit_manifest_def set_step_def Let_def
        split: prod.splits option.splits sum.splits)
qed

lemma success_entry:
  assumes "run wi q w = (r, None, w')" and "wi_manifester wi = Some render"
  shows "jr_job r = rq_job q" "bk_verified (kept (catalogue_entry r)) = Structure"
    "writable_instant utc (rq_at q) \<Longrightarrow> writable_instant utc (rq_at q + wi_elapsed wi) \<Longrightarrow> datable (catalogue_entry r)"
proof -
  from run_manifest [OF assms] obtain r0 where r0: "verdict_sound (jr_verification r0)"
      "r = mark [StepManifest] (r0\<lparr>jr_manifest := jr_manifest r\<rparr>)" "jr_job r0 = rq_job q" "jr_at r0 = rq_at q" by auto
  have same: "jr_job r = rq_job q" "jr_at r = rq_at q" "jr_verification r = jr_verification r0"
    using r0(3,4) by (subst r0(2); simp add: set_step_def)+
  show "jr_job r = rq_job q" by (rule same(1))
  have v: "verification_of_result r = Structure" using same(3) r0(1) by (simp add: verification_of_result_def verdict_sound_def)
  then show "bk_verified (kept (catalogue_entry r)) = Structure" by (simp add: kept_def catalogue_entry_def Let_def)
  show "datable (catalogue_entry r)" if "writable_instant utc (rq_at q)" "writable_instant utc (rq_at q + wi_elapsed wi)"
    using that v r0(1) same success_duration [OF assms(1)]
    by (auto simp: datable_def catalogue_entry_def verdict_sound_def verified_at_all_def list_all_iff Let_def)
qed

lemma path_for_ne: "path_for wi q resolution \<noteq> []"
  by (simp add: path_for_def archive_path_def Let_def)

text \<open>
  C3. Exit code 0 of \<open>koffr backup\<close> means a backup (P4, N-10, E-024): when the process ends with 0, every
  destination the database names holds the same archive and beside it its manifest, the first stream says
  where it lies, and unless the second stream says that it was not indexed, the catalogue has the job as
  an archive verified in full.
\<close>

theorem exit_zero_is_a_backup:
  assumes "backup_process su fg level changed log_dir released False q (w, l) = ((shown, 0), w', l')"
    and "\<forall>s unopened s1 l1. open_catalog (su_driver su) (place_of (state_dir fg)) (s, l) = (unopened, s1, l1)
      \<longrightarrow> tables_ok (lg_schema l1)"
    and "writable_instant utc (rq_at q)" "writable_instant utc (rq_at q + su_elapsed su)"
  shows "\<exists>c d r archive to s warnings. load_resolved (su_reading su) (config_path fg) = Inr c
    \<and> declared_database c (rq_database q) = Inr d
    \<and> map ds_id (wo_destinations w') = dc_destinations d \<and> dc_destinations d \<noteq> []
    \<and> (\<forall>x \<in> set (wo_destinations w'). lies x (jr_path r) (Some archive) \<and> lies x (jr_path r @ manifest_suffix) (Some (jr_manifest r)))
    \<and> jr_sha_stored r = su_sha256 su archive \<and> jr_stored_bytes r = int (length archive)
    \<and> recipients_for (su_parse_key su) c d (wo_os w) = (Inr to, s)
    \<and> fst shown = fst (render_backup r)
    \<and> snd shown = (if recipients_warning to = [] then [] else line_of (recipients_warning to)) @ snd (render_backup r) @ warned warnings
    \<and> (warnings \<noteq> [] \<longrightarrow> unindexed warnings)
    \<and> (warnings = [] \<and> archive \<noteq> [] \<longrightarrow> lookup_backup (lg_schema l') (rq_job q) = Some (kept (catalogue_entry r))
        \<and> bk_verified (kept (catalogue_entry r)) = Structure)"
proof -
  note ended = backup_process_zero [OF assms(1)]
  obtain c d subjects to s r wd w1 warnings where c: "load_resolved (su_reading su) (config_path fg) = Inr c"
    and d: "declared_database c (rq_database q) = Inr d" "destinations_of (su_disk su) c d = Inr (wo_destinations wd)"
    and to: "recipients_for (su_parse_key su) c d (wo_os w) = (Inr to, s)"
    and run: "run (backup_wiring (su_outside su) fg (su_codec su) (su_sha256 su) (su_elapsed su) c d (hd subjects) to s) q wd = (r, None, w1)"
    and idx: "index_backup su fg r d (w1, l) = (warnings, w', l')" and shown: "fst shown = fst (render_backup r)"
      "snd shown = (if recipients_warning to = [] then [] else line_of (recipients_warning to)) @ snd (render_backup r) @ warned warnings"
    by (rule run_that_did_not_fail [OF ended]) auto
  let ?wi = "backup_wiring (su_outside su) fg (su_codec su) (su_sha256 su) (su_elapsed su) c d (hd subjects) to s"
  note parts = wiring_packs [OF refl, of "su_outside su" fg "su_codec su" "su_sha256 su" "su_elapsed su" c d "hd subjects" to s]
  from run_leaves_a_backup [OF run parts(1,2) destinations_of_each(2) [OF d(2)] parts(4) [of "rq_database q"]] obtain archive where
    archive: "jr_sha_stored r = su_sha256 su archive" "jr_stored_bytes r = int (length archive)"
      "\<forall>x \<in> set (wo_destinations w1). lies x (jr_path r) (Some archive) \<and> lies x (jr_path r @ manifest_suffix) (Some (jr_manifest r))"
    unfolding parts(3) by blast
  have same: "wo_destinations w' = wo_destinations w1" using idx by (auto simp: index_backup_def on_os_def split: prod.splits if_splits)
  have "map ds_id (wo_destinations w1) = map ds_id (wo_destinations wd)"
    using arg_cong [OF success_wiring [OF run], of "map fst"] by (simp add: wiring_of_def comp_def)
  then have ids: "map ds_id (wo_destinations w') = dc_destinations d" using same destinations_of_each(1) [OF d(2)] by simp
  have some: "dc_destinations d \<noteq> []" using d(2) by (auto simp: destinations_of_def)
  have "wi_manifester ?wi = Some (render_manifest d to (cg_location c))" "wi_elapsed ?wi = su_elapsed su"
    by (simp_all add: backup_wiring_def Let_def)
  note entry = success_entry [OF run this(1), unfolded this(2)]
  have indexed: "lookup_backup (lg_schema l') (rq_job q) = Some (kept (catalogue_entry r))"
    if "warnings = []" "archive \<noteq> []"
  proof -
    have "jr_path r \<noteq> []" by (rule run_success_parts [OF run]) (simp add: path_for_ne)
    moreover have "0 < jr_stored_bytes r" using that(2) archive(2) by simp
    ultimately obtain unopened s2 l2 t where o: "open_catalog (su_driver su) (place_of (state_dir fg)) (wo_os w1, l) = (unopened, s2, l2)"
      and rec: "record_in_catalogue unopened (su_refuse su) (su_sha256 su) r d (lg_schema l2) = (warnings, t)" and l': "lg_schema l' = t"
      by (auto elim: index_backup_cases [OF idx])
    from assms(2) o have "tables_ok (lg_schema l2)" by blast
    from indexed_archive(2) [OF rec [unfolded that(1)] this entry(3) [OF assms(3,4)]] l' entry(1) show ?thesis by simp
  qed
  show ?thesis using c d(1) ids some archive same to shown indexed entry(2) index_backup_says [OF idx]
    by - (rule exI [of _ c], rule exI [of _ d], rule exI [of _ r], rule exI [of _ archive], rule exI [of _ to], rule exI [of _ s],
      rule exI [of _ warnings], simp)
qed

end
