(* ===== verification/Cli_Example.thy ===== *)
theory Cli_Example
  imports Cli_Listed Cli_Process Backup_Success
begin

text \<open>
  A fleet on concrete values: a MySQL server, the client of its release on the host, and a machine nothing is in
  the way of. The command is wired on it and its properties are applied.
\<close>

section \<open>The fleet\<close>

definition mysql_version :: string where "mysql_version = ''mysqldump Ver 8.4 for Linux''"

definition mysql_host :: host where
  "mysql_host =
     \<lparr>hs_glob = (\<lambda>p. Inr (if p = ''/usr/bin'' then [p] else [])), hs_symlinks = Inr,
      hs_stat = (\<lambda>p. if p = ''/usr/bin/mysqldump'' then Inr (0, 1) else Inl (errors_new ''no such file'')),
      hs_look_path = no_path, hs_clusters = no_path,
      hs_version = (\<lambda>p. Inr mysql_version), hs_walk = (\<lambda>places. places)\<rparr>"

definition mysql_client :: candidate where
  "mysql_client = \<lparr>ca_family = MySQL, ca_tool = Dump, ca_path = ''/usr/bin/mysqldump'',
     ca_version = parse_version mysql_version, ca_source = Host\<rparr>"

definition mysql_info :: server_info where
  "mysql_info = \<lparr>si_reachable = True, si_family = MySQL, si_version = parse_version ''8.4'', si_myisam_tables = [],
     si_database_bytes = 9, si_myisam_unknown = []\<rparr>"

definition fleet_docker :: docker where
  "fleet_docker = \<lparr>dk_client = (\<lambda>_. None), dk_ping = (\<lambda>_. None), dk_inspect = (\<lambda>_. None),
     dk_exec = (\<lambda>_ _ _. Inl (errors_new ''no container'')), dk_attach = (\<lambda>_. Inl (errors_new ''no container'')),
     dk_ended = (\<lambda>_ _. Inl (errors_new ''no container'')), dk_took = (\<lambda>_ _. 0)\<rparr>"

definition mysql_fleet :: outside where
  "mysql_fleet =
     \<lparr>ou_drivers = \<lparr>dv_mysql = (\<lambda>_. \<lparr>ms_connector = None, ms_version = Inr ''8.4'', ms_tables = Inr ([], None),
          ms_size = Some 9\<rparr>), dv_postgres = (\<lambda>_. Inl (OtherError (errors_new ''refused'')))\<rparr>,
      ou_host = mysql_host,
      ou_machine = \<lparr>mc_start = (\<lambda>_ _. Inr \<lparr>pc_reader = (end_marker, None), pc_said = [], pc_exit = None\<rparr>),
          mc_pipe = None, mc_environ = [], mc_docker = fleet_docker\<rparr>,
      ou_restore = (\<lambda>_. sample_restore), ou_chunks = (\<lambda>dump. [dump]),
      ou_statfs = (\<lambda>_. Inr \<lparr>vl_available = 9, vl_block = 4096\<rparr>)\<rparr>"

definition fleet_flags :: flags where
  "fleet_flags = \<lparr>fg_config = ''/k.yaml'', fg_state_dir = ''/k'', fg_tools_dir = ''/t'', fg_search_path = [''/usr/bin'']\<rparr>"

definition shop :: database_conf where
  "shop = sample_database_conf\<lparr>dc_id := ''ab'', dc_engine := ''mysql'', dc_staging := ''stream''\<rparr>"

text \<open>The keys of the fleet are a file of the machine.\<close>

definition shop_keys :: recipients where
  "shop_keys = \<lparr>rc_keys = [''k''], rc_from = ''/etc/koffr/recipients.txt''\<rparr>"

definition shop_machine :: os where
  "shop_machine = one_process 7 [((True, [''etc'', ''koffr'', ''recipients.txt'']), File ''k'' 0)]"

definition shop_wiring :: wiring where
  "shop_wiring = backup_wiring mysql_fleet fleet_flags plain_codec (\<lambda>s. s) 1 sample_config shop (subject_of shop)
     shop_keys shop_machine"

section \<open>What resolving it answers\<close>

lemma mysql_found: "on_host mysql_fleet fleet_flags MySQL Dump = Inr [mysql_client]"
  unfolding on_host_def finder_for_def mysql_fleet_def fleet_flags_def mysql_host_def mysql_client_def mysql_version_def
  by code_simp

lemma mysql_chosen: "choose_tool [mysql_client] mysql_info Dump = Inr mysql_client"
  unfolding mysql_client_def mysql_info_def mysql_version_def by code_simp

lemma mysql_probed: "probe_server (ou_drivers mysql_fleet) (sj_target (subject_of shop)) = Inr mysql_info"
proof -
  have "family_of_name ''mysql'' = MySQL" "family_of_banner ''8.4'' = MySQL" by code_simp+
  then show ?thesis
    by (simp add: subject_of_def shop_def sample_database_conf_def mysql_fleet_def probe_server_def
        probe_mysql_family_def mysql_info_def myisam_tables_def mysql_bytes_def Let_def)
qed

lemma shop_container: "sj_container (subject_of shop) = []"
  by (simp add: subject_of_def shop_def sample_database_conf_def)

definition shop_resolution :: resolution where
  "shop_resolution =
     \<lparr>rs_engine = ''mysql'', rs_server_version = version_string (parse_version ''8.4''), rs_tool_path = ''/usr/bin/mysqldump'',
      rs_tool_version = version_string (parse_version mysql_version), rs_tool_source = ''host'', rs_directory_dump = False,
      rs_extension = ''sql'', rs_argv = archive_options (dump_request_of (subject_of shop) mysql_client), rs_warnings = []\<rparr>"

lemma shop_diagnosed:
  "diagnoses_of mysql_fleet fleet_flags [subject_of shop]
    = [\<lparr>dg_id = sj_id (subject_of shop), dg_target = sj_target (subject_of shop), dg_server = Some mysql_info,
       dg_unreachable = None, dg_tool = Some mysql_client, dg_no_tool = None, dg_not_verifiable = None\<rparr>]"
  using mysql_found mysql_chosen shop_container
  by (simp add: diagnoses_of_def diagnose_def diagnose_one_def mysql_probed candidates_for_def verifiability_of_def
      mysql_info_def Let_def)

lemma shop_resolved:
  "access_resolve mysql_fleet fleet_flags (subject_of shop) database = (Inr shop_resolution, Some (mysql_info, mysql_client))"
  unfolding access_resolve_def shop_diagnosed [unfolded diagnoses_of_def] Let_def
  by (simp add: shop_resolution_def mysql_info_def mysql_client_def myisam_warning_def extension_for_def)

section \<open>Running it\<close>

definition shop_dump :: dump_handle where
  "shop_dump = stream_handle \<lparr>sm_what = ''/usr/bin/mysqldump'', sm_reader = (end_marker, None), sm_said = new_tail, sm_wait = None,
     sm_drained = False, sm_closed = False\<rparr>"

lemma shop_dumper: "wi_dumper shop_wiring resolution q = Inr shop_dump"
proof -
  have request: "check_dump (dump_request_of (subject_of shop) mysql_client) = None"
    unfolding dump_request_of_def subject_of_def shop_def sample_database_conf_def mysql_client_def mysql_version_def
    by code_simp
  have command: "hd (dump_command (dump_request_of (subject_of shop) mysql_client)) = ''/usr/bin/mysqldump''"
    by (simp add: dump_command_def connection_options_def dump_request_of_def mysql_client_def is_mysql_def Let_def)
  have container: "dq_container (dump_request_of (subject_of shop) mysql_client) = []"
    using shop_container by (simp add: dump_request_of_def)
  have machine: "mc_start (ou_machine mysql_fleet) argv env = Inr \<lparr>pc_reader = (end_marker, None), pc_said = [], pc_exit = None\<rparr>"
    "mc_pipe (ou_machine mysql_fleet) = None" for argv env
    by (simp_all add: mysql_fleet_def)
  have dumper: "wi_dumper shop_wiring resolution q
      = access_dump mysql_fleet (subject_of shop) (snd (access_resolve mysql_fleet fleet_flags (subject_of shop) (dc_id shop)))"
    by (simp only: shop_wiring_def backup_wiring_def Let_def wiring.simps)
  show ?thesis
    unfolding dumper shop_resolved access_dump_def engine_dump_def dump_on_host_def shop_dump_def
    by (simp only: snd_conv prod.case option.case request container machine sum.case Let_def command fold.simps
        process.simps map_sum.simps if_False not_not simp_thms id_apply)
qed

lemma shop_watched:
  "\<exists>vf wt detail. wi_verifier shop_wiring = Some vf \<and> vf shop_resolution = Inr wt \<and> wt_refuses wt end_marker = None
    \<and> wt_conclude wt end_marker = (True, detail)"
proof -
  let ?wt = "structure_watch mysql_fleet (EndMarker new_marker)"
  have "family_of_name ''mysql'' = MySQL" by code_simp
  then have watch: "watch_of mysql_fleet fleet_flags shop_resolution = Inr (EndMarker new_marker)"
    by (simp add: watch_of_def shop_resolution_def watch_structure_def is_mysql_def Let_def)
  have kept: "ends_of kept_tail end_marker = end_marker" by (simp add: ends_of_def end_marker_def kept_tail_def)
  have "contains end_marker end_marker" by (simp add: end_marker_def)
  then have "wt_conclude ?wt end_marker = (True, last_line end_marker)"
    using marker_dump [of "[end_marker]"] kept
    by (simp add: structure_watch_def mysql_fleet_def marker_conclude_def structure_sound_def end_marker_def)
  with watch show ?thesis
    by (simp add: shop_wiring_def backup_wiring_def Let_def structure_watch_def)
qed

lemma shop_state: "place_of (state_dir fleet_flags) = (True, [''k''])"
  by (simp add: state_dir_def fleet_flags_def place_of_def has_prefix_def place_join_def clean_step_def)

lemma shop_machine_ready: "machine_ready (True, [''k'']) database shop_machine"
  by (auto simp: machine_ready_def shop_machine_def lock_place_eq staging_dir_eq place_join_simple simple_lock_names
      staging_directory_def no_file_def held_by_def children_iff list_all_iff dirs_free_def less_Suc_eq)

lemma shop_decision: "\<exists>d. decide_for shop_wiring 1 database shop_resolution = Inr d \<and> sd_mode d = Stream"
proof -
  have "mode_of_name ''stream'' = Stream" by code_simp
  then have "wi_staging shop_wiring = Stream"
    by (simp add: shop_wiring_def backup_wiring_def shop_def Let_def)
  moreover have "\<exists>n. fst (access_free mysql_fleet (state_dir fleet_flags) shop_machine) = Inr n"
  proof -
    obtain t where "os_mkdir_all (place_of (state_dir fleet_flags)) shop_machine = (Inr (), t)"
      by (rule quiet_mkdir [of shop_machine "place_of (state_dir fleet_flags)"])
        (simp_all add: shop_machine_def shop_state dirs_free_def)
    then show ?thesis by (simp add: access_free_def mysql_fleet_def)
  qed
  ultimately show ?thesis
    by (auto simp: decide_for_def shop_wiring_def backup_wiring_def shop_resolution_def decide_staging_def
      stage_imposed_def access_bytes_def last_successful_def Let_def)
qed

lemma shop_packs: "\<exists>p. pr_answer (wi_pack shop_wiring (end_marker, None) None) = Inr p"
proof -
  have "wi_pack shop_wiring = pipeline_pack plain_codec (\<lambda>s. s) shop_keys"
    by (simp add: shop_wiring_def backup_wiring_def Let_def)
  then show ?thesis
    by (simp add: pipeline_pack_def Let_def pipeline_run_def encrypt_into_def shop_keys_def plain_codec_def write_out_def pipeline_copy_def
        end_marker_def blocks.simps [of "''-- Dump completed''"] blocks.simps [of "[]"] copy_block_def write_raw_def
        write_sealed_def close_all_def close_sealed_def)
qed

definition fleet_disk :: "string \<Rightarrow> os" where "fleet_disk path = one_process 7 []"

definition nas :: "os \<Rightarrow> os destination" where
  "nas state = \<lparr>ds_id = ''nas'', ds_store = filesystem (place_of ''/backup''), ds_state = state\<rparr>"

lemma nas_on_directory: "on_directory (nas state)"
  unfolding on_directory_def nas_def by (intro exI) simp

definition shop_world :: "os world" where
  "shop_world = \<lparr>wo_os = shop_machine, wo_destinations = [nas (one_process 7 [])], wo_journal = []\<rparr>"

lemma shop_destinations: "destinations_of (\<lambda>_. state) sample_config shop = Inr [nas state]"
  by (simp add: destinations_of_def shop_def sample_configuration sample_config_def nas_def)

lemma shop_succeeds:
  "\<exists>r w' t. run shop_wiring sample_request shop_world = (r, None, w') \<and> wo_destinations w' = [nas t] \<and> quiet t
    \<and> jr_duration r = 1"
proof -
  obtain d where d: "decide_for shop_wiring 1 (rq_database sample_request) shop_resolution = Inr d" "sd_mode d = Stream"
    using shop_decision by blast
  obtain p where p: "pr_answer (wi_pack shop_wiring (end_marker, None) None) = Inr p" using shop_packs by blast
  have parts: "wi_resolver shop_wiring database = Inr shop_resolution"
      "wi_pack shop_wiring = pipeline_pack plain_codec (wi_sha256 shop_wiring) shop_keys"
      "wi_manifester shop_wiring = Some (render_manifest shop shop_keys (cg_location sample_config))"
      "wi_elapsed shop_wiring = 1" "wi_state_directory shop_wiring = (True, [''k''])" for database
    by (simp_all add: shop_wiring_def backup_wiring_def shop_resolved shop_state Let_def)
  have "dh_reader shop_dump = (end_marker, None) \<and> dh_close shop_dump True = None"
    by (simp add: shop_dump_def stream_handle_def stream_close_def)
  with shop_dumper have dumped: "\<exists>dump. wi_dumper shop_wiring shop_resolution sample_request = Inr dump
      \<and> dh_reader dump = (end_marker, None) \<and> dh_close dump True = None" by blast
  have segment: "segment_ok (rs_extension shop_resolution)" using segment_ok_known by (simp add: shop_resolution_def)
  have ready: "ports_answer shop_wiring sample_request (length (wo_destinations shop_world)) shop_resolution end_marker p d"
    unfolding ports_answer_def packs_whole_def using parts(1,3) d(1) dumped shop_watched p segment
    by (auto simp: render_manifest_def ok_def shop_world_def)
  have "\<exists>r w'. run shop_wiring sample_request shop_world = (r, None, w') \<and> jr_duration r = wi_elapsed shop_wiring
      \<and> list_all2 (moves (path_for shop_wiring sample_request shop_resolution)) (wo_destinations shop_world) (wo_destinations w')"
    using job_succeeds [OF _ ready _ _ _ parts(2)] d(2) shop_machine_ready empty_disk_takes parts(5)
    by (auto simp: shop_world_def nas_def)
  then obtain r w' where r: "run shop_wiring sample_request shop_world = (r, None, w')" "jr_duration r = 1"
    and moved: "list_all2 (moves (path_for shop_wiring sample_request shop_resolution)) [nas (one_process 7 [])] (wo_destinations w')"
    using parts(4) by (auto simp: shop_world_def)
  from moved obtain t where "wo_destinations w' = [(nas (one_process 7 []))\<lparr>ds_state := t\<rparr>]"
    and "takes_archive (path_for shop_wiring sample_request shop_resolution) ((nas (one_process 7 []))\<lparr>ds_state := t\<rparr>)"
    by (auto simp: list_all2_Cons1 moves_def)
  with r show ?thesis by (auto simp: nas_def takes_archive_def)
qed

section \<open>The properties of the command, applied to it\<close>

theorem success_means_the_tool_ended_well_witness:
  "\<exists>r w' p. run shop_wiring sample_request shop_world = (r, None, w')
    \<and> mc_start (ou_machine mysql_fleet) (dump_command (dump_request_of (subject_of shop) mysql_client))
        (command_environment [] (password_environment (dump_request_of (subject_of shop) mysql_client))) = Inr p
    \<and> pc_exit p = None"
proof -
  obtain r w' where r: "run shop_wiring sample_request shop_world = (r, None, w')" using shop_succeeds by blast
  have probed: "snd (access_resolve mysql_fleet fleet_flags (subject_of shop) (dc_id shop)) = Some (mysql_info, mysql_client)"
    by (simp add: shop_resolved)
  have "sj_container (subject_of shop) = []" "mc_environ (ou_machine mysql_fleet) = []"
    by (simp_all add: subject_of_def shop_def sample_database_conf_def mysql_fleet_def)
  with success_means_the_tool_ended_well [OF r shop_wiring_def probed] r show ?thesis by (simp add: Let_def)
qed

theorem manifest_is_of_a_verified_archive_witness:
  "\<exists>r w' m. run shop_wiring sample_request shop_world = (r, None, w')
    \<and> jr_manifest r = marshal_indent (manifest_json m) @ [newline] \<and> mf_structure m \<and> mf_database m = ''ab''"
proof -
  obtain r w' where r: "run shop_wiring sample_request shop_world = (r, None, w')" using shop_succeeds by blast
  have manifester: "wi_manifester shop_wiring = Some (render_manifest shop shop_keys (cg_location sample_config))"
    by (simp add: shop_wiring_def backup_wiring_def Let_def)
  from manifest_is_of_a_verified_archive [OF r manifester] r show ?thesis
    by (auto simp: sample_request_def)
qed

text \<open>The result of a run that wrote, as the catalogue is told of it.\<close>

definition unverified_result :: "string list \<Rightarrow> job_result" where
  "unverified_result destinations =
     (new_result \<lparr>rq_database = ''ab'', rq_job = ''j'', rq_at = 5\<rparr>)\<lparr>jr_path := ''ab/j.sql'', jr_stored_bytes := 3,
       jr_duration := 2, jr_destinations := destinations,
       jr_verification := \<lparr>vd_checked = True, vd_checksum_ok = True, vd_structure_ok = False, vd_detail = []\<rparr>\<rparr>"

definition no_refusal :: "violation \<Rightarrow> gerr" where
  "no_refusal v = errors_new ''constraint failed''"

lemma written_parts:
  "bk_id (catalogue_entry (unverified_result ds)) = ''j''" "bk_database (catalogue_entry (unverified_result ds)) = ''ab''"
  "bk_job (catalogue_entry (unverified_result ds)) = ''j''" "bk_started (catalogue_entry (unverified_result ds)) = 5"
  "bk_finished (catalogue_entry (unverified_result ds)) = 7" "bk_verified (catalogue_entry (unverified_result ds)) = Failed"
  "bk_verified_at (catalogue_entry (unverified_result ds)) = 0"
  "bk_raw_bytes (catalogue_entry (unverified_result ds)) = 0" "bk_stored_bytes (catalogue_entry (unverified_result ds)) = 3"
  "bk_locations (catalogue_entry (unverified_result ds)) = map (\<lambda>d. \<lparr>sc_destination = d, sc_path = ''ab/j.sql'', sc_bytes = 3,
     sc_stored_at = 7\<rparr>) ds"
  "jr_job (unverified_result ds) = ''j''" "jr_at (unverified_result ds) = 5" "jr_destinations (unverified_result ds) = ds"
  "verification_of_result (unverified_result ds) = Failed"
  by (simp_all add: catalogue_entry_def unverified_result_def new_result_def verification_of_result_def verdict_sound_def
      verified_at_all_def Let_def)

lemma written_facts:
  "jr_database (unverified_result ds) = ''ab''" "jr_raw_bytes (unverified_result ds) = 0" "jr_stored_bytes (unverified_result ds) = 3"
  "jr_duration (unverified_result ds) = 2"
  by (simp_all add: unverified_result_def new_result_def)

lemma written_datable: "datable (catalogue_entry (unverified_result ds))"
  by (simp add: datable_def written_parts list_all_iff)

lemma sample_stamps: "stamp 0 = ''0001-01-01T00:00:00Z''" "stamp 1 = ''0001-01-01T00:00:00Z''" "c_year (civil_of 1) = 1"
  by code_simp+

lemma sample_writable_one [simp]: "writable_instant utc 1"
  by (simp add: writable_instant_def writable_offset_def utc_def sample_stamps)

lemma shop_recorded:
  "at = 0 \<or> at = 5 \<Longrightarrow> \<exists>t1. record_database no_refusal (\<lambda>s. s) (database_snapshot shop) at sample_tables = (None, t1)
    \<and> ''ab'' \<in> dr_id ` set (tb_databases t1) \<and> tb_jobs t1 = [] \<and> tb_backups t1 = [] \<and> tb_copies t1 = []
    \<and> tb_faults t1 = []"
  by (elim disjE; simp add: record_database_def db_call_def sample_tables_def database_snapshot_def shop_def sample_database_conf_def
      engines_def sample_moments sample_stamps sample_stamp_ok upsert_database_def)

lemma entry_parts:
  "bk_id (catalogue_entry r) = jr_job r" "bk_database (catalogue_entry r) = jr_database r" "bk_job (catalogue_entry r) = jr_job r"
  "bk_started (catalogue_entry r) = jr_at r" "bk_finished (catalogue_entry r) = jr_at r + jr_duration r"
  "bk_raw_bytes (catalogue_entry r) = jr_raw_bytes r" "bk_stored_bytes (catalogue_entry r) = jr_stored_bytes r"
  "bk_verified (catalogue_entry r) = verification_of_result r"
  "bk_locations (catalogue_entry r) = map (\<lambda>d. \<lparr>sc_destination = d, sc_path = jr_path r, sc_bytes = jr_stored_bytes r,
     sc_stored_at = jr_at r + jr_duration r\<rparr>) (jr_destinations r)"
  by (simp_all add: catalogue_entry_def Let_def)

lemma entry_verdict_known:
  "verification_name (verification_of_result r) \<in> set verifications" "verification_of_result r \<noteq> UnsetVerification"
  by (simp_all add: verification_of_result_def verifications_def)

lemma entry_recorded:
  assumes t: "''ab'' \<in> dr_id ` set (tb_databases t)" "tb_jobs t = []" "tb_backups t = []" "tb_copies t = []" "tb_faults t = []"
    and r: "jr_database r = ''ab''" "jr_destinations r = [d]" "0 \<le> jr_raw_bytes r" "0 \<le> jr_stored_bytes r"
      "stamp_ok (stamp (jr_at r))" "stamp_ok (stamp (jr_at r + jr_duration r))" "0 < jr_duration r" "jr_duration r < 1000"
  shows "\<exists>u. record_backup refuse (catalogue_entry r) t = (None, u) \<and> tb_faults u = []"
proof -
  have "time_sub (jr_at r + jr_duration r) (jr_at r) = jr_duration r"
    using r(7,8) by (simp add: time_sub_def max_duration_def)
  then have "duration_of (catalogue_entry r) = None \<or> duration_of (catalogue_entry r) = Some 0"
    using r(7,8) by (auto simp: duration_of_def entry_parts in_milliseconds_def millisecond_def signed_divide_int_def)
  moreover have "null_or stamp_ok (nullable_stamp (bk_finished (catalogue_entry r)))"
      "null_or stamp_ok (nullable_stamp (bk_verified_at (catalogue_entry r)))"
    using r(6) by (auto simp: nullable_stamp_def null_or_def catalogue_entry_def is_zero_time_def Let_def)
  ultimately show ?thesis
    using t r entry_verdict_known [of r]
    by (auto simp: record_backup_def fill_transaction_def insert_job_def job_row_of_def insert_backup_def backup_row_of_def
        backup_row_ok_def insert_copy_def copy_row_of_def db_call_def entry_parts null_or_def nullable_def nullable_stamp_def)
qed

text \<open>A database, then an archive of it, recorded in a new catalogue.\<close>

theorem schema_holds_along_every_use_witness:
  "\<exists>t u. record_database no_refusal (\<lambda>s. s) (database_snapshot shop) 5 (empty_tables []) = (None, t)
    \<and> record_backup no_refusal (catalogue_entry (unverified_result [''nas''])) t = (None, u)
    \<and> ''j'' \<in> br_id ` set (tb_backups u) \<and> br_database ` set (tb_backups u) \<subseteq> dr_id ` set (tb_databases u)
    \<and> cp_backup ` set (tb_copies u) \<subseteq> br_id ` set (tb_backups u)"
proof -
  obtain t where t: "record_database no_refusal (\<lambda>s. s) (database_snapshot shop) 5 (empty_tables []) = (None, t)"
    "''ab'' \<in> dr_id ` set (tb_databases t)" "tb_jobs t = []" "tb_backups t = []" "tb_copies t = []" "tb_faults t = []"
    by (simp add: record_database_def db_call_def empty_tables_def database_snapshot_def shop_def sample_database_conf_def
        engines_def sample_moments sample_stamp_ok upsert_database_def)
  obtain u where u: "record_backup no_refusal (catalogue_entry (unverified_result [''nas''])) t = (None, u)"
    using entry_recorded [OF t(2-6), of "unverified_result [''nas'']" "''nas''" no_refusal]
    by (auto simp: written_parts written_facts sample_moments sample_stamp_ok)
  have "tables_ok (empty_tables [])" by (simp add: empty_tables_def tables_ok_def)
  from sqlite.record_done [OF record_database_ok [OF t(1) this] u written_datable]
  have "\<exists>b. lookup_backup u ''j'' = Some b" by (simp add: written_parts)
  then obtain r where "find (\<lambda>r. br_id r = ''j'') (tb_backups u) = Some r" by (auto simp: lookup_backup_def)
  then have "r \<in> set (tb_backups u)" "br_id r = ''j''" by (auto simp: find_Some_iff)
  then have "''j'' \<in> br_id ` set (tb_backups u)" by force
  moreover have "used no_refusal (\<lambda>s. s) u" by (rule used.archive [OF used.database [OF used.fresh t(1)] u])
  ultimately show ?thesis using t(1) u schema_holds_along_every_use [of no_refusal "\<lambda>s. s" u] by blast
qed

theorem a_written_backup_is_indexed_or_warned_of_witness:
  "\<exists>u. record_in_catalogue None no_refusal (\<lambda>s. s) (unverified_result [''disk'']) shop sample_tables = ([], u)
    \<and> map_option bk_verified (lookup_backup u ''j'') = Some Failed"
proof -
  obtain t1 where t1: "record_database no_refusal (\<lambda>s. s) (database_snapshot shop) 5 sample_tables = (None, t1)"
    "''ab'' \<in> dr_id ` set (tb_databases t1)" "tb_jobs t1 = []" "tb_backups t1 = []" "tb_copies t1 = []" "tb_faults t1 = []"
    using shop_recorded [of 5] by blast
  obtain u where "record_backup no_refusal (catalogue_entry (unverified_result [''disk''])) t1 = (None, u)"
    using entry_recorded [OF t1(2-6), of "unverified_result [''disk'']" "''disk''" no_refusal]
    by (auto simp: written_parts written_facts sample_moments sample_stamp_ok)
  with t1(1) have u: "record_in_catalogue None no_refusal (\<lambda>s. s) (unverified_result [''disk'']) shop sample_tables = ([], u)"
    by (simp add: record_in_catalogue_def written_parts)
  from a_written_backup_is_indexed_or_warned_of [OF u sample_tables_ok written_datable] u show ?thesis
    by (simp add: written_parts)
qed

theorem repeated_destination_is_never_indexed_witness:
  "fst (record_in_catalogue None no_refusal (\<lambda>s. s) (unverified_result [''disk'', ''disk'']) shop sample_tables) \<noteq> []"
proof -
  obtain warnings u where u: "record_in_catalogue None no_refusal (\<lambda>s. s) (unverified_result [''disk'', ''disk'']) shop sample_tables
      = (warnings, u)" by fastforce
  have "\<not> distinct (jr_destinations (unverified_result [''disk'', ''disk'']))" by (simp add: written_parts)
  from repeated_destination_is_never_indexed [OF u sample_tables_ok this] u show ?thesis by simp
qed

lemma shop_result:
  assumes "run shop_wiring sample_request shop_world = (r, None, w')"
  shows "jr_job r = ''j''" "jr_database r = ''ab''" "jr_at r = 0" "0 \<le> jr_raw_bytes r" "0 \<le> jr_stored_bytes r"
    "jr_destinations r = [''nas'']"
proof -
  have parts: "wi_manifester shop_wiring = Some (render_manifest shop shop_keys (cg_location sample_config))"
      "wi_pack shop_wiring = pipeline_pack plain_codec (wi_sha256 shop_wiring) shop_keys"
    by (simp_all add: shop_wiring_def backup_wiring_def Let_def)
  obtain r0 m where r0: "r = mark [StepManifest] (r0\<lparr>jr_manifest := m\<rparr>)" "jr_job r0 = rq_job sample_request"
      "jr_database r0 = rq_database sample_request" "jr_at r0 = rq_at sample_request"
    using run_manifest [OF assms parts(1)] by auto
  show "jr_job r = ''j''" "jr_database r = ''ab''" "jr_at r = 0"
    unfolding r0(1) using r0(2-4) by (simp_all add: set_step_def sample_request_def)
  show "jr_destinations r = [''nas'']"
    using run_destination_ids [OF assms] by (simp add: destination_ids_def shop_world_def nas_def)
  have "segment_ok (rs_extension resolution)" if "wi_resolver shop_wiring (rq_database sample_request) = Inr resolution" for resolution
    using that segment_ok_known by (auto simp: shop_wiring_def backup_wiring_def shop_resolved shop_resolution_def Let_def)
  moreover have "\<forall>d \<in> set (wo_destinations shop_world). on_directory d"
    by (simp add: shop_world_def nas_on_directory)
  ultimately show "0 \<le> jr_raw_bytes r" "0 \<le> jr_stored_bytes r"
    using run_leaves_a_backup [OF assms parts(2)] parts(1) by force+
qed

lemma shop_indexed:
  assumes "run shop_wiring sample_request shop_world = (r, None, w')" and "jr_duration r = 1"
  shows "\<exists>u. record_in_catalogue None no_refusal (\<lambda>s. s) r shop sample_tables = ([], u) \<and> tb_faults u = []"
    and "datable (catalogue_entry r)"
proof -
  note r = shop_result [OF assms(1)]
  obtain t1 where t1: "record_database no_refusal (\<lambda>s. s) (database_snapshot shop) 0 sample_tables = (None, t1)"
    "''ab'' \<in> dr_id ` set (tb_databases t1)" "tb_jobs t1 = []" "tb_backups t1 = []" "tb_copies t1 = []" "tb_faults t1 = []"
    using shop_recorded [of 0] by blast
  obtain u where "record_backup no_refusal (catalogue_entry r) t1 = (None, u)" "tb_faults u = []"
    using entry_recorded [OF t1(2-6), of r "''nas''" no_refusal] r assms(2) by (auto simp: sample_stamps sample_stamp_ok)
  with t1(1) show "\<exists>u. record_in_catalogue None no_refusal (\<lambda>s. s) r shop sample_tables = ([], u) \<and> tb_faults u = []"
    by (simp add: record_in_catalogue_def r)
  show "datable (catalogue_entry r)"
    using assms(2) r by (auto simp: datable_def entry_parts list_all_iff catalogue_entry_def Let_def)
qed

text \<open>Meanwhile a job whose tools are gone fails, and somebody lists the archives.\<close>

definition toolless_wiring :: "(bool \<Rightarrow> gerr option) \<Rightarrow> wiring" where
  "toolless_wiring close = (sample_wiring close)\<lparr>wi_resolver := \<lambda>_. Inl (errors_new ''no dump tool'')\<rparr>"

definition later_request :: request where
  "later_request = sample_request\<lparr>rq_job := ''k''\<rparr>"

lemma sample_dotless: "dotless_job sample_request" "dotless_job later_request"
  and later_request_another: "another_archive sample_request later_request"
proof -
  have j: "safe_segment ''j'' = ''j''" "safe_segment ''k'' = ''k''" by code_simp+
  show "dotless_job sample_request" "dotless_job later_request" "another_archive sample_request later_request"
    by (simp_all add: dotless_job_def another_archive_def later_request_def sample_request_def j)
qed

lemma toolless_job_leaves_destinations:
  assumes "run (toolless_wiring close) p w = (r, failed, w')"
  shows "failed \<noteq> None" "wo_destinations w' = wo_destinations w"
  using assms
  by (auto simp: run_def run_locked_def toolless_wiring_def on_os_def Let_def split: prod.splits sum.splits option.splits)

lemma after_a_toolless_job:
  assumes "afterwards sample_request w u"
  obtains r e v where "run (toolless_wiring close) later_request u = (r, Some e, v)" "afterwards sample_request w v"
    "wo_destinations v = wo_destinations u"
proof -
  obtain r failed v where v: "run (toolless_wiring close) later_request u = (r, failed, v)" by (metis prod_cases3)
  have "afterwards sample_request w v"
    by (rule afterwards.job [OF assms later_request_another sample_dotless(2) _ v]) (simp add: toolless_wiring_def)
  with that v toolless_job_leaves_destinations [OF v] show thesis by (cases failed) auto
qed

lemma after_a_listing:
  assumes "meanwhile ident refuse sha256 t u" "tb_faults u = []"
  obtains v where "meanwhile ident refuse sha256 t v" "tb_faults v = []" "snd (backups no_filter u) = v"
proof -
  obtain bs v where v: "backups no_filter u = (bs, v)" by fastforce
  then have "tb_faults v = []"
    using assms(2) by (cases "select_backups no_filter u = []") (auto simp: backups_def with_locations_def db_call_def)
  with that meanwhile.listing [OF assms(1) v] v show thesis by simp
qed

theorem backed_up_then_verified_witness:
  "\<exists>r w' x e w'' u u' said warned v disk. run shop_wiring sample_request shop_world = (r, None, w')
    \<and> record_in_catalogue None no_refusal (\<lambda>s. s) r shop sample_tables = ([], u)
    \<and> run (toolless_wiring (\<lambda>_. None)) later_request w' = (x, Some e, w'') \<and> snd (backups no_filter u) = u'
    \<and> verify_command None no_refusal (\<lambda>s. s) disk (Inr sample_config) 5 ''j'' u' = (((said, warned), None), v)"
proof -
  obtain r w' t where r: "run shop_wiring sample_request shop_world = (r, None, w')" "wo_destinations w' = [nas t]" "quiet t"
      "jr_duration r = 1" using shop_succeeds by blast
  obtain u where u: "record_in_catalogue None no_refusal (\<lambda>s. s) r shop sample_tables = ([], u)" "tb_faults u = []"
    using shop_indexed(1) [OF r(1,4)] by blast
  obtain x e w'' where later: "run (toolless_wiring (\<lambda>_. None)) later_request w' = (x, Some e, w'')"
      "afterwards sample_request w' w''" "wo_destinations w'' = wo_destinations w'"
    by (rule after_a_toolless_job [OF afterwards.now]) (rule that)
  obtain u' where u': "meanwhile (jr_job r) no_refusal (\<lambda>s. s) u u'" "tb_faults u' = []" "snd (backups no_filter u) = u'"
    by (rule after_a_listing [OF meanwhile.untouched u(2)]) (rule that)
  obtain said warned failed v where v:
    "verify_command None no_refusal (\<lambda>s. s) (\<lambda>_. t) (Inr sample_config) 5 (jr_job r) u' = (((said, warned), failed), v)"
    by (metis prod.collapse)
  have world: "destinations_of fleet_disk sample_config shop = Inr (wo_destinations shop_world)"
    using shop_destinations by (simp add: fleet_disk_def [abs_def] shop_world_def)
  have after: "destinations_of (\<lambda>_. t) sample_config shop = Inr (wo_destinations w'')"
    using shop_destinations r(2) later(3) by simp
  have quiet: "list_all (\<lambda>x. quiet (ds_state x)) (wo_destinations w'')" using r(2,3) later(3) by (simp add: nas_def)
  have "failed = None"
    using backed_up_then_verified [OF r(1) shop_wiring_def world u(1) sample_tables_ok shop_indexed(2) [OF r(1,4)]
        later(2) sample_dotless(1) u'(1) after quiet v u'(2)] by (simp add: sample_moments sample_stamp_ok)
  with r(1) u(1) later(1) u'(3) v shop_result(1) [OF r(1)] show ?thesis by (metis prod.collapse)
qed

theorem backed_up_then_listed_witness:
  "\<exists>r w' u (visited :: os listed_destination list) es. run shop_wiring sample_request shop_world = (r, None, w')
    \<and> record_in_catalogue None no_refusal (\<lambda>s. s) r shop sample_tables = ([], u)
    \<and> list_archives (\<lambda>f. fst (backups f u)) visited no_filter = Inr es
    \<and> list_ex (\<lambda>l. bk_id (ls_backup l) = ''j'' \<and> ls_present l \<and> verification_label l = ''yes, in full'') es"
proof -
  obtain r w' t where r: "run shop_wiring sample_request shop_world = (r, None, w')" "wo_destinations w' = [nas t]" "quiet t"
      "jr_duration r = 1" using shop_succeeds by blast
  obtain u where u: "record_in_catalogue None no_refusal (\<lambda>s. s) r shop sample_tables = ([], u)" "tb_faults u = []"
    using shop_indexed(1) [OF r(1,4)] by blast
  have world: "destinations_of fleet_disk sample_config shop = Inr (wo_destinations shop_world)"
    using shop_destinations by (simp add: fleet_disk_def [abs_def] shop_world_def)
  have after: "destinations_of (\<lambda>_. t) sample_config shop = Inr (wo_destinations w')"
    using shop_destinations r(2) by simp
  have quiet: "list_all (\<lambda>x. quiet (ds_state x)) (wo_destinations w')" using r(2,3) by (simp add: nas_def)
  obtain visited where visited: "lister_for (\<lambda>_. t) (Inr sample_config) = Inr (visited, cg_location sample_config)"
      "visited = [listed_destination_of (\<lambda>_. t) sample_destination_conf]"
    by (simp add: lister_for_def sample_configuration)
  obtain bs v where bs: "backups no_filter u = (Inr bs, v)"
    using u(2) by (cases "select_backups no_filter u = []") (auto simp: backups_def with_locations_def db_call_def)
  obtain found where "fs_list (place_of (dt_path sample_destination_conf)) [] t = (Inr found, t)"
    using filesystem_list_exact [OF r(3)] by blast
  then have "\<exists>es. list_archives (\<lambda>f. fst (backups f u)) visited no_filter = Inr es"
    using bs by (simp add: visited(2) list_archives_def chosen_def no_filter_def listed_destination_of_def store_repository_def
        store_archives_def filesystem_def prefix_of_def)
  then obtain es where es: "list_archives (\<lambda>f. fst (backups f u)) visited no_filter = Inr es" by blast
  have names: "rq_database sample_request = ''ab''" "rq_job sample_request = ''j''" "rq_at sample_request = 0"
    by (simp_all add: sample_request_def)
  have segments: "safe_segment ''ab'' = ''ab''" "safe_segment ''j'' = ''j''" "c_year (civil_of 0) = 1" by code_simp+
  obtain l where l: "l \<in> set es" "ls_backup l = kept (catalogue_entry r)" "ls_present l" "verification_label l = ''yes, in full''"
    using backed_up_then_listed [OF r(1) shop_wiring_def world u(1) sample_tables_ok shop_indexed(2) [OF r(1,4)] after quiet
        visited(1) es _ _ _ _ _ _ afterwards.now meanwhile.untouched] by (auto simp: names segments)
  have "bk_id (ls_backup l) = ''j''" using l(2) shop_result(1) [OF r(1)] by (simp add: kept_def catalogue_entry_def Let_def)
  then have "list_ex (\<lambda>l. bk_id (ls_backup l) = ''j'' \<and> ls_present l \<and> verification_label l = ''yes, in full'') es"
    unfolding list_ex_iff using l(1,3,4) by blast
  with r(1) u(1) es show ?thesis by (intro exI [of _ r] exI [of _ w'] exI [of _ u] exI [of _ visited] exI [of _ es] conjI)
qed

theorem ready_means_a_backup_can_start_witness:
  "\<exists>resolution. access_resolve mysql_fleet fleet_flags (subject_of shop) ''ab'' = (Inr resolution, Some (mysql_info, mysql_client))
    \<and> watch_of mysql_fleet fleet_flags resolution = Inr (EndMarker new_marker)"
  using ready_means_a_backup_can_start [OF shop_diagnosed, of "''ab''"]
  by (auto simp: healthy_def mysql_info_def split: if_splits)

theorem verification_tells_the_truth_witness:
  "\<exists>u said warning e v. record_in_catalogue None no_refusal (\<lambda>s. s) (unverified_result [''nas'']) shop sample_tables = ([], u)
    \<and> verify_command None no_refusal (\<lambda>s. s) fleet_disk (Inr sample_config) 5 ''j'' u = (((said, warning), Some e), v)
    \<and> said = [] \<and> map_option bk_verified (lookup_backup v ''j'') = Some Failed"
proof -
  obtain t1 where t1: "record_database no_refusal (\<lambda>s. s) (database_snapshot shop) 5 sample_tables = (None, t1)"
    "''ab'' \<in> dr_id ` set (tb_databases t1)" "tb_jobs t1 = []" "tb_backups t1 = []" "tb_copies t1 = []" "tb_faults t1 = []"
    using shop_recorded [of 5] by blast
  obtain u where recorded: "record_backup no_refusal (catalogue_entry (unverified_result [''nas''])) t1 = (None, u)" "tb_faults u = []"
    using entry_recorded [OF t1(2-6), of "unverified_result [''nas'']" "''nas''" no_refusal]
    by (auto simp: written_parts written_facts sample_moments sample_stamp_ok)
  with t1(1) have u: "record_in_catalogue None no_refusal (\<lambda>s. s) (unverified_result [''nas'']) shop sample_tables = ([], u)"
    by (simp add: record_in_catalogue_def written_parts)
  obtain said warning failed v where v:
    "verify_command None no_refusal (\<lambda>s. s) fleet_disk (Inr sample_config) 5 ''j'' u = (((said, warning), failed), v)"
    by (metis prod.collapse)
  have entry: "lookup_backup u ''j'' = Some (kept (catalogue_entry (unverified_result [''nas''])))"
    using indexed_archive(2) [OF u sample_tables_ok written_datable] by (simp add: written_parts)
  let ?b = "kept (catalogue_entry (unverified_result [''nas'']))"
  have wrong: "\<not> copy_matches (\<lambda>s. s) fleet_disk sample_config ?b copy" if "copy \<in> set (bk_locations ?b)" for copy
    using that by (auto simp: kept_def written_parts kept_copy_def copy_matches_def fleet_disk_def fs_read_def sample_config_def
        sample_destination_conf_def one_process_def os_call_def node_at_def)
  have declared: "copies_declared sample_config ?b"
    by (auto simp: copies_declared_def kept_def written_parts kept_copy_def sample_config_def sample_destination_conf_def)
  obtain bs w where listed: "backups no_filter u = (Inr bs, w)" "tb_faults w = []" "lookup_backup w = lookup_backup u"
    using recorded(2) sqlite.listing_keeps by (cases "select_backups no_filter u = []") (auto simp: backups_def with_locations_def db_call_def)
  have "\<exists>x. set_verification no_refusal ''j'' Failed 5 w = (None, x)"
    by (rule concluded_without_faults [OF listed(2)]) (use entry listed(3) in \<open>simp_all add: sample_moments sample_stamp_ok\<close>)
  then have accepted: "catalogue_refuses no_refusal Failed 5 ''j'' u = None"
    by (auto simp: catalogue_refuses_def listed(1))
  have "bk_locations ?b \<noteq> []" using declared by (simp add: copies_declared_def)
  then have "\<not> list_all (copy_matches (\<lambda>s. s) fleet_disk sample_config ?b) (bk_locations ?b)"
    using wrong by (cases "bk_locations ?b") auto
  moreover have "before = []"
    if "first_mismatch (copy_matches (\<lambda>s. s) fleet_disk sample_config ?b) (bk_locations ?b) before copy" for before copy
    using that wrong by (cases before) (auto simp: first_mismatch_def)
  ultimately have "failed \<noteq> None \<and> said = [] \<and> verdict_kept Failed 5 ?b u v"
    using verification_tells_the_truth [OF v indexed_archive(1) [OF u sample_tables_ok written_datable]] entry declared accepted listed(1)
    by (cases failed) (auto, fastforce+)
  moreover have "bk_id ?b = ''j''" using entry by (rule lookup_backup_id)
  ultimately show ?thesis using u v by (auto simp: verdict_kept_def concluded_def)
qed

section \<open>The whole process\<close>

definition shop_config :: config where
  "shop_config = sample_config\<lparr>cg_databases := [shop]\<rparr>"

definition shop_surroundings :: "(unit, unit) surroundings" where
  "shop_surroundings = \<lparr>su_outside = mysql_fleet, su_driver = still_driver, su_codec = plain_codec, su_sha256 = (\<lambda>s. s),
     su_parse_key = Inr, su_elapsed = 1, su_disk = fleet_disk, su_refuse = no_refusal,
     su_reading = sample_reading\<lparr>rd_decode := \<lambda>_. (None, shop_config)\<rparr>\<rparr>"

lemma shop_service:
  "backup_service mysql_fleet fleet_flags plain_codec (\<lambda>s. s) Inr 1 fleet_disk (Inr shop_config) ''ab'' shop_machine
    = (Inr \<lparr>bs_wiring = shop_wiring, bs_declared = shop, bs_destinations = [nas (one_process 7 [])],
        bs_warning = recipients_warning shop_keys\<rparr>, shop_machine)"
proof -
  have found: "targets_of shop_config ''ab'' = Inr [subject_of shop]" "declared_database shop_config ''ab'' = Inr shop"
    by (simp_all add: targets_of_def declared_database_def shop_config_def shop_def Let_def)
  have sent: "destinations_of fleet_disk shop_config shop = Inr [nas (one_process 7 [])]"
    by (simp add: destinations_of_def shop_config_def shop_def sample_configuration nas_def fleet_disk_def)
  have place: "place_of ''/etc/koffr/recipients.txt'' = (True, [''etc'', ''koffr'', ''recipients.txt''])" by code_simp
  have lines: "read_recipients Inr path 1 (scan_lines ''k'') = Inr [''k'']" for path
  proof -
    have "trim_space ''k'' = ''k''" "scan_lines ''k'' = [''k'']" by code_simp+
    then show ?thesis by (simp add: max_line_def has_prefix_def)
  qed
  have "os_read_file (place_of ''/etc/koffr/recipients.txt'') shop_machine = (Inr ''k'', shop_machine)"
    by (simp add: os_read_file_def shop_machine_def place)
  then have keys: "recipients_for Inr shop_config shop shop_machine = (Inr shop_keys, shop_machine)"
    using lines by (simp add: recipients_for_def load_recipients_def shop_config_def shop_def sample_configuration shop_keys_def)
  have "backup_wiring mysql_fleet fleet_flags plain_codec (\<lambda>s. s) 1 shop_config shop (subject_of shop) shop_keys shop_machine = shop_wiring"
    by (simp add: shop_wiring_def backup_wiring_def shop_config_def Let_def)
  with found sent keys show ?thesis by (simp add: backup_service_def)
qed

lemma shop_loaded: "load_resolved (su_reading shop_surroundings) (config_path fleet_flags) = Inr shop_config"
proof -
  have "parse_config (sample_reading\<lparr>rd_decode := \<lambda>_. (None, shop_config)\<rparr>) raw name = Inr shop_config" for raw name
    by (simp add: parse_config_def sample_reading_def resolve_timezone_def check_secret_forms_def secret_fields_def shop_config_def shop_def
        sample_configuration database_field_def destination_fields_def forms_given_def is_set_def check_tools_def)
  moreover have "resolve_secrets env fetch shop_config = (None, shop_config)" for env fetch
    by (simp add: resolve_secrets_def secret_fields_def shop_config_def shop_def sample_configuration database_field_def
        destination_fields_def)
  ultimately show ?thesis
    by (simp add: load_resolved_def load_config_def shop_surroundings_def) (simp add: sample_reading_def)
qed

lemma still_opened:
  assumes "open_catalog still_driver dir (s, sample_books) = (unopened, s1, l1)"
  shows "tables_ok (lg_schema l1)"
proof -
  have "lg_schema l1 = sample_tables"
    using assms by (auto simp: open_catalog_def still_driver_def open_state_def migrate_def lg_call_def sample_books_def
        current_version_def split: prod.splits option.splits)
  then show ?thesis by (simp add: sample_tables_ok)
qed

lemma shop_process:
  obtains shown wl where "backup_process shop_surroundings fleet_flags ''info'' False [] None False sample_request
    (shop_world\<lparr>wo_destinations := []\<rparr>, sample_books) = ((shown, 0), wl)"
proof -
  obtain r w' where r: "run shop_wiring sample_request shop_world = (r, None, w')" using shop_succeeds by blast
  have w: "(on_os shop_machine (shop_world\<lparr>wo_destinations := []\<rparr>))\<lparr>wo_destinations := [nas (one_process 7 [])]\<rparr> = shop_world"
    by (simp add: shop_world_def on_os_def)
  obtain warnings wl where idx: "index_backup shop_surroundings fleet_flags r shop (w', sample_books) = (warnings, wl)"
    by (metis surj_pair)
  have "rq_database sample_request = ''ab''" "wo_os (shop_world\<lparr>wo_destinations := []\<rparr>) = shop_machine"
    by (simp_all add: sample_request_def shop_world_def)
  then obtain shown where "koffr_backup shop_surroundings fleet_flags False sample_request
      (shop_world\<lparr>wo_destinations := []\<rparr>, sample_books) = ((shown, None), wl)"
    using r w idx shop_service shop_loaded by (auto simp: koffr_backup_def shop_surroundings_def Let_def)
  moreover obtain hs where "set_up_logging ''info'' False [] = Inr hs"
  proof -
    have "log_level ''info'' = Inr level_info" by code_simp
    with that show thesis by (simp add: set_up_logging_def Let_def)
  qed
  ultimately have "backup_process shop_surroundings fleet_flags ''info'' False [] None False sample_request
    (shop_world\<lparr>wo_destinations := []\<rparr>, sample_books) = ((shown, 0), wl)"
    by (cases shown) (simp add: backup_process_def root_run_def koffr_main_def)
  then show thesis by (rule that)
qed

theorem exit_zero_is_a_backup_witness:
  "\<exists>shown w' l' archive. backup_process shop_surroundings fleet_flags ''info'' False [] None False sample_request
      (shop_world\<lparr>wo_destinations := []\<rparr>, sample_books) = ((shown, 0), w', l')
    \<and> map ds_id (wo_destinations w') = [''nas''] \<and> (\<forall>x \<in> set (wo_destinations w'). \<exists>path. lies x path (Some archive))"
proof -
  obtain shown w' l' where p: "backup_process shop_surroundings fleet_flags ''info'' False [] None False sample_request
      (shop_world\<lparr>wo_destinations := []\<rparr>, sample_books) = ((shown, 0), w', l')" by (metis shop_process prod.collapse)
  have driver: "\<forall>s unopened s1 l1. open_catalog (su_driver shop_surroundings) (place_of (state_dir fleet_flags)) (s, sample_books)
      = (unopened, s1, l1) \<longrightarrow> tables_ok (lg_schema l1)"
    using still_opened by (simp add: shop_surroundings_def)
  have moments: "writable_instant utc (rq_at sample_request)"
    "writable_instant utc (rq_at sample_request + su_elapsed shop_surroundings)"
    by (simp_all add: sample_request_def shop_surroundings_def sample_moments)
  from exit_zero_is_a_backup [OF p driver moments] obtain c d and r :: job_result and archive where
    parts: "load_resolved (su_reading shop_surroundings) (config_path fleet_flags) = Inr c"
      "declared_database c (rq_database sample_request) = Inr d" "map ds_id (wo_destinations w') = dc_destinations d"
      "\<forall>x \<in> set (wo_destinations w'). lies x (jr_path r) (Some archive) \<and> lies x (jr_path r @ manifest_suffix) (Some (jr_manifest r))"
    by (elim exE conjE) (rule that)
  have "declared_database shop_config (rq_database sample_request) = Inr shop" "dc_destinations shop = [''nas'']"
    by (simp_all add: declared_database_def shop_config_def shop_def sample_database_conf_def sample_request_def)
  with parts p shop_loaded show ?thesis by auto
qed

end
