(* ===== verification/Spec2Isabelle.thy ===== *)
theory Spec2Isabelle
  imports Backup_Others Lock_Race State_Open Store_Conformance Cli_Example
begin

text \<open>
  koffr is a backup agent for PostgreSQL, MySQL and MariaDB. \<open>koffr backup\<close> resolves a dump tool for the
  server, locks the database, streams the dump through zstd and age to the destinations the
  configuration names (through a buffer on disk when it pays), has the structure of the dump watched
  on the way, reads the archive back, compares its checksum, deposits a manifest beside it and
  indexes it in SQLite. \<open>list\<close>, \<open>verify\<close>, \<open>doctor\<close>, \<open>config\<close>, \<open>tools\<close>, \<open>keygen\<close> and \<open>version\<close> stand around it.

  \<^bold>\<open>How the program is represented.\<close> A Go string is a list of bytes. An error is its message with the
  sentinel errors it wraps (\<open>gerr\<close>), a fallible function answers \<open>gerr + 'a\<close>, a function that only fails
  \<open>gerr option\<close>. A struct is a record, an enumeration a datatype, \<open>int64\<close> a word where it can wrap. State is
  passed and returned: \<open>os\<close> is the file system of a machine with the failures its next system calls have
  (an empty list: none fails), \<open>tables\<close> the four tables of the catalogue with the failures of the next
  statements, \<open>world\<close> the machine, the destinations and the journal of a job. What is outside the process
  and the standard library is an argument: the drivers of the databases, the processes, Docker, zstd
  and age, SHA-256, YAML, the zones of time, the source of identifiers. The disk of a destination is not the
  one of the state directory. Where Go walks over a map the order is an argument too (\<open>hs_walk\<close>).

  \<^bold>\<open>The theories.\<close>
  \<^item> \<open>Koffr_Prelude\<close>, \<open>Go_Strings\<close>, \<open>Go_Time\<close>, \<open>Go_JSON\<close>, \<open>Go_OS\<close>, \<open>Go_URL\<close>, \<open>Go_Table\<close>: errors, sorting by an order
    (\<open>strict_order\<close>), and what koffr uses of Go's library. Their lemmas are the laws the components need:
    printing and reading of numbers, stamps and JSON, what a system call changes and what it leaves.
  \<^item> \<open>Archive_Path\<close> (\<open>domain/backup/path.go\<close>), \<open>Staging\<close> and \<open>Staging_Files\<close> (\<open>staging.go\<close>, \<open>staging_file.go\<close>),
    \<open>Lock\<close> and \<open>Lock_Race\<close> (\<open>lock.go\<close>: one process on a file system, then several as a step relation over atomic
    calls), \<open>Store\<close> (\<open>ports.go\<close>, \<open>store/filesystem.go\<close>: the locale \<open>archive_store\<close> and the directory that
    keeps it), \<open>Store_Shelf\<close> and \<open>Store_Conformance\<close> (\<open>store/storetest\<close>: the locale \<open>shelf\<close>, the suite of the
    repository as a function of a store, and the directory as a map from paths to archives).
  \<^item> \<open>Pipeline\<close> (\<open>pipeline\<close>, \<open>domain/crypto\<close>: the locale \<open>packer\<close>), \<open>Resolve\<close> and \<open>Diagnose\<close> (\<open>domain/resolve\<close>: the
    locale \<open>tool_finder\<close>), \<open>Engine_Finder\<close>, \<open>Engine_Probe\<close>, \<open>Engine_Structure\<close>, \<open>Engine_Dump\<close> (\<open>engine\<close>,
    \<open>domain/verify\<close>).
  \<^item> \<open>Catalog\<close>, \<open>Lister\<close> (\<open>domain/catalog\<close>), \<open>State\<close>, \<open>State_Contract\<close> (the locale \<open>catalogue_port\<close>) and \<open>State_Open\<close>
    (\<open>state\<close>), \<open>Config\<close> and \<open>Config_Load\<close> (\<open>config\<close>).
  \<^item> \<open>Backup_Service\<close> (\<open>domain/backup/service.go\<close>, \<open>journal.go\<close>): \<open>plan\<close> and \<open>run\<close> over the ports of \<open>wiring\<close>, step by
    step. \<open>Backup_Steps\<close>, \<open>Backup_Safety\<close>, \<open>Backup_Archive\<close>, \<open>Backup_Failure\<close> hold what a run promises,
    \<open>Backup_Ready\<close> and \<open>Backup_Success\<close> when it succeeds, \<open>Backup_Others\<close> what later jobs leave of it.
  \<^item> \<open>Cli_Wiring\<close> (how a command builds the ports out of a configuration), \<open>Cli_Backup\<close>, \<open>Cli_List\<close>, \<open>Cli_Verify\<close>,
    \<open>Cli_Doctor\<close>, \<open>Obs_Egress\<close> (log, gate of messages, keys, version) and \<open>Cli_Main\<close> (root command, catalogue of a
    command, exit) model \<open>internal/cli\<close>, \<open>internal/obs\<close>, \<open>internal/egress\<close> and \<open>cmd/koffr\<close>. \<open>Cli_Process\<close>
    is \<open>koffr backup\<close> from the configuration to the exit code; \<open>Cli_Whole\<close> and \<open>Cli_Listed\<close> compose a backup with
    \<open>verify\<close> and \<open>list\<close>; \<open>Cli_Example\<close> is a fleet on concrete values.

  \<^bold>\<open>What is shown.\<close>
  \<^item> Of a job: a run that reports success left the whole archive and its manifest on every destination,
    was watched, read back and hashed, was dumped by a process that ended well, and its manifest is of
    exactly that result; a run that fails carries no manifest, leaves neither lock nor buffer, has done
    a prefix of the seven steps and journalled where it stopped; a plan predicts the run; with all it
    needs a run succeeds, staged or streamed and on any number of destinations, also over the lock and
    the buffers of a job that was killed; and the archive of a run that succeeded is on every
    destination after any sequence of later jobs, whatever becomes of them.
  \<^item> Of the parts: a write is whole or absent; a directory answers like a map and passes the suite; a
    lock refuses a second job, one process holds it as long as two gaps of \<open>Acquire\<close> are respected, and through
    either gap alone two can; a purge removes exactly the abandoned buffers; a tool is the closest one the matrix
    calls compatible; a PostgreSQL dump is sound exactly when its contents were listed; the catalogue
    refines a map and keeps its schema along every use; migrations are applied once and in order;
    a manifest and a name are read back; a staged backup fits the disk.
  \<^item> Of what an operator is told: exit code 0 of \<open>koffr backup\<close> means an archive and a manifest on every
    destination, indexed or said not to be; a listing is complete, line by line, and calls nothing verified that is not recorded
    so, a verification tells the truth of the copies and tells the catalogue the same, doctor is right about what a
    backup can start with, but for a \<open>pg_restore\<close> it does not start or, for a container, does not look for,
    the log and the display of a configuration depend on no secret; what a command wrote and indexed is
    verified by another and listed in full, whatever other jobs and commands did meanwhile; and a listing removes the buffer of a job that runs.

  \<^bold>\<open>Bounds.\<close> \<open>parse_json\<close> has fuel for two calls to each byte of its input, shown enough for every document koffr writes.
  \<open>os_create_temp\<close> looks through one name more than there are files, so one is free. \<open>exit_code\<close> is a
  partial function, shown to return within a hundred questions, before its deadline. \<open>take_lock\<close> tries twice, as the code does. The other loops recurse on their data or have a measure.

  \<^bold>\<open>Not modelled.\<close> The parsing of arguments (cobra), the SQL of a statement beyond its effect on the tables, the
  rotation of the log (lumberjack), the formats of zstd and age, the packages that only hold a comment
  (\<open>domain/restore\<close>, \<open>retention\<close>, \<open>schedule\<close>, \<open>httpd\<close>, \<open>protocol\<close>), the tests, contexts that are cancelled from
  outside but for the deadlines the code sets itself, and a directory that goes away while \<open>List\<close> walks it. The
  foreign keys of the catalogue hold without the pragma that asks for them, years are not negative where they are
  padded, and of two tools alike in version and provenance the first one found is chosen; no property depends on it.
\<close>

end
